(* ===== verification/Prelude.thy ===== *)
theory Prelude
  imports Main "HOL-Library.Word"
begin

text \<open>
  What every component shares: the C integer widths, the outcome of running a piece of C
  (a value and the next state, a fault, or no return at all), the command type with its
  sequencing, a total-correctness predicate \<open>wp\<close>, and the generic list and word lemmas.

  A command is a function from a state to \<open>None\<close> (it never returns), to
  \<open>Some (Fault f)\<close> (it runs into undefined behaviour or a crash: a bad pointer, an access past
  the end of an object, a call through a null function pointer, a division by zero) or to
  \<open>Some (Ret a t)\<close> (it returns \<open>a\<close> in the state \<open>t\<close>). An error code of the library
  (\<open>sx127x_err_t\<close>) is an ordinary returned value, as it is in the code.
\<close>

section \<open>Machine integers\<close>

type_synonym u8 = "8 word"
type_synonym u16 = "16 word"
type_synonym u32 = "32 word"
type_synonym u64 = "64 word"

named_theorems cmd_simps "equations that run commands"
named_theorems wp_simps "equations that compute the total-correctness predicate"

text \<open>Byte offsets stay numerals under simplification.\<close>

declare add_2_eq_Suc [simp del]
declare add_2_eq_Suc' [simp del]

section \<open>Outcomes and commands\<close>

datatype fault =
    Bad_Pointer
  | Out_Of_Bounds
  | Bad_Free
  | Null_Call
  | Div_By_Zero
  | Bad_Conversion
  | Signed_Overflow
  | Aborted

datatype ('a, 's) outcome = Ret 'a 's | Fault fault

type_synonym ('s, 'a) cmd = "'s \<Rightarrow> ('a, 's) outcome option"

definition give :: "'a \<Rightarrow> ('s, 'a) cmd" where
  "give a = (\<lambda>s. Some (Ret a s))"

definition crash :: "fault \<Rightarrow> ('s, 'a) cmd" where
  "crash f = (\<lambda>s. Some (Fault f))"

definition andThen :: "('s, 'a) cmd \<Rightarrow> ('a \<Rightarrow> ('s, 'b) cmd) \<Rightarrow> ('s, 'b) cmd" where
  "andThen m k = (\<lambda>s. case m s of
       None \<Rightarrow> None
     | Some (Fault f) \<Rightarrow> Some (Fault f)
     | Some (Ret a t) \<Rightarrow> k a t)"

definition gets :: "('s \<Rightarrow> 'a) \<Rightarrow> ('s, 'a) cmd" where
  "gets f = (\<lambda>s. Some (Ret (f s) s))"

definition modify :: "('s \<Rightarrow> 's) \<Rightarrow> ('s, unit) cmd" where
  "modify f = (\<lambda>s. Some (Ret () (f s)))"

lemma give_apply [simp, cmd_simps]: "give a s = Some (Ret a s)"
  by (simp add: give_def)

lemma crash_apply [simp, cmd_simps]: "crash f s = Some (Fault f)"
  by (simp add: crash_def)

lemma gets_apply [simp, cmd_simps]: "gets f s = Some (Ret (f s) s)"
  by (simp add: gets_def)

lemma modify_apply [simp, cmd_simps]: "modify f s = Some (Ret () (f s))"
  by (simp add: modify_def)

lemma andThen_Ret [simp, cmd_simps]: "m s = Some (Ret a t) \<Longrightarrow> andThen m k s = k a t"
  by (simp add: andThen_def)

lemma andThen_Fault [simp, cmd_simps]: "m s = Some (Fault f) \<Longrightarrow> andThen m k s = Some (Fault f)"
  by (simp add: andThen_def)

lemma andThen_None [simp, cmd_simps]: "m s = None \<Longrightarrow> andThen m k s = None"
  by (simp add: andThen_def)

lemma andThen_give [simp]: "andThen (give a) k = k a"
  by (simp add: fun_eq_iff)

lemma andThen_assoc: "andThen (andThen m f) g = andThen m (\<lambda>a. andThen (f a) g)"
  by (simp add: fun_eq_iff andThen_def split: option.splits outcome.splits)

lemma andThen_eq_Ret:
  "andThen m k s = Some (Ret b u) \<longleftrightarrow> (\<exists>a t. m s = Some (Ret a t) \<and> k a t = Some (Ret b u))"
  by (auto simp: andThen_def split: option.splits outcome.splits)

text \<open>A loop body may call the loop again anywhere under \<open>andThen\<close>.\<close>

lemma andThen_mono [partial_function_mono]:
  assumes "mono_option (\<lambda>f. m f s)" and "\<And>a t. mono_option (\<lambda>f. k f a t)"
  shows "mono_option (\<lambda>f. andThen (m f) (k f) s)"
proof -
  have "mono_option (\<lambda>f. Option.bind (m f s)
      (\<lambda>r. case r of Fault e \<Rightarrow> Some (Fault e) | Ret a t \<Rightarrow> k f a t))"
  proof (rule bind_mono [OF assms(1)])
    fix r
    show "mono_option (\<lambda>f. case r of Fault e \<Rightarrow> Some (Fault e) | Ret a t \<Rightarrow> k f a t)"
      using assms(2) by (cases r) (simp_all add: option.const_mono)
  qed
  moreover have "(\<lambda>f. andThen (m f) (k f) s) = (\<lambda>f. Option.bind (m f s)
      (\<lambda>r. case r of Fault e \<Rightarrow> Some (Fault e) | Ret a t \<Rightarrow> k f a t))"
    by (auto simp: andThen_def fun_eq_iff split: option.split outcome.split)
  ultimately show ?thesis by simp
qed

lemma if_apply_mono [partial_function_mono]:
  assumes "mono_option (\<lambda>f. m f s)" and "mono_option (\<lambda>f. n f s)"
  shows "mono_option (\<lambda>f. (if b then m f else n f) s)"
  using assms by (cases b) simp_all

lemma case_prod_apply_mono [partial_function_mono]:
  assumes "\<And>x y. mono_option (\<lambda>f. m f x y s)"
  shows "mono_option (\<lambda>f. (case p of (x, y) \<Rightarrow> m f x y) s)"
  using assms by (cases p) simp

section \<open>Total correctness\<close>

text \<open>\<open>wp m Q s\<close>: from \<open>s\<close> the command returns, without a fault, and the result satisfies \<open>Q\<close>.\<close>

definition wp :: "('s, 'a) cmd \<Rightarrow> ('a \<Rightarrow> 's \<Rightarrow> bool) \<Rightarrow> 's \<Rightarrow> bool" where
  "wp m Q s = (case m s of None \<Rightarrow> False | Some (Fault f) \<Rightarrow> False | Some (Ret a t) \<Rightarrow> Q a t)"

lemma wp_iff: "wp m Q s \<longleftrightarrow> (\<exists>a t. m s = Some (Ret a t) \<and> Q a t)"
  by (simp add: wp_def split: option.splits outcome.splits)

lemma wp_Ret: "m s = Some (Ret a t) \<Longrightarrow> wp m Q s = Q a t"
  by (simp add: wp_def)

lemma wp_give [simp, wp_simps]: "wp (give a) Q s = Q a s"
  by (simp add: wp_def)

lemma wp_crash [simp, wp_simps]: "wp (crash f) Q s = False"
  by (simp add: wp_def)

lemma wp_gets [simp, wp_simps]: "wp (gets f) Q s = Q (f s) s"
  by (simp add: wp_def)

lemma wp_modify [simp, wp_simps]: "wp (modify f) Q s = Q () (f s)"
  by (simp add: wp_def)

lemma wp_andThen [simp, wp_simps]: "wp (andThen m k) Q s = wp m (\<lambda>a t. wp (k a) Q t) s"
  by (simp add: wp_def andThen_def split: option.splits outcome.splits)

lemma wp_if [simp, wp_simps]:
  "wp (if b then m else n) Q s = (if b then wp m Q s else wp n Q s)"
  by simp

lemma wp_mono: "wp m Q s \<Longrightarrow> (\<And>a t. Q a t \<Longrightarrow> R a t) \<Longrightarrow> wp m R s"
  by (auto simp: wp_iff)

lemma wp_conj: "wp m Q s \<Longrightarrow> wp m R s \<Longrightarrow> wp m (\<lambda>a t. Q a t \<and> R a t) s"
  by (auto simp: wp_iff)

section \<open>Buffers that are plain values\<close>

text \<open>
  A static or stack array of the code is a list of its current contents; the command that writes
  to it returns the new contents. An access past the end faults. A copy of no bytes touches
  nothing.
\<close>

definition buf_read :: "u8 list \<Rightarrow> nat \<Rightarrow> nat \<Rightarrow> ('s, u8 list) cmd" where
  "buf_read buf off n =
     (if n = 0 then give []
      else if off + n \<le> length buf then give (take n (drop off buf))
      else crash Out_Of_Bounds)"

definition overlay :: "'a list \<Rightarrow> nat \<Rightarrow> 'a list \<Rightarrow> 'a list" where
  "overlay buf off xs = take off buf @ xs @ drop (off + length xs) buf"

definition buf_write :: "u8 list \<Rightarrow> nat \<Rightarrow> u8 list \<Rightarrow> ('s, u8 list) cmd" where
  "buf_write buf off xs =
     (if xs = [] then give buf
      else if off + length xs \<le> length buf then give (overlay buf off xs)
      else crash Out_Of_Bounds)"

lemma length_overlay [simp]:
  "off + length xs \<le> length buf \<Longrightarrow> length (overlay buf off xs) = length buf"
  by (simp add: overlay_def)

lemma overlay_Nil [simp]: "overlay buf off [] = buf"
  by (simp add: overlay_def)

lemma overlay_overlay_adjacent:
  "off + length xs \<le> length buf \<Longrightarrow> m = off + length xs \<Longrightarrow>
   overlay (overlay buf off xs) m ys = overlay buf off (xs @ ys)"
  by (simp add: overlay_def add.commute add.left_commute)

lemma take_overlay_0: "length xs \<le> length buf \<Longrightarrow> take (length xs) (overlay buf 0 xs) = xs"
  by (simp add: overlay_def)

lemma buf_write_fits:
  "off + length xs \<le> length buf \<Longrightarrow> buf_write buf off xs = give (overlay buf off xs)"
  by (simp add: buf_write_def)

lemma buf_read_fits:
  "off + n \<le> length buf \<Longrightarrow> buf_read buf off n = give (take n (drop off buf))"
  by (simp add: buf_read_def)

section \<open>Words\<close>

lemma unat_u8_less [simp]: "unat (w :: u8) < 256"
  using unsigned_less [of w] by simp

lemma unat_u8_le [simp]: "unat (w :: u8) \<le> 255"
  using unat_u8_less [of w] by linarith

lemma unat_u16_less [simp]: "unat (w :: u16) < 65536"
  using unsigned_less [of w] by simp

lemma unat_of_nat_u8 [simp]: "n < 256 \<Longrightarrow> unat (of_nat n :: u8) = n"
  by (simp add: unsigned_of_nat take_bit_eq_mod)

lemma of_nat_unat_u8 [simp]: "of_nat (unat (w :: u8)) = w"
  by simp

lemma unat_eq_0_iff: "unat (w :: 'a::len word) = 0 \<longleftrightarrow> w = 0"
  by (simp add: unat_eq_zero)

end
