(* ===== verification/C_Heap.thy ===== *)
theory C_Heap
  imports Prelude
begin

text \<open>
  The heap of the C program: what \<open>malloc\<close>, \<open>realloc\<close>, \<open>free\<close>, \<open>memcpy\<close> and \<open>memmove\<close> do to the
  three kinds of object the library allocates: byte buffers, \<open>packet\<close> structs and arrays of packet
  pointers. An address is a natural number and 0 is the null pointer. Addresses are handed out
  once, so a pointer to a freed object stays invalid for ever.

  Whether the allocation that would get address \<open>a\<close> succeeds is \<open>alloc_ok s a\<close>, and what a new object
  holds before it is written is given by \<open>junk s a\<close>. Both are arbitrary functions of the state that
  no command writes, so a theorem about every state covers every allocator and every initial content.
\<close>

section \<open>Objects and memory\<close>

text \<open>The struct \<open>packet\<close> of \<open>include/packet.h\<close>; the payload is a pointer.\<close>

record packet =
  dest_address :: u16
  src_address :: u16
  ack_id :: u8
  sequence_number :: u8
  payload_length :: u8
  payload :: nat

datatype block =
    Bytes "u8 list"
  | Pkt packet
  | Ptrs "nat list"

record cmem =
  blocks :: "nat \<Rightarrow> block option"
  fresh :: nat
  alloc_ok :: "nat \<Rightarrow> bool"
  junk :: "nat \<Rightarrow> nat \<Rightarrow> nat"

abbreviation (input) NULL :: nat where
  "NULL \<equiv> 0"

definition junk_bytes :: "(nat \<Rightarrow> nat) \<Rightarrow> nat \<Rightarrow> u8 list" where
  "junk_bytes j n = map (\<lambda>i. of_nat (j i)) [0..<n]"

definition junk_packet :: "(nat \<Rightarrow> nat) \<Rightarrow> packet" where
  "junk_packet j =
     \<lparr>dest_address = of_nat (j 0), src_address = of_nat (j 1), ack_id = of_nat (j 2),
      sequence_number = of_nat (j 3), payload_length = of_nat (j 4), payload = j 5\<rparr>"

section \<open>Allocation\<close>

definition alloc :: "((nat \<Rightarrow> nat) \<Rightarrow> block) \<Rightarrow> ('z cmem_scheme, nat) cmd" where
  "alloc mk = (\<lambda>s. let a = fresh s in
     if alloc_ok s a
     then Some (Ret a (s\<lparr>blocks := (blocks s)(a \<mapsto> mk (junk s a)), fresh := Suc a\<rparr>))
     else Some (Ret NULL (s\<lparr>fresh := Suc a\<rparr>)))"

definition malloc_bytes :: "nat \<Rightarrow> ('z cmem_scheme, nat) cmd" where
  "malloc_bytes n = alloc (\<lambda>j. Bytes (junk_bytes j n))"

definition malloc_packet :: "('z cmem_scheme, nat) cmd" where
  "malloc_packet = alloc (\<lambda>j. Pkt (junk_packet j))"

definition malloc_ptrs :: "nat \<Rightarrow> ('z cmem_scheme, nat) cmd" where
  "malloc_ptrs n = alloc (\<lambda>j. Ptrs (map j [0..<n]))"

text \<open>\<open>free(NULL)\<close> does nothing; freeing anything but a live object is undefined.\<close>

definition c_free :: "nat \<Rightarrow> ('z cmem_scheme, unit) cmd" where
  "c_free p = (\<lambda>s.
     if p = NULL then Some (Ret () s)
     else case blocks s p of
       None \<Rightarrow> Some (Fault Bad_Free)
     | Some b \<Rightarrow> Some (Ret () (s\<lparr>blocks := (blocks s)(p := None)\<rparr>)))"

section \<open>Access\<close>

definition load_packet :: "nat \<Rightarrow> ('z cmem_scheme, packet) cmd" where
  "load_packet p = (\<lambda>s. case blocks s p of
       Some (Pkt k) \<Rightarrow> Some (Ret k s)
     | _ \<Rightarrow> Some (Fault Bad_Pointer))"

definition store_packet :: "nat \<Rightarrow> (packet \<Rightarrow> packet) \<Rightarrow> ('z cmem_scheme, unit) cmd" where
  "store_packet p f = (\<lambda>s. case blocks s p of
       Some (Pkt k) \<Rightarrow> Some (Ret () (s\<lparr>blocks := (blocks s)(p \<mapsto> Pkt (f k))\<rparr>))
     | _ \<Rightarrow> Some (Fault Bad_Pointer))"

text \<open>The two halves of a \<open>memcpy\<close> from or to a heap buffer; no bytes, no access.\<close>

definition read_bytes :: "nat \<Rightarrow> nat \<Rightarrow> ('z cmem_scheme, u8 list) cmd" where
  "read_bytes p n = (\<lambda>s.
     if n = 0 then Some (Ret [] s)
     else case blocks s p of
       Some (Bytes bs) \<Rightarrow>
         (if n \<le> length bs then Some (Ret (take n bs) s) else Some (Fault Out_Of_Bounds))
     | _ \<Rightarrow> Some (Fault Bad_Pointer))"

definition write_bytes :: "nat \<Rightarrow> nat \<Rightarrow> u8 list \<Rightarrow> ('z cmem_scheme, unit) cmd" where
  "write_bytes p off xs = (\<lambda>s.
     if xs = [] then Some (Ret () s)
     else case blocks s p of
       Some (Bytes bs) \<Rightarrow>
         (if off + length xs \<le> length bs
          then Some (Ret () (s\<lparr>blocks := (blocks s)(p \<mapsto> Bytes (overlay bs off xs))\<rparr>))
          else Some (Fault Out_Of_Bounds))
     | _ \<Rightarrow> Some (Fault Bad_Pointer))"

definition load_ptrs :: "nat \<Rightarrow> ('z cmem_scheme, nat list) cmd" where
  "load_ptrs p = (\<lambda>s. case blocks s p of
       Some (Ptrs xs) \<Rightarrow> Some (Ret xs s)
     | _ \<Rightarrow> Some (Fault Bad_Pointer))"

definition store_ptrs :: "nat \<Rightarrow> nat \<Rightarrow> nat list \<Rightarrow> ('z cmem_scheme, unit) cmd" where
  "store_ptrs p i xs = (\<lambda>s.
     if xs = [] then Some (Ret () s)
     else case blocks s p of
       Some (Ptrs ys) \<Rightarrow>
         (if i + length xs \<le> length ys
          then Some (Ret () (s\<lparr>blocks := (blocks s)(p \<mapsto> Ptrs (overlay ys i xs))\<rparr>))
          else Some (Fault Out_Of_Bounds))
     | _ \<Rightarrow> Some (Fault Bad_Pointer))"

text \<open>
  \<open>realloc\<close> of a pointer array to \<open>n\<close> entries: on failure it returns null and leaves the old
  object alone; on success the old entries move to the new object and the old one is gone.
\<close>

definition realloc_ptrs :: "nat \<Rightarrow> nat \<Rightarrow> ('z cmem_scheme, nat) cmd" where
  "realloc_ptrs p n = (\<lambda>s. let a = fresh s in
     case blocks s p of
       Some (Ptrs ys) \<Rightarrow>
         (if alloc_ok s a
          then Some (Ret a (s\<lparr>blocks := (blocks s)(p := None,
                 a \<mapsto> Ptrs (take n ys @ map (junk s a) [length ys..<n])), fresh := Suc a\<rparr>))
          else Some (Ret NULL (s\<lparr>fresh := Suc a\<rparr>)))
     | _ \<Rightarrow> Some (Fault Bad_Free))"

text \<open>States are compared with the heap written before the address counter.\<close>

lemma cmem_update_swap [simp]:
  "s\<lparr>fresh := a, blocks := b\<rparr> = s\<lparr>blocks := b, fresh := a\<rparr>"
  by simp

section \<open>Well-formed memory, framing\<close>

definition mem_ok :: "'z cmem_scheme \<Rightarrow> bool" where
  "mem_ok s \<longleftrightarrow> 0 < fresh s \<and> blocks s NULL = None \<and> (\<forall>p \<ge> fresh s. blocks s p = None)"

definition alloc_never_fails :: "'z cmem_scheme \<Rightarrow> bool" where
  "alloc_never_fails s \<longleftrightarrow> (\<forall>a. alloc_ok s a)"

text \<open>\<open>keeps A s t\<close>: from \<open>s\<close> to \<open>t\<close> no object outside \<open>A\<close> that existed, or could no longer be
  handed out, has changed, and nothing but the heap has changed.\<close>

definition keeps :: "nat set \<Rightarrow> 'z cmem_scheme \<Rightarrow> 'z cmem_scheme \<Rightarrow> bool" where
  "keeps A s t \<longleftrightarrow>
     t = s\<lparr>blocks := blocks t, fresh := fresh t\<rparr> \<and> fresh s \<le> fresh t \<and>
     (\<forall>p < fresh s. p \<notin> A \<longrightarrow> blocks t p = blocks s p)"

lemma keeps_refl [simp]: "keeps A s s"
  by (simp add: keeps_def)

lemma keeps_trans: "keeps A s t \<Longrightarrow> keeps B t u \<Longrightarrow> B \<inter> {..<fresh s} \<subseteq> A \<Longrightarrow> keeps A s u"
  unfolding keeps_def
  by (metis (no_types, lifting) IntI cmem.surjective cmem.update_convs(1,2) lessThan_iff
      order.trans order_less_le_trans subsetD)

lemma keeps_mono: "keeps A s t \<Longrightarrow> A \<subseteq> B \<Longrightarrow> keeps B s t"
  by (auto simp: keeps_def)

lemma keeps_fresh_le: "keeps A s t \<Longrightarrow> fresh s \<le> fresh t"
  by (simp add: keeps_def)

lemma keeps_block: "keeps A s t \<Longrightarrow> p < fresh s \<Longrightarrow> p \<notin> A \<Longrightarrow> blocks t p = blocks s p"
  by (simp add: keeps_def)

lemma keeps_alloc_ok: "keeps A s t \<Longrightarrow> alloc_ok t = alloc_ok s"
  unfolding keeps_def by (metis cmem.select_convs(3) cmem.surjective cmem.update_convs(1,2))

lemma keeps_never_fails: "keeps A s t \<Longrightarrow> alloc_never_fails s \<Longrightarrow> alloc_never_fails t"
  by (simp add: alloc_never_fails_def keeps_alloc_ok)

text \<open>The same for the heap only: the rest of the state (the device, a console) may have changed.\<close>

definition heap_keeps :: "nat set \<Rightarrow> 'z cmem_scheme \<Rightarrow> 'z cmem_scheme \<Rightarrow> bool" where
  "heap_keeps A s t \<longleftrightarrow> fresh s \<le> fresh t \<and> alloc_ok t = alloc_ok s \<and>
     (\<forall>p < fresh s. p \<notin> A \<longrightarrow> blocks t p = blocks s p)"

lemma keeps_heap: "keeps A s t \<Longrightarrow> heap_keeps A s t"
  by (simp add: heap_keeps_def keeps_alloc_ok) (simp add: keeps_def)

lemma heap_keeps_refl [simp]: "heap_keeps A s s"
  by (simp add: heap_keeps_def)

lemma heap_keeps_trans:
  "heap_keeps A s t \<Longrightarrow> heap_keeps B t u \<Longrightarrow> B \<inter> {..<fresh s} \<subseteq> A \<Longrightarrow> heap_keeps A s u"
  unfolding heap_keeps_def
  by (metis IntI lessThan_iff order.trans order_less_le_trans subsetD)

lemma heap_keeps_mono: "heap_keeps A s t \<Longrightarrow> A \<subseteq> B \<Longrightarrow> heap_keeps B s t"
  by (auto simp: heap_keeps_def)

lemma heap_keeps_block: "heap_keeps A s t \<Longrightarrow> p < fresh s \<Longrightarrow> p \<notin> A \<Longrightarrow> blocks t p = blocks s p"
  by (simp add: heap_keeps_def)

lemma heap_keeps_fresh_le: "heap_keeps A s t \<Longrightarrow> fresh s \<le> fresh t"
  by (simp add: heap_keeps_def)

lemma heap_keeps_never_fails: "heap_keeps A s t \<Longrightarrow> alloc_never_fails s \<Longrightarrow> alloc_never_fails t"
  by (simp add: alloc_never_fails_def heap_keeps_def)

lemma mem_ok_Some_less: "mem_ok s \<Longrightarrow> blocks s p = Some b \<Longrightarrow> 0 < p \<and> p < fresh s"
  unfolding mem_ok_def by (metis gr0I linorder_not_le option.distinct(1))

lemma mem_ok_fresh [simp]: "mem_ok s \<Longrightarrow> blocks s (fresh s) = None"
  by (simp add: mem_ok_def)

lemma mem_ok_NULL [simp]: "mem_ok s \<Longrightarrow> blocks s NULL = None"
  by (simp add: mem_ok_def)

lemma mem_ok_fresh_pos: "mem_ok s \<Longrightarrow> 0 < fresh s"
  by (simp add: mem_ok_def)

section \<open>Running the heap commands\<close>

lemma malloc_packet_run [cmd_simps]:
  "alloc_ok s (fresh s) \<Longrightarrow> malloc_packet s = Some (Ret (fresh s)
     (s\<lparr>blocks := (blocks s)(fresh s \<mapsto> Pkt (junk_packet (junk s (fresh s)))), fresh := Suc (fresh s)\<rparr>))"
  by (simp add: Let_def malloc_packet_def alloc_def)

lemma malloc_bytes_run [cmd_simps]:
  "alloc_ok s (fresh s) \<Longrightarrow> malloc_bytes n s = Some (Ret (fresh s)
     (s\<lparr>blocks := (blocks s)(fresh s \<mapsto> Bytes (junk_bytes (junk s (fresh s)) n)), fresh := Suc (fresh s)\<rparr>))"
  by (simp add: Let_def malloc_bytes_def alloc_def)

lemma malloc_ptrs_run [cmd_simps]:
  "alloc_ok s (fresh s) \<Longrightarrow> malloc_ptrs n s = Some (Ret (fresh s)
     (s\<lparr>blocks := (blocks s)(fresh s \<mapsto> Ptrs (map (junk s (fresh s)) [0..<n])), fresh := Suc (fresh s)\<rparr>))"
  by (simp add: Let_def malloc_ptrs_def alloc_def)

lemma alloc_fails_run:
  "\<not> alloc_ok s (fresh s) \<Longrightarrow> alloc mk s = Some (Ret NULL (s\<lparr>fresh := Suc (fresh s)\<rparr>))"
  by (simp add: alloc_def Let_def)

lemma c_free_run [cmd_simps]:
  "blocks s p = Some b \<Longrightarrow> p \<noteq> NULL \<Longrightarrow> c_free p s = Some (Ret () (s\<lparr>blocks := (blocks s)(p := None)\<rparr>))"
  by (simp add: c_free_def)

lemma c_free_NULL [cmd_simps, simp]: "c_free NULL s = Some (Ret () s)"
  by (simp add: c_free_def)

lemma load_packet_run [cmd_simps]: "blocks s p = Some (Pkt k) \<Longrightarrow> load_packet p s = Some (Ret k s)"
  by (simp add: load_packet_def)

lemma store_packet_run [cmd_simps]:
  "blocks s p = Some (Pkt k) \<Longrightarrow>
   store_packet p f s = Some (Ret () (s\<lparr>blocks := (blocks s)(p \<mapsto> Pkt (f k))\<rparr>))"
  by (simp add: store_packet_def)

lemma read_bytes_0 [cmd_simps, simp]: "read_bytes p 0 s = Some (Ret [] s)"
  by (simp add: read_bytes_def)

lemma read_bytes_run [cmd_simps]:
  "blocks s p = Some (Bytes bs) \<Longrightarrow> n \<le> length bs \<Longrightarrow> read_bytes p n s = Some (Ret (take n bs) s)"
  by (simp add: read_bytes_def)

lemma read_bytes_Ret_iff:
  "read_bytes p n s = Some (Ret xs t) \<longleftrightarrow> t = s \<and>
     (n = 0 \<and> xs = [] \<or>
      (\<exists>bs. 0 < n \<and> blocks s p = Some (Bytes bs) \<and> n \<le> length bs \<and> xs = take n bs))"
  by (auto simp: read_bytes_def split: option.splits block.splits if_splits)

lemma read_bytes_state: "read_bytes p n s = Some (Ret xs t) \<Longrightarrow> t = s"
  by (simp add: read_bytes_Ret_iff)

lemma read_bytes_cong:
  "blocks t p = blocks s p \<or> n = 0 \<Longrightarrow>
   read_bytes p n s = Some (Ret xs s) \<Longrightarrow> read_bytes p n t = Some (Ret xs t)"
  by (auto simp: read_bytes_Ret_iff)

lemma write_bytes_Nil [cmd_simps, simp]: "write_bytes p off [] s = Some (Ret () s)"
  by (simp add: write_bytes_def)

lemma write_bytes_run [cmd_simps]:
  "blocks s p = Some (Bytes bs) \<Longrightarrow> off + length xs \<le> length bs \<Longrightarrow>
   write_bytes p off xs s = Some (Ret () (s\<lparr>blocks := (blocks s)(p \<mapsto> Bytes (overlay bs off xs))\<rparr>))"
  by (auto simp: write_bytes_def fun_upd_idem)

lemma write_bytes_overflow:
  "blocks s p = Some (Bytes bs) \<Longrightarrow> length bs < off + length xs \<Longrightarrow> xs \<noteq> [] \<Longrightarrow>
   write_bytes p off xs s = Some (Fault Out_Of_Bounds)"
  by (simp add: write_bytes_def)

lemma load_ptrs_run [cmd_simps]: "blocks s p = Some (Ptrs xs) \<Longrightarrow> load_ptrs p s = Some (Ret xs s)"
  by (simp add: load_ptrs_def)

lemma store_ptrs_run [cmd_simps]:
  "blocks s p = Some (Ptrs ys) \<Longrightarrow> i + length xs \<le> length ys \<Longrightarrow>
   store_ptrs p i xs s = Some (Ret () (s\<lparr>blocks := (blocks s)(p \<mapsto> Ptrs (overlay ys i xs))\<rparr>))"
  by (auto simp: store_ptrs_def fun_upd_idem)

lemma realloc_ptrs_run [cmd_simps]:
  "blocks s p = Some (Ptrs ys) \<Longrightarrow> alloc_ok s (fresh s) \<Longrightarrow>
   realloc_ptrs p n s = Some (Ret (fresh s) (s\<lparr>blocks := (blocks s)(p := None,
      fresh s \<mapsto> Ptrs (take n ys @ map (junk s (fresh s)) [length ys..<n])), fresh := Suc (fresh s)\<rparr>))"
  by (simp add: Let_def realloc_ptrs_def)

lemma length_junk_bytes [simp]: "length (junk_bytes j n) = n"
  by (simp add: junk_bytes_def)

lemma never_failsD [simp]: "alloc_never_fails s \<Longrightarrow> alloc_ok s a"
  by (simp add: alloc_never_fails_def)

lemma never_fails_update [simp]:
  "alloc_never_fails (s\<lparr>blocks := b\<rparr>) = alloc_never_fails s"
  "alloc_never_fails (s\<lparr>fresh := n\<rparr>) = alloc_never_fails s"
  by (simp_all add: alloc_never_fails_def)

end
