(* ===== verification/Spi_Port.thy ===== *)
theory Spi_Port
  imports Prelude
begin

text \<open>
  \<open>src/spi_port.c\<close> and \<open>include/sx127x_err.h\<close>: the port through which the library reaches the chip's
  registers. The register writer and reader are supplied by the application and act on the outside
  world, a type parameter; they get the handle, the register, the bytes (or the number of bytes
  wanted) and answer with an error code. What the reader stores goes to the front of the caller's
  buffer; storing more than the buffer holds is an access out of bounds.
\<close>

datatype sx127x_err_t =
    SX_OK
  | SX_TIMEOUT
  | SX_INVALID_STATE
  | SX_INVALID_ARGUMENT
  | SX_INVALID_CRC
  | SX_UNIT_UNITIALIZED
  | SX_INVALID_RESPONSE
  | SX_NO_MEM

type_synonym 'w spi_register_writer_t = "nat \<Rightarrow> u8 \<Rightarrow> u8 list \<Rightarrow> int \<Rightarrow> 'w \<Rightarrow> sx127x_err_t \<times> 'w"
type_synonym 'w spi_register_reader_t = "nat \<Rightarrow> u8 \<Rightarrow> int \<Rightarrow> 'w \<Rightarrow> (sx127x_err_t \<times> u8 list) \<times> 'w"

record 'w spi_port_t =
  writer :: "'w spi_register_writer_t option"
  reader :: "'w spi_register_reader_t option"
  spi_handle :: nat
  initialized :: bool

definition spi_port_init ::
  "'w spi_register_writer_t option \<Rightarrow> 'w spi_register_reader_t option \<Rightarrow> nat
    \<Rightarrow> sx127x_err_t \<times> 'w spi_port_t" where
  "spi_port_init w r handle =
     (SX_OK, \<lparr>writer = w, reader = r, spi_handle = handle, initialized = True\<rparr>)"

text \<open>The struct in static storage, before it is initialised.\<close>

definition zero_port :: "'w spi_port_t" where
  "zero_port = \<lparr>writer = None, reader = None, spi_handle = 0, initialized = False\<rparr>"

definition spi_burst_write_reg ::
  "'w spi_port_t \<Rightarrow> u8 \<Rightarrow> u8 list \<Rightarrow> int \<Rightarrow> ('w, sx127x_err_t) cmd" where
  "spi_burst_write_reg port reg data len =
     (if \<not> initialized port then give SX_UNIT_UNITIALIZED
      else case writer port of
        None \<Rightarrow> crash Null_Call
      | Some f \<Rightarrow> (\<lambda>w. case f (spi_handle port) reg data len w of (ret, w') \<Rightarrow> Some (Ret ret w')))"

definition spi_burst_read_reg ::
  "'w spi_port_t \<Rightarrow> u8 \<Rightarrow> u8 list \<Rightarrow> int \<Rightarrow> ('w, sx127x_err_t \<times> u8 list) cmd" where
  "spi_burst_read_reg port reg buf len =
     (if \<not> initialized port then give (SX_UNIT_UNITIALIZED, buf)
      else case reader port of
        None \<Rightarrow> crash Null_Call
      | Some f \<Rightarrow> (\<lambda>w. case f (spi_handle port) reg len w of ((ret, bs), w') \<Rightarrow>
          (case buf_write buf 0 bs w' of
             Some (Ret buf' w'') \<Rightarrow> Some (Ret (ret, buf') w'')
           | Some (Fault e) \<Rightarrow> Some (Fault e)
           | None \<Rightarrow> None)))"

lemma spi_write_uninitialized [simp]:
  "\<not> initialized port \<Longrightarrow> spi_burst_write_reg port reg data len = give SX_UNIT_UNITIALIZED"
  by (simp add: spi_burst_write_reg_def)

lemma spi_read_uninitialized [simp]:
  "\<not> initialized port \<Longrightarrow> spi_burst_read_reg port reg buf len = give (SX_UNIT_UNITIALIZED, buf)"
  by (simp add: spi_burst_read_reg_def)

lemma spi_write_run:
  "initialized port \<Longrightarrow> writer port = Some f \<Longrightarrow> f (spi_handle port) reg data len w = (ret, w') \<Longrightarrow>
   spi_burst_write_reg port reg data len w = Some (Ret ret w')"
  by (simp add: spi_burst_write_reg_def)

lemma spi_read_run:
  "initialized port \<Longrightarrow> reader port = Some f \<Longrightarrow> f (spi_handle port) reg len w = ((ret, bs), w') \<Longrightarrow>
   length bs \<le> length buf \<Longrightarrow>
   spi_burst_read_reg port reg buf len w = Some (Ret (ret, overlay buf 0 bs) w')"
  by (simp add: spi_burst_read_reg_def buf_write_def)

lemma spi_read_overflow:
  "initialized port \<Longrightarrow> reader port = Some f \<Longrightarrow> f (spi_handle port) reg len w = ((ret, bs), w') \<Longrightarrow>
   length buf < length bs \<Longrightarrow> spi_burst_read_reg port reg buf len w = Some (Fault Out_Of_Bounds)"
  by (auto simp: spi_burst_read_reg_def buf_write_def)

text \<open>The interface the driver relies on: a connected port answers every access, and a read never
  stores more than it was asked for (a read of no bytes is made of the FIFO, register 0, only).\<close>

locale register_bus =
  fixes port :: "'w spi_port_t"
  assumes connected: "initialized port"
    and writes: "writer port \<noteq> None" and reads: "reader port \<noteq> None"
    and read_bound: "reader port = Some f \<Longrightarrow> 0 < len \<or> 0 \<le> len \<and> reg = 0 \<Longrightarrow>
      f h reg len w = ((ret, bs), w') \<Longrightarrow> int (length bs) \<le> len"
begin

lemma write_returns: "\<exists>ret w'. spi_burst_write_reg port reg data len w = Some (Ret ret w')"
  using connected writes by (auto simp: spi_burst_write_reg_def split: prod.splits)

lemma read_returns:
  assumes "0 < len \<or> 0 \<le> len \<and> reg = 0" and "len \<le> int (length buf)"
  shows "\<exists>ret buf' w'. spi_burst_read_reg port reg buf len w = Some (Ret (ret, buf') w') \<and>
     length buf' = length buf \<and> drop (nat len) buf' = drop (nat len) buf"
proof -
  obtain f where f: "reader port = Some f" using reads by auto
  obtain ret bs w' where r: "f (spi_handle port) reg len w = ((ret, bs), w')" by (metis prod.exhaust)
  have l: "int (length bs) \<le> len" using read_bound [OF f assms(1) r] .
  then have "length bs \<le> length buf" using assms(2) by linarith
  with spi_read_run [OF connected f r] l show ?thesis by (auto simp: overlay_def)
qed

end

end
