(* ===== verification/Logger.thy ===== *)
theory Logger
  imports Prelude
begin

text \<open>
  \<open>src/logger.c\<close>: a log callback with a level. \<open>network_log_with_tag\<close> formats into a 4096-byte
  array on the stack whatever the level is.
\<close>

datatype log_level_t =
    UNINITIALIZED
  | LOG_INFO_LOW
  | LOG_INFO
  | LOG_INFO_HIGH
  | LOG_ERROR

text \<open>The order of the enumeration is the order of its constants.\<close>

fun level_code :: "log_level_t \<Rightarrow> nat" where
  "level_code UNINITIALIZED = 0"
| "level_code LOG_INFO_LOW = 1"
| "level_code LOG_INFO = 2"
| "level_code LOG_INFO_HIGH = 3"
| "level_code LOG_ERROR = 4"

lemma level_code_inject [simp]: "level_code a = level_code b \<longleftrightarrow> a = b"
  by (cases a; cases b) simp_all

instantiation log_level_t :: linorder
begin

definition less_eq_log_level_t :: "log_level_t \<Rightarrow> log_level_t \<Rightarrow> bool" where
  "less_eq_log_level_t a b \<longleftrightarrow> level_code a \<le> level_code b"

definition less_log_level_t :: "log_level_t \<Rightarrow> log_level_t \<Rightarrow> bool" where
  "less_log_level_t a b \<longleftrightarrow> level_code a < level_code b"

instance
  by standard (auto simp: less_eq_log_level_t_def less_log_level_t_def)

end

type_synonym 'w logger_t = "u8 list \<Rightarrow> log_level_t \<Rightarrow> 'w \<Rightarrow> 'w"

record 'w logger_ctx_t =
  logger :: "'w logger_t option"
  log_level :: log_level_t

definition logger_init :: "'w logger_t option \<Rightarrow> log_level_t \<Rightarrow> 'w logger_ctx_t" where
  "logger_init l level = \<lparr>logger = l, log_level = level\<rparr>"

definition logger_set_level :: "'w logger_ctx_t \<Rightarrow> log_level_t \<Rightarrow> 'w logger_ctx_t" where
  "logger_set_level ctx level = ctx\<lparr>log_level := level\<rparr>"

definition network_log :: "'w logger_ctx_t \<Rightarrow> u8 list \<Rightarrow> log_level_t \<Rightarrow> ('w, unit) cmd" where
  "network_log ctx str level =
     (if log_level ctx = UNINITIALIZED then give ()
      else if level \<ge> log_level ctx then
        (case logger ctx of
           None \<Rightarrow> crash Null_Call
         | Some f \<Rightarrow> modify (f str level))
      else give ())"

text \<open>\<open>sprintf(msg, "%s: %s", tag, str)\<close> with its terminating zero must fit in \<open>msg\<close>.\<close>

definition log_text :: "string \<Rightarrow> string \<Rightarrow> u8 list" where
  "log_text tag str = map of_char (tag @ '': '' @ str)"

definition network_log_with_tag ::
  "'w logger_ctx_t \<Rightarrow> string \<Rightarrow> string \<Rightarrow> log_level_t \<Rightarrow> ('w, unit) cmd" where
  "network_log_with_tag ctx tag str level =
     (if length (log_text tag str) + 1 \<le> 4096
      then network_log ctx (log_text tag str) level
      else crash Out_Of_Bounds)"

definition network_log_err :: "'w logger_ctx_t \<Rightarrow> string \<Rightarrow> string \<Rightarrow> ('w, unit) cmd" where
  "network_log_err ctx tag str = network_log_with_tag ctx tag str LOG_ERROR"

text \<open>\<open>logger_ctx_t logger = {0}\<close>: logging is off.\<close>

definition zero_logger :: "'w logger_ctx_t" where
  "zero_logger = \<lparr>logger = None, log_level = UNINITIALIZED\<rparr>"

lemma length_log_text [simp]: "length (log_text tag str) = length tag + length str + 2"
  by (simp add: log_text_def)

text \<open>A logger that is safe to use: off, or with a callback.\<close>

definition logger_ok :: "'w logger_ctx_t \<Rightarrow> bool" where
  "logger_ok ctx \<longleftrightarrow> log_level ctx = UNINITIALIZED \<or> logger ctx \<noteq> None"

definition logged :: "'w logger_ctx_t \<Rightarrow> string \<Rightarrow> string \<Rightarrow> log_level_t \<Rightarrow> 'w \<Rightarrow> 'w" where
  "logged ctx tag str level w =
     (if log_level ctx = UNINITIALIZED \<or> level < log_level ctx then w
      else case logger ctx of None \<Rightarrow> w | Some f \<Rightarrow> f (log_text tag str) level w)"

lemma network_log_with_tag_run:
  "logger_ok ctx \<Longrightarrow> length tag + length str \<le> 4093 \<Longrightarrow>
   network_log_with_tag ctx tag str level w = Some (Ret () (logged ctx tag str level w))"
  by (auto simp: network_log_with_tag_def network_log_def logged_def logger_ok_def not_le
      split: option.splits)

lemma network_log_err_run:
  "logger_ok ctx \<Longrightarrow> length tag + length str \<le> 4093 \<Longrightarrow>
   network_log_err ctx tag str w = Some (Ret () (logged ctx tag str LOG_ERROR w))"
  by (simp add: network_log_err_def network_log_with_tag_run)

lemma logger_ok_init: "logger_ok (logger_init (Some f) level)" "logger_ok zero_logger"
  by (simp_all add: logger_ok_def logger_init_def zero_logger_def)

end
