(* ===== verification/Timer.thy ===== *)
theory Timer
  imports Prelude
begin

text \<open>
  \<open>src/sx127x_timer.c\<close>: the clock (microseconds, a signed 64-bit integer) and the delay, both supplied
  by the application. Signed 64-bit overflow is undefined behaviour of the caller, not of this part.
\<close>

type_synonym i64 = "64 word"

type_synonym 'w sx127x_timer_t = "'w \<Rightarrow> i64 \<times> 'w"
type_synonym 'w sx127x_task_delayer_ms_t = "u64 \<Rightarrow> 'w \<Rightarrow> 'w"

record 'w sx127x_timer_ctx_t =
  timer :: "'w sx127x_timer_t option"
  delayer :: "'w sx127x_task_delayer_ms_t option"
  timer_configured :: bool

definition sx127x_timer_init ::
  "'w sx127x_timer_t option \<Rightarrow> 'w sx127x_task_delayer_ms_t option \<Rightarrow> 'w sx127x_timer_ctx_t" where
  "sx127x_timer_init t d = \<lparr>timer = t, delayer = d, timer_configured = True\<rparr>"

definition zero_timer :: "'w sx127x_timer_ctx_t" where
  "zero_timer = \<lparr>timer = None, delayer = None, timer_configured = False\<rparr>"

definition sx127x_timer_get_time_us :: "'w sx127x_timer_ctx_t \<Rightarrow> ('w, i64) cmd" where
  "sx127x_timer_get_time_us ctx = (case timer ctx of
       None \<Rightarrow> crash Null_Call
     | Some f \<Rightarrow> (\<lambda>w. case f w of (t, w') \<Rightarrow> Some (Ret t w')))"

definition sx127x_task_delay_ms :: "'w sx127x_timer_ctx_t \<Rightarrow> u64 \<Rightarrow> ('w, unit) cmd" where
  "sx127x_task_delay_ms ctx ms = (case delayer ctx of
       None \<Rightarrow> crash Null_Call
     | Some f \<Rightarrow> modify (f ms))"

lemma get_time_run:
  "timer ctx = Some f \<Longrightarrow> f w = (t, w') \<Longrightarrow> sx127x_timer_get_time_us ctx w = Some (Ret t w')"
  by (simp add: sx127x_timer_get_time_us_def)

lemma delay_run: "delayer ctx = Some f \<Longrightarrow> sx127x_task_delay_ms ctx ms w = Some (Ret () (f ms w))"
  by (simp add: sx127x_task_delay_ms_def)

end
