(* ===== verification/Machine.thy ===== *)
theory Machine
  imports C_Heap Spi_Port Logger Timer
begin

text \<open>
  The state of the whole library: the heap, the outside world behind the callbacks, and the
  variables in static storage: the three contexts, the bandwidth and spreading factor of
  \<open>sx127x_config.c\<close>, the static buffers \<open>rx_buffer\<close> of \<open>read_last_packet\<close> and \<open>tx_buffer\<close> of
  \<open>sx_1278_send_packet\<close>. The callbacks act on the world only. The accesses to the port, the logger
  and the timer through the global contexts are lifted here, so the components above read as the
  code does.
\<close>

record 'w machine = cmem +
  world :: 'w
  sx127x_spi_port :: "'w spi_port_t"
  sx127x_logger :: "'w logger_ctx_t"
  sx127x_timer_ctx :: "'w sx127x_timer_ctx_t"
  lora_bandwidth_hz :: u32
  spreading_factor :: u8
  rx_buffer :: "u8 list"
  tx_buffer :: "u8 list"

type_synonym ('w, 'z, 'a) mcmd = "(('w, 'z) machine_scheme, 'a) cmd"

text \<open>Static storage as the program starts.\<close>

definition boot :: "'w \<Rightarrow> 'w machine" where
  "boot w = \<lparr>blocks = (\<lambda>_. None), fresh = 1, alloc_ok = (\<lambda>_. True), junk = (\<lambda>_ _. 0), world = w,
     sx127x_spi_port = zero_port, sx127x_logger = zero_logger, sx127x_timer_ctx = zero_timer,
     lora_bandwidth_hz = 125000, spreading_factor = 12,
     rx_buffer = replicate 255 0, tx_buffer = replicate 255 0\<rparr>"

section \<open>Callbacks on the world\<close>

definition on_world :: "('w, 'a) cmd \<Rightarrow> ('w, 'z, 'a) mcmd" where
  "on_world m = (\<lambda>s. case m (world s) of
       None \<Rightarrow> None
     | Some (Fault f) \<Rightarrow> Some (Fault f)
     | Some (Ret a w) \<Rightarrow> Some (Ret a (s\<lparr>world := w\<rparr>)))"

definition spi_write :: "u8 \<Rightarrow> u8 list \<Rightarrow> int \<Rightarrow> ('w, 'z, sx127x_err_t) mcmd" where
  "spi_write reg data len =
     andThen (gets sx127x_spi_port) (\<lambda>port. on_world (spi_burst_write_reg port reg data len))"

definition spi_read :: "u8 \<Rightarrow> u8 list \<Rightarrow> int \<Rightarrow> ('w, 'z, sx127x_err_t \<times> u8 list) mcmd" where
  "spi_read reg buf len =
     andThen (gets sx127x_spi_port) (\<lambda>port. on_world (spi_burst_read_reg port reg buf len))"

text \<open>A read of one byte into a variable that holds \<open>old\<close>.\<close>

definition spi_read1 :: "u8 \<Rightarrow> u8 \<Rightarrow> ('w, 'z, sx127x_err_t \<times> u8) mcmd" where
  "spi_read1 reg old = andThen (spi_read reg [old] 1) (\<lambda>(ret, buf). give (ret, hd buf))"

definition log_err :: "string \<Rightarrow> string \<Rightarrow> ('w, 'z, unit) mcmd" where
  "log_err tag str = andThen (gets sx127x_logger) (\<lambda>ctx. on_world (network_log_err ctx tag str))"

definition log_tag :: "string \<Rightarrow> string \<Rightarrow> log_level_t \<Rightarrow> ('w, 'z, unit) mcmd" where
  "log_tag tag str level =
     andThen (gets sx127x_logger) (\<lambda>ctx. on_world (network_log_with_tag ctx tag str level))"

definition time_us :: "('w, 'z, i64) mcmd" where
  "time_us = andThen (gets sx127x_timer_ctx) (\<lambda>ctx. on_world (sx127x_timer_get_time_us ctx))"

definition delay_ms :: "u64 \<Rightarrow> ('w, 'z, unit) mcmd" where
  "delay_ms ms = andThen (gets sx127x_timer_ctx) (\<lambda>ctx. on_world (sx127x_task_delay_ms ctx ms))"

text \<open>\<open>ret = m; if (ret != SX_OK) { handler; return ret; } k\<close>, and the same without a handler.\<close>

definition checked ::
  "('w, 'z, sx127x_err_t) mcmd \<Rightarrow> ('w, 'z, unit) mcmd \<Rightarrow> ('w, 'z, sx127x_err_t) mcmd
    \<Rightarrow> ('w, 'z, sx127x_err_t) mcmd" where
  "checked m handler k =
     andThen m (\<lambda>ret. if ret \<noteq> SX_OK then andThen handler (\<lambda>_. give ret) else k)"

definition ok_or_return ::
  "('w, 'z, sx127x_err_t) mcmd \<Rightarrow> ('w, 'z, sx127x_err_t) mcmd \<Rightarrow> ('w, 'z, sx127x_err_t) mcmd" where
  "ok_or_return m k = andThen m (\<lambda>ret. if ret \<noteq> SX_OK then give ret else k)"

section \<open>A platform that answers\<close>

text \<open>
  The platform is usable when the port is connected and its reads stay within the request, the
  logger is off or has a callback, and the timer has both callbacks.
\<close>

definition usable :: "('w, 'z) machine_scheme \<Rightarrow> bool" where
  "usable s \<longleftrightarrow> register_bus (sx127x_spi_port s) \<and> logger_ok (sx127x_logger s) \<and>
     timer (sx127x_timer_ctx s) \<noteq> None \<and> delayer (sx127x_timer_ctx s) \<noteq> None"

text \<open>From \<open>s\<close> to \<open>t\<close> only the world has changed; only the world and the radio settings have.\<close>

definition world_only :: "('w, 'z) machine_scheme \<Rightarrow> ('w, 'z) machine_scheme \<Rightarrow> bool" where
  "world_only s t \<longleftrightarrow> (\<exists>w. t = s\<lparr>world := w\<rparr>)"

definition radio_only :: "('w, 'z) machine_scheme \<Rightarrow> ('w, 'z) machine_scheme \<Rightarrow> bool" where
  "radio_only s t \<longleftrightarrow> (\<exists>w b f. t = s\<lparr>world := w, lora_bandwidth_hz := b, spreading_factor := f\<rparr>)"

lemma world_only_refl [simp]: "world_only s s"
  by (auto simp: world_only_def intro: exI [of _ "world s"])

lemma world_only_update [simp]: "world_only s (s\<lparr>world := w\<rparr>)"
  by (auto simp: world_only_def)

lemma world_only_trans: "world_only s t \<Longrightarrow> world_only t u \<Longrightarrow> world_only s u"
  by (auto simp: world_only_def)

lemma world_only_usable: "world_only s t \<Longrightarrow> usable t = usable s"
  by (auto simp: world_only_def usable_def)

lemma world_only_sel:
  assumes "world_only s t"
  shows "blocks t = blocks s" "fresh t = fresh s" "alloc_ok t = alloc_ok s" "junk t = junk s"
    "sx127x_spi_port t = sx127x_spi_port s" "sx127x_logger t = sx127x_logger s"
    "sx127x_timer_ctx t = sx127x_timer_ctx s" "lora_bandwidth_hz t = lora_bandwidth_hz s"
    "spreading_factor t = spreading_factor s" "rx_buffer t = rx_buffer s" "tx_buffer t = tx_buffer s"
  using assms by (auto simp: world_only_def)

text \<open>A command is calm if from every usable state it returns, with no fault, and changes the world
  only. Calm commands compose, so this is proved for a whole function by its structure.\<close>

definition calm :: "('w, 'z, 'a) mcmd \<Rightarrow> bool" where
  "calm m \<longleftrightarrow> (\<forall>s. usable s \<longrightarrow> (\<exists>a t. m s = Some (Ret a t) \<and> world_only s t))"

named_theorems calm_intros "commands that are calm"

lemma calmE:
  assumes "calm m" and "usable s"
  obtains a t where "m s = Some (Ret a t)" and "world_only s t" and "usable t"
  using assms world_only_usable by (metis calm_def)

lemma calm_give [calm_intros]: "calm (give a)"
  by (simp add: calm_def)

lemma calm_gets [calm_intros]: "calm (gets f)"
  by (simp add: calm_def)

lemma calm_andThen [calm_intros]:
  assumes "calm m" and "\<And>a. calm (k a)"
  shows "calm (andThen m k)"
  unfolding calm_def
proof (intro allI impI)
  fix s :: "('a, 'b) machine_scheme"
  assume u: "usable s"
  obtain a t where m: "m s = Some (Ret a t)" "world_only s t" "usable t" using calmE [OF assms(1) u] .
  obtain b v where "k a t = Some (Ret b v)" "world_only t v" using calmE [OF assms(2) m(3)] .
  with m show "\<exists>a t. andThen m k s = Some (Ret a t) \<and> world_only s t"
    using world_only_trans by (metis andThen_Ret)
qed

lemma calm_if [calm_intros]: "(b \<Longrightarrow> calm m) \<Longrightarrow> (\<not> b \<Longrightarrow> calm n) \<Longrightarrow> calm (if b then m else n)"
  by simp

lemma calm_prod [calm_intros]: "(\<And>a b. calm (f a b)) \<Longrightarrow> calm (case x of (a, b) \<Rightarrow> f a b)"
  by (cases x) simp

lemma on_world_run: "m (world s) = Some (Ret a w) \<Longrightarrow> on_world m s = Some (Ret a (s\<lparr>world := w\<rparr>))"
  by (simp add: on_world_def)

lemma spi_write_run_machine:
  "spi_burst_write_reg (sx127x_spi_port s) reg data len (world s) = Some (Ret ret w) \<Longrightarrow>
   spi_write reg data len s = Some (Ret ret (s\<lparr>world := w\<rparr>))"
  by (simp add: spi_write_def on_world_run)

lemma spi_read_run_machine:
  "spi_burst_read_reg (sx127x_spi_port s) reg buf len (world s) = Some (Ret r w) \<Longrightarrow>
   spi_read reg buf len s = Some (Ret r (s\<lparr>world := w\<rparr>))"
  by (simp add: spi_read_def on_world_run)

lemma calm_spi_write [calm_intros]: "calm (spi_write reg data len)"
  unfolding calm_def
proof (intro allI impI)
  fix s :: "('a, 'b) machine_scheme"
  assume "usable s"
  then have "register_bus (sx127x_spi_port s)" by (simp add: usable_def)
  from register_bus.write_returns [OF this] obtain ret w
    where "spi_burst_write_reg (sx127x_spi_port s) reg data len (world s) = Some (Ret ret w)" by blast
  then show "\<exists>a t. spi_write reg data len s = Some (Ret a t) \<and> world_only s t"
    using spi_write_run_machine by fastforce
qed

lemma spi_read_usable:
  assumes "usable s" and "0 < len \<or> 0 \<le> len \<and> reg = 0" and "len \<le> int (length buf)"
  shows "\<exists>ret buf' w. spi_read reg buf len s = Some (Ret (ret, buf') (s\<lparr>world := w\<rparr>)) \<and>
     length buf' = length buf \<and> drop (nat len) buf' = drop (nat len) buf"
proof -
  have "register_bus (sx127x_spi_port s)" using assms(1) by (simp add: usable_def)
  from register_bus.read_returns [OF this assms(2,3)] show ?thesis
    using spi_read_run_machine by metis
qed

lemma calm_spi_read [calm_intros]: "0 < len \<or> 0 \<le> len \<and> reg = 0 \<Longrightarrow> len \<le> int (length buf) \<Longrightarrow> calm (spi_read reg buf len)"
  unfolding calm_def using spi_read_usable world_only_update by metis

lemma calm_spi_read1 [calm_intros]: "calm (spi_read1 reg old)"
  unfolding spi_read1_def by (intro calm_intros) simp_all

lemma calm_log_err [calm_intros]:
  "length tag + length str \<le> 4093 \<Longrightarrow> calm (log_err tag str)"
  by (auto simp: calm_def log_err_def usable_def network_log_err_run on_world_run)

lemma calm_log_tag [calm_intros]:
  "length tag + length str \<le> 4093 \<Longrightarrow> calm (log_tag tag str level)"
  by (auto simp: calm_def log_tag_def usable_def network_log_with_tag_run on_world_run)

lemma calm_time_us [calm_intros]: "calm time_us"
  unfolding calm_def
proof (intro allI impI)
  fix s :: "('a, 'b) machine_scheme"
  assume "usable s"
  then obtain f where "timer (sx127x_timer_ctx s) = Some f" by (auto simp: usable_def)
  moreover obtain t w where "f (world s) = (t, w)" by fastforce
  ultimately have "time_us s = Some (Ret t (s\<lparr>world := w\<rparr>))"
    by (simp add: time_us_def on_world_run get_time_run)
  then show "\<exists>a t. time_us s = Some (Ret a t) \<and> world_only s t" by fastforce
qed

lemma calm_delay_ms [calm_intros]: "calm (delay_ms ms)"
  by (auto simp: calm_def usable_def delay_ms_def on_world_run delay_run)

lemma calm_checked [calm_intros]: "calm m \<Longrightarrow> calm handler \<Longrightarrow> calm k \<Longrightarrow> calm (checked m handler k)"
  unfolding checked_def by (intro calm_intros)

lemma calm_ok_or_return [calm_intros]: "calm m \<Longrightarrow> calm k \<Longrightarrow> calm (ok_or_return m k)"
  unfolding ok_or_return_def by (intro calm_intros)

text \<open>Calm commands with a fact about their result.\<close>

definition calm_with :: "('a \<Rightarrow> bool) \<Rightarrow> ('w, 'z, 'a) mcmd \<Rightarrow> bool" where
  "calm_with R m \<longleftrightarrow> (\<forall>s. usable s \<longrightarrow> (\<exists>a t. m s = Some (Ret a t) \<and> world_only s t \<and> R a))"

lemma calm_withD: "calm_with R m \<Longrightarrow> usable s \<Longrightarrow> \<exists>a t. m s = Some (Ret a t) \<and> world_only s t \<and> R a"
  by (simp add: calm_with_def)

lemma calm_with_True: "calm m \<Longrightarrow> calm_with (\<lambda>_. True) m"
  by (simp add: calm_def calm_with_def)

lemma calm_with_give: "R a \<Longrightarrow> calm_with R (give a)"
  by (simp add: calm_with_def)

lemma calm_with_andThen:
  assumes "calm_with Q m" and "\<And>a. Q a \<Longrightarrow> calm_with R (k a)"
  shows "calm_with R (andThen m k)"
  unfolding calm_with_def
proof (intro allI impI)
  fix s :: "('b, 'c) machine_scheme"
  assume u: "usable s"
  obtain a t where m: "m s = Some (Ret a t)" "world_only s t" "Q a" using calm_withD [OF assms(1) u] by blast
  have "usable t" using world_only_usable [OF m(2)] u by simp
  from calm_withD [OF assms(2) [OF m(3)] this] obtain b v
    where "k a t = Some (Ret b v)" "world_only t v" "R b" by blast
  with m show "\<exists>a t. andThen m k s = Some (Ret a t) \<and> world_only s t \<and> R a"
    using world_only_trans by (metis andThen_Ret)
qed

lemma calm_with_then: "calm m \<Longrightarrow> (\<And>a. calm_with R (k a)) \<Longrightarrow> calm_with R (andThen m k)"
  by (rule calm_with_andThen [OF calm_with_True]) auto

lemma calm_with_if: "(b \<Longrightarrow> calm_with R m) \<Longrightarrow> (\<not> b \<Longrightarrow> calm_with R n) \<Longrightarrow> calm_with R (if b then m else n)"
  by simp

lemma calm_with_prod: "(\<And>a b. x = (a, b) \<Longrightarrow> calm_with R (f a b)) \<Longrightarrow> calm_with R (case x of (a, b) \<Rightarrow> f a b)"
  by (cases x) simp

lemma calm_with_spi_read:
  assumes "0 < len \<or> 0 \<le> len \<and> reg = 0" and "len \<le> int (length buf)"
  shows "calm_with (\<lambda>(ret, b). length b = length buf) (spi_read reg buf len)"
  unfolding calm_with_def
proof (intro allI impI)
  fix s :: "('a, 'b) machine_scheme"
  assume "usable s"
  from spi_read_usable [OF this assms] obtain ret b w
    where "spi_read reg buf len s = Some (Ret (ret, b) (s\<lparr>world := w\<rparr>))" "length b = length buf" by blast
  then show "\<exists>a t. spi_read reg buf len s = Some (Ret a t) \<and> world_only s t \<and>
      (case a of (ret, b) \<Rightarrow> length b = length buf)"
    by (intro exI [of _ "(ret, b)"] exI [of _ "s\<lparr>world := w\<rparr>"]) simp
qed

lemma calm_with_iff_calm: "calm_with R m \<Longrightarrow> calm m"
  by (fastforce simp: calm_def calm_with_def)

section \<open>Watching the bus\<close>

text \<open>Success of a checked step, read backwards.\<close>

lemma ok_or_return_OK:
  "ok_or_return m k s = Some (Ret SX_OK u) \<longleftrightarrow>
     (\<exists>t. m s = Some (Ret SX_OK t) \<and> k t = Some (Ret SX_OK u))"
  by (auto simp: ok_or_return_def andThen_eq_Ret split: if_splits)

lemma checked_OK:
  "checked m handler k s = Some (Ret SX_OK u) \<longleftrightarrow>
     (\<exists>t. m s = Some (Ret SX_OK t) \<and> k t = Some (Ret SX_OK u))"
proof -
  have "checked m handler k s = Some (Ret SX_OK u)"
    if "m s = Some (Ret SX_OK t)" "k t = Some (Ret SX_OK u)" for t
    using that by (simp add: checked_def)
  moreover have "\<exists>t. m s = Some (Ret SX_OK t) \<and> k t = Some (Ret SX_OK u)"
    if "checked m handler k s = Some (Ret SX_OK u)"
    using that by (auto simp: checked_def andThen_eq_Ret split: if_splits)
  ultimately show ?thesis by blast
qed

text \<open>
  An observation of the world that records every register write with the bytes and the answer, in
  order, and that nothing else changes. Any platform can be instrumented in this way.
\<close>

type_synonym bus_write = "u8 \<times> u8 list \<times> sx127x_err_t"

locale observed_platform =
  fixes obs :: "'w \<Rightarrow> bus_write list" and port :: "'w spi_port_t" and lg :: "'w logger_ctx_t"
    and tm :: "'w sx127x_timer_ctx_t"
  assumes obs_write: "writer port = Some f \<Longrightarrow> f h reg data len w = (ret, w') \<Longrightarrow>
      obs w' = obs w @ [(reg, data, ret)]"
    and obs_read: "reader port = Some g \<Longrightarrow> g h reg len w = (r, w') \<Longrightarrow> obs w' = obs w"
    and obs_log: "logger lg = Some l \<Longrightarrow> obs (l str level w) = obs w"
    and obs_time: "timer tm = Some c \<Longrightarrow> c w = (t, w') \<Longrightarrow> obs w' = obs w"
    and obs_delay: "delayer tm = Some d \<Longrightarrow> obs (d ms w) = obs w"
begin

definition here :: "('w, 'z) machine_scheme \<Rightarrow> bool" where
  "here s \<longleftrightarrow> initialized port \<and> sx127x_spi_port s = port \<and> sx127x_logger s = lg \<and> sx127x_timer_ctx s = tm"

text \<open>\<open>adds m s t xs\<close>: the platform is still in place and the writes \<open>xs\<close> were added.\<close>

definition adds :: "('w, 'z) machine_scheme \<Rightarrow> ('w, 'z) machine_scheme \<Rightarrow> bus_write list \<Rightarrow> bool" where
  "adds s t xs \<longleftrightarrow> here t \<and> obs (world t) = obs (world s) @ xs"

lemma adds_refl: "here s \<Longrightarrow> adds s s []"
  by (simp add: adds_def)

lemma adds_trans: "adds s t xs \<Longrightarrow> adds t u ys \<Longrightarrow> adds s u (xs @ ys)"
  by (simp add: adds_def)

lemma adds_here: "adds s t xs \<Longrightarrow> here t"
  by (simp add: adds_def)

lemma write_adds:
  assumes "here s" and "spi_write reg data len s = Some (Ret ret t)"
  shows "adds s t [(reg, data, ret)] \<and> world_only s t"
  using assms obs_write
  by (auto simp: spi_write_def on_world_def spi_burst_write_reg_def adds_def here_def
      split: option.splits prod.splits outcome.splits)

lemma read_adds:
  assumes "here s" and "spi_read reg buf len s = Some (Ret r t)"
  shows "adds s t [] \<and> world_only s t"
  using assms obs_read
  by (auto simp: spi_read_def on_world_def spi_burst_read_reg_def adds_def here_def buf_write_def
      split: option.splits prod.splits outcome.splits if_splits)

lemma read1_adds: "here s \<Longrightarrow> spi_read1 reg old s = Some (Ret r t) \<Longrightarrow> adds s t [] \<and> world_only s t"
  by (auto simp: spi_read1_def andThen_eq_Ret dest: read_adds)

lemma log_err_adds: "here s \<Longrightarrow> log_err tag str s = Some (Ret r t) \<Longrightarrow> adds s t [] \<and> world_only s t"
  using obs_log
  by (auto simp: log_err_def on_world_def network_log_err_def network_log_with_tag_def network_log_def
      adds_def here_def split: option.splits outcome.splits if_splits)

lemma time_adds: "here s \<Longrightarrow> time_us s = Some (Ret r t) \<Longrightarrow> adds s t [] \<and> world_only s t"
  using obs_time
  by (auto simp: time_us_def on_world_def sx127x_timer_get_time_us_def adds_def here_def
      split: option.splits outcome.splits prod.splits)

lemma delay_adds: "here s \<Longrightarrow> delay_ms ms s = Some (Ret r t) \<Longrightarrow> adds s t [] \<and> world_only s t"
  using obs_delay
  by (auto simp: delay_ms_def on_world_def sx127x_task_delay_ms_def adds_def here_def
      split: option.splits outcome.splits)

end

text \<open>Every platform can be instrumented: the world gets a log, the writer appends to it.\<close>

definition spy_port :: "'w spi_port_t \<Rightarrow> ('w \<times> bus_write list) spi_port_t" where
  "spy_port p =
     \<lparr>writer = map_option (\<lambda>f h reg data len (w, xs).
         case f h reg data len w of (ret, w') \<Rightarrow> (ret, (w', xs @ [(reg, data, ret)]))) (writer p),
      reader = map_option (\<lambda>g h reg len (w, xs). case g h reg len w of (r, w') \<Rightarrow> (r, (w', xs))) (reader p),
      spi_handle = spi_handle p, initialized = initialized p\<rparr>"

definition spy_logger :: "'w logger_ctx_t \<Rightarrow> ('w \<times> 'l) logger_ctx_t" where
  "spy_logger l =
     \<lparr>logger = map_option (\<lambda>f str level (w, xs). (f str level w, xs)) (logger l), log_level = log_level l\<rparr>"

definition spy_timer :: "'w sx127x_timer_ctx_t \<Rightarrow> ('w \<times> 'l) sx127x_timer_ctx_t" where
  "spy_timer t =
     \<lparr>timer = map_option (\<lambda>f (w, xs). case f w of (v, w') \<Rightarrow> (v, (w', xs))) (timer t),
      delayer = map_option (\<lambda>f ms (w, xs). (f ms w, xs)) (delayer t),
      timer_configured = timer_configured t\<rparr>"

interpretation spied: observed_platform snd "spy_port p" "spy_logger l" "spy_timer t"
  by unfold_locales
    (auto simp: spy_port_def spy_logger_def spy_timer_def split: prod.splits)

lemma spy_port_bus: "register_bus p \<Longrightarrow> register_bus (spy_port p)"
  unfolding register_bus_def by (fastforce simp: spy_port_def split: prod.splits)

section \<open>Watching reads as well\<close>

text \<open>
  An observation that records the whole traffic: the writes, and the reads with the bytes that came
  back. A successful read of one byte brings one byte. What was written can be told from it.
\<close>

datatype bus_event = Wrote u8 "u8 list" sx127x_err_t | Fetched u8 "u8 list" sx127x_err_t

fun writes_of :: "bus_event list \<Rightarrow> bus_write list" where
  "writes_of [] = []"
| "writes_of (Wrote reg data ret # xs) = (reg, data, ret) # writes_of xs"
| "writes_of (Fetched reg data ret # xs) = writes_of xs"

lemma writes_of_append [simp]: "writes_of (xs @ ys) = writes_of xs @ writes_of ys"
  by (induction xs rule: writes_of.induct) simp_all

locale monitored_platform =
  fixes bus :: "'w \<Rightarrow> bus_event list" and port :: "'w spi_port_t" and lg :: "'w logger_ctx_t"
    and tm :: "'w sx127x_timer_ctx_t"
  assumes bus_write: "writer port = Some f \<Longrightarrow> f h reg data len w = (ret, w') \<Longrightarrow>
      bus w' = bus w @ [Wrote reg data ret]"
    and bus_read: "reader port = Some g \<Longrightarrow> g h reg len w = ((ret, bs), w') \<Longrightarrow>
      bus w' = bus w @ [Fetched reg bs ret]"
    and bus_byte: "reader port = Some g \<Longrightarrow> g h reg 1 w = ((SX_OK, bs), w') \<Longrightarrow> length bs = 1"
    and bus_log: "logger lg = Some l \<Longrightarrow> bus (l str level w) = bus w"
    and bus_time: "timer tm = Some c \<Longrightarrow> c w = (t, w') \<Longrightarrow> bus w' = bus w"
    and bus_delay: "delayer tm = Some d \<Longrightarrow> bus (d ms w) = bus w"

sublocale monitored_platform \<subseteq> observed_platform "\<lambda>w. writes_of (bus w)" port lg tm
proof
  show "writes_of (bus w') = writes_of (bus w)" if "reader port = Some g" "g h reg len w = (r, w')" for g h reg len w r w'
    using that bus_read [of g h reg len w "fst r" "snd r" w'] by simp
qed (simp_all add: bus_write bus_log bus_time bus_delay)

context monitored_platform
begin

text \<open>\<open>passes s t xs\<close>: the platform is still in place and the traffic \<open>xs\<close> was added.\<close>

definition passes :: "('w, 'z) machine_scheme \<Rightarrow> ('w, 'z) machine_scheme \<Rightarrow> bus_event list \<Rightarrow> bool" where
  "passes s t xs \<longleftrightarrow> here t \<and> bus (world t) = bus (world s) @ xs"

lemma hereI:
  "initialized port \<Longrightarrow> sx127x_spi_port s = port \<Longrightarrow> sx127x_logger s = lg \<Longrightarrow> sx127x_timer_ctx s = tm \<Longrightarrow> here s"
  by (simp add: here_def)

lemma passes_trans: "passes s t xs \<Longrightarrow> passes t u ys \<Longrightarrow> passes s u (xs @ ys)"
  by (simp add: passes_def)

lemma passes_here: "passes s t xs \<Longrightarrow> here t"
  by (simp add: passes_def)

lemma write_passes:
  assumes "here s" and "spi_write reg data len s = Some (Ret ret t)"
  shows "passes s t [Wrote reg data ret]"
  using assms bus_write
  by (auto simp: spi_write_def on_world_def spi_burst_write_reg_def passes_def here_def
      split: option.splits prod.splits outcome.splits)

lemma read1_passes:
  assumes "here s" and "spi_read1 reg old s = Some (Ret (SX_OK, v) t)"
  shows "passes s t [Fetched reg [v] SX_OK]"
proof -
  obtain b where b: "spi_read reg [old] 1 s = Some (Ret (SX_OK, b) t)" "v = hd b"
    using assms(2) by (auto simp: spi_read1_def andThen_eq_Ret split: prod.splits)
  obtain g bs w' where g: "reader port = Some g" "g (spi_handle port) reg 1 (world s) = ((SX_OK, bs), w')"
    and t: "t = s\<lparr>world := w'\<rparr>" and bb: "buf_write [old] 0 bs w' = Some (Ret b w')"
    using b(1) assms(1)
    by (auto simp: spi_read_def on_world_def spi_burst_read_reg_def here_def buf_write_def
        split: option.splits prod.splits outcome.splits if_splits)
  obtain x where "bs = [x]" using bus_byte [OF g] by (auto simp: length_Suc_conv)
  then have "bs = [v]" using bb b(2) by (auto simp: buf_write_def overlay_def)
  then show ?thesis using bus_read [OF g] assms(1) t by (simp add: passes_def here_def)
qed

lemma time_passes: "here s \<Longrightarrow> time_us s = Some (Ret r t) \<Longrightarrow> passes s t []"
  using bus_time
  by (auto simp: time_us_def on_world_def sx127x_timer_get_time_us_def passes_def here_def
      split: option.splits outcome.splits prod.splits)

lemma delay_passes: "here s \<Longrightarrow> delay_ms ms s = Some (Ret r t) \<Longrightarrow> passes s t []"
  using bus_delay
  by (auto simp: delay_ms_def on_world_def sx127x_task_delay_ms_def passes_def here_def
      split: option.splits outcome.splits)

end

text \<open>A port with a tap on it.\<close>

definition tap_port :: "'w spi_port_t \<Rightarrow> ('w \<times> bus_event list) spi_port_t" where
  "tap_port p =
     \<lparr>writer = map_option (\<lambda>f h reg data len (w, xs).
         case f h reg data len w of (ret, w') \<Rightarrow> (ret, (w', xs @ [Wrote reg data ret]))) (writer p),
      reader = map_option (\<lambda>g h reg len (w, xs).
         case g h reg len w of ((ret, bs), w') \<Rightarrow> ((ret, bs), (w', xs @ [Fetched reg bs ret]))) (reader p),
      spi_handle = spi_handle p, initialized = initialized p\<rparr>"

lemma tapped_platform:
  assumes "\<And>g h reg w bs w'. reader p = Some g \<Longrightarrow> g h reg 1 w = ((SX_OK, bs), w') \<Longrightarrow> length bs = 1"
  shows "monitored_platform snd (tap_port p) (spy_logger l) (spy_timer t)"
  by unfold_locales
    (use assms in \<open>auto simp: tap_port_def spy_logger_def spy_timer_def split: prod.splits\<close>)

end
