(* ===== verification/Mocks.thy ===== *)
theory Mocks
  imports Machine
begin

text \<open>
  The test doubles of \<open>tests/test_sx127x_driver.c\<close>: a register bus that logs at most 256 written
  bytes and answers reads from a table, except the interrupt register, which shows a mask from the
  \<open>n\<close>-th read on; a clock that stands still and one that jumps past any timeout; a delay that does
  nothing. They are the concrete platform on which the properties of the driver are evaluated.
\<close>

record test_world =
  write_log :: "(u8 \<times> u8) list"
  read_responses :: "u8 \<Rightarrow> u8"
  irq_read_count :: nat
  irq_fires_on_read :: nat
  irq_mask_value :: u8
  time_call_n :: nat

definition recording_writer :: "test_world spi_register_writer_t" where
  "recording_writer spi reg data len w =
     (SX_OK, w\<lparr>write_log := take 256 (write_log w @ map (Pair reg) (take (nat len) data))\<rparr>)"

definition counting_reader :: "test_world spi_register_reader_t" where
  "counting_reader spi reg len w =
     (if reg = 0x12 then
        let n = irq_read_count w + 1 in
        ((SX_OK, [if n \<ge> irq_fires_on_read w then irq_mask_value w else 0]), w\<lparr>irq_read_count := n\<rparr>)
      else ((SX_OK, replicate (nat len) (read_responses w reg)), w))"

definition zero_clock :: "test_world sx127x_timer_t" where
  "zero_clock w = (0, w)"

definition advancing_timer :: "test_world sx127x_timer_t" where
  "advancing_timer w =
     (if time_call_n w = 0 then 0 else 4000000, w\<lparr>time_call_n := time_call_n w + 1\<rparr>)"

definition noop_delay :: "test_world sx127x_task_delayer_ms_t" where
  "noop_delay ms w = w"

text \<open>\<open>reset_state\<close>, with the answers of the table and the interrupt mask the test sets.\<close>

definition reset_state :: "(u8 \<Rightarrow> u8) \<Rightarrow> nat \<Rightarrow> u8 \<Rightarrow> test_world" where
  "reset_state responses fires irq =
     \<lparr>write_log = [], read_responses = responses, irq_read_count = 0, irq_fires_on_read = fires,
      irq_mask_value = irq, time_call_n = 0\<rparr>"

definition test_port :: "test_world spi_port_t" where
  "test_port = snd (spi_port_init (Some recording_writer) (Some counting_reader) 0)"

definition test_timer :: "test_world sx127x_timer_t \<Rightarrow> test_world sx127x_timer_ctx_t" where
  "test_timer clock = sx127x_timer_init (Some clock) (Some noop_delay)"

definition test_machine :: "test_world sx127x_timer_t \<Rightarrow> test_world \<Rightarrow> test_world machine" where
  "test_machine clock w = (boot w)\<lparr>sx127x_spi_port := test_port, sx127x_timer_ctx := test_timer clock\<rparr>"

text \<open>The doubles keep the contract of a register bus.\<close>

lemma test_port_sel [simp]:
  "initialized test_port" "writer test_port = Some recording_writer"
  "reader test_port = Some counting_reader" "spi_handle test_port = 0"
  by (simp_all add: test_port_def spi_port_init_def)

interpretation test_bus: register_bus test_port
  by unfold_locales (auto simp: counting_reader_def Let_def split: if_splits)

lemma test_machine_sel [simp]:
  "sx127x_spi_port (test_machine clock w) = test_port"
  "sx127x_logger (test_machine clock w) = zero_logger"
  "sx127x_timer_ctx (test_machine clock w) = test_timer clock"
  "world (test_machine clock w) = w" "lora_bandwidth_hz (test_machine clock w) = 125000"
  "spreading_factor (test_machine clock w) = 12"
  "rx_buffer (test_machine clock w) = replicate 255 0"
  "tx_buffer (test_machine clock w) = replicate 255 0"
  "timer (test_timer clock) = Some clock" "delayer (test_timer clock) = Some noop_delay"
  by (simp_all add: test_machine_def boot_def test_timer_def sx127x_timer_init_def)

lemma usable_test_machine [simp]: "usable (test_machine clock w)"
  by (simp add: usable_def test_bus.register_bus_axioms logger_ok_init)

lemma test_machine_mem [simp]:
  "mem_ok (test_machine clock w)" "alloc_never_fails (test_machine clock w)"
  by (simp_all add: test_machine_def boot_def mem_ok_def alloc_never_fails_def)

text \<open>A watched bus on which the writes of one register fail, and every read gives the same byte.\<close>

definition flaky_port :: "u8 option \<Rightarrow> u8 \<Rightarrow> unit spi_port_t" where
  "flaky_port bad v =
     \<lparr>writer = Some (\<lambda>h reg data len w. (if Some reg = bad then SX_INVALID_STATE else SX_OK, w)),
      reader = Some (\<lambda>h reg len w. ((SX_OK, replicate (nat len) v), w)),
      spi_handle = 0, initialized = True\<rparr>"

definition still_timer :: "unit sx127x_timer_ctx_t" where
  "still_timer = sx127x_timer_init (Some (\<lambda>w. (0, w))) (Some (\<lambda>ms w. w))"

definition watched_machine :: "u8 option \<Rightarrow> u8 \<Rightarrow> (unit \<times> bus_write list) machine" where
  "watched_machine bad v = (boot ((), []))\<lparr>sx127x_spi_port := spy_port (flaky_port bad v),
     sx127x_logger := spy_logger zero_logger, sx127x_timer_ctx := spy_timer still_timer\<rparr>"

lemma watched_machine_sel [simp]:
  "sx127x_spi_port (watched_machine bad v) = spy_port (flaky_port bad v)"
  "sx127x_logger (watched_machine bad v) = spy_logger zero_logger"
  "sx127x_timer_ctx (watched_machine bad v) = spy_timer still_timer"
  "world (watched_machine bad v) = ((), [])"
  "lora_bandwidth_hz (watched_machine bad v) = 125000" "spreading_factor (watched_machine bad v) = 12"
  "initialized (spy_port (flaky_port bad v))"
  by (simp_all add: watched_machine_def boot_def spy_port_def flaky_port_def)

lemma watched_write [simp]:
  "sx127x_spi_port s = spy_port (flaky_port bad v) \<Longrightarrow> spi_write reg data len s =
     (let ret = if Some reg = bad then SX_INVALID_STATE else SX_OK in
      Some (Ret ret (s\<lparr>world := ((), snd (world s) @ [(reg, data, ret)])\<rparr>)))"
  by (simp add: spi_write_def on_world_def spi_burst_write_reg_def spy_port_def flaky_port_def
      split: prod.splits)

lemma watched_read1 [simp]:
  "sx127x_spi_port s = spy_port (flaky_port bad v) \<Longrightarrow> spi_read1 reg old s = Some (Ret (SX_OK, v) s)"
  by (cases "world s")
    (simp add: spi_read1_def spi_read_def on_world_def spi_burst_read_reg_def spy_port_def flaky_port_def
      buf_write_def overlay_def)

lemma watched_usable [simp]: "usable (watched_machine bad v)"
proof -
  have "register_bus (flaky_port bad v)"
    by unfold_locales (auto simp: flaky_port_def)
  then show ?thesis
    by (simp add: usable_def spy_port_bus logger_ok_def spy_logger_def zero_logger_def spy_timer_def
        still_timer_def sx127x_timer_init_def)
qed

text \<open>The test doubles with a tap on the bus.\<close>

interpretation tapped: monitored_platform snd "tap_port test_port" "spy_logger l" "spy_timer (test_timer clock)"
  by (rule tapped_platform) (auto simp: counting_reader_def Let_def split: if_splits)

definition tapped_machine :: "test_world sx127x_timer_t \<Rightarrow> test_world \<Rightarrow> (test_world \<times> bus_event list) machine" where
  "tapped_machine clock w = (boot (w, []))\<lparr>sx127x_spi_port := tap_port test_port,
     sx127x_logger := spy_logger zero_logger, sx127x_timer_ctx := spy_timer (test_timer clock)\<rparr>"

lemma tapped_machine_sel [simp]:
  "sx127x_spi_port (tapped_machine clock w) = tap_port test_port"
  "sx127x_logger (tapped_machine clock w) = spy_logger zero_logger"
  "sx127x_timer_ctx (tapped_machine clock w) = spy_timer (test_timer clock)"
  "world (tapped_machine clock w) = (w, [])" "initialized (tap_port test_port)"
  by (simp_all add: tapped_machine_def boot_def tap_port_def)

lemma tapped_write:
  "sx127x_spi_port s = tap_port test_port \<Longrightarrow> world s = (w, xs) \<Longrightarrow> spi_write reg data len s =
     Some (Ret SX_OK (s\<lparr>world := (snd (recording_writer 0 reg data len w), xs @ [Wrote reg data SX_OK])\<rparr>))"
  by (simp add: spi_write_def on_world_def spi_burst_write_reg_def tap_port_def recording_writer_def)

lemma tapped_read1:
  "sx127x_spi_port s = tap_port test_port \<Longrightarrow> world s = (w, xs) \<Longrightarrow> reg \<noteq> 0x12 \<Longrightarrow> spi_read1 reg old s =
     Some (Ret (SX_OK, read_responses w reg)
       (s\<lparr>world := (w, xs @ [Fetched reg [read_responses w reg] SX_OK])\<rparr>))"
  by (simp add: spi_read1_def spi_read_def on_world_def spi_burst_read_reg_def tap_port_def counting_reader_def
      buf_write_def overlay_def)

lemma tapped_irq:
  "sx127x_spi_port s = tap_port test_port \<Longrightarrow> world s = (w, xs) \<Longrightarrow> spi_read1 0x12 old s =
     (let n = irq_read_count w + 1; v = if n \<ge> irq_fires_on_read w then irq_mask_value w else 0 in
      Some (Ret (SX_OK, v) (s\<lparr>world := (w\<lparr>irq_read_count := n\<rparr>, xs @ [Fetched 0x12 [v] SX_OK])\<rparr>)))"
  by (simp add: spi_read1_def spi_read_def on_world_def spi_burst_read_reg_def tap_port_def counting_reader_def
      buf_write_def overlay_def Let_def)

lemma tapped_time:
  "sx127x_timer_ctx s = spy_timer (test_timer zero_clock) \<Longrightarrow> time_us s = Some (Ret 0 s)"
  by (cases "world s") (simp add: time_us_def on_world_def sx127x_timer_get_time_us_def spy_timer_def
    test_timer_def sx127x_timer_init_def zero_clock_def)

lemma tapped_delay: "sx127x_timer_ctx s = spy_timer (test_timer clock) \<Longrightarrow> delay_ms ms s = Some (Ret () s)"
  by (cases "world s") (simp add: delay_ms_def on_world_def sx127x_task_delay_ms_def spy_timer_def
    test_timer_def sx127x_timer_init_def noop_delay_def)

end
