(* ===== verification/Config.thy ===== *)
theory Config
  imports Mocks
begin

text \<open>
  \<open>src/sx127x_config.c\<close> and \<open>include/sx127x_config.h\<close>: the operating modes, the channel arithmetic, the
  spreading factor and bandwidth settings and the initialisation of the chip. \<open>size_t\<close> and
  \<open>unsigned long\<close> are 64 bits wide, as on the hosts the tests run on.
\<close>

unbundle bit_operations_syntax

section \<open>Constants\<close>

definition FXOSC :: u64 where
  "FXOSC = 32000000"

definition lora_frequency_lf :: int where
  "lora_frequency_lf = 863000000"

definition lora_frequency_hf :: int where
  "lora_frequency_hf = 865000000"

definition CONFIG_TAG :: string where
  "CONFIG_TAG = ''SX1278 CONFIG DRIVER''"

definition MODE_LORA :: u8 where "MODE_LORA = push_bit 7 1"
definition MODE_LF :: u8 where "MODE_LF = push_bit 3 1"
definition MODE_SLEEP :: u8 where "MODE_SLEEP = 0b000"
definition MODE_STDBY :: u8 where "MODE_STDBY = 0b001"
definition MODE_TX :: u8 where "MODE_TX = 0b011"
definition MODE_RX_SINGLE :: u8 where "MODE_RX_SINGLE = 0b110"
definition MODE_RX_CONTINUOUS :: u8 where "MODE_RX_CONTINUOUS = 0b101"
definition MODE_FSK_RECEIVER :: u8 where "MODE_FSK_RECEIVER = 0b101"

lemmas mode_defs = MODE_LORA_def MODE_LF_def MODE_SLEEP_def MODE_STDBY_def MODE_TX_def
  MODE_RX_SINGLE_def MODE_RX_CONTINUOUS_def MODE_FSK_RECEIVER_def

text \<open>The two enumerations are unsigned integers in C: a caller can pass any value.\<close>

type_synonym bandwidths = u32

definition b62k5 :: bandwidths where "b62k5 = push_bit 1 0b11"
definition b125k :: bandwidths where "b125k = 0b111"
definition b250k :: bandwidths where "b250k = push_bit 3 0b1"
definition b500k :: bandwidths where "b500k = 0b1001"

lemmas bandwidths_defs = b62k5_def b125k_def b250k_def b500k_def

type_synonym coding_rate = u32

definition cr4d5 :: coding_rate where "cr4d5 = 0b1"
definition cr4d6 :: coding_rate where "cr4d6 = 0b10"
definition cr4d7 :: coding_rate where "cr4d7 = 0b11"
definition cr4d8 :: coding_rate where "cr4d8 = push_bit 2 0b1"

lemmas coding_rate_defs = cr4d5_def cr4d6_def cr4d7_def cr4d8_def

definition get_bw_value :: "bandwidths \<Rightarrow> u32" where
  "get_bw_value bw =
     (if bw = b62k5 then 62500
      else if bw = b125k then 125000
      else if bw = b250k then 250000
      else if bw = b500k then 500000
      else 0)"

section \<open>Register helpers\<close>

definition sx1278_read_irq :: "u8 \<Rightarrow> ('w, 'z, sx127x_err_t \<times> u8) mcmd" where
  "sx1278_read_irq data = spi_read1 0x12 data"

definition sx1278_clear_irq :: "('w, 'z, sx127x_err_t) mcmd" where
  "sx1278_clear_irq = (let data = 0xFF in spi_write 0x12 [data] 1)"

definition sx1278_switch_mode :: "u8 \<Rightarrow> ('w, 'z, sx127x_err_t) mcmd" where
  "sx1278_switch_mode mode_register = spi_write 0x01 [mode_register] 1"

definition sx_1278_get_op_mode :: "u8 \<Rightarrow> ('w, 'z, sx127x_err_t \<times> u8) mcmd" where
  "sx_1278_get_op_mode data = spi_read1 0x01 data"

section \<open>Channels\<close>

text \<open>
  \<open>(hf - lf - 2 * bw) / bw\<close> in 32-bit unsigned arithmetic; \<open>floor\<close> of an integer is that integer.
\<close>

definition channel_count :: "u32 \<Rightarrow> u32" where
  "channel_count bw = (word_of_int (lora_frequency_hf - lora_frequency_lf) - 2 * bw) div bw"

definition calculate_channel_num :: "('w, 'z, u64) mcmd" where
  "calculate_channel_num =
     andThen (gets lora_bandwidth_hz) (\<lambda>bw.
     if bw = 0 then crash Div_By_Zero else give (ucast (channel_count bw)))"

text \<open>\<open>lf + n * bw + bw / 2\<close>, and the register value \<open>(raw_freq << 19) / FXOSC\<close>.\<close>

definition raw_freq :: "u32 \<Rightarrow> u64 \<Rightarrow> u64" where
  "raw_freq bw n = word_of_int lora_frequency_lf + n * ucast bw + ucast (bw div 2)"

definition frf_of :: "u64 \<Rightarrow> u32" where
  "frf_of freq = ucast (push_bit 19 freq div FXOSC)"

definition sx_1278_switch_to_nth_channel :: "u64 \<Rightarrow> ('w, 'z, sx127x_err_t) mcmd" where
  "sx_1278_switch_to_nth_channel n =
     andThen calculate_channel_num (\<lambda>cn.
     if n \<ge> cn then give SX_INVALID_ARGUMENT
     else
       andThen (gets lora_bandwidth_hz) (\<lambda>bw.
       let frf = frf_of (raw_freq bw n);
           data0 = ucast (drop_bit 16 frf AND 0xFF) in
       ok_or_return (spi_write 0x06 [data0] 1) (
       let data1 = ucast (drop_bit 8 frf AND 0xFF) in
       ok_or_return (spi_write 0x07 [data1] 1) (
       let data2 = ucast (frf AND 0xFF) in
       spi_write 0x08 [data2] 1))))"

section \<open>Spreading factor and bandwidth\<close>

definition set_spreading_factor_var :: "u8 \<Rightarrow> ('w, 'z, unit) mcmd" where
  "set_spreading_factor_var sf = modify (\<lambda>s. s\<lparr>spreading_factor := sf\<rparr>)"

text \<open>The end of both settings: back to sleep, with a message when that fails.\<close>

definition end_in_sleep :: "('w, 'z, sx127x_err_t) mcmd" where
  "end_in_sleep =
     andThen (sx1278_switch_mode (MODE_LORA OR MODE_SLEEP)) (\<lambda>ret.
     andThen (if ret \<noteq> SX_OK
              then log_err CONFIG_TAG ''error occured while switching to sleep mode''
              else give ()) (\<lambda>_.
     give ret))"

definition sx_1278_set_spreading_factor :: "u8 \<Rightarrow> ('w, 'z, sx127x_err_t) mcmd" where
  "sx_1278_set_spreading_factor sf =
     checked (sx1278_switch_mode (MODE_LORA OR MODE_STDBY)) (log_err CONFIG_TAG ''couldnt switch to standby'') (
     if sf < 6 \<or> sf > 12 then give SX_INVALID_ARGUMENT
     else
       let data = 0b00000100 OR push_bit 4 sf in
       andThen (spi_write 0x1E [data] 1) (\<lambda>ret1.
       andThen (if ret1 = SX_OK then set_spreading_factor_var sf else give ()) (\<lambda>_.
       end_in_sleep)))"

definition sx1278_set_bandwidth ::
  "bandwidths \<Rightarrow> coding_rate \<Rightarrow> bool \<Rightarrow> ('w, 'z, sx127x_err_t) mcmd" where
  "sx1278_set_bandwidth bw cr enable_explicit_headers =
     checked (sx1278_switch_mode (MODE_LORA OR MODE_STDBY)) (log_err CONFIG_TAG ''couldnt switch to standby'') (
     let data0 = ucast (push_bit 4 bw OR push_bit 1 cr) :: u8;
         data = (if \<not> enable_explicit_headers then data0 OR 0x01 else data0 AND NOT 0x01) in
     andThen (spi_write 0x1D [data] 1) (\<lambda>ret1.
     if ret1 = SX_OK then
       andThen (modify (\<lambda>s. s\<lparr>lora_bandwidth_hz := get_bw_value bw\<rparr>)) (\<lambda>_.
       checked (sx_1278_switch_to_nth_channel 0)
         (log_err CONFIG_TAG ''error occured while switching back to 0th channel'')
         end_in_sleep)
     else end_in_sleep))"

section \<open>Initialisation\<close>

definition initialize_sx_1278 ::
  "'w spi_port_t \<Rightarrow> 'w logger_ctx_t \<Rightarrow> 'w sx127x_timer_ctx_t \<Rightarrow> ('w, 'z, sx127x_err_t) mcmd" where
  "initialize_sx_1278 spi lg tm =
     andThen (modify (\<lambda>s. s\<lparr>sx127x_spi_port := spi, sx127x_logger := lg, sx127x_timer_ctx := tm\<rparr>)) (\<lambda>_.
     andThen (spi_read1 0x42 0) (\<lambda>(ret, data).
     if ret \<noteq> SX_OK then give ret
     else if data \<noteq> 0x12 then
       andThen (log_err CONFIG_TAG ''sx1278 register version is not valid'') (\<lambda>_. give SX_INVALID_RESPONSE)
     else
       ok_or_return (sx1278_switch_mode (MODE_LORA OR MODE_SLEEP)) (
       ok_or_return (spi_write 0x0D [0x00] 1) (
       ok_or_return (spi_write 0x0F [0x00] 1) (
       ok_or_return (spi_write 0x0E [0x00] 1) (
       ok_or_return (sx1278_switch_mode (MODE_LORA OR MODE_STDBY)) (
       ok_or_return (sx_1278_switch_to_nth_channel 0) (
       ok_or_return (spi_write 0x09 [0b11111100] 1) (
       ok_or_return (spi_write 0x2B [0b00101011] 1) (
       ok_or_return (spi_write 0x4D [0x84] 1) (
       ok_or_return (spi_write 0x1D [0b01110010] 1) (
       ok_or_return (andThen (gets spreading_factor) sx_1278_set_spreading_factor) (
       ok_or_return (spi_write 0x1F [0xFF] 1) (
       ok_or_return (spi_write 0x20 [0x00] 1) (
       ok_or_return (spi_write 0x21 [0x18] 1) (
       spi_write 0x39 [0b11010011] 1))))))))))))))))"

section \<open>Channel arithmetic\<close>

definition known_bandwidth :: "u32 \<Rightarrow> bool" where
  "known_bandwidth bw \<longleftrightarrow> bw = 62500 \<or> bw = 125000 \<or> bw = 250000 \<or> bw = 500000"

lemma known_bandwidth_cases:
  assumes "known_bandwidth bw"
  obtains "bw = 62500" | "bw = 125000" | "bw = 250000" | "bw = 500000"
  using assms by (auto simp: known_bandwidth_def)

lemma unat_channel_count:
  assumes "known_bandwidth bw"
  shows "unat (channel_count bw) = (2000000 - 2 * unat bw) div unat bw"
  using assms
  by (cases rule: known_bandwidth_cases)
    (simp_all add: channel_count_def lora_frequency_hf_def lora_frequency_lf_def)

lemma unat_u64_of_u32: "unat (ucast (x :: u32) :: u64) = unat x"
proof -
  have "unat x < 2 ^ 64" using unsigned_less [of x, where 'a = nat] by simp
  then show ?thesis by (simp add: unsigned_ucast_eq take_bit_nat_eq_self)
qed

lemma unat_raw_freq:
  assumes b: "known_bandwidth bw" and n: "n < ucast (channel_count bw)"
  shows "unat (raw_freq bw n) = 863000000 + unat n * unat bw + unat bw div 2 \<and>
     unat (raw_freq bw n) < 865000000"
proof -
  have "unat n < unat (ucast (channel_count bw) :: u64)" using n by (simp add: word_less_nat_alt)
  also have "\<dots> = unat (channel_count bw)" 
    by (rule unat_u64_of_u32)
  finally have u: "unat n < (2000000 - 2 * unat bw) div unat bw"
    by (simp add: unat_channel_count [OF b])
  show ?thesis
    using b u
    by (cases rule: known_bandwidth_cases)
      (simp_all add: raw_freq_def lora_frequency_lf_def unat_word_ariths)
qed

lemma unat_frf_of:
  assumes "unat f < 2 ^ 31"
  shows "unat (frf_of f) = unat f * 2 ^ 19 div 32000000"
proof -
  have "unat (push_bit 19 f) = unat f * 2 ^ 19"
    using assms by (simp add: push_bit_eq_mult unat_word_ariths)
  then have "unat (push_bit 19 f div FXOSC) = unat f * 2 ^ 19 div 32000000"
    by (simp add: unat_div FXOSC_def)
  moreover have "unat f * 2 ^ 19 div 32000000 < 2 ^ 32" using assms by simp
  ultimately show ?thesis by (simp add: frf_of_def unsigned_ucast_eq take_bit_eq_mod)
qed

lemma unat_low_byte: "unat (ucast (x AND 0xFF) :: u8) = unat (x :: u32) mod 256"
proof -
  have "x AND 0xFF = take_bit 8 x" by (simp add: take_bit_eq_mask mask_eq_exp_minus_1)
  then have "unat (x AND 0xFF) = unat x mod 256" by (simp add: take_bit_eq_mod unat_mod)
  then show ?thesis by (simp add: unsigned_ucast_eq take_bit_eq_mod)
qed

lemma unat_drop_bits:
  "unat (drop_bit 16 (x :: u32)) = unat x div 65536" "unat (drop_bit 8 x) = unat x div 256"
  by (simp_all add: drop_bit_eq_div unat_div)

lemma three_bytes:
  assumes "unat (x :: u32) < 2 ^ 24"
  shows "unat (ucast (drop_bit 16 x AND 0xFF) :: u8) * 65536
      + unat (ucast (drop_bit 8 x AND 0xFF) :: u8) * 256 + unat (ucast (x AND 0xFF) :: u8) = unat x"
proof -
  let ?m = "unat x"
  have q: "?m div 65536 = ?m div 256 div 256" by (simp add: div_mult2_eq [symmetric])
  have "?m div 65536 mod 256 = ?m div 65536" using assms by simp
  then have "?m div 65536 mod 256 * 65536 + ?m div 256 mod 256 * 256 + ?m mod 256
      = (?m div 256 div 256 * 256 + ?m div 256 mod 256) * 256 + ?m mod 256"
    unfolding q by (simp only: add_mult_distrib mult.assoc)
  also have "\<dots> = ?m" by (simp only: div_mult_mod_eq)
  finally show ?thesis unfolding unat_low_byte unat_drop_bits .
qed

section \<open>Runs\<close>

text \<open>A table of single-byte register writes, left at the first that fails.\<close>

fun run_writes :: "(u8 \<times> u8) list \<Rightarrow> ('w, 'z, sx127x_err_t) mcmd" where
  "run_writes [] = give SX_OK"
| "run_writes ((reg, v) # ws) = ok_or_return (spi_write reg [v] 1) (run_writes ws)"

lemma ok_or_return_last: "ok_or_return m (give SX_OK) = m"
proof
  fix s
  show "ok_or_return m (give SX_OK) s = m s"
    by (auto simp: ok_or_return_def andThen_def split: option.splits outcome.splits)
qed

lemma calm_run_writes [calm_intros]: "calm (run_writes ws)"
proof (induction ws rule: run_writes.induct)
  case 1
  show ?case unfolding run_writes.simps by (rule calm_give)
next
  case (2 reg v ws)
  then show ?case unfolding run_writes.simps by (intro calm_intros)
qed

definition frf_writes :: "u32 \<Rightarrow> u64 \<Rightarrow> (u8 \<times> u8) list" where
  "frf_writes bw n = (let frf = frf_of (raw_freq bw n) in
     [(0x06, ucast (drop_bit 16 frf AND 0xFF)), (0x07, ucast (drop_bit 8 frf AND 0xFF)),
      (0x08, ucast (frf AND 0xFF))])"

lemma channel_num_run:
  "lora_bandwidth_hz s \<noteq> 0 \<Longrightarrow>
   calculate_channel_num s = Some (Ret (ucast (channel_count (lora_bandwidth_hz s))) s)"
  by (simp add: calculate_channel_num_def)

lemma switch_channel_run:
  assumes "lora_bandwidth_hz s \<noteq> 0"
  shows "sx_1278_switch_to_nth_channel n s =
     (if n < ucast (channel_count (lora_bandwidth_hz s))
      then run_writes (frf_writes (lora_bandwidth_hz s) n) s
      else Some (Ret SX_INVALID_ARGUMENT s))"
proof (cases "n < ucast (channel_count (lora_bandwidth_hz s))")
  case True
  then have "\<not> ucast (channel_count (lora_bandwidth_hz s)) \<le> n" by simp
  then show ?thesis
    by (simp only: sx_1278_switch_to_nth_channel_def frf_writes_def Let_def if_False True if_True
        andThen_Ret [of calculate_channel_num, OF channel_num_run [OF assms]]
        andThen_Ret [of "gets lora_bandwidth_hz", OF gets_apply] run_writes.simps ok_or_return_last)
next
  case False
  then have "ucast (channel_count (lora_bandwidth_hz s)) \<le> n" by simp
  then show ?thesis
    by (simp only: sx_1278_switch_to_nth_channel_def False if_False if_True give_apply
        andThen_Ret [of calculate_channel_num, OF channel_num_run [OF assms]])
qed

lemma switch_channel_zero:
  "lora_bandwidth_hz s = 0 \<Longrightarrow> sx_1278_switch_to_nth_channel n s = Some (Fault Div_By_Zero)"
  by (simp add: sx_1278_switch_to_nth_channel_def calculate_channel_num_def)

lemma calm_helpers [calm_intros]:
  "calm (sx1278_read_irq d)" "calm sx1278_clear_irq" "calm (sx1278_switch_mode m)"
  "calm (sx_1278_get_op_mode d)"
  unfolding sx1278_read_irq_def sx1278_clear_irq_def sx1278_switch_mode_def sx_1278_get_op_mode_def Let_def
  by (intro calm_intros)+

lemma calm_end_in_sleep [calm_intros]: "calm end_in_sleep"
  unfolding end_in_sleep_def by (intro calm_intros) (simp_all add: CONFIG_TAG_def)

lemma switch_channel_returns:
  assumes "usable s" and "lora_bandwidth_hz s \<noteq> 0"
  shows "\<exists>ret t. sx_1278_switch_to_nth_channel n s = Some (Ret ret t) \<and> world_only s t"
  using calm_run_writes assms unfolding switch_channel_run [OF assms(2)]
  by (auto simp: calm_def)

section \<open>Properties\<close>

text \<open>C23: Selecting a channel: for each supported bandwidth a channel number below the channel count
  programs the frequency \<open>863 MHz + n * bw + bw / 2\<close>, which lies below 865 MHz, into the three frequency
  registers, most significant byte first, stopping at the first failed write; the register value is
  exact to one step of the synthesizer (32 MHz / 2^19). Any other channel number is
  rejected without touching the bus.\<close>

theorem switch_channel_programs_frequency:
  assumes "known_bandwidth (lora_bandwidth_hz s)"
  shows "if unat n < (2000000 - 2 * unat (lora_bandwidth_hz s)) div unat (lora_bandwidth_hz s)
    then \<exists>b2 b1 b0 freq frf.
      sx_1278_switch_to_nth_channel n s = run_writes [(0x06, b2), (0x07, b1), (0x08, b0)] s \<and>
      freq = 863000000 + unat n * unat (lora_bandwidth_hz s) + unat (lora_bandwidth_hz s) div 2 \<and>
      freq < 865000000 \<and> frf = unat b2 * 65536 + unat b1 * 256 + unat b0 \<and>
      frf * 32000000 \<le> freq * 2 ^ 19 \<and> freq * 2 ^ 19 < (frf + 1) * 32000000
    else sx_1278_switch_to_nth_channel n s = Some (Ret SX_INVALID_ARGUMENT s)"
proof -
  let ?bw = "lora_bandwidth_hz s"
  have nz: "?bw \<noteq> 0" using assms by (auto simp: known_bandwidth_def)
  have n: "n < ucast (channel_count ?bw) \<longleftrightarrow> unat n < (2000000 - 2 * unat ?bw) div unat ?bw"
    by (simp add: word_less_nat_alt unat_u64_of_u32 unat_channel_count [OF assms])
  show ?thesis
  proof (cases "n < ucast (channel_count ?bw)")
    case True
    define f where "f = unat (raw_freq ?bw n)"
    have f: "f = 863000000 + unat n * unat ?bw + unat ?bw div 2" "f < 865000000"
      using unat_raw_freq [OF assms True] by (simp_all add: f_def)
    have frf: "unat (frf_of (raw_freq ?bw n)) = f * 2 ^ 19 div 32000000"
      using f(2) unfolding f_def by (intro unat_frf_of) simp
    then have "unat (frf_of (raw_freq ?bw n)) < 2 ^ 24" using f(2) by simp
    define b2 b1 b0 :: u8 where "b2 = ucast (drop_bit 16 (frf_of (raw_freq ?bw n)) AND 0xFF)"
      and "b1 = ucast (drop_bit 8 (frf_of (raw_freq ?bw n)) AND 0xFF)"
      and "b0 = ucast (frf_of (raw_freq ?bw n) AND 0xFF)"
    note bs = this
    have b: "f * 2 ^ 19 div 32000000 = unat b2 * 65536 + unat b1 * 256 + unat b0"
      using three_bytes [OF \<open>unat (frf_of (raw_freq ?bw n)) < 2 ^ 24\<close>] frf unfolding bs by argo
    have d: "f * 2 ^ 19 div 32000000 * 32000000 \<le> f * 2 ^ 19"
      "f * 2 ^ 19 < (f * 2 ^ 19 div 32000000 + 1) * 32000000"
      by (simp_all only: div_times_less_eq_dividend, simp)
    have "sx_1278_switch_to_nth_channel n s = run_writes [(0x06, b2), (0x07, b1), (0x08, b0)] s"
      using switch_channel_run [OF nz, of n] True unfolding frf_writes_def Let_def bs by argo
    then have "\<exists>b2 b1 b0 freq frf.
      sx_1278_switch_to_nth_channel n s = run_writes [(0x06, b2), (0x07, b1), (0x08, b0)] s \<and>
      freq = 863000000 + unat n * unat ?bw + unat ?bw div 2 \<and>
      freq < 865000000 \<and> frf = unat b2 * 65536 + unat b1 * 256 + unat b0 \<and>
      frf * 32000000 \<le> freq * 2 ^ 19 \<and> freq * 2 ^ 19 < (frf + 1) * 32000000"
      using f d unfolding b by blast
    with n True show ?thesis by argo
  next
    case False
    then show ?thesis using switch_channel_run [OF nz, of n] n by simp
  qed
qed

theorem switch_channel_programs_frequency_witness:
  "\<exists>b2 b1 b0. sx_1278_switch_to_nth_channel 13 (test_machine zero_clock (reset_state (\<lambda>_. 0) 1 0))
      = run_writes [(0x06, b2), (0x07, b1), (0x08, b0)] (test_machine zero_clock (reset_state (\<lambda>_. 0) 1 0)) \<and>
     (unat b2 * 65536 + unat b1 * 256 + unat b0) * 32000000 \<le> 864687500 * 2 ^ 19"
proof -
  have k: "known_bandwidth (lora_bandwidth_hz (test_machine zero_clock (reset_state (\<lambda>_. 0) 1 0)))"
    by (simp add: known_bandwidth_def)
  have n: "unat (13 :: u64) < (2000000 - 2 * unat (125000 :: u32)) div unat (125000 :: u32)" by simp
  obtain b2 b1 b0 where
    "sx_1278_switch_to_nth_channel 13 (test_machine zero_clock (reset_state (\<lambda>_. 0) 1 0))
      = run_writes [(0x06, b2), (0x07, b1), (0x08, b0)] (test_machine zero_clock (reset_state (\<lambda>_. 0) 1 0))"
    "(unat b2 * 65536 + unat b1 * 256 + unat b0) * 32000000
      \<le> (863000000 + unat (13 :: u64) * unat (125000 :: u32) + unat (125000 :: u32) div 2) * 2 ^ 19"
    using switch_channel_programs_frequency [OF k, of 13] unfolding test_machine_sel if_P [OF n] by blast
  then show ?thesis by (intro exI [of _ b2] exI [of _ b1] exI [of _ b0]) simp
qed

section \<open>What the settings write\<close>

lemma CONFIG_TAG_length [simp]: "length CONFIG_TAG = 20"
  by (simp add: CONFIG_TAG_def)

lemma calm_log_give: "length tag + length str \<le> 4093 \<Longrightarrow> calm (andThen (log_err tag str) (\<lambda>_. give r))"
  by (intro calm_intros)

lemma mode_bytes [simp]:
  "MODE_LORA OR MODE_SLEEP = 0x80" "MODE_LORA OR MODE_STDBY = 0x81" "MODE_LORA OR MODE_TX = 0x83"
  "MODE_LORA OR MODE_RX_CONTINUOUS = 0x85" "MODE_LORA OR MODE_RX_SINGLE = 0x86"
  by (simp_all add: mode_defs)

context observed_platform
begin

lemma switch_mode_adds:
  "here s \<Longrightarrow> sx1278_switch_mode m s = Some (Ret ret t) \<Longrightarrow> adds s t [(0x01, [m], ret)] \<and> world_only s t"
  unfolding sx1278_switch_mode_def by (rule write_adds)

lemma clear_irq_adds:
  "here s \<Longrightarrow> sx1278_clear_irq s = Some (Ret ret t) \<Longrightarrow> adds s t [(0x12, [0xFF], ret)] \<and> world_only s t"
  unfolding sx1278_clear_irq_def Let_def by (rule write_adds)

lemma run_writes_adds:
  "here s \<Longrightarrow> run_writes ws s = Some (Ret SX_OK t) \<Longrightarrow>
   adds s t (map (\<lambda>(reg, v). (reg, [v], SX_OK)) ws) \<and> world_only s t"
proof (induction ws arbitrary: s rule: run_writes.induct)
  case 1
  then show ?case by (simp add: adds_refl)
next
  case (2 reg v ws)
  obtain u where u: "spi_write reg [v] 1 s = Some (Ret SX_OK u)" "run_writes ws u = Some (Ret SX_OK t)"
    using 2(3) by (auto simp: ok_or_return_OK)
  have a: "adds s u [(reg, [v], SX_OK)]" "world_only s u" using write_adds [OF 2(2) u(1)] by auto
  with 2(1) [OF adds_here [OF a(1)] u(2)] show ?case
    using adds_trans world_only_trans by fastforce
qed

lemma maybe_log_adds:
  "here s \<Longrightarrow> (if b then log_err tag str else give ()) s = Some (Ret x t) \<Longrightarrow> adds s t [] \<and> world_only s t"
  using log_err_adds by (auto simp: adds_refl split: if_splits)

lemma set_spreading_factor_adds:
  assumes h: "here s" and run: "sx_1278_set_spreading_factor sf s = Some (Ret SX_OK t)"
  shows "\<exists>r. adds s t [(0x01, [0x81], SX_OK), (0x1E, [0x04 OR push_bit 4 sf], r), (0x01, [0x80], SX_OK)] \<and>
     t = s\<lparr>world := world t, spreading_factor := if r = SX_OK then sf else spreading_factor s\<rparr> \<and>
     6 \<le> sf \<and> sf \<le> 12"
proof -
  obtain s1 r s2 s3 s4 where s1: "sx1278_switch_mode 0x81 s = Some (Ret SX_OK s1)"
    and sf: "6 \<le> sf" "sf \<le> 12"
    and s2: "spi_write 0x1E [0x04 OR push_bit 4 sf] 1 s1 = Some (Ret r s2)"
    and s3: "s3 = (if r = SX_OK then s2\<lparr>spreading_factor := sf\<rparr> else s2)"
    and s4: "sx1278_switch_mode 0x80 s3 = Some (Ret SX_OK s4)" and t: "t = s4"
    using run by (auto simp: sx_1278_set_spreading_factor_def checked_OK andThen_eq_Ret Let_def
        set_spreading_factor_var_def end_in_sleep_def not_less split: if_splits)
  have 1: "adds s s1 [(0x01, [0x81], SX_OK)]" "world_only s s1" using switch_mode_adds [OF h s1] by auto
  have 2: "adds s1 s2 [(0x1E, [0x04 OR push_bit 4 sf], r)]" "world_only s1 s2"
    using write_adds [OF adds_here [OF 1(1)] s2] by auto
  have 3: "adds s2 s3 []" using 2(1) by (auto simp: s3 adds_def here_def)
  have 4: "adds s3 s4 [(0x01, [0x80], SX_OK)]" "world_only s3 s4"
    using switch_mode_adds [OF adds_here [OF 3] s4] by auto
  have "adds s t [(0x01, [0x81], SX_OK), (0x1E, [0x04 OR push_bit 4 sf], r), (0x01, [0x80], SX_OK)]"
    using adds_trans [OF adds_trans [OF adds_trans [OF 1(1) 2(1)] 3] 4(1)] t by simp
  moreover have "t = s\<lparr>world := world t, spreading_factor := if r = SX_OK then sf else spreading_factor s\<rparr>"
    using 1(2) 2(2) 4(2) by (auto simp: world_only_def s3 t)
  ultimately show ?thesis using sf by blast
qed

end

text \<open>Setting the spreading factor. When the call reports success the chip was put in standby, the
  modem register got the factor in its high bits, and the chip went to sleep; the factor is between 6
  and 12. But the answer \<open>r\<close> to the write of the modem register is lost: a failed write is reported as
  success, and only the remembered factor stays as it was.\<close>

theorem set_spreading_factor_success:
  assumes "observed_platform obs (sx127x_spi_port s) (sx127x_logger s) (sx127x_timer_ctx s)"
    and "initialized (sx127x_spi_port s)"
    and "sx_1278_set_spreading_factor sf s = Some (Ret SX_OK t)"
  shows "\<exists>r. obs (world t) = obs (world s) @
       [(0x01, [0x81], SX_OK), (0x1E, [0x04 OR push_bit 4 sf], r), (0x01, [0x80], SX_OK)] \<and>
     t = s\<lparr>world := world t, spreading_factor := if r = SX_OK then sf else spreading_factor s\<rparr> \<and>
     6 \<le> sf \<and> sf \<le> 12"
proof -
  have "observed_platform.here (sx127x_spi_port s) (sx127x_logger s) (sx127x_timer_ctx s) s"
    using assms(2) by (simp add: observed_platform.here_def [OF assms(1)])
  from observed_platform.set_spreading_factor_adds [OF assms(1) this assms(3)] show ?thesis
    by (auto simp: observed_platform.adds_def [OF assms(1)])
qed

theorem set_spreading_factor_success_witness:
  "\<exists>t r. sx_1278_set_spreading_factor 7 (watched_machine (Some 0x1E) 0) = Some (Ret SX_OK t) \<and>
     snd (world t) = [(0x01, [0x81], SX_OK), (0x1E, [0x74], r), (0x01, [0x80], SX_OK)]"
proof -
  obtain t where t: "sx_1278_set_spreading_factor 7 (watched_machine (Some 0x1E) 0) = Some (Ret SX_OK t)"
    by (simp add: sx_1278_set_spreading_factor_def end_in_sleep_def checked_def sx1278_switch_mode_def andThen_def Let_def)
  have "observed_platform snd (sx127x_spi_port (watched_machine (Some 0x1E) 0))
      (sx127x_logger (watched_machine (Some 0x1E) 0)) (sx127x_timer_ctx (watched_machine (Some 0x1E) 0))"
    by (simp add: spied.observed_platform_axioms)
  from set_spreading_factor_success [OF this _ t] t show ?thesis by auto
qed

lemma channel_and_sleep:
  fixes s :: "('w, 'z) machine_scheme"
  assumes "usable s" and "lora_bandwidth_hz s \<noteq> 0" and "length str \<le> 100"
  shows "\<exists>r t. checked (sx_1278_switch_to_nth_channel n) (log_err CONFIG_TAG str) end_in_sleep s
     = Some (Ret r t) \<and> world_only s t"
proof -
  obtain r3 s3 where s3: "sx_1278_switch_to_nth_channel n s = Some (Ret r3 s3)" "world_only s s3"
    using switch_channel_returns [OF assms(1,2)] by blast
  have u3: "usable s3" using world_only_usable [OF s3(2)] assms(1) by simp
  let ?rest = "(if r3 \<noteq> SX_OK then andThen (log_err CONFIG_TAG str) (\<lambda>_. give r3) else end_in_sleep)
      :: ('w, 'z, sx127x_err_t) mcmd"
  have "calm ?rest" using assms(3) by (simp add: calm_end_in_sleep calm_log_give)
  then obtain r t where t: "?rest s3 = Some (Ret r t)" "world_only s3 t" using calmE [OF _ u3] by metis
  have "checked (sx_1278_switch_to_nth_channel n) (log_err CONFIG_TAG str) end_in_sleep s = ?rest s3"
    unfolding checked_def by (rule andThen_Ret [of "sx_1278_switch_to_nth_channel n", OF s3(1)])
  then show ?thesis using t world_only_trans [OF s3(2) t(2)] by auto
qed

text \<open>Setting the bandwidth once the register is written: the new bandwidth stays, and zero divides.\<close>

lemma set_bandwidth_stored:
  fixes s :: "('w, 'z) machine_scheme"
  assumes run: "sx1278_set_bandwidth bw cr hdr s =
      checked (sx_1278_switch_to_nth_channel 0)
        (log_err CONFIG_TAG ''error occured while switching back to 0th channel'') end_in_sleep
        (s2\<lparr>lora_bandwidth_hz := get_bw_value bw\<rparr>)"
    and w: "world_only s s2" and s2: "usable s2"
  shows "if get_bw_value bw \<noteq> 0
    then \<exists>ret w. sx1278_set_bandwidth bw cr hdr s = Some (Ret ret (s\<lparr>world := w, lora_bandwidth_hz := get_bw_value bw\<rparr>))
    else sx1278_set_bandwidth bw cr hdr s = Some (Fault Div_By_Zero)"
proof (cases "get_bw_value bw = 0")
  case True
  then show ?thesis
    using run switch_channel_zero [of "s2\<lparr>lora_bandwidth_hz := get_bw_value bw\<rparr>" 0] by (simp add: checked_def)
next
  case False
  let ?s = "s2\<lparr>lora_bandwidth_hz := get_bw_value bw\<rparr>"
  have "usable ?s" using s2 by (simp add: usable_def)
  then obtain r t where t: "checked (sx_1278_switch_to_nth_channel 0)
      (log_err CONFIG_TAG ''error occured while switching back to 0th channel'') end_in_sleep ?s
      = Some (Ret r t)" "world_only ?s t"
    using channel_and_sleep [of ?s, where n = 0
      and str = "''error occured while switching back to 0th channel''"] False by auto
  then have "t = s\<lparr>world := world t, lora_bandwidth_hz := get_bw_value bw\<rparr>" using w by (auto simp: world_only_def)
  then show ?thesis using run t(1) False by auto
qed

text \<open>Setting the bandwidth. On a usable platform a supported bandwidth is always set or left alone
  (the call returns, and the remembered bandwidth is the old or the new one); for any other value of
  the enumeration type, as soon as the modem register was written the remembered bandwidth is zero
  and the call divides by it.\<close>

theorem set_bandwidth_total:
  fixes s :: "('w, 'z) machine_scheme"
  assumes "usable s"
  shows "if get_bw_value bw \<noteq> 0
    then \<exists>ret w. sx1278_set_bandwidth bw cr hdr s = Some (Ret ret (s\<lparr>world := w\<rparr>)) \<or>
           sx1278_set_bandwidth bw cr hdr s = Some (Ret ret (s\<lparr>world := w, lora_bandwidth_hz := get_bw_value bw\<rparr>))
    else sx1278_set_bandwidth bw cr hdr s = Some (Fault Div_By_Zero) \<or>
         (\<exists>ret w. sx1278_set_bandwidth bw cr hdr s = Some (Ret ret (s\<lparr>world := w\<rparr>)))"
proof -
  have early: ?thesis if "sx1278_set_bandwidth bw cr hdr s = Some (Ret r (s\<lparr>world := w\<rparr>))" for r w
  proof -
    from that have "\<exists>ret w. sx1278_set_bandwidth bw cr hdr s = Some (Ret ret (s\<lparr>world := w\<rparr>))" by blast
    then show ?thesis unfolding if_bool_eq_conj by blast
  qed
  obtain r1 s1 where s1: "sx1278_switch_mode (MODE_LORA OR MODE_STDBY) s = Some (Ret r1 s1)"
    "world_only s s1" "usable s1" using calmE [OF calm_helpers(3) assms] .
  show ?thesis
  proof (cases "r1 = SX_OK")
    case False
    obtain r t where "(andThen (log_err CONFIG_TAG ''couldnt switch to standby'') (\<lambda>_. give r1)) s1 = Some (Ret r t)" "world_only s1 t"
      by (rule calmE [OF calm_log_give [of CONFIG_TAG "''couldnt switch to standby''" r1] s1(3)]) simp_all
    with False s1 show ?thesis
      by (intro early [of r "world t"]) (auto simp: sx1278_set_bandwidth_def checked_def world_only_def)
  next
    case ok: True
    define data where "data = (let data0 = ucast (push_bit 4 bw OR push_bit 1 cr) :: u8 in
      if \<not> hdr then data0 OR 0x01 else data0 AND NOT 0x01)"
    obtain r2 s2 where s2: "spi_write 0x1D [data] 1 s1 = Some (Ret r2 s2)" "world_only s1 s2" "usable s2"
      using calmE [OF calm_spi_write s1(3)] .
    have w2: "world_only s s2" using world_only_trans [OF s1(2) s2(2)] .
    have run: "sx1278_set_bandwidth bw cr hdr s = (if r2 = SX_OK
        then checked (sx_1278_switch_to_nth_channel 0)
          (log_err CONFIG_TAG ''error occured while switching back to 0th channel'') end_in_sleep
          (s2\<lparr>lora_bandwidth_hz := get_bw_value bw\<rparr>)
        else end_in_sleep s2)"
      using s1(1) s2(1) ok by (simp add: sx1278_set_bandwidth_def checked_def Let_def data_def)
    show ?thesis
    proof (cases "r2 = SX_OK")
      case False
      obtain r t where "end_in_sleep s2 = Some (Ret r t)" "world_only s2 t"
        using calmE [OF calm_end_in_sleep s2(3)] .
      with run False w2 show ?thesis by (intro early [of r "world t"]) (auto simp: world_only_def)
    next
      case True
      then show ?thesis
        using set_bandwidth_stored [OF run [simplified True, simplified] w2 s2(3)] unfolding if_bool_eq_conj by blast
    qed
  qed
qed

theorem set_bandwidth_total_witness:
  "sx1278_set_bandwidth 0 cr4d5 True (watched_machine None 0) = Some (Fault Div_By_Zero)"
proof -
  have "\<not> (\<exists>ret w. sx1278_set_bandwidth 0 cr4d5 True (watched_machine None 0)
      = Some (Ret ret ((watched_machine None 0)\<lparr>world := w\<rparr>)))"
    by (simp add: sx1278_set_bandwidth_def checked_def sx1278_switch_mode_def andThen_def Let_def
        get_bw_value_def bandwidths_defs switch_channel_zero)
  then show ?thesis
    using set_bandwidth_total [OF watched_usable, of 0 cr4d5 True None 0]
    by (simp add: get_bw_value_def bandwidths_defs)
qed

section \<open>The initialisation as a table\<close>

fun then_writes :: "(u8 \<times> u8) list \<Rightarrow> ('w, 'z, sx127x_err_t) mcmd \<Rightarrow> ('w, 'z, sx127x_err_t) mcmd" where
  "then_writes [] k = k"
| "then_writes ((reg, v) # ws) k = ok_or_return (spi_write reg [v] 1) (then_writes ws k)"

definition accepted :: "(u8 \<times> u8) list \<Rightarrow> bus_write list" where
  "accepted ws = map (\<lambda>(reg, v). (reg, [v], SX_OK)) ws"

lemma accepted_simps [simp]:
  "accepted [] = []" "accepted ((reg, v) # ws) = (reg, [v], SX_OK) # accepted ws"
  by (simp_all add: accepted_def)

context observed_platform
begin

lemma then_writes_adds:
  "here s \<Longrightarrow> then_writes ws k s = Some (Ret SX_OK u) \<Longrightarrow>
   \<exists>t. adds s t (accepted ws) \<and> world_only s t \<and> k t = Some (Ret SX_OK u)"
proof (induction ws k arbitrary: s rule: then_writes.induct)
  case (1 k)
  then show ?case using adds_refl by fastforce
next
  case (2 reg v ws k)
  obtain t where t: "spi_write reg [v] 1 s = Some (Ret SX_OK t)" "then_writes ws k t = Some (Ret SX_OK u)"
    using 2(3) by (auto simp: ok_or_return_OK)
  have a: "adds s t [(reg, [v], SX_OK)]" "world_only s t" using write_adds [OF 2(2) t(1)] by auto
  obtain v' where v': "adds t v' (accepted ws)" "world_only t v'" "k v' = Some (Ret SX_OK u)"
    using 2(1) [OF adds_here [OF a(1)] t(2)] by blast
  show ?case using adds_trans [OF a(1) v'(1)] world_only_trans [OF a(2) v'(2)] v'(3) by auto
qed

lemma initialize_adds:
  assumes i: "initialized port" and run: "initialize_sx_1278 port lg tm s = Some (Ret SX_OK t)"
    and bw: "lora_bandwidth_hz s \<noteq> 0" and ch: "0 < channel_count (lora_bandwidth_hz s)"
  shows "\<exists>r. obs (world t) = obs (world s) @
     accepted [(0x01, 0x80), (0x0D, 0x00), (0x0F, 0x00), (0x0E, 0x00), (0x01, 0x81)] @
     accepted (frf_writes (lora_bandwidth_hz s) 0) @
     accepted [(0x09, 0xFC), (0x2B, 0x2B), (0x4D, 0x84), (0x1D, 0x72), (0x01, 0x81)] @
     [(0x1E, [0x04 OR push_bit 4 (spreading_factor s)], r)] @
     accepted [(0x01, 0x80), (0x1F, 0xFF), (0x20, 0x00), (0x21, 0x18), (0x39, 0xD3)]"
proof -
  let ?ws1 = "[(0x01, 0x80), (0x0D, 0x00), (0x0F, 0x00), (0x0E, 0x00), (0x01, 0x81)]"
  let ?ws2 = "[(0x09, 0xFC), (0x2B, 0x2B), (0x4D, 0x84), (0x1D, 0x72)]"
  let ?ws3 = "[(0x1F, 0xFF), (0x20, 0x00), (0x21, 0x18), (0x39, 0xD3)]"
  define s0 where "s0 = s\<lparr>sx127x_spi_port := port, sx127x_logger := lg, sx127x_timer_ctx := tm\<rparr>"
  have h0: "here s0" using i by (simp add: here_def s0_def)
  let ?k3 = "then_writes ?ws3 (give SX_OK)"
  let ?k2 = "ok_or_return (andThen (gets spreading_factor) sx_1278_set_spreading_factor) ?k3"
  let ?k1 = "ok_or_return (sx_1278_switch_to_nth_channel 0) (then_writes ?ws2 ?k2)"
  obtain s1 where s1: "spi_read1 0x42 0 s0 = Some (Ret (SX_OK, 0x12) s1)"
    and r1: "then_writes ?ws1 ?k1 s1 = Some (Ret SX_OK t)"
    using run by (auto simp: initialize_sx_1278_def andThen_eq_Ret s0_def sx1278_switch_mode_def
        ok_or_return_last split: if_splits)
  have a1: "adds s0 s1 []" "world_only s0 s1" using read1_adds [OF h0 s1] by auto
  obtain s2 where s2: "adds s1 s2 (accepted ?ws1)" "world_only s1 s2" "?k1 s2 = Some (Ret SX_OK t)"
    using then_writes_adds [OF adds_here [OF a1(1)] r1] by blast
  obtain s3 where s3: "sx_1278_switch_to_nth_channel 0 s2 = Some (Ret SX_OK s3)"
    and r3: "then_writes ?ws2 ?k2 s3 = Some (Ret SX_OK t)" using s2(3) by (auto simp: ok_or_return_OK)
  have e2: "lora_bandwidth_hz s2 = lora_bandwidth_hz s" "spreading_factor s2 = spreading_factor s"
    using world_only_sel [OF a1(2)] world_only_sel [OF s2(2)] by (simp_all add: s0_def)
  have "run_writes (frf_writes (lora_bandwidth_hz s) 0) s2 = Some (Ret SX_OK s3)"
    using s3 switch_channel_run [of s2 0] bw ch
    by (simp add: e2 word_gt_0 unat_gt_0 [symmetric] unat_u64_of_u32 del: unat_gt_0)
  from run_writes_adds [OF adds_here [OF s2(1)] this]
  have a3: "adds s2 s3 (accepted (frf_writes (lora_bandwidth_hz s) 0))" "world_only s2 s3"
    by (auto simp: accepted_def)
  obtain s4 where s4: "adds s3 s4 (accepted ?ws2)" "world_only s3 s4" "?k2 s4 = Some (Ret SX_OK t)"
    using then_writes_adds [OF adds_here [OF a3(1)] r3] by blast
  have e4: "spreading_factor s4 = spreading_factor s"
    using world_only_sel [OF a3(2)] world_only_sel [OF s4(2)] e2 by simp
  obtain s5 where s5: "sx_1278_set_spreading_factor (spreading_factor s) s4 = Some (Ret SX_OK s5)"
    and r5: "?k3 s5 = Some (Ret SX_OK t)"
    using s4(3) e4 by (auto simp: ok_or_return_OK)
  obtain r where a5: "adds s4 s5 [(0x01, [0x81], SX_OK),
      (0x1E, [0x04 OR push_bit 4 (spreading_factor s)], r), (0x01, [0x80], SX_OK)]"
    using set_spreading_factor_adds [OF adds_here [OF s4(1)] s5] by blast
  obtain s6 where s6: "adds s5 s6 (accepted ?ws3)" "give SX_OK s6 = Some (Ret SX_OK t)"
    using then_writes_adds [OF adds_here [OF a5] r5] by blast
  have "obs (world s0) = obs (world s)" by (simp add: s0_def)
  with a1(1) s2(1) a3(1) s4(1) a5 s6 show ?thesis
    by (intro exI [of _ r]) (simp add: adds_def)
qed

end

text \<open>C17: A successful initialisation of the program's initial settings (125 kHz, factor 12) writes exactly
  this table, in this order: sleep, the three FIFO pointers, standby, channel 0, PA, over-current
  protection, DAC, modem, spreading factor (whose answer \<open>r\<close> is not looked at), symbol timeout,
  preamble length and sync word.\<close>

theorem initialise_register_table:
  assumes "observed_platform obs port lg tm" and "initialized port"
    and "lora_bandwidth_hz s = 125000" and "spreading_factor s = 12"
    and "initialize_sx_1278 port lg tm s = Some (Ret SX_OK t)"
  shows "\<exists>r. obs (world t) = obs (world s) @
    [(0x01, [0x80], SX_OK), (0x0D, [0x00], SX_OK), (0x0F, [0x00], SX_OK), (0x0E, [0x00], SX_OK),
     (0x01, [0x81], SX_OK), (0x06, [0xD7], SX_OK), (0x07, [0xC4], SX_OK), (0x08, [0x00], SX_OK),
     (0x09, [0xFC], SX_OK), (0x2B, [0x2B], SX_OK), (0x4D, [0x84], SX_OK), (0x1D, [0x72], SX_OK),
     (0x01, [0x81], SX_OK), (0x1E, [0xC4], r), (0x01, [0x80], SX_OK),
     (0x1F, [0xFF], SX_OK), (0x20, [0x00], SX_OK), (0x21, [0x18], SX_OK), (0x39, [0xD3], SX_OK)]"
proof -
  have "frf_writes 125000 0 = [(0x06, 0xD7), (0x07, 0xC4), (0x08, 0x00)]"
    by (simp add: frf_writes_def frf_of_def raw_freq_def lora_frequency_lf_def FXOSC_def Let_def
        push_bit_eq_mult drop_bit_eq_div)
  moreover have "0 < channel_count 125000"
    by (simp add: channel_count_def lora_frequency_lf_def lora_frequency_hf_def)
  ultimately show ?thesis
    using observed_platform.initialize_adds [OF assms(1,2,5)] assms(3,4) by simp
qed

theorem initialise_register_table_witness:
  "\<exists>t. initialize_sx_1278 (spy_port (flaky_port None 0x12)) (spy_logger zero_logger)
      (spy_timer still_timer) (boot ((), [])) = Some (Ret SX_OK t) \<and> length (snd (world t)) = 19"
proof -
  let ?p = "spy_port (flaky_port None 0x12)"
  have 1: "sx_1278_switch_to_nth_channel 0 s = run_writes (frf_writes 125000 0) s"
    if "lora_bandwidth_hz s = 125000" for s :: "(unit \<times> bus_write list) machine"
    using that switch_channel_run [of s 0]
    by (simp add: channel_count_def lora_frequency_lf_def lora_frequency_hf_def)
  obtain t where t: "initialize_sx_1278 ?p (spy_logger zero_logger) (spy_timer still_timer) (boot ((), []))
      = Some (Ret SX_OK t)"
    by (simp add: initialize_sx_1278_def andThen_def ok_or_return_def sx1278_switch_mode_def Let_def boot_def
        sx_1278_set_spreading_factor_def set_spreading_factor_var_def checked_def end_in_sleep_def 1 frf_writes_def)
  have "initialized ?p" by (simp add: spy_port_def flaky_port_def)
  from initialise_register_table [OF spied.observed_platform_axioms this _ _ t] t show ?thesis
    by (auto simp: boot_def)
qed

text \<open>The chip is identified before anything is written: when the version register cannot be read the
  error is returned, when it is not 0x12 the answer is \<open>SX_INVALID_RESPONSE\<close>, and in both cases no
  register has been written.\<close>

theorem initialise_checks_version_first:
  assumes "observed_platform obs port lg tm" and "initialized port" and "logger_ok lg"
    and "reader port = Some g" and "g (spi_handle port) 0x42 1 (world s) = ((e, [v]), w')"
    and "e \<noteq> SX_OK \<or> v \<noteq> 0x12"
  shows "\<exists>t. initialize_sx_1278 port lg tm s
       = Some (Ret (if e \<noteq> SX_OK then e else SX_INVALID_RESPONSE) t) \<and> obs (world t) = obs (world s)"
proof -
  define s0 where "s0 = s\<lparr>sx127x_spi_port := port, sx127x_logger := lg, sx127x_timer_ctx := tm\<rparr>"
  have h: "observed_platform.here port lg tm s0"
    using assms(2) by (simp add: observed_platform.here_def [OF assms(1)] s0_def)
  have r: "spi_read1 0x42 0 s0 = Some (Ret (e, v) (s0\<lparr>world := w'\<rparr>))"
    using assms(2,4,5)
    by (simp add: spi_read1_def spi_read_def on_world_def spi_burst_read_reg_def s0_def buf_write_def overlay_def)
  have o1: "obs w' = obs (world s)" using observed_platform.obs_read [OF assms(1,4,5)] .
  show ?thesis
  proof (cases "e = SX_OK")
    case False
    then show ?thesis using r o1 by (simp add: initialize_sx_1278_def s0_def)
  next
    case True
    have u: "logger_ok (sx127x_logger (s0\<lparr>world := w'\<rparr>))" using assms(3) by (simp add: s0_def)
    obtain x where x: "log_err CONFIG_TAG ''sx1278 register version is not valid'' (s0\<lparr>world := w'\<rparr>)
        = Some (Ret () x)"
      using network_log_err_run [OF u, of CONFIG_TAG] by (simp add: log_err_def on_world_run)
    have "observed_platform.here port lg tm (s0\<lparr>world := w'\<rparr>)"
      using h by (simp add: observed_platform.here_def [OF assms(1)])
    from observed_platform.log_err_adds [OF assms(1) this x] have "obs (world x) = obs (world s)"
      using o1 by (simp add: observed_platform.adds_def [OF assms(1)])
    then show ?thesis
      using r x True assms(6) by (simp add: initialize_sx_1278_def s0_def)
  qed
qed

theorem initialise_checks_version_first_witness:
  "\<exists>t. initialize_sx_1278 (spy_port (flaky_port None 0)) (spy_logger zero_logger)
      (spy_timer still_timer) (boot ((), [])) = Some (Ret SX_INVALID_RESPONSE t) \<and> snd (world t) = []"
proof -
  let ?p = "spy_port (flaky_port None 0)"
  have i: "initialized ?p" by (simp add: spy_port_def flaky_port_def)
  have l: "logger_ok (spy_logger zero_logger)" by (simp add: logger_ok_def spy_logger_def zero_logger_def)
  have rd: "reader ?p = Some (\<lambda>h reg len (w, xs). ((SX_OK, replicate (nat len) 0), (w, xs)))"
    by (simp add: spy_port_def flaky_port_def)
  have "(\<lambda>h reg len (w, xs). ((SX_OK, replicate (nat len) 0), (w, xs))) (spi_handle ?p) 0x42 1
      (world (boot ((), []))) = ((SX_OK, [0 :: u8]), ((), []))" by (simp add: boot_def)
  from initialise_checks_version_first [OF spied.observed_platform_axioms i l rd this]
  show ?thesis by (simp add: boot_def)
qed

section \<open>Initialisation returns\<close>

text \<open>Steady: from a usable state with a bandwidth other than zero the command returns, leaves the state
  usable and the bandwidth as it is, and changes the world and the spreading factor at most.\<close>

definition steady_step :: "('w, 'z) machine_scheme \<Rightarrow> ('w, 'z) machine_scheme \<Rightarrow> bool" where
  "steady_step s t \<longleftrightarrow> (\<exists>w f. t = s\<lparr>world := w, spreading_factor := f\<rparr>)"

definition steady :: "('w, 'z, 'a) mcmd \<Rightarrow> bool" where
  "steady m \<longleftrightarrow> (\<forall>s. usable s \<longrightarrow> lora_bandwidth_hz s \<noteq> 0 \<longrightarrow> (\<exists>a t. m s = Some (Ret a t) \<and> steady_step s t))"

lemma steady_step_facts:
  assumes "steady_step s t"
  shows "usable t = usable s" "lora_bandwidth_hz t = lora_bandwidth_hz s" "machine.more t = machine.more s"
    "blocks t = blocks s" "fresh t = fresh s"
  using assms by (auto simp: steady_step_def usable_def)

lemma world_only_steady: "world_only s t \<Longrightarrow> steady_step s t"
proof -
  assume "world_only s t"
  then obtain w where "t = s\<lparr>world := w\<rparr>" by (auto simp: world_only_def)
  then have "t = s\<lparr>world := w, spreading_factor := spreading_factor s\<rparr>" by simp
  then show ?thesis unfolding steady_step_def by blast
qed

lemma steady_step_trans: "steady_step s t \<Longrightarrow> steady_step t u \<Longrightarrow> steady_step s u"
  unfolding steady_step_def
proof (elim exE)
  fix w f w' f'
  assume "t = s\<lparr>world := w, spreading_factor := f\<rparr>" "u = t\<lparr>world := w', spreading_factor := f'\<rparr>"
  then have "u = s\<lparr>world := w', spreading_factor := f'\<rparr>" by simp
  then show "\<exists>w f. u = s\<lparr>world := w, spreading_factor := f\<rparr>" by blast
qed

lemma calm_steady: "calm m \<Longrightarrow> steady m"
  unfolding calm_def steady_def using world_only_steady by blast

lemma steady_andThen:
  assumes "steady m" and "\<And>a. steady (k a)"
  shows "steady (andThen m k)"
  unfolding steady_def
proof (intro allI impI)
  fix s :: "('a, 'b) machine_scheme"
  assume s: "usable s" "lora_bandwidth_hz s \<noteq> 0"
  obtain a t where m: "m s = Some (Ret a t)" "steady_step s t" using assms(1) s by (auto simp: steady_def)
  then have "usable t" "lora_bandwidth_hz t \<noteq> 0" using s steady_step_facts [OF m(2)] by simp_all
  then obtain b u where "k a t = Some (Ret b u)" "steady_step t u"
    using assms(2) [of a] unfolding steady_def by blast
  then show "\<exists>a t. andThen m k s = Some (Ret a t) \<and> steady_step s t"
    using m steady_step_trans by (intro exI [of _ b] exI [of _ u]) auto
qed

lemma steady_ok: "steady m \<Longrightarrow> steady n \<Longrightarrow> steady (ok_or_return m n)"
  unfolding ok_or_return_def by (intro steady_andThen) (auto intro: calm_steady calm_intros)

lemma steady_switch_channel: "steady (sx_1278_switch_to_nth_channel n)"
  unfolding steady_def using switch_channel_returns world_only_steady by blast

lemma steady_set_spreading_factor: "steady (sx_1278_set_spreading_factor sf :: ('a, 'b, sx127x_err_t) mcmd)"
proof -
  have "steady_step s (s\<lparr>spreading_factor := sf\<rparr>)" for s :: "('a, 'b) machine_scheme"
  proof -
    have "s\<lparr>spreading_factor := sf\<rparr> = s\<lparr>world := world s, spreading_factor := sf\<rparr>" by simp
    then show ?thesis unfolding steady_step_def by blast
  qed
  then have "steady (set_spreading_factor_var sf :: ('a, 'b, unit) mcmd)"
    by (simp add: steady_def set_spreading_factor_var_def)
  then have v: "steady (if ret = SX_OK then set_spreading_factor_var sf else give () :: ('a, 'b, unit) mcmd)" for ret
    by (cases "ret = SX_OK") (simp_all add: calm_steady [OF calm_give])
  have l: "calm (andThen (log_err CONFIG_TAG ''couldnt switch to standby'') (\<lambda>_. give ret))" for ret
    by (rule calm_log_give) (simp add: CONFIG_TAG_def)
  show ?thesis
    unfolding sx_1278_set_spreading_factor_def checked_def Let_def
    by (intro steady_andThen calm_steady [OF calm_helpers(3)])
      (auto intro!: steady_andThen v calm_steady [OF calm_spi_write] calm_steady [OF calm_end_in_sleep]
        calm_steady [OF calm_give] calm_steady [OF l])
qed

lemma modify_then_steady:
  assumes "usable (f s)" and "lora_bandwidth_hz (f s) \<noteq> 0" and "steady m"
  shows "\<exists>a t. andThen (modify f) (\<lambda>_. m) s = Some (Ret a t) \<and> steady_step (f s) t"
  using assms by (simp add: steady_def)

lemma initialise_returns:
  assumes "register_bus port" and "logger_ok lg" and "timer tm \<noteq> None" and "delayer tm \<noteq> None"
    and "lora_bandwidth_hz s \<noteq> 0"
  shows "\<exists>ret t. initialize_sx_1278 port lg tm s = Some (Ret ret t) \<and> usable t \<and>
    machine.more t = machine.more s \<and> blocks t = blocks s \<and> fresh t = fresh s"
proof -
  let ?f = "\<lambda>s. s\<lparr>sx127x_spi_port := port, sx127x_logger := lg, sx127x_timer_ctx := tm\<rparr>"
  have u: "usable (?f s)" "lora_bandwidth_hz (?f s) \<noteq> 0" using assms by (simp_all add: usable_def)
  have l: "calm (andThen (log_err CONFIG_TAG ''sx1278 register version is not valid'') (\<lambda>_. give ret))" for ret
    by (rule calm_log_give) (simp add: CONFIG_TAG_def)
  have sf: "steady (andThen (gets spreading_factor) sx_1278_set_spreading_factor)"
    by (intro steady_andThen steady_set_spreading_factor calm_steady [OF calm_gets])
  have "\<exists>ret t. initialize_sx_1278 port lg tm s = Some (Ret ret t) \<and> steady_step (?f s) t"
    unfolding initialize_sx_1278_def
    by (rule modify_then_steady [where f = ?f, OF u], intro steady_andThen calm_steady [OF calm_spi_read1])
      (auto intro!: steady_ok steady_switch_channel sf calm_steady [OF calm_spi_write] calm_steady [OF calm_helpers(3)]
        calm_steady [OF calm_give] calm_steady [OF l])
  then obtain ret t where t: "initialize_sx_1278 port lg tm s = Some (Ret ret t)" "steady_step (?f s) t" by blast
  then show ?thesis using steady_step_facts [OF t(2)] u(1) by simp
qed

end
