(* ===== verification/Driver.thy ===== *)
theory Driver
  imports Config
begin

text \<open>
  \<open>src/sx127x_driver.c\<close>: reading the last received payload from the FIFO, sending a payload, and the
  polling loop on the interrupt register with its timeout. The loop is a partial function: a loop
  that never ends has no result.
\<close>

definition DRIVER_TAG :: string where
  "DRIVER_TAG = ''sx_1278_driver''"

lemma DRIVER_TAG_length [simp]: "length DRIVER_TAG = 14"
  by (simp add: DRIVER_TAG_def)

definition PHY_TIMEOUT_MSEC :: int where
  "PHY_TIMEOUT_MSEC = 3000"

section \<open>Reading a payload\<close>

text \<open>An error exit that clears the interrupts, logs and returns.\<close>

definition clear_and_log :: "string \<Rightarrow> ('w, 'z, unit) mcmd" where
  "clear_and_log str = andThen sx1278_clear_irq (\<lambda>_. log_err DRIVER_TAG str)"

text \<open>The result is the code, the caller's buffer and the length variable.\<close>

definition sx1278_read_last_payload ::
  "u8 list \<Rightarrow> nat \<Rightarrow> ('w, 'z, sx127x_err_t \<times> u8 list \<times> nat) mcmd" where
  "sx1278_read_last_payload buf len =
     andThen (sx1278_switch_mode (MODE_LORA OR MODE_STDBY)) (\<lambda>ret.
     if ret \<noteq> SX_OK then
       andThen (log_err DRIVER_TAG ''error occured while switching mode'') (\<lambda>_. give (ret, buf, len))
     else
       andThen (sx1278_read_irq 0) (\<lambda>(ret, data).
       if ret \<noteq> SX_OK then give (ret, buf, len)
       else
         let rx_done_mask = 0b01000000 in
         if data AND rx_done_mask = 0 then
           andThen (clear_and_log (''rx read not done'' @ [CHR 0x0A])) (\<lambda>_. give (SX_INVALID_STATE, buf, len))
         else
           let rx_crc_mask = drop_bit 1 rx_done_mask in
           if data AND rx_crc_mask \<noteq> 0 then
             andThen (clear_and_log (''rx crc failed, discarding packet'' @ [CHR 0x0A])) (\<lambda>_.
             give (SX_INVALID_CRC, buf, len))
           else
             andThen (spi_read1 0x13 0) (\<lambda>(_, n_packet_bytes).
             andThen (spi_read1 0x10 0) (\<lambda>(ret, current_fifo_addr).
             if ret \<noteq> SX_OK then
               andThen (clear_and_log (''couldnt get rx fifo pointer, skipping packet'' @ [CHR 0x0A])) (\<lambda>_.
               give (ret, buf, len))
             else
               andThen (spi_write 0x0D [current_fifo_addr] 1) (\<lambda>ret.
               if ret \<noteq> SX_OK then
                 andThen (clear_and_log (''couldnt set rx fifo pointer, skipping packet'' @ [CHR 0x0A])) (\<lambda>_.
                 give (ret, buf, len))
               else
                 andThen (spi_read 0x00 buf (int (unat n_packet_bytes))) (\<lambda>(ret, buf').
                 if ret \<noteq> SX_OK then
                   andThen (clear_and_log (''couldnt read rx fifo, skipping packet'' @ [CHR 0x0A])) (\<lambda>_.
                   give (ret, buf', len))
                 else
                   andThen sx1278_clear_irq (\<lambda>_.
                   give (SX_OK, buf', unat n_packet_bytes))))))))"

section \<open>Polling\<close>

text \<open>\<open>data = 0xFF; spi_burst_write_reg(&sx127x_spi_port, 0x12, &data, 1)\<close> when asked to clean up.\<close>

definition irq_cleanup :: "bool \<Rightarrow> ('w, 'z, unit) mcmd" where
  "irq_cleanup cleanup =
     (if cleanup then andThen (spi_write 0x12 [0xFF] 1) (\<lambda>_. give ()) else give ())"

text \<open>Signed 64-bit subtraction and multiplication; leaving the range is undefined.\<close>

definition fits_i64 :: "int \<Rightarrow> bool" where
  "fits_i64 x \<longleftrightarrow> - (2 ^ 63) \<le> x \<and> x < 2 ^ 63"

partial_function (option) poll_loop ::
  "int \<Rightarrow> int \<Rightarrow> u64 \<Rightarrow> u8 \<Rightarrow> bool \<Rightarrow> u8 \<Rightarrow> ('w, 'z, sx127x_err_t) mcmd" where
  "poll_loop start timeout_us poll_interval_ms irq_and_mask cleanup irq s =
     andThen (spi_read1 0x12 irq) (\<lambda>(ret, irq').
     if ret \<noteq> SX_OK then
       andThen (log_err DRIVER_TAG (''couldnt read irq register'' @ [CHR 0x0A])) (\<lambda>_.
       andThen (irq_cleanup cleanup) (\<lambda>_. give ret))
     else if irq' AND irq_and_mask \<noteq> 0 then
       andThen (irq_cleanup cleanup) (\<lambda>_. give SX_OK)
     else
       andThen time_us (\<lambda>now.
       if \<not> fits_i64 (sint now - start) then crash Signed_Overflow
       else if sint now - start > timeout_us then
           andThen (irq_cleanup cleanup) (\<lambda>_.
           andThen (log_err DRIVER_TAG ''polling timeout'') (\<lambda>_.
           give SX_TIMEOUT))
         else
           andThen (delay_ms poll_interval_ms) (\<lambda>_.
           poll_loop start timeout_us poll_interval_ms irq_and_mask cleanup irq'))) s"

definition poll_for_irq_flag ::
  "u64 \<Rightarrow> u64 \<Rightarrow> u8 \<Rightarrow> bool \<Rightarrow> ('w, 'z, sx127x_err_t) mcmd" where
  "poll_for_irq_flag timeout_ms0 poll_interval_ms0 irq_and_mask cleanup =
     (let timeout_ms = (if timeout_ms0 \<le> 0 then 3000 else timeout_ms0);
          poll_interval_ms = (if poll_interval_ms0 \<le> 0 then 2 else poll_interval_ms0) in
      andThen time_us (\<lambda>start.
      if \<not> fits_i64 (sint timeout_ms * 1000) then crash Signed_Overflow
      else
        let timeout_us = sint timeout_ms * 1000 in
        poll_loop (sint start) timeout_us poll_interval_ms irq_and_mask cleanup 0))"

section \<open>Sending a payload\<close>

definition sx1278_send_payload :: "u8 list \<Rightarrow> u8 \<Rightarrow> bool \<Rightarrow> ('w, 'z, sx127x_err_t) mcmd" where
  "sx1278_send_payload buf len switch_to_rx_after_tx =
     checked (sx1278_switch_mode (MODE_LORA OR MODE_STDBY))
       (log_err DRIVER_TAG (''couldnt put sx1278 in standby mode'' @ [CHR 0x0A])) (
     andThen (spi_read1 0x0E 0x00) (\<lambda>(ret, data).
     if ret \<noteq> SX_OK then
       andThen (log_err DRIVER_TAG (''couldnt set fifo address'' @ [CHR 0x0A])) (\<lambda>_. give ret)
     else
     checked (spi_write 0x0D [data] 1) (log_err DRIVER_TAG (''couldnt set fifo address'' @ [CHR 0x0A])) (
     checked (spi_write 0x22 [len] 1) (log_err DRIVER_TAG (''couldnt write packet length'' @ [CHR 0x0A])) (
     checked (if unat len \<le> length buf then spi_write 0x00 (take (unat len) buf) (int (unat len))
              else crash Out_Of_Bounds)
       (log_err DRIVER_TAG (''couldnt write packet to tx fifo'' @ [CHR 0x0A])) (
     checked sx1278_clear_irq (log_err DRIVER_TAG (''couldnt reset irq flags'' @ [CHR 0x0A])) (
     checked (sx1278_switch_mode (MODE_LORA OR MODE_TX))
       (log_err DRIVER_TAG (''couldnt switch to transmit mode'' @ [CHR 0x0A])) (
     checked (poll_for_irq_flag 3000 3 (push_bit 3 1) True)
       (log_err DRIVER_TAG (''failed while polling for irq tx done flag'' @ [CHR 0x0A])) (
     checked sx1278_clear_irq (log_err DRIVER_TAG (''couldnt reset irq flags'' @ [CHR 0x0A])) (
     let data = (if switch_to_rx_after_tx then MODE_RX_CONTINUOUS else MODE_SLEEP) in
     checked (sx1278_switch_mode (MODE_LORA OR data))
       (log_err DRIVER_TAG (''couldnt put sx1278 in next mode after tx is complete'' @ [CHR 0x0A])) (
     give SX_OK))))))))))"

section \<open>Platforms on which time passes\<close>

text \<open>
  \<open>now w\<close> is the time of the world in microseconds. The clock shows it, up to the largest signed
  64-bit value; no callback turns it back; a delay of at least a millisecond moves it on.
\<close>

definition in_place ::
  "'w spi_port_t \<Rightarrow> 'w sx127x_timer_ctx_t \<Rightarrow> ('w, 'z) machine_scheme \<Rightarrow> bool" where
  "in_place port tm s \<longleftrightarrow> usable s \<and> sx127x_spi_port s = port \<and> sx127x_timer_ctx s = tm"

locale ticking_platform =
  fixes now :: "'w \<Rightarrow> int" and port :: "'w spi_port_t" and tm :: "'w sx127x_timer_ctx_t"
  assumes now_nonneg: "0 \<le> now w"
    and now_read: "reader port = Some g \<Longrightarrow> g h reg len w = (r, w') \<Longrightarrow> now w \<le> now w'"
    and now_shown: "timer tm = Some c \<Longrightarrow> c w = (t, w') \<Longrightarrow>
      sint t = min (now w) (2 ^ 63 - 1) \<and> now w \<le> now w'"
    and now_delay: "delayer tm = Some d \<Longrightarrow> 0 < ms \<Longrightarrow> now w + 1 \<le> now (d ms w)"
begin

lemma in_place_world_only: "in_place port tm s \<Longrightarrow> world_only s t \<Longrightarrow> in_place port tm t"
  by (simp add: in_place_def world_only_usable world_only_sel)

lemma read_step:
  assumes "in_place port tm s"
  shows "\<exists>ret irq' t. spi_read1 0x12 irq s = Some (Ret (ret, irq') t) \<and> world_only s t \<and>
     now (world s) \<le> now (world t)"
proof -
  obtain r t where t: "spi_read1 0x12 irq s = Some (Ret r t)" "world_only s t"
    using calmE [OF calm_spi_read1] assms unfolding in_place_def by metis
  then have "now (world s) \<le> now (world t)"
    using assms now_read
    by (fastforce simp: spi_read1_def spi_read_def andThen_eq_Ret on_world_def spi_burst_read_reg_def
        buf_write_def in_place_def split: option.splits prod.splits outcome.splits if_splits)
  then show ?thesis using t by (cases r) auto
qed

lemma time_step:
  assumes "in_place port tm s"
  shows "\<exists>v t. time_us s = Some (Ret v t) \<and> world_only s t \<and> now (world s) \<le> now (world t) \<and>
     sint v = min (now (world s)) (2 ^ 63 - 1)"
proof -
  obtain v t where t: "time_us s = Some (Ret v t)" "world_only s t"
    using calmE [OF calm_time_us] assms unfolding in_place_def by metis
  then have "now (world s) \<le> now (world t) \<and> sint v = min (now (world s)) (2 ^ 63 - 1)"
    using assms now_shown
    by (auto simp: time_us_def on_world_def sx127x_timer_get_time_us_def in_place_def
        split: option.splits prod.splits outcome.splits)
  then show ?thesis using t by auto
qed

lemma delay_step:
  assumes "in_place port tm s" and "0 < ms"
  shows "\<exists>t. delay_ms ms s = Some (Ret () t) \<and> world_only s t \<and> now (world s) + 1 \<le> now (world t)"
proof -
  obtain v t where t: "delay_ms ms s = Some (Ret v t)" "world_only s t"
    using calmE [OF calm_delay_ms] assms unfolding in_place_def by metis
  then have "now (world s) + 1 \<le> now (world t)"
    using assms now_delay
    by (auto simp: delay_ms_def on_world_def sx127x_task_delay_ms_def in_place_def
        split: option.splits outcome.splits)
  then show ?thesis using t by auto
qed

end

lemma calm_irq_cleanup [calm_intros]: "calm (irq_cleanup c)"
  unfolding irq_cleanup_def by (intro calm_intros)

lemma poll_loop_cases:
  assumes r: "spi_read1 0x12 irq s = Some (Ret (ret, irq') s1)"
  shows "poll_loop start timeout_us interval msk cleanup irq s =
     (if ret \<noteq> SX_OK then
        andThen (log_err DRIVER_TAG (''couldnt read irq register'' @ [CHR 0x0A])) (\<lambda>_.
        andThen (irq_cleanup cleanup) (\<lambda>_. give ret)) s1
      else if irq' AND msk \<noteq> 0 then andThen (irq_cleanup cleanup) (\<lambda>_. give SX_OK) s1
      else
        andThen time_us (\<lambda>now.
        if \<not> fits_i64 (sint now - start) then crash Signed_Overflow
        else if sint now - start > timeout_us then
          andThen (irq_cleanup cleanup) (\<lambda>_.
          andThen (log_err DRIVER_TAG ''polling timeout'') (\<lambda>_. give SX_TIMEOUT))
        else
          andThen (delay_ms interval) (\<lambda>_.
          poll_loop start timeout_us interval msk cleanup irq')) s1)"
  by (subst poll_loop.simps) (simp add: r)

text \<open>The ways out of the loop: the register cannot be read, the flag is set, the time is up.\<close>

definition poll_exits :: "bool \<Rightarrow> ('w, 'z, sx127x_err_t) mcmd set" where
  "poll_exits cleanup =
     range (\<lambda>ret. andThen (log_err DRIVER_TAG (''couldnt read irq register'' @ [CHR 0x0A])) (\<lambda>_.
       andThen (irq_cleanup cleanup) (\<lambda>_. give ret))) \<union>
     {andThen (irq_cleanup cleanup) (\<lambda>_. give SX_OK),
      andThen (irq_cleanup cleanup) (\<lambda>_.
        andThen (log_err DRIVER_TAG ''polling timeout'') (\<lambda>_. give SX_TIMEOUT))}"

lemma poll_exitsI:
  "andThen (log_err DRIVER_TAG (''couldnt read irq register'' @ [CHR 0x0A])) (\<lambda>_.
     andThen (irq_cleanup cleanup) (\<lambda>_. give ret)) \<in> poll_exits cleanup"
  "andThen (irq_cleanup cleanup) (\<lambda>_. give SX_OK) \<in> poll_exits cleanup"
  "andThen (irq_cleanup cleanup) (\<lambda>_.
     andThen (log_err DRIVER_TAG ''polling timeout'') (\<lambda>_. give SX_TIMEOUT)) \<in> poll_exits cleanup"
  unfolding poll_exits_def by blast+

lemma calm_poll_exits: "m \<in> poll_exits cleanup \<Longrightarrow> calm m"
  unfolding poll_exits_def by (elim UnE rangeE insertE emptyE; hypsubst; intro calm_intros; simp)

context ticking_platform
begin

text \<open>One round of the loop: it ends in one of the ways out, or begins again at a later time.\<close>

lemma poll_round:
  assumes h: "in_place port tm s" and "0 < interval" and "0 \<le> start" and "start + timeout_us < 2 ^ 63 - 1"
    and "start < 2 ^ 63"
  obtains (read) ret irq' s1 m where "spi_read1 0x12 irq s = Some (Ret (ret, irq') s1)" "world_only s s1"
      "m \<in> poll_exits cleanup" "poll_loop start timeout_us interval msk cleanup irq s = m s1"
    | (late) ret irq' s1 v s2 m where "spi_read1 0x12 irq s = Some (Ret (ret, irq') s1)"
      "time_us s1 = Some (Ret v s2)" "world_only s s2"
      "m \<in> poll_exits cleanup" "poll_loop start timeout_us interval msk cleanup irq s = m s2"
    | (again) ret irq' s1 v s2 s3 where "spi_read1 0x12 irq s = Some (Ret (ret, irq') s1)"
      "time_us s1 = Some (Ret v s2)" "delay_ms interval s2 = Some (Ret () s3)" "world_only s s3"
      "now (world s1) \<le> start + timeout_us" "now (world s) \<le> now (world s1)" "now (world s) < now (world s3)"
      "poll_loop start timeout_us interval msk cleanup irq s = poll_loop start timeout_us interval msk cleanup irq' s3"
proof -
  obtain ret irq' s1 where s1: "spi_read1 0x12 irq s = Some (Ret (ret, irq') s1)" "world_only s s1"
    "now (world s) \<le> now (world s1)" using read_step [OF h] by blast
  have h1: "in_place port tm s1" using in_place_world_only [OF h s1(2)] .
  obtain v s2 where s2: "time_us s1 = Some (Ret v s2)" "world_only s1 s2" "now (world s1) \<le> now (world s2)"
    "sint v = min (now (world s1)) (2 ^ 63 - 1)" using time_step [OF h1] by blast
  obtain s3 where s3: "delay_ms interval s2 = Some (Ret () s3)" "world_only s2 s3"
    "now (world s2) + 1 \<le> now (world s3)" using delay_step [OF in_place_world_only [OF h1 s2(2)] assms(2)] by blast
  have w2: "world_only s s2" using world_only_trans [OF s1(2) s2(2)] .
  have w3: "world_only s s3" using world_only_trans [OF w2 s3(2)] .
  have "fits_i64 (sint v - start)"
    using s2(4) now_nonneg [of "world s1"] assms(3-5) by (auto simp: fits_i64_def min_def)
  note loop = poll_loop_cases [OF s1(1), of start timeout_us interval msk cleanup]
  consider "ret \<noteq> SX_OK" | "ret = SX_OK" "irq' AND msk \<noteq> 0"
    | "ret = SX_OK" "irq' AND msk = 0" "sint v - start > timeout_us"
    | "ret = SX_OK" "irq' AND msk = 0" "\<not> sint v - start > timeout_us" by blast
  then show thesis
  proof cases
    case 1
    then show ?thesis using loop by (intro read [OF s1(1,2) poll_exitsI(1)]) simp
  next
    case 2
    then show ?thesis using loop by (intro read [OF s1(1,2) poll_exitsI(2)]) simp
  next
    case 3
    then show ?thesis using loop s2(1) \<open>fits_i64 _\<close>
      by (intro late [OF s1(1) s2(1) w2 poll_exitsI(3)]) simp
  next
    case 4
    then have "now (world s1) \<le> start + timeout_us" using s2(4) assms(4) by (simp add: min_def split: if_splits)
    moreover have "now (world s) < now (world s3)" using s1(3) s2(3) s3(3) by linarith
    ultimately show ?thesis using 4 loop s1(3) s2(1) s3(1) \<open>fits_i64 _\<close> by (intro again [OF s1(1) s2(1) s3(1) w3]) simp_all
  qed
qed

lemma poll_loop_returns:
  assumes "in_place port tm s" and "0 < interval" and "0 \<le> start" and "start + timeout_us < 2 ^ 63 - 1"
    and "start < 2 ^ 63"
  shows "\<exists>ret t. poll_loop start timeout_us interval msk cleanup irq s = Some (Ret ret t) \<and> world_only s t"
  using assms(1)
proof (induction "nat (start + timeout_us + 1 - now (world s))" arbitrary: s irq rule: less_induct)
  case less
  have exits: ?case if e: "poll_loop start timeout_us interval msk cleanup irq s = m s2"
    and m: "m \<in> poll_exits cleanup" and w: "world_only s s2" for m s2
  proof -
    have "usable s2" using in_place_world_only [OF less.prems w] by (simp add: in_place_def)
    from calmE [OF calm_poll_exits [OF m] this] obtain a t where "m s2 = Some (Ret a t)" "world_only s2 t" .
    then show ?thesis using e world_only_trans [OF w] by auto
  qed
  show ?case
  proof (rule poll_round [OF less.prems assms(2-5), where msk = msk and cleanup = cleanup and irq = irq])
    fix ret irq' s1 v s2 s3
    assume "now (world s1) \<le> start + timeout_us" "now (world s) \<le> now (world s1)" "now (world s) < now (world s3)"
      and w: "world_only s s3"
      and e: "poll_loop start timeout_us interval msk cleanup irq s = poll_loop start timeout_us interval msk cleanup irq' s3"
    then have "nat (start + timeout_us + 1 - now (world s3)) < nat (start + timeout_us + 1 - now (world s))" by linarith
    from less.hyps [OF this in_place_world_only [OF less.prems w], of irq']
    show ?thesis using e world_only_trans [OF w] by auto
  qed (use exits in blast)+
qed

lemma poll_returns:
  assumes "in_place port tm s" and "timeout_ms \<noteq> 0" and "0 \<le> sint timeout_ms"
    and "now (world s) + sint timeout_ms * 1000 < 2 ^ 63 - 1"
  shows "\<exists>ret t. poll_for_irq_flag timeout_ms interval msk cleanup s = Some (Ret ret t) \<and> world_only s t"
proof -
  obtain v s1 where s1: "time_us s = Some (Ret v s1)" "world_only s s1"
    "sint v = min (now (world s)) (2 ^ 63 - 1)" using time_step [OF assms(1)] by blast
  let ?i = "if interval \<le> 0 then 2 else interval"
  have "0 < ?i" by (simp add: word_gt_0)
  moreover have "0 \<le> sint v" "sint v + sint timeout_ms * 1000 < 2 ^ 63 - 1" "sint v < 2 ^ 63"
    using s1(3) assms(4) now_nonneg [of "world s"] by (auto simp: min_def)
  ultimately obtain ret t where
    "poll_loop (sint v) (sint timeout_ms * 1000) ?i msk cleanup 0 s1 = Some (Ret ret t)" "world_only s1 t"
    using poll_loop_returns [OF in_place_world_only [OF assms(1) s1(2)]] by blast
  moreover have "fits_i64 (sint timeout_ms * 1000)"
    using assms(3,4) now_nonneg [of "world s"] by (simp add: fits_i64_def)
  moreover have "\<not> timeout_ms \<le> 0" using assms(2) by (simp add: word_le_0_iff)
  ultimately show ?thesis
    using s1(1) world_only_trans [OF s1(2)] by (auto simp: poll_for_irq_flag_def Let_def)
qed

end

text \<open>Every platform can be given such a clock: the world gets a counter of microseconds, the delay
  adds to it, the timer shows it.\<close>

definition clocked_port :: "'w spi_port_t \<Rightarrow> ('w \<times> nat) spi_port_t" where
  "clocked_port p =
     \<lparr>writer = map_option (\<lambda>f h reg data len (w, n). case f h reg data len w of (ret, w') \<Rightarrow> (ret, (w', n))) (writer p),
      reader = map_option (\<lambda>g h reg len (w, n). case g h reg len w of (r, w') \<Rightarrow> (r, (w', n))) (reader p),
      spi_handle = spi_handle p, initialized = initialized p\<rparr>"

definition clocked_logger :: "'w logger_ctx_t \<Rightarrow> ('w \<times> nat) logger_ctx_t" where
  "clocked_logger l =
     \<lparr>logger = map_option (\<lambda>f str level (w, n). (f str level w, n)) (logger l), log_level = log_level l\<rparr>"

definition clocked_timer :: "('w \<times> nat) sx127x_timer_ctx_t" where
  "clocked_timer = sx127x_timer_init
     (Some (\<lambda>(w, n). (word_of_int (min (int n) (2 ^ 63 - 1)), (w, n))))
     (Some (\<lambda>ms (w, n). (w, n + unat ms * 1000)))"

lemma sint_clock: "sint (word_of_int (min (int n) (2 ^ 63 - 1)) :: i64) = min (int n) (2 ^ 63 - 1)"
  by (simp add: signed_of_int signed_take_bit_int_eq_self min_def)

interpretation clocked: ticking_platform "\<lambda>w. int (snd w)" "clocked_port p" clocked_timer
proof
  show "0 \<le> int (snd w)" for w :: "'a \<times> nat" by simp
  show "int (snd w) \<le> int (snd w')"
    if "reader (clocked_port p) = Some g" "g h reg len w = (r, w')" for g h reg len w r w'
    using that by (auto simp: clocked_port_def split: prod.splits)
  show "sint t = min (int (snd w)) (2 ^ 63 - 1) \<and> int (snd w) \<le> int (snd w')"
    if "timer clocked_timer = Some c" "c w = (t, w')" for c w t w'
    using that sint_clock by (auto simp: clocked_timer_def sx127x_timer_init_def split: prod.splits)
  show "int (snd w) + 1 \<le> int (snd (d ms w))"
    if "delayer clocked_timer = Some d" "0 < ms" for d ms w
  proof -
    have "0 < unat ms" using that(2) by (simp add: word_gt_0 unat_gt_0)
    then have "snd w + 1 \<le> snd w + unat ms * 1000" by linarith
    moreover have "snd (d ms w) = snd w + unat ms * 1000"
      using that(1) by (cases w) (auto simp: clocked_timer_def sx127x_timer_init_def)
    ultimately show ?thesis by linarith
  qed
qed

definition clocked_machine :: "u8 \<Rightarrow> (unit \<times> nat) machine" where
  "clocked_machine v = (boot ((), 0))\<lparr>sx127x_spi_port := clocked_port (flaky_port None v),
     sx127x_logger := clocked_logger zero_logger, sx127x_timer_ctx := clocked_timer\<rparr>"

lemma clocked_usable: "usable (clocked_machine v)"
proof -
  have "register_bus (clocked_port (flaky_port None v))"
    by unfold_locales (auto simp: flaky_port_def clocked_port_def)
  then show ?thesis
    by (simp add: usable_def clocked_machine_def boot_def logger_ok_def clocked_logger_def zero_logger_def
        clocked_timer_def sx127x_timer_init_def)
qed

section \<open>Properties of polling\<close>

text \<open>C18: Polling ends. On a usable platform on which the clock does not run backwards and delays pass
  time, \<open>poll_for_irq_flag\<close> returns, whatever the interrupt register shows, and it has changed nothing
  but the outside world.\<close>

theorem poll_for_irq_flag_returns:
  assumes "ticking_platform now (sx127x_spi_port s) (sx127x_timer_ctx s)"
    and "usable s" and "timeout_ms \<noteq> 0" and "0 \<le> sint timeout_ms"
    and "now (world s) + sint timeout_ms * 1000 < 2 ^ 63 - 1"
  shows "\<exists>ret t. poll_for_irq_flag timeout_ms interval msk cleanup s = Some (Ret ret t) \<and> world_only s t"
proof -
  have "in_place (sx127x_spi_port s) (sx127x_timer_ctx s) s"
    using assms(2) by (simp add: in_place_def)
  from ticking_platform.poll_returns [OF assms(1) this assms(3-5)] show ?thesis .
qed

theorem poll_for_irq_flag_returns_witness:
  "\<exists>ret t. poll_for_irq_flag 3000 3 8 True (clocked_machine 0) = Some (Ret ret t)"
proof -
  have "ticking_platform (\<lambda>w. int (snd w)) (sx127x_spi_port (clocked_machine 0))
      (sx127x_timer_ctx (clocked_machine 0))"
    by (simp add: clocked_machine_def clocked.ticking_platform_axioms)
  from poll_for_irq_flag_returns [OF this clocked_usable, of 3000 3 8 True] show ?thesis
    by (auto simp: clocked_machine_def boot_def)
qed

text \<open>On the test platform with the clock that stands still the loop can only be left by the flag.\<close>

definition stuck :: "u8 \<Rightarrow> (test_world, 'z) machine_scheme \<Rightarrow> bool" where
  "stuck msk s \<longleftrightarrow> sx127x_spi_port s = test_port \<and> sx127x_timer_ctx s = test_timer zero_clock \<and>
     irq_mask_value (world s) AND msk = 0"

lemma test_read_irq:
  "sx127x_spi_port s = test_port \<Longrightarrow> spi_read1 0x12 old s =
     (let n = irq_read_count (world s) + 1 in
      Some (Ret (SX_OK, if n \<ge> irq_fires_on_read (world s) then irq_mask_value (world s) else 0)
        (s\<lparr>world := (world s)\<lparr>irq_read_count := n\<rparr>\<rparr>)))"
  by (simp add: spi_read1_def spi_read_def on_world_def spi_burst_read_reg_def counting_reader_def
      buf_write_def overlay_def Let_def)

lemma test_time:
  "sx127x_timer_ctx s = test_timer zero_clock \<Longrightarrow> time_us s = Some (Ret 0 s)"
  by (simp add: time_us_def on_world_def sx127x_timer_get_time_us_def zero_clock_def)

lemma test_delay:
  "sx127x_timer_ctx s = test_timer clock \<Longrightarrow> delay_ms ms s = Some (Ret () s)"
  by (simp add: delay_ms_def on_world_def sx127x_task_delay_ms_def noop_delay_def)

lemma stuck_loop_body:
  assumes "stuck msk s" and "0 \<le> timeout_us" and "\<And>irq t. stuck msk t \<Longrightarrow> f irq t = None"
    and "sx127x_spi_port s = test_port"
  shows "andThen (spi_read1 0x12 irq) (\<lambda>(ret, irq').
     if ret \<noteq> SX_OK then
       andThen (log_err DRIVER_TAG (''couldnt read irq register'' @ [CHR 0x0A])) (\<lambda>_.
       andThen (irq_cleanup cleanup) (\<lambda>_. give ret))
     else if irq' AND msk \<noteq> 0 then
       andThen (irq_cleanup cleanup) (\<lambda>_. give SX_OK)
     else
       andThen time_us (\<lambda>now.
       if \<not> fits_i64 (sint now - 0) then crash Signed_Overflow
       else if sint now - 0 > timeout_us then
           andThen (irq_cleanup cleanup) (\<lambda>_.
           andThen (log_err DRIVER_TAG ''polling timeout'') (\<lambda>_.
           give SX_TIMEOUT))
       else
           andThen (delay_ms interval) (\<lambda>_. f irq'))) s = None"
proof -
  have c: "sx127x_timer_ctx s = test_timer zero_clock" and m: "irq_mask_value (world s) AND msk = 0"
    using assms(1) by (simp_all add: stuck_def)
  let ?s = "s\<lparr>world := (world s)\<lparr>irq_read_count := irq_read_count (world s) + 1\<rparr>\<rparr>"
  have c': "sx127x_timer_ctx ?s = test_timer zero_clock" using c by simp
  have "stuck msk ?s" using assms(1) by (simp add: stuck_def)
  then show ?thesis
    using test_read_irq [OF assms(4), of irq, unfolded Let_def] m test_time [OF c'] test_delay [OF c']
      assms(2,3) by (simp add: fits_i64_def)
qed

lemma stuck_loop_never:
  assumes "poll_loop start timeout_us interval msk cleanup irq s = Some r"
  shows "start = 0 \<longrightarrow> 0 \<le> timeout_us \<longrightarrow> \<not> stuck msk s"
proof (rule poll_loop.raw_induct [OF _ assms, where P = "\<lambda>start timeout_us interval msk cleanup irq s r.
    start = 0 \<longrightarrow> 0 \<le> timeout_us \<longrightarrow> \<not> stuck msk s"], intro impI notI)
  fix f start timeout_us interval msk cleanup irq and s :: "(test_world, 'z) machine_scheme" and r
  assume IH: "\<And>start timeout_us interval msk cleanup irq s r.
      f start timeout_us interval msk cleanup irq s = Some r \<Longrightarrow>
      start = 0 \<longrightarrow> 0 \<le> timeout_us \<longrightarrow> \<not> stuck msk s"
    and body: "andThen (spi_read1 0x12 irq) (\<lambda>(ret, irq').
     if ret \<noteq> SX_OK then
       andThen (log_err DRIVER_TAG (''couldnt read irq register'' @ [CHR 0x0A])) (\<lambda>_.
       andThen (irq_cleanup cleanup) (\<lambda>_. give ret))
     else if irq' AND msk \<noteq> 0 then
       andThen (irq_cleanup cleanup) (\<lambda>_. give SX_OK)
     else
       andThen time_us (\<lambda>now.
       if \<not> fits_i64 (sint now - start) then crash Signed_Overflow
       else if sint now - start > timeout_us then
           andThen (irq_cleanup cleanup) (\<lambda>_.
           andThen (log_err DRIVER_TAG ''polling timeout'') (\<lambda>_.
           give SX_TIMEOUT))
       else
           andThen (delay_ms interval) (\<lambda>_. f start timeout_us interval msk cleanup irq'))) s = Some r"
    and z: "start = 0" and t: "0 \<le> timeout_us" and st: "stuck msk s"
  have "f 0 timeout_us interval msk cleanup irq' u = None" if "stuck msk u" for irq' u
    using IH [of 0 timeout_us interval msk cleanup irq' u] t that by (cases "f 0 timeout_us interval msk cleanup irq' u") auto
  moreover have "sx127x_spi_port s = test_port" using st by (simp add: stuck_def)
  ultimately have "None = Some r"
    using body [unfolded z]
    by (subst (asm) stuck_loop_body [where f = "f 0 timeout_us interval msk cleanup", OF st t]) simp_all
  then show False by simp
qed

lemma test_write:
  "sx127x_spi_port s = test_port \<Longrightarrow> spi_write reg data len s = Some (Ret SX_OK (s\<lparr>world :=
     (world s)\<lparr>write_log := take 256 (write_log (world s) @ map (Pair reg) (take (nat len) data))\<rparr>\<rparr>))"
  by (simp add: spi_write_def on_world_def spi_burst_write_reg_def recording_writer_def)

lemma fires_loop:
  assumes "sx127x_spi_port s = test_port" and "sx127x_timer_ctx s = test_timer zero_clock"
    and "irq_read_count (world s) < n" and "irq_fires_on_read (world s) = n"
    and "irq_mask_value (world s) = irq" and "irq AND msk \<noteq> 0" and "0 \<le> timeout_us"
    and "write_log (world s) = []"
  shows "\<exists>t. poll_loop 0 timeout_us interval msk cleanup old s = Some (Ret SX_OK t) \<and>
     irq_read_count (world t) = n \<and> write_log (world t) = (if cleanup then [(0x12, 0xFF)] else [])"
  using assms(1-5,8)
proof (induction "n - irq_read_count (world s)" arbitrary: s old rule: less_induct)
  case less
  note r = test_read_irq [OF less.prems(1), of old, unfolded Let_def]
  let ?s = "s\<lparr>world := (world s)\<lparr>irq_read_count := irq_read_count (world s) + 1\<rparr>\<rparr>"
  have c: "sx127x_timer_ctx ?s = test_timer zero_clock" "sx127x_spi_port ?s = test_port"
    using less.prems by simp_all
  note loop = poll_loop_cases [OF r, of 0 timeout_us interval msk cleanup]
  show ?case
  proof (cases "irq_read_count (world s) + 1 = n")
    case True
    then show ?thesis
      using loop less.prems assms(6) test_write [OF c(2)]
      by (cases cleanup) (auto simp: irq_cleanup_def)
  next
    case False
    have "poll_loop 0 timeout_us interval msk cleanup old s = poll_loop 0 timeout_us interval msk cleanup 0 ?s"
      using loop less.prems(3,4) False assms(7) test_time [OF c(1)] test_delay [OF c(1)]
      by (simp add: fits_i64_def)
    moreover have "n - irq_read_count (world ?s) < n - irq_read_count (world s)"
      using less.prems(3) by simp
    ultimately show ?thesis
      using less.hyps [of ?s 0] less.prems False by simp
  qed
qed

text \<open>The timeout of the polling loop rests on the clock. If the clock stands still and the flag
  never comes the loop never ends, whatever the timeout; and if the flag shows at the \<open>n\<close>-th read of the
  interrupt register, the call returns success after exactly \<open>n\<close> reads.\<close>

theorem poll_with_stopped_clock:
  assumes "0 \<le> sint timeout_ms" and "timeout_ms \<noteq> 0" and "sint timeout_ms < 2 ^ 53"
    and "w = reset_state responses n irq" and "0 < n"
  shows "if irq AND msk = 0
    then poll_for_irq_flag timeout_ms interval msk cleanup (test_machine zero_clock w) = None
    else \<exists>t. poll_for_irq_flag timeout_ms interval msk cleanup (test_machine zero_clock w) = Some (Ret SX_OK t) \<and>
      irq_read_count (world t) = n \<and>
      write_log (world t) = (if cleanup then [(0x12, 0xFF)] else [])"
proof -
  let ?s = "test_machine zero_clock w"
  let ?i = "if interval \<le> 0 then 2 else interval"
  have "fits_i64 (sint timeout_ms * 1000)" using assms(1,3) by (simp add: fits_i64_def)
  moreover have "\<not> timeout_ms \<le> 0" using assms(2) by (simp add: word_le_0_iff)
  ultimately have start: "poll_for_irq_flag timeout_ms interval msk cleanup ?s
      = poll_loop 0 (sint timeout_ms * 1000) ?i msk cleanup 0 ?s"
    by (simp add: poll_for_irq_flag_def Let_def test_time)
  show ?thesis
  proof (cases "irq AND msk = 0")
    case True
    then have "stuck msk ?s" by (simp add: stuck_def assms(4) reset_state_def)
    then show ?thesis
      using stuck_loop_never [of 0 "sint timeout_ms * 1000" ?i msk cleanup 0 ?s] start assms(1) True
      by (cases "poll_loop 0 (sint timeout_ms * 1000) ?i msk cleanup 0 ?s") auto
  next
    case False
    have "irq_read_count w < n" "irq_fires_on_read w = n" "irq_mask_value w = irq" "write_log w = []"
      using assms(4,5) by (simp_all add: reset_state_def)
    then obtain t where "poll_loop 0 (sint timeout_ms * 1000) ?i msk cleanup 0 ?s = Some (Ret SX_OK t)"
      "irq_read_count (world t) = n" "write_log (world t) = (if cleanup then [(0x12, 0xFF)] else [])"
      using fires_loop [of ?s n irq msk "sint timeout_ms * 1000" ?i cleanup 0] False assms(1) by auto
    then show ?thesis using start False by auto
  qed
qed

theorem poll_with_stopped_clock_witness:
  "poll_for_irq_flag 3000 3 0x08 True (test_machine zero_clock (reset_state (\<lambda>_. 0) 1 0x40)) = None \<and>
   (\<exists>t. poll_for_irq_flag 3000 1 0x08 False (test_machine zero_clock (reset_state (\<lambda>_. 0) 3 0x08))
      = Some (Ret SX_OK t) \<and> irq_read_count (world t) = 3)"
  using poll_with_stopped_clock [where timeout_ms = 3000 and interval = 3 and msk = "0x08" and cleanup = True,
      OF _ _ _ refl [of "reset_state (\<lambda>_. 0) 1 0x40"]]
    poll_with_stopped_clock [where timeout_ms = 3000 and interval = 1 and msk = "0x08" and cleanup = False,
      OF _ _ _ refl [of "reset_state (\<lambda>_. 0) 3 0x08"]] by auto

section \<open>Payloads\<close>

lemma calm_clear_and_log [calm_intros]: "length str \<le> 4000 \<Longrightarrow> calm (clear_and_log str)"
  unfolding clear_and_log_def by (intro calm_intros) simp

text \<open>Apart from the FIFO read, which needs room in the buffer, the reading of a payload is calm.\<close>

lemma read_last_payload_calm:
  assumes l: "255 \<le> length buf"
  shows "calm_with (\<lambda>(ret, buf', n). length buf' = length buf \<and> (if ret = SX_OK then n < 256 else n = len))
    (sx1278_read_last_payload buf len)"
proof -
  have fifo: "calm_with (\<lambda>(ret, b). length b = length buf) (spi_read 0 buf (int (unat (n :: u8))))" for n
  proof (rule calm_with_spi_read)
    show "int (unat n) \<le> int (length buf)" using unat_u8_le [of n] l by (simp only: of_nat_le_iff)
  qed simp
  show ?thesis
    unfolding sx1278_read_last_payload_def Let_def
    by (rule calm_with_andThen [OF fifo] calm_with_then calm_with_if calm_with_give calm_with_prod
        calm_intros | simp | clarsimp)+
qed

context observed_platform
begin

lemma irq_cleanup_adds:
  "here s \<Longrightarrow> irq_cleanup True s = Some (Ret x t) \<Longrightarrow> \<exists>r. adds s t [(0x12, [0xFF], r)]"
  by (auto simp: irq_cleanup_def andThen_eq_Ret dest: write_adds)

lemma poll_loop_adds:
  fixes s :: "('w, 'z) machine_scheme"
  assumes "poll_loop start timeout_us interval msk cleanup irq s = Some y"
  shows "\<forall>t. y = Ret SX_OK t \<longrightarrow> cleanup \<longrightarrow> here s \<longrightarrow> (\<exists>r. adds s t [(0x12, [0xFF], r)])"
proof (rule poll_loop.raw_induct [OF _ assms, where P = "\<lambda>start timeout_us interval msk cleanup irq s y.
    \<forall>t. y = Ret SX_OK t \<longrightarrow> cleanup \<longrightarrow> here s \<longrightarrow> (\<exists>r. adds s t [(0x12, [0xFF], r)])"], intro allI impI)
  fix f :: "int \<Rightarrow> int \<Rightarrow> u64 \<Rightarrow> u8 \<Rightarrow> bool \<Rightarrow> u8 \<Rightarrow> ('w, 'z) machine_scheme \<Rightarrow> _"
    and start timeout_us interval msk cleanup irq and s :: "('w, 'z) machine_scheme" and y t
  assume IH: "\<And>start timeout_us interval msk cleanup irq s y.
      f start timeout_us interval msk cleanup irq s = Some y \<Longrightarrow>
      \<forall>t. y = Ret SX_OK t \<longrightarrow> cleanup \<longrightarrow> here s \<longrightarrow> (\<exists>r. adds s t [(0x12, [0xFF], r)])"
    and body: "andThen (spi_read1 0x12 irq) (\<lambda>(ret, irq').
     if ret \<noteq> SX_OK then
       andThen (log_err DRIVER_TAG (''couldnt read irq register'' @ [CHR 0x0A])) (\<lambda>_.
       andThen (irq_cleanup cleanup) (\<lambda>_. give ret))
     else if irq' AND msk \<noteq> 0 then
       andThen (irq_cleanup cleanup) (\<lambda>_. give SX_OK)
     else
       andThen time_us (\<lambda>now.
       if \<not> fits_i64 (sint now - start) then crash Signed_Overflow
       else if sint now - start > timeout_us then
           andThen (irq_cleanup cleanup) (\<lambda>_.
           andThen (log_err DRIVER_TAG ''polling timeout'') (\<lambda>_.
           give SX_TIMEOUT))
       else
           andThen (delay_ms interval) (\<lambda>_. f start timeout_us interval msk cleanup irq'))) s = Some y"
    and y: "y = Ret SX_OK t" and c: "cleanup" and h: "here s"
  obtain irq' s1 where s1: "spi_read1 0x12 irq s = Some (Ret (SX_OK, irq') s1)"
    and c2: "irq' AND msk \<noteq> 0 \<and> irq_cleanup True s1 = Some (Ret () t) \<or>
      (\<exists>v s2 s3. time_us s1 = Some (Ret v s2) \<and> delay_ms interval s2 = Some (Ret () s3) \<and>
        f start timeout_us interval msk cleanup irq' s3 = Some (Ret SX_OK t))"
    using body y c by (auto simp: andThen_eq_Ret split: if_splits)
  have a1: "adds s s1 []" using read1_adds [OF h s1] by simp
  show "\<exists>r. adds s t [(0x12, [0xFF], r)]"
  proof (cases "irq_cleanup True s1 = Some (Ret () t) \<and> irq' AND msk \<noteq> 0")
    case True
    then obtain r where "adds s1 t [(0x12, [0xFF], r)]"
      using irq_cleanup_adds [OF adds_here [OF a1]] by blast
    then show ?thesis using adds_trans [OF a1] by fastforce
  next
    case False
    then obtain v s2 s3 where s2: "time_us s1 = Some (Ret v s2)" "delay_ms interval s2 = Some (Ret () s3)"
      "f start timeout_us interval msk cleanup irq' s3 = Some (Ret SX_OK t)" using c2 by blast
    have a2: "adds s1 s2 []" using time_adds [OF adds_here [OF a1] s2(1)] by simp
    have a3: "adds s2 s3 []" using delay_adds [OF adds_here [OF a2] s2(2)] by simp
    obtain r where "adds s3 t [(0x12, [0xFF], r)]"
      using IH [OF s2(3)] c adds_here [OF a3] by blast
    then show ?thesis using adds_trans [OF adds_trans [OF adds_trans [OF a1 a2] a3]] by fastforce
  qed
qed

lemma poll_adds:
  assumes "here s" and "poll_for_irq_flag timeout_ms interval msk True s = Some (Ret SX_OK t)"
  shows "\<exists>r. adds s t [(0x12, [0xFF], r)]"
proof -
  obtain v s1 i where s1: "time_us s = Some (Ret v s1)"
    and p: "poll_loop (sint v) (sint (if timeout_ms \<le> 0 then 3000 else timeout_ms) * 1000) i msk True 0 s1
      = Some (Ret SX_OK t)"
    using assms(2) by (auto simp: poll_for_irq_flag_def Let_def andThen_eq_Ret split: if_splits)
  have a: "adds s s1 []" using time_adds [OF assms(1) s1] by simp
  obtain r where "adds s1 t [(0x12, [0xFF], r)]" using poll_loop_adds [OF p] adds_here [OF a] by blast
  then show ?thesis using adds_trans [OF a] by fastforce
qed

lemma send_payload_adds:
  assumes h: "here s" and run: "sx1278_send_payload buf len rx s = Some (Ret SX_OK t)"
  shows "\<exists>base r. unat len \<le> length buf \<and> adds s t
    [(0x01, [0x81], SX_OK), (0x0D, [base], SX_OK), (0x22, [len], SX_OK),
     (0x00, take (unat len) buf, SX_OK), (0x12, [0xFF], SX_OK), (0x01, [0x83], SX_OK),
     (0x12, [0xFF], r), (0x12, [0xFF], SX_OK), (0x01, [if rx then 0x85 else 0x80], SX_OK)]"
proof -
  obtain s1 base s2 s3 s4 s5 s6 s7 s8 s9 s10 where
    st: "sx1278_switch_mode 0x81 s = Some (Ret SX_OK s1)"
    "spi_read1 0x0E 0 s1 = Some (Ret (SX_OK, base) s2)"
    "spi_write 0x0D [base] 1 s2 = Some (Ret SX_OK s3)" "spi_write 0x22 [len] 1 s3 = Some (Ret SX_OK s4)"
    "unat len \<le> length buf"
    "spi_write 0x00 (take (unat len) buf) (int (unat len)) s4 = Some (Ret SX_OK s5)"
    "sx1278_clear_irq s5 = Some (Ret SX_OK s6)" "sx1278_switch_mode 0x83 s6 = Some (Ret SX_OK s7)"
    "poll_for_irq_flag 3000 3 (push_bit 3 1) True s7 = Some (Ret SX_OK s8)"
    "sx1278_clear_irq s8 = Some (Ret SX_OK s9)"
    "sx1278_switch_mode (if rx then 0x85 else 0x80) s9 = Some (Ret SX_OK s10)" "t = s10"
    using run by (auto simp: sx1278_send_payload_def Let_def checked_OK andThen_eq_Ret split: if_splits)
  have a: "adds s s1 [(0x01, [0x81], SX_OK)]" using switch_mode_adds [OF h st(1)] by simp
  have b: "adds s1 s2 []" using read1_adds [OF adds_here [OF a] st(2)] by simp
  have c: "adds s2 s3 [(0x0D, [base], SX_OK)]" using write_adds [OF adds_here [OF b] st(3)] by simp
  have d: "adds s3 s4 [(0x22, [len], SX_OK)]" using write_adds [OF adds_here [OF c] st(4)] by simp
  have e: "adds s4 s5 [(0x00, take (unat len) buf, SX_OK)]" using write_adds [OF adds_here [OF d] st(6)] by simp
  have f: "adds s5 s6 [(0x12, [0xFF], SX_OK)]" using clear_irq_adds [OF adds_here [OF e] st(7)] by simp
  have g: "adds s6 s7 [(0x01, [0x83], SX_OK)]" using switch_mode_adds [OF adds_here [OF f] st(8)] by simp
  obtain r where i: "adds s7 s8 [(0x12, [0xFF], r)]" using poll_adds [OF adds_here [OF g] st(9)] by blast
  have j: "adds s8 s9 [(0x12, [0xFF], SX_OK)]" using clear_irq_adds [OF adds_here [OF i] st(10)] by simp
  have k: "adds s9 s10 [(0x01, [if rx then 0x85 else 0x80], SX_OK)]"
    using switch_mode_adds [OF adds_here [OF j] st(11)] by simp
  have "obs (world t) = obs (world s) @ [(0x01, [0x81], SX_OK), (0x0D, [base], SX_OK), (0x22, [len], SX_OK),
     (0x00, take (unat len) buf, SX_OK), (0x12, [0xFF], SX_OK), (0x01, [0x83], SX_OK),
     (0x12, [0xFF], r), (0x12, [0xFF], SX_OK), (0x01, [if rx then 0x85 else 0x80], SX_OK)]"
    using a b c d e f g i j k st(12) by (simp add: adds_def)
  then show ?thesis using k st(5,12) by (auto simp: adds_def)
qed

end

text \<open>The same with the reads. A polling loop that reports success has read the interrupt register until the
  flag showed, and no further.\<close>

definition polled :: "u8 \<Rightarrow> u8 list \<Rightarrow> bool" where
  "polled msk vs \<longleftrightarrow> vs \<noteq> [] \<and> last vs AND msk \<noteq> 0 \<and> (\<forall>v \<in> set (butlast vs). v AND msk = 0)"

lemma polled_Cons: "polled msk vs \<Longrightarrow> v AND msk = 0 \<Longrightarrow> polled msk (v # vs)"
  by (auto simp: polled_def)

definition irq_reads :: "u8 list \<Rightarrow> bus_event list" where
  "irq_reads vs = map (\<lambda>v. Fetched 0x12 [v] SX_OK) vs"

context monitored_platform
begin

definition poll_seen :: "u8 \<Rightarrow> ('w, 'z) machine_scheme \<Rightarrow> ('w, 'z) machine_scheme \<Rightarrow> bool" where
  "poll_seen msk s t \<longleftrightarrow> (\<exists>vs r. polled msk vs \<and> passes s t (irq_reads vs @ [Wrote 0x12 [0xFF] r]))"

lemma poll_seen_later:
  assumes "passes s t [Fetched 0x12 [v] SX_OK]" and "v AND msk = 0" and "poll_seen msk t u"
  shows "poll_seen msk s u"
proof -
  obtain vs r where v: "polled msk vs" "passes t u (irq_reads vs @ [Wrote 0x12 [0xFF] r])"
    using assms(3) unfolding poll_seen_def by blast
  then have "passes s u (irq_reads (v # vs) @ [Wrote 0x12 [0xFF] r])"
    using passes_trans [OF assms(1)] by (simp add: irq_reads_def)
  then show ?thesis using polled_Cons [OF v(1) assms(2)] unfolding poll_seen_def by blast
qed

lemma irq_cleanup_passes:
  "here s \<Longrightarrow> irq_cleanup True s = Some (Ret x t) \<Longrightarrow> \<exists>r. passes s t [Wrote 0x12 [0xFF] r]"
  by (auto simp: irq_cleanup_def andThen_eq_Ret dest: write_passes)

lemma poll_loop_passes:
  fixes s :: "('w, 'z) machine_scheme"
  assumes "poll_loop start timeout_us interval msk cleanup irq s = Some y"
  shows "\<forall>t. y = Ret SX_OK t \<longrightarrow> cleanup \<longrightarrow> here s \<longrightarrow> poll_seen msk s t"
proof (rule poll_loop.raw_induct [OF _ assms, where P = "\<lambda>start timeout_us interval msk cleanup irq s y.
    \<forall>t. y = Ret SX_OK t \<longrightarrow> cleanup \<longrightarrow> here s \<longrightarrow> poll_seen msk s t"], intro allI impI)
  fix f :: "int \<Rightarrow> int \<Rightarrow> u64 \<Rightarrow> u8 \<Rightarrow> bool \<Rightarrow> u8 \<Rightarrow> ('w, 'z) machine_scheme \<Rightarrow> _"
    and start timeout_us interval msk cleanup irq and s :: "('w, 'z) machine_scheme" and y t
  assume IH: "\<And>start timeout_us interval msk cleanup irq s y.
      f start timeout_us interval msk cleanup irq s = Some y \<Longrightarrow>
      \<forall>t. y = Ret SX_OK t \<longrightarrow> cleanup \<longrightarrow> here s \<longrightarrow> poll_seen msk s t"
    and body: "andThen (spi_read1 0x12 irq) (\<lambda>(ret, irq').
     if ret \<noteq> SX_OK then
       andThen (log_err DRIVER_TAG (''couldnt read irq register'' @ [CHR 0x0A])) (\<lambda>_.
       andThen (irq_cleanup cleanup) (\<lambda>_. give ret))
     else if irq' AND msk \<noteq> 0 then
       andThen (irq_cleanup cleanup) (\<lambda>_. give SX_OK)
     else
       andThen time_us (\<lambda>now.
       if \<not> fits_i64 (sint now - start) then crash Signed_Overflow
       else if sint now - start > timeout_us then
           andThen (irq_cleanup cleanup) (\<lambda>_.
           andThen (log_err DRIVER_TAG ''polling timeout'') (\<lambda>_.
           give SX_TIMEOUT))
       else
           andThen (delay_ms interval) (\<lambda>_. f start timeout_us interval msk cleanup irq'))) s = Some y"
    and y: "y = Ret SX_OK t" and c: "cleanup" and h: "here s"
  obtain irq' s1 where s1: "spi_read1 0x12 irq s = Some (Ret (SX_OK, irq') s1)"
    and c2: "irq' AND msk \<noteq> 0 \<and> irq_cleanup True s1 = Some (Ret () t) \<or> irq' AND msk = 0 \<and>
      (\<exists>v s2 s3. time_us s1 = Some (Ret v s2) \<and> delay_ms interval s2 = Some (Ret () s3) \<and>
        f start timeout_us interval msk cleanup irq' s3 = Some (Ret SX_OK t))"
    using body y c by (auto simp: andThen_eq_Ret split: if_splits)
  have a1: "passes s s1 [Fetched 0x12 [irq'] SX_OK]" by (rule read1_passes [OF h s1])
  from c2 show "poll_seen msk s t"
  proof (elim disjE conjE exE)
    assume m: "irq' AND msk \<noteq> 0" and "irq_cleanup True s1 = Some (Ret () t)"
    then obtain r where "passes s1 t [Wrote 0x12 [0xFF] r]"
      using irq_cleanup_passes [OF passes_here [OF a1]] by blast
    from passes_trans [OF a1 this] m show ?thesis
      unfolding poll_seen_def by (intro exI [of _ "[irq']"]) (auto simp: polled_def irq_reads_def)
  next
    fix v s2 s3
    assume m: "irq' AND msk = 0" and s2: "time_us s1 = Some (Ret v s2)" "delay_ms interval s2 = Some (Ret () s3)"
      "f start timeout_us interval msk cleanup irq' s3 = Some (Ret SX_OK t)"
    have a2: "passes s1 s2 []" by (rule time_passes [OF passes_here [OF a1] s2(1)])
    have a3: "passes s2 s3 []" by (rule delay_passes [OF passes_here [OF a2] s2(2)])
    have "poll_seen msk s3 t" using IH [OF s2(3)] c passes_here [OF a3] by blast
    moreover have "passes s s3 [Fetched 0x12 [irq'] SX_OK]"
      using passes_trans [OF passes_trans [OF a1 a2] a3] by simp
    ultimately show ?thesis using poll_seen_later m by blast
  qed
qed

lemma poll_passes:
  assumes "here s" and "poll_for_irq_flag timeout_ms interval msk True s = Some (Ret SX_OK t)"
  shows "poll_seen msk s t"
proof -
  obtain v s1 i where s1: "time_us s = Some (Ret v s1)"
    and p: "poll_loop (sint v) (sint (if timeout_ms \<le> 0 then 3000 else timeout_ms) * 1000) i msk True 0 s1
      = Some (Ret SX_OK t)"
    using assms(2) by (auto simp: poll_for_irq_flag_def Let_def andThen_eq_Ret split: if_splits)
  have a: "passes s s1 []" by (rule time_passes [OF assms(1) s1])
  have "poll_seen msk s1 t" using poll_loop_passes [OF p] passes_here [OF a] by blast
  then show ?thesis using passes_trans [OF a] unfolding poll_seen_def by fastforce
qed

text \<open>The steps of a successful transmission.\<close>

lemma send_payload_passes:
  assumes h: "here s" and run: "sx1278_send_payload buf len rx s = Some (Ret SX_OK t)"
  shows "\<exists>base vs r. unat len \<le> length buf \<and> polled 0x08 vs \<and> passes s t
    ([Wrote 0x01 [0x81] SX_OK, Fetched 0x0E [base] SX_OK, Wrote 0x0D [base] SX_OK, Wrote 0x22 [len] SX_OK,
      Wrote 0x00 (take (unat len) buf) SX_OK, Wrote 0x12 [0xFF] SX_OK, Wrote 0x01 [0x83] SX_OK] @
     irq_reads vs @
     [Wrote 0x12 [0xFF] r, Wrote 0x12 [0xFF] SX_OK, Wrote 0x01 [if rx then 0x85 else 0x80] SX_OK])"
proof -
  obtain s1 base s2 s3 s4 s5 s6 s7 s8 s9 where
    st: "sx1278_switch_mode 0x81 s = Some (Ret SX_OK s1)"
    "spi_read1 0x0E 0 s1 = Some (Ret (SX_OK, base) s2)"
    "spi_write 0x0D [base] 1 s2 = Some (Ret SX_OK s3)" "spi_write 0x22 [len] 1 s3 = Some (Ret SX_OK s4)"
    "unat len \<le> length buf"
    "spi_write 0x00 (take (unat len) buf) (int (unat len)) s4 = Some (Ret SX_OK s5)"
    "sx1278_clear_irq s5 = Some (Ret SX_OK s6)" "sx1278_switch_mode 0x83 s6 = Some (Ret SX_OK s7)"
    "poll_for_irq_flag 3000 3 0x08 True s7 = Some (Ret SX_OK s8)"
    "sx1278_clear_irq s8 = Some (Ret SX_OK s9)"
    "sx1278_switch_mode (if rx then 0x85 else 0x80) s9 = Some (Ret SX_OK t)"
    using run by (auto simp: sx1278_send_payload_def Let_def checked_OK andThen_eq_Ret split: if_splits)
  note [simp] = sx1278_switch_mode_def sx1278_clear_irq_def Let_def
  have a: "passes s s1 [Wrote 0x01 [0x81] SX_OK]" using write_passes [OF h] st(1) by simp
  have b: "passes s1 s2 [Fetched 0x0E [base] SX_OK]" by (rule read1_passes [OF passes_here [OF a] st(2)])
  have c: "passes s2 s3 [Wrote 0x0D [base] SX_OK]" by (rule write_passes [OF passes_here [OF b] st(3)])
  have d: "passes s3 s4 [Wrote 0x22 [len] SX_OK]" by (rule write_passes [OF passes_here [OF c] st(4)])
  have e: "passes s4 s5 [Wrote 0x00 (take (unat len) buf) SX_OK]" by (rule write_passes [OF passes_here [OF d] st(6)])
  have f: "passes s5 s6 [Wrote 0x12 [0xFF] SX_OK]" using write_passes [OF passes_here [OF e]] st(7) by simp
  have g: "passes s6 s7 [Wrote 0x01 [0x83] SX_OK]" using write_passes [OF passes_here [OF f]] st(8) by simp
  obtain vs r where i: "polled 0x08 vs" "passes s7 s8 (irq_reads vs @ [Wrote 0x12 [0xFF] r])"
    using poll_passes [OF passes_here [OF g] st(9)] unfolding poll_seen_def by blast
  have j: "passes s8 s9 [Wrote 0x12 [0xFF] SX_OK]" using write_passes [OF passes_here [OF i(2)]] st(10) by simp
  have k: "passes s9 t [Wrote 0x01 [if rx then 0x85 else 0x80] SX_OK]"
    using write_passes [OF passes_here [OF j]] st(11) by simp
  show ?thesis
    using a b c d e f g i j k st(5)
    by (intro exI [of _ base] exI [of _ vs] exI [of _ r]) (simp add: passes_def)
qed

end

section \<open>Properties of payloads\<close>

text \<open>C16: Sending, seen on the bus. When \<open>sx1278_send_payload\<close> reports success the whole traffic was this, in
  this order: the chip was set to standby, the transmit base was read from register 0x0E and that value was written
  to the FIFO pointer, the length and then exactly the payload were written, the interrupts were cleared before
  transmit mode was entered; then the interrupt register was read until the flag TxDone showed for the first time, the
  interrupts were cleared (twice) and the chip was switched to the mode asked for. Nothing else was read or written.\<close>

theorem send_payload_success:
  assumes "monitored_platform bus (sx127x_spi_port s) (sx127x_logger s) (sx127x_timer_ctx s)"
    and "initialized (sx127x_spi_port s)"
    and "sx1278_send_payload buf len rx s = Some (Ret SX_OK t)"
  shows "\<exists>base vs done r. unat len \<le> length buf \<and> done AND 0x08 \<noteq> 0 \<and> (\<forall>v \<in> set vs. v AND 0x08 = 0) \<and>
    bus (world t) = bus (world s) @
      [Wrote 0x01 [0x81] SX_OK, Fetched 0x0E [base] SX_OK, Wrote 0x0D [base] SX_OK, Wrote 0x22 [len] SX_OK,
       Wrote 0x00 (take (unat len) buf) SX_OK, Wrote 0x12 [0xFF] SX_OK, Wrote 0x01 [0x83] SX_OK] @
      map (\<lambda>v. Fetched 0x12 [v] SX_OK) (vs @ [done]) @
      [Wrote 0x12 [0xFF] r, Wrote 0x12 [0xFF] SX_OK, Wrote 0x01 [if rx then 0x85 else 0x80] SX_OK]"
proof -
  note m = assms(1)
  note here = monitored_platform.hereI [OF m assms(2) refl refl refl]
  from monitored_platform.send_payload_passes [OF m here assms(3)] obtain base us r
    where "unat len \<le> length buf" and us: "polled 0x08 us" and b: "bus (world t) = bus (world s) @
      [Wrote 0x01 [0x81] SX_OK, Fetched 0x0E [base] SX_OK, Wrote 0x0D [base] SX_OK, Wrote 0x22 [len] SX_OK,
       Wrote 0x00 (take (unat len) buf) SX_OK, Wrote 0x12 [0xFF] SX_OK, Wrote 0x01 [0x83] SX_OK] @
      irq_reads us @
      [Wrote 0x12 [0xFF] r, Wrote 0x12 [0xFF] SX_OK, Wrote 0x01 [if rx then 0x85 else 0x80] SX_OK]"
    by (auto simp: monitored_platform.passes_def [OF m])
  moreover have "us = butlast us @ [last us]" using us by (simp add: polled_def)
  ultimately show ?thesis
    by (intro exI [of _ base] exI [of _ "butlast us"] exI [of _ "last us"] exI [of _ r])
      (simp add: polled_def irq_reads_def)
qed

lemma watched_time [simp]:
  "sx127x_timer_ctx s = spy_timer still_timer \<Longrightarrow> time_us s = Some (Ret 0 s)"
  by (cases "world s") (simp add: time_us_def on_world_def sx127x_timer_get_time_us_def spy_timer_def
    still_timer_def sx127x_timer_init_def)

lemma watched_poll:
  assumes "sx127x_spi_port s = spy_port (flaky_port None v)" and "v AND msk \<noteq> 0"
  shows "poll_loop 0 timeout_us i msk True irq s
     = Some (Ret SX_OK (s\<lparr>world := ((), snd (world s) @ [(0x12, [0xFF], SX_OK)])\<rparr>))"
  using poll_loop_cases [OF watched_read1 [OF assms(1)]] assms by (simp add: irq_cleanup_def Let_def)

text \<open>On the test doubles, with TxDone at the second read of the interrupt register.\<close>

lemma tapped_poll:
  assumes "sx127x_spi_port s = tap_port test_port" and "sx127x_timer_ctx s = spy_timer (test_timer zero_clock)"
    and "world s = (w, xs)" and "irq_read_count w = 0" and "irq_fires_on_read w = 2" and "irq_mask_value w = 0x08"
  shows "poll_loop 0 3000000 3 0x08 True 0 s = Some (Ret SX_OK (s\<lparr>world :=
    (snd (recording_writer 0 0x12 [0xFF] 1 (w\<lparr>irq_read_count := Suc (Suc 0)\<rparr>)),
     xs @ [Fetched 0x12 [0] SX_OK, Fetched 0x12 [0x08] SX_OK, Wrote 0x12 [0xFF] SX_OK])\<rparr>))"
proof -
  let ?t = "s\<lparr>world := (w\<lparr>irq_read_count := 1\<rparr>, xs @ [Fetched 0x12 [0] SX_OK])\<rparr>"
  have "poll_loop 0 3000000 3 0x08 True 0 s = poll_loop 0 3000000 3 0x08 True 0 ?t"
    using assms tapped_irq [OF assms(1,3), of 0] tapped_time [of ?t] tapped_delay [of ?t zero_clock]
    by (subst poll_loop.simps) (simp add: Let_def fits_i64_def)
  moreover have "sx127x_spi_port ?t = tap_port test_port" using assms(1) by simp
  note tapped_irq [OF this, of "w\<lparr>irq_read_count := 1\<rparr>"]
  ultimately show ?thesis
    using assms by (subst (asm) (2) poll_loop.simps) (simp add: Let_def irq_cleanup_def tapped_write)
qed

theorem send_payload_success_witness:
  "\<exists>t base vs done r. sx1278_send_payload [1, 2, 3, 4] 3 True (tapped_machine zero_clock (reset_state (\<lambda>_. 0x80) 2 0x08))
       = Some (Ret SX_OK t) \<and> done AND 0x08 \<noteq> 0 \<and> (\<forall>v \<in> set vs. v AND 0x08 = 0) \<and>
     snd (world t) =
       [Wrote 0x01 [0x81] SX_OK, Fetched 0x0E [base] SX_OK, Wrote 0x0D [base] SX_OK, Wrote 0x22 [3] SX_OK,
        Wrote 0x00 [1, 2, 3] SX_OK, Wrote 0x12 [0xFF] SX_OK, Wrote 0x01 [0x83] SX_OK] @
       map (\<lambda>v. Fetched 0x12 [v] SX_OK) (vs @ [done]) @
       [Wrote 0x12 [0xFF] r, Wrote 0x12 [0xFF] SX_OK, Wrote 0x01 [0x85] SX_OK]"
proof -
  let ?s = "tapped_machine zero_clock (reset_state (\<lambda>_. 0x80) 2 0x08)"
  obtain t where t: "sx1278_send_payload [1, 2, 3, 4] 3 True ?s = Some (Ret SX_OK t)"
    by (simp add: sx1278_send_payload_def Let_def checked_def sx1278_switch_mode_def sx1278_clear_irq_def
        poll_for_irq_flag_def tapped_write tapped_read1 tapped_time tapped_poll fits_i64_def
        recording_writer_def reset_state_def)
  have "monitored_platform snd (sx127x_spi_port ?s) (sx127x_logger ?s) (sx127x_timer_ctx ?s)"
    by (simp add: tapped.monitored_platform_axioms)
  from send_payload_success [OF this _ t] t show ?thesis by (auto simp: take_Cons')
qed

text \<open>Reading a payload never faults when the buffer has room for the 255 bytes the chip can hold: on
  every usable platform the call returns, changes nothing but the world and the first bytes of the
  buffer, and sets the length only when it reports success.\<close>

theorem read_last_payload_total:
  assumes "usable s" and "255 \<le> length buf"
  shows "\<exists>ret buf' n t. sx1278_read_last_payload buf len s = Some (Ret (ret, buf', n) t) \<and>
     world_only s t \<and> length buf' = length buf \<and> (if ret = SX_OK then n < 256 else n = len)"
  using calm_withD [OF read_last_payload_calm [OF assms(2), of len] assms(1)] by auto

theorem read_last_payload_total_witness:
  "\<exists>ret buf' n t. sx1278_read_last_payload (replicate 255 0) 0 (watched_machine (Some 0x0D) 0x40)
     = Some (Ret (ret, buf', n) t) \<and> length buf' = 255"
  using read_last_payload_total [OF watched_usable, of "replicate 255 0" 0] by fastforce

lemma test_read:
  "sx127x_spi_port s = test_port \<Longrightarrow> reg \<noteq> 0x12 \<Longrightarrow>
   spi_read1 reg old s = Some (Ret (SX_OK, read_responses (world s) reg) s)"
  by (simp add: spi_read1_def spi_read_def on_world_def spi_burst_read_reg_def counting_reader_def
      buf_write_def overlay_def)

lemma test_fifo:
  "sx127x_spi_port s = test_port \<Longrightarrow> spi_read 0 buf (uint (n :: u8)) s =
     (if unat n \<le> length buf
      then Some (Ret (SX_OK, overlay buf 0 (replicate (unat n) (read_responses (world s) 0))) s)
      else Some (Fault Out_Of_Bounds))"
  by (auto simp: spi_read_def on_world_def spi_burst_read_reg_def counting_reader_def buf_write_def)

lemma test_log:
  "sx127x_logger s = zero_logger \<Longrightarrow> length tag + length str \<le> 4093 \<Longrightarrow> log_err tag str s = Some (Ret () s)"
  by (simp add: log_err_def on_world_def network_log_err_def network_log_with_tag_def network_log_def
      zero_logger_def)

text \<open>C32: What reading a payload returns, on the test bus, for every content of the interrupt and length
  registers: without the reception flag \<open>SX_INVALID_STATE\<close>, with the checksum flag
  \<open>SX_INVALID_CRC\<close>, otherwise the received bytes and their number. The number is trusted: a buffer
  that is shorter than it (such as the 64-byte buffer of the ping-pong example) is overrun.\<close>

theorem read_last_payload_cases:
  assumes "w = reset_state responses 1 irq" and "n = unat (responses 0x13)"
  shows "\<exists>t. sx1278_read_last_payload buf len (test_machine clock w) =
    (if irq AND 0x40 = 0 then Some (Ret (SX_INVALID_STATE, buf, len) t)
     else if irq AND 0x20 \<noteq> 0 then Some (Ret (SX_INVALID_CRC, buf, len) t)
     else if n \<le> length buf then Some (Ret (SX_OK, replicate n (responses 0) @ drop n buf, n) t)
     else Some (Fault Out_Of_Bounds))"
proof -
  let ?s = "(test_machine clock w)\<lparr>world := w\<lparr>irq_read_count := 1, write_log := [(0x01, 0x81)]\<rparr>\<rparr>"
  have irq: "andThen (sx1278_switch_mode 0x81) (\<lambda>ret. if ret \<noteq> SX_OK then m ret else
      andThen (sx1278_read_irq 0) k) (test_machine clock w) = k (SX_OK, irq) ?s" for m k
    using assms(1) by (simp add: sx1278_switch_mode_def test_write sx1278_read_irq_def test_read_irq
        reset_state_def Let_def)
  have port: "sx127x_spi_port ?s = test_port" "sx127x_logger ?s = zero_logger" by simp_all
  have resp: "read_responses w = responses" using assms(1) by (simp add: reset_state_def)
  show ?thesis
    unfolding sx1278_read_last_payload_def mode_bytes irq
    using assms(2)
    by (auto simp: clear_and_log_def sx1278_clear_irq_def test_write test_read test_log test_fifo resp Let_def
        overlay_def)
qed

theorem read_last_payload_cases_witness:
  "sx1278_read_last_payload (replicate 64 0) 0 (test_machine zero_clock (reset_state (\<lambda>_. 65) 1 0x40))
     = Some (Fault Out_Of_Bounds)"
  using read_last_payload_cases [OF refl refl, of "replicate 64 0" 0 zero_clock "\<lambda>_. 65" "0x40"] by simp

end
