(* ===== verification/Packet.thy ===== *)
theory Packet
  imports C_Heap
begin

text \<open>
  \<open>src/packet.c\<close> and \<open>include/packet.h\<close>: the packet struct, its classification, its construction,
  copying and freeing on the heap, and its frame format on the wire. The abstract side is a
  \<open>frame\<close> (addresses, ids and payload bytes as values) with the pure encoder \<open>wire\<close> and decoder
  \<open>unwire\<close>; \<open>packet_view\<close> reads the frame a packet pointer denotes.
\<close>

section \<open>Constants and types\<close>

datatype packet_types = PACKET_ACK | PACKET_BEGIN | PACKET_END | PACKET_DATA

definition addr_length :: nat where
  "addr_length = 2"

definition overhead :: nat where
  "overhead = 2 * addr_length + 1 + 1 + 1"

definition payload_length_max :: nat where
  "payload_length_max = 8"

definition max_frame_size :: nat where
  "max_frame_size = payload_length_max + overhead"

definition UINT8_MAX :: nat where
  "UINT8_MAX = 255"

lemma overhead_7 [simp]: "overhead = 7"
  by (simp add: overhead_def addr_length_def)

lemma payload_length_max_8 [simp]: "payload_length_max = 8"
  by (simp add: payload_length_max_def)

lemma max_frame_size_15 [simp]: "max_frame_size = 15"
  by (simp add: max_frame_size_def)

section \<open>Big-endian conversions\<close>

definition u32_conv_be :: "u32 \<Rightarrow> u8 list" where
  "u32_conv_be x =
     [ucast (drop_bit 24 x), ucast (drop_bit 16 x), ucast (drop_bit 8 x), ucast (drop_bit 0 x)]"

definition u16_conv_be :: "u16 \<Rightarrow> u8 list" where
  "u16_conv_be x = [ucast (drop_bit 8 x), ucast (drop_bit 0 x)]"

definition read_u32_be :: "u8 list \<Rightarrow> u32" where
  "read_u32_be src =
     or (or (or (push_bit 24 (ucast (src ! 0))) (push_bit 16 (ucast (src ! 1))))
            (push_bit 8 (ucast (src ! 2))))
        (push_bit 0 (ucast (src ! 3)))"

definition read_u16_be :: "u8 list \<Rightarrow> u16" where
  "read_u16_be src = or (push_bit 8 (ucast (src ! 0))) (push_bit 0 (ucast (src ! 1)))"

lemma length_u16_conv_be [simp]: "length (u16_conv_be x) = 2"
  by (simp add: u16_conv_be_def)

lemma read_u16_conv_be [simp]: "read_u16_be (u16_conv_be x @ rest) = x"
  by (rule bit_word_eqI)
    (auto simp: read_u16_be_def u16_conv_be_def bit_simps dest: bit_imp_le_length)

lemma u16_conv_read_be: "u16_conv_be (read_u16_be [a, b]) = [a, b]"
proof -
  have "ucast (drop_bit 8 (or (push_bit 8 (ucast a)) (ucast b) :: u16)) = a"
    by (rule bit_word_eqI) (auto simp: bit_simps dest: bit_imp_le_length)
  moreover have "ucast (or (push_bit 8 (ucast a)) (ucast b) :: u16) = b"
    by (rule bit_word_eqI) (auto simp: bit_simps dest: bit_imp_le_length)
  ultimately show ?thesis by (simp add: read_u16_be_def u16_conv_be_def)
qed

lemma read_u32_conv_be [simp]: "read_u32_be (u32_conv_be x @ rest) = x"
proof (rule bit_word_eqI)
  fix n
  assume "n < LENGTH(32)"
  then consider "n < 8" | "8 \<le> n" "n < 16" | "16 \<le> n" "n < 24" | "24 \<le> n" "n < 32"
    by fastforce
  then show "bit (read_u32_be (u32_conv_be x @ rest)) n = bit x n"
    by cases (auto simp: read_u32_be_def u32_conv_be_def bit_simps)
qed

section \<open>Classification\<close>

definition check_packet_type :: "packet \<Rightarrow> packet_types" where
  "check_packet_type p =
     (if sequence_number p = 0 \<and> payload_length p = 0 then PACKET_BEGIN
      else if sequence_number p = of_nat UINT8_MAX \<and> payload_length p = 0 then PACKET_END
      else if payload_length p = 0 then PACKET_ACK
      else PACKET_DATA)"

definition check_packet_features ::
  "packet \<Rightarrow> u16 \<Rightarrow> u16 \<Rightarrow> u8 \<Rightarrow> u8 \<Rightarrow> packet_types \<Rightarrow> bool" where
  "check_packet_features p src_addr dest_addr ack seq packet_type =
     (if src_address p \<noteq> src_addr then False
      else if dest_address p \<noteq> dest_addr then False
      else if ack_id p \<noteq> ack then False
      else if sequence_number p \<noteq> seq then False
      else if check_packet_type p \<noteq> packet_type then False
      else True)"

section \<open>Description string\<close>

fun hex_of :: "nat \<Rightarrow> string" where
  "hex_of n = (if n < 16 then [''0123456789abcdef'' ! n]
     else hex_of (n div 16) @ [''0123456789abcdef'' ! (n mod 16)])"

declare hex_of.simps [simp del]

text \<open>\<open>%0<w>x\<close> of \<open>sprintf\<close>.\<close>

definition fmt_hex :: "nat \<Rightarrow> nat \<Rightarrow> string" where
  "fmt_hex w n = replicate (w - length (hex_of n)) CHR ''0'' @ hex_of n"

fun packet_type_code :: "packet_types \<Rightarrow> string" where
  "packet_type_code PACKET_ACK = ''0''"
| "packet_type_code PACKET_BEGIN = ''1''"
| "packet_type_code PACKET_END = ''2''"
| "packet_type_code PACKET_DATA = ''3''"

definition str_bytes :: "string \<Rightarrow> u8 list" where
  "str_bytes s = map of_char s"

text \<open>\<open>%s\<close> prints up to the first zero byte.\<close>

definition c_string :: "u8 list \<Rightarrow> u8 list" where
  "c_string bs = takeWhile (\<lambda>b. b \<noteq> 0) bs"

definition description_text :: "packet \<Rightarrow> u8 list \<Rightarrow> u8 list" where
  "description_text p str =
     str_bytes (''PACKET TYPE: '' @ packet_type_code (check_packet_type p) @
       [CHR 0x0A] @ '' DEST_ADDR: 0x'' @ fmt_hex 4 (unat (dest_address p)) @
       [CHR 0x0A] @ ''SRC_ADDR: 0x'' @ fmt_hex 4 (unat (src_address p)) @
       [CHR 0x0A] @ ''ACK_ID: 0x'' @ fmt_hex 2 (unat (ack_id p)) @
       [CHR 0x0A] @ ''SEQ: 0x'' @ fmt_hex 2 (unat (sequence_number p)) @
       [CHR 0x0A] @ ''PAYLOAD_LENGTH: 0x'' @ fmt_hex 2 (unat (payload_length p)) @
       [CHR 0x0A] @ ''DATA: '')
     @ c_string str @ str_bytes [CHR 0x0A]"

definition packet_description :: "nat \<Rightarrow> nat \<Rightarrow> ('z cmem_scheme, unit) cmd" where
  "packet_description p buf =
     andThen (malloc_bytes 9) (\<lambda>str.
     andThen (load_packet p) (\<lambda>k.
     andThen (read_bytes (payload k) (unat (payload_length k))) (\<lambda>bs.
     andThen (write_bytes str 0 bs) (\<lambda>_.
     andThen (write_bytes str (unat (payload_length k)) [0]) (\<lambda>_.
     andThen (read_bytes str 9) (\<lambda>cs.
     andThen (write_bytes buf 0 (description_text k cs @ [0])) (\<lambda>_.
     c_free str)))))))"

section \<open>Construction, copying, freeing\<close>

definition copy_packet :: "nat \<Rightarrow> ('z cmem_scheme, nat) cmd" where
  "copy_packet p =
     andThen malloc_packet (\<lambda>np.
     andThen (load_packet p) (\<lambda>k.
     andThen (malloc_bytes (unat (payload_length k))) (\<lambda>np_payload_buf.
     andThen (store_packet np (\<lambda>_. k)) (\<lambda>_.
     andThen (read_bytes (payload k) (unat (payload_length k))) (\<lambda>bs.
     andThen (write_bytes np_payload_buf 0 bs) (\<lambda>_.
     andThen (store_packet np (\<lambda>q. q\<lparr>payload := np_payload_buf\<rparr>)) (\<lambda>_.
     give np)))))))"

definition packet_constructor ::
  "u16 \<Rightarrow> u16 \<Rightarrow> u8 \<Rightarrow> u8 \<Rightarrow> u8 \<Rightarrow> nat \<Rightarrow> ('z cmem_scheme, nat) cmd" where
  "packet_constructor dest src ack seq plen pl =
     (if unat plen > payload_length_max then give NULL
      else
        andThen malloc_packet (\<lambda>p.
        andThen (store_packet p (\<lambda>_.
          \<lparr>dest_address = dest, src_address = src, ack_id = ack, sequence_number = seq,
           payload_length = plen, payload = pl\<rparr>)) (\<lambda>_.
        give p)))"

definition ack_packet :: "u16 \<Rightarrow> u16 \<Rightarrow> u8 \<Rightarrow> u8 \<Rightarrow> ('z cmem_scheme, nat) cmd" where
  "ack_packet dest src ack seq = packet_constructor dest src ack seq 0 NULL"

definition free_packet :: "nat \<Rightarrow> ('z cmem_scheme, unit) cmd" where
  "free_packet p =
     andThen (load_packet p) (\<lambda>k.
     andThen (if payload k \<noteq> NULL then c_free (payload k) else give ()) (\<lambda>_.
     c_free p))"

section \<open>The frame format\<close>

text \<open>The received bytes are the array \<open>raw\<close> (\<open>rx_buffer\<close> of the caller); reading past it faults.\<close>

definition parse_packet :: "u8 list \<Rightarrow> nat \<Rightarrow> ('z cmem_scheme, int) cmd" where
  "parse_packet raw p =
     (let idx0 = 0 in
      andThen (buf_read raw idx0 2) (\<lambda>d. let dest = read_u16_be d; idx1 = idx0 + addr_length in
      andThen (buf_read raw idx1 2) (\<lambda>sr. let src = read_u16_be sr; idx2 = idx1 + addr_length in
      andThen (buf_read raw idx2 1) (\<lambda>a. let ack = hd a; idx3 = idx2 + 1 in
      andThen (buf_read raw idx3 1) (\<lambda>sq. let seq = hd sq; idx4 = idx3 + 1 in
      andThen (buf_read raw idx4 1) (\<lambda>pl. let plen = hd pl; idx5 = idx4 + 1 in
      andThen
        (if unat plen > 0 then
           andThen (malloc_bytes (unat plen)) (\<lambda>buf.
           andThen (buf_read raw idx5 (unat plen)) (\<lambda>bs.
           andThen (write_bytes buf 0 bs) (\<lambda>_.
           andThen (store_packet p (\<lambda>k. k\<lparr>payload := buf\<rparr>)) (\<lambda>_.
           give (idx5 + unat plen)))))
         else
           andThen (store_packet p (\<lambda>k. k\<lparr>payload := NULL\<rparr>)) (\<lambda>_.
           give idx5)) (\<lambda>idx6.
      andThen (store_packet p (\<lambda>k. k\<lparr>ack_id := ack, dest_address := dest,
          payload_length := plen, sequence_number := seq, src_address := src\<rparr>)) (\<lambda>_.
      give (int idx6)))))))))"

definition packet_to_bytestream ::
  "u8 list \<Rightarrow> nat \<Rightarrow> nat \<Rightarrow> ('z cmem_scheme, int \<times> u8 list) cmd" where
  "packet_to_bytestream buffer buffer_size pkt =
     andThen (load_packet pkt) (\<lambda>k.
     if buffer_size < overhead + unat (payload_length k) then give (-1, buffer)
     else
       let idx0 = 0 in
       andThen (buf_write buffer idx0 (u16_conv_be (dest_address k))) (\<lambda>b1. let idx1 = idx0 + 2 in
       andThen (buf_write b1 idx1 (u16_conv_be (src_address k))) (\<lambda>b2. let idx2 = idx1 + 2 in
       andThen (buf_write b2 idx2 [ack_id k]) (\<lambda>b3. let idx3 = idx2 + 1 in
       andThen (buf_write b3 idx3 [sequence_number k]) (\<lambda>b4. let idx4 = idx3 + 1 in
       andThen (buf_write b4 idx4 [payload_length k]) (\<lambda>b5. let idx5 = idx4 + 1 in
       andThen (read_bytes (payload k) (unat (payload_length k))) (\<lambda>bs.
       andThen (buf_write b5 idx5 bs) (\<lambda>b6.
       give (int (idx5 + unat (payload_length k)), b6)))))))))"

section \<open>Frames: the abstract packet\<close>

record frame =
  fr_dest :: u16
  fr_src :: u16
  fr_ack :: u8
  fr_seq :: u8
  fr_data :: "u8 list"

definition frame_ok :: "frame \<Rightarrow> bool" where
  "frame_ok f \<longleftrightarrow> length (fr_data f) < 256"

definition frame_type :: "frame \<Rightarrow> packet_types" where
  "frame_type f =
     (if fr_data f \<noteq> [] then PACKET_DATA
      else if fr_seq f = 0 then PACKET_BEGIN
      else if fr_seq f = 255 then PACKET_END
      else PACKET_ACK)"

lemma frame_type_data: "frame_type f = PACKET_DATA \<longleftrightarrow> fr_data f \<noteq> []"
  by (simp add: frame_type_def)

definition frame_of :: "packet \<Rightarrow> u8 list \<Rightarrow> frame" where
  "frame_of k bs = \<lparr>fr_dest = dest_address k, fr_src = src_address k, fr_ack = ack_id k,
     fr_seq = sequence_number k, fr_data = bs\<rparr>"

definition packet_view :: "'z cmem_scheme \<Rightarrow> nat \<Rightarrow> frame option" where
  "packet_view s p = (case blocks s p of
       Some (Pkt k) \<Rightarrow>
         (case read_bytes (payload k) (unat (payload_length k)) s of
            Some (Ret bs t) \<Rightarrow> Some (frame_of k bs)
          | _ \<Rightarrow> None)
     | _ \<Rightarrow> None)"

definition wire :: "frame \<Rightarrow> u8 list" where
  "wire f = u16_conv_be (fr_dest f) @ u16_conv_be (fr_src f) @
     [fr_ack f, fr_seq f, of_nat (length (fr_data f))] @ fr_data f"

definition unwire :: "u8 list \<Rightarrow> (frame \<times> nat) option" where
  "unwire raw =
     (if length raw < 7 \<or> length raw < 7 + unat (raw ! 6) then None
      else Some (\<lparr>fr_dest = read_u16_be [raw ! 0, raw ! 1], fr_src = read_u16_be [raw ! 2, raw ! 3],
                  fr_ack = raw ! 4, fr_seq = raw ! 5,
                  fr_data = take (unat (raw ! 6)) (drop 7 raw)\<rparr>, 7 + unat (raw ! 6)))"

lemma length_wire [simp]: "length (wire f) = 7 + length (fr_data f)"
  by (simp add: wire_def)

lemma packet_view_iff:
  "packet_view s p = Some f \<longleftrightarrow>
     (\<exists>k. blocks s p = Some (Pkt k) \<and>
          read_bytes (payload k) (unat (payload_length k)) s = Some (Ret (fr_data f) s) \<and>
          f = frame_of k (fr_data f))"
  by (auto simp: packet_view_def frame_of_def dest: read_bytes_state
      split: option.splits block.splits outcome.splits)

lemma read_bytes_length: "read_bytes p n s = Some (Ret bs t) \<Longrightarrow> length bs = n"
  by (auto simp: read_bytes_Ret_iff)

lemma packet_viewE:
  assumes "packet_view s p = Some f"
  obtains k where "blocks s p = Some (Pkt k)"
    and "read_bytes (payload k) (unat (payload_length k)) s = Some (Ret (fr_data f) s)"
    and "f = frame_of k (fr_data f)" and "length (fr_data f) = unat (payload_length k)"
  using assms by (auto simp: packet_view_iff dest: read_bytes_length intro: that)

lemma packet_view_frame_ok: "packet_view s p = Some f \<Longrightarrow> frame_ok f"
  by (auto simp: frame_ok_def elim: packet_viewE)

lemma payload_length_0_iff: "length bs = unat (w :: u8) \<Longrightarrow> w = 0 \<longleftrightarrow> bs = []"
  by (metis length_0_conv unat_eq_0_iff)

lemma check_packet_type_view:
  "length bs = unat (payload_length k) \<Longrightarrow> check_packet_type k = frame_type (frame_of k bs)"
  by (auto simp: check_packet_type_def frame_type_def frame_of_def UINT8_MAX_def
      payload_length_0_iff)

lemma packet_view_sel:
  assumes "packet_view s p = Some f" and "blocks s p = Some (Pkt k)"
  shows "dest_address k = fr_dest f" "src_address k = fr_src f" "ack_id k = fr_ack f"
    "sequence_number k = fr_seq f" "unat (payload_length k) = length (fr_data f)"
    "check_packet_type k = frame_type f"
proof -
  have f: "f = frame_of k (fr_data f)" and l: "length (fr_data f) = unat (payload_length k)"
    using assms by (auto elim!: packet_viewE)
  show "check_packet_type k = frame_type f" using check_packet_type_view [OF l] f by metis
  show "unat (payload_length k) = length (fr_data f)" using l by simp
  show "dest_address k = fr_dest f" "src_address k = fr_src f" "ack_id k = fr_ack f" "sequence_number k = fr_seq f"
    using f by (metis frame.select_convs frame_of_def)+
qed

text \<open>A packet whose struct and payload buffer are untouched keeps its view.\<close>

lemma packet_view_cong:
  assumes "packet_view s p = Some f"
    and "blocks t p = blocks s p"
    and "\<And>k. blocks s p = Some (Pkt k) \<Longrightarrow> payload_length k \<noteq> 0 \<Longrightarrow>
           blocks t (payload k) = blocks s (payload k)"
  shows "packet_view t p = Some f"
proof -
  from assms(1) obtain k where k: "blocks s p = Some (Pkt k)"
    and r: "read_bytes (payload k) (unat (payload_length k)) s = Some (Ret (fr_data f) s)"
    and f: "f = frame_of k (fr_data f)"
    by (rule packet_viewE)
  have "read_bytes (payload k) (unat (payload_length k)) t = Some (Ret (fr_data f) t)"
    using assms(3) [OF k] by (intro read_bytes_cong [OF _ r], cases "payload_length k = 0") auto
  with k f assms(2) show ?thesis by (auto simp: packet_view_iff)
qed

definition payload_of :: "'z cmem_scheme \<Rightarrow> nat \<Rightarrow> nat set" where
  "payload_of s p = (case blocks s p of
       Some (Pkt k) \<Rightarrow> (if payload_length k = 0 then {} else {payload k})
     | _ \<Rightarrow> {})"

lemma packet_view_heap_keeps:
  assumes v: "packet_view s p = Some f" and k: "heap_keeps A s t" and m: "mem_ok s"
    and A: "insert p (payload_of s p) \<inter> A = {}"
  shows "packet_view t p = Some f"
proof (rule packet_view_cong [OF v])
  from v obtain q where q: "blocks s p = Some (Pkt q)" by (auto elim: packet_viewE)
  then show "blocks t p = blocks s p"
    using k A mem_ok_Some_less [OF m q] by (simp add: heap_keeps_block)
  fix r
  assume r: "blocks s p = Some (Pkt r)" "payload_length r \<noteq> 0"
  with v obtain bs where b: "blocks s (payload r) = Some (Bytes bs)"
    by (auto simp: packet_view_iff read_bytes_Ret_iff unat_eq_0_iff)
  moreover have "payload r \<notin> A" using A r by (auto simp: payload_of_def)
  ultimately show "blocks t (payload r) = blocks s (payload r)"
    using k mem_ok_Some_less [OF m b] by (simp add: heap_keeps_block)
qed

lemma packet_view_keeps:
  "packet_view s p = Some f \<Longrightarrow> keeps A s t \<Longrightarrow> mem_ok s \<Longrightarrow>
   insert p (payload_of s p) \<inter> A = {} \<Longrightarrow> packet_view t p = Some f"
  by (rule packet_view_heap_keeps [OF _ keeps_heap])

text \<open>The heap objects a packet pointer owns: the struct and a non-empty payload.\<close>

definition owned :: "'z cmem_scheme \<Rightarrow> nat \<Rightarrow> nat set" where
  "owned s p = insert p (payload_of s p)"

lemma views_heap_keeps:
  assumes "map (packet_view t) ps = map Some fs" and "heap_keeps A t u" and "mem_ok t"
    and "\<And>p. p \<in> set ps \<Longrightarrow> owned t p \<inter> A = {}"
  shows "map (packet_view u) ps = map Some fs"
  using assms(1,4)
proof (induction ps arbitrary: fs)
  case Nil
  then show ?case by simp
next
  case (Cons p ps)
  then obtain f gs where fs: "fs = f # gs" and v: "packet_view t p = Some f" by (cases fs) auto
  have "packet_view u p = Some f"
    using Cons.prems(2) [of p] by (intro packet_view_heap_keeps [OF v assms(2,3)]) (simp add: owned_def)
  with Cons.IH [of gs] Cons.prems fs show ?case by simp
qed

lemma views_keeps:
  "map (packet_view t) ps = map Some fs \<Longrightarrow> keeps A t u \<Longrightarrow> mem_ok t \<Longrightarrow>
   (\<And>p. p \<in> set ps \<Longrightarrow> owned t p \<inter> A = {}) \<Longrightarrow> map (packet_view u) ps = map Some fs"
  by (rule views_heap_keeps [OF _ keeps_heap])

lemma owned_heap_keeps:
  assumes "heap_keeps A s t" and "p < fresh s" and "p \<notin> A"
  shows "owned t p = owned s p"
  using heap_keeps_block [OF assms] by (simp add: owned_def payload_of_def)

lemma owned_keeps: "keeps {} s t \<Longrightarrow> p < fresh s \<Longrightarrow> owned t p = owned s p"
  using owned_heap_keeps [OF keeps_heap] by blast

lemma in_owned [simp]: "p \<in> owned s p"
  by (simp add: owned_def)

lemma packet_view_less: "packet_view s p = Some f \<Longrightarrow> mem_ok s \<Longrightarrow> 0 < p \<and> p < fresh s"
  by (auto elim!: packet_viewE dest: mem_ok_Some_less)

lemma views_Some:
  assumes "map (packet_view s) ps = map Some fs" and "p \<in> set ps"
  shows "\<exists>f. packet_view s p = Some f"
proof -
  have "packet_view s p \<in> set (map (packet_view s) ps)" using assms(2) by simp
  then show ?thesis unfolding assms(1) by auto
qed

lemma views_less:
  "map (packet_view s) ps = map Some fs \<Longrightarrow> mem_ok s \<Longrightarrow> p \<in> set ps \<Longrightarrow> p < fresh s"
  using views_Some packet_view_less by blast

lemma owned_less:
  assumes "packet_view s p = Some f" and "mem_ok s"
  shows "owned s p \<subseteq> {..<fresh s}"
proof -
  from assms(1) obtain k where k: "blocks s p = Some (Pkt k)"
    and r: "read_bytes (payload k) (unat (payload_length k)) s = Some (Ret (fr_data f) s)"
    by (rule packet_viewE)
  have "payload k < fresh s" if "payload_length k \<noteq> 0"
    using r that mem_ok_Some_less [OF assms(2)] by (auto simp: read_bytes_Ret_iff unat_eq_0_iff)
  then show ?thesis
    using k mem_ok_Some_less [OF assms(2) k] by (auto simp: owned_def payload_of_def)
qed

section \<open>The wire format: encoder and decoder\<close>

lemma take_Suc_nth: "n < length xs \<Longrightarrow> take 1 (drop n xs) = [xs ! n]"
  by (metis One_nat_def take_Suc_Cons take_0 Cons_nth_drop_Suc)

lemma take_2_nth: "Suc n < length xs \<Longrightarrow> take 2 (drop n xs) = [xs ! n, xs ! Suc n]"
  by (simp add: numeral_2_eq_2 Cons_nth_drop_Suc [symmetric])

lemma unwire_wire:
  assumes "frame_ok f"
  shows "unwire (wire f @ rest) = Some (f, length (wire f))"
proof -
  have "read_u16_be [ucast (drop_bit 8 x), ucast x] = x" for x :: u16
    using read_u16_conv_be [of x "[]"] by (simp add: u16_conv_be_def)
  then show ?thesis
    using assms by (simp add: unwire_def wire_def u16_conv_be_def frame_ok_def)
qed

lemma list7: "7 \<le> length xs \<Longrightarrow>
  xs = [xs ! 0, xs ! 1, xs ! 2, xs ! 3, xs ! 4, xs ! 5, xs ! 6] @ drop 7 xs"
  by (auto simp: numeral_eq_Suc Suc_le_length_iff)

lemma wire_unwire:
  assumes "unwire raw = Some (f, n)"
  shows "wire f = take n raw" and "n \<le> length raw" and "frame_ok f" and "n = length (wire f)"
proof -
  let ?m = "unat (raw ! 6)"
  from assms have l: "7 + ?m \<le> length raw" and n: "n = 7 + ?m"
    and f: "f = \<lparr>fr_dest = read_u16_be [raw ! 0, raw ! 1], fr_src = read_u16_be [raw ! 2, raw ! 3],
                 fr_ack = raw ! 4, fr_seq = raw ! 5, fr_data = take ?m (drop 7 raw)\<rparr>"
    by (auto simp: unwire_def split: if_splits)
  then show "n \<le> length raw" by simp
  have len: "length (fr_data f) = ?m" using f l by simp
  then show "frame_ok f" by (simp add: frame_ok_def)
  show "n = length (wire f)" using len n by simp
  have "wire f = [raw ! 0, raw ! 1, raw ! 2, raw ! 3, raw ! 4, raw ! 5, raw ! 6] @ take ?m (drop 7 raw)"
    using len by (simp add: f wire_def u16_conv_read_be)
  also have "\<dots> = take n ([raw ! 0, raw ! 1, raw ! 2, raw ! 3, raw ! 4, raw ! 5, raw ! 6] @ drop 7 raw)"
    by (simp add: n eval_nat_numeral)
  also have "\<dots> = take n raw" using list7 [of raw] l by simp
  finally show "wire f = take n raw" .
qed

section \<open>Serialisation on the heap\<close>

lemma to_bytestream_run:
  assumes "packet_view s p = Some f" and "n \<le> length buffer"
  shows "packet_to_bytestream buffer n p s =
     (if n < length (wire f) then Some (Ret (-1, buffer) s)
      else Some (Ret (int (length (wire f)), overlay buffer 0 (wire f)) s))"
proof -
  from assms(1) obtain k where k: "blocks s p = Some (Pkt k)"
    and r: "read_bytes (payload k) (unat (payload_length k)) s = Some (Ret (fr_data f) s)"
    and f: "f = frame_of k (fr_data f)" and l: "length (fr_data f) = unat (payload_length k)"
    by (rule packet_viewE)
  have flds: "fr_dest f = dest_address k" "fr_src f = src_address k" "fr_ack f = ack_id k"
    "fr_seq f = sequence_number k"
    using f by (metis frame_of_def frame.select_convs)+
  show ?thesis
  proof (cases "n < length (wire f)")
    case True
    then show ?thesis using l by (simp add: packet_to_bytestream_def cmd_simps k)
  next
    case False
    then have "7 + unat (payload_length k) \<le> n" using l by simp
    moreover have "wire f = u16_conv_be (dest_address k) @ u16_conv_be (src_address k) @
        [ack_id k] @ [sequence_number k] @ [payload_length k] @ fr_data f"
      using l by (simp add: wire_def flds)
    ultimately show ?thesis
      using assms(2) l
      by (simp add: packet_to_bytestream_def cmd_simps k Let_def buf_write_fits r
          overlay_overlay_adjacent)
  qed
qed

section \<open>What the heap operations leave behind\<close>

definition packet_of :: "frame \<Rightarrow> nat \<Rightarrow> packet" where
  "packet_of f q = \<lparr>dest_address = fr_dest f, src_address = fr_src f, ack_id = fr_ack f,
     sequence_number = fr_seq f, payload_length = of_nat (length (fr_data f)), payload = q\<rparr>"

lemma packet_of_sel [simp]:
  "dest_address (packet_of f q) = fr_dest f" "src_address (packet_of f q) = fr_src f"
  "ack_id (packet_of f q) = fr_ack f" "sequence_number (packet_of f q) = fr_seq f"
  "payload_length (packet_of f q) = of_nat (length (fr_data f))" "payload (packet_of f q) = q"
  by (simp_all add: packet_of_def)

lemma frame_of_packet_of [simp]: "frame_of (packet_of f q) (fr_data f) = f"
  by (simp add: frame_of_def)

lemma packet_of_frame_of [simp]:
  "length bs = unat (payload_length k) \<Longrightarrow> packet_of (frame_of k bs) (payload k) = k"
  by (cases k) (auto simp: packet_of_def frame_of_def)

lemma packet_view_packet_of:
  assumes "blocks s p = Some (Pkt (packet_of f q))" and "frame_ok f"
    and "fr_data f \<noteq> [] \<Longrightarrow> blocks s q = Some (Bytes (fr_data f))"
  shows "packet_view s p = Some f"
  using assms frame_of_packet_of [of f q] by (cases "fr_data f = []")
    (auto simp: packet_view_iff frame_ok_def read_bytes_Ret_iff simp del: frame_of_packet_of)

text \<open>A received packet: its payload is a fresh buffer, or null when there is none.\<close>

definition parsed :: "'z cmem_scheme \<Rightarrow> nat \<Rightarrow> frame \<Rightarrow> 'z cmem_scheme" where
  "parsed s p f =
     (if fr_data f = [] then s\<lparr>blocks := (blocks s)(p \<mapsto> Pkt (packet_of f NULL))\<rparr>
      else s\<lparr>blocks := (blocks s)(fresh s \<mapsto> Bytes (fr_data f), p \<mapsto> Pkt (packet_of f (fresh s))),
             fresh := Suc (fresh s)\<rparr>)"

text \<open>A copy: a fresh struct and a fresh payload buffer, even for an empty payload.\<close>

definition copied :: "'z cmem_scheme \<Rightarrow> frame \<Rightarrow> 'z cmem_scheme" where
  "copied s f = s\<lparr>blocks := (blocks s)(fresh s \<mapsto> Pkt (packet_of f (Suc (fresh s))),
       Suc (fresh s) \<mapsto> Bytes (fr_data f)), fresh := Suc (Suc (fresh s))\<rparr>"

lemma parsed_view:
  "mem_ok s \<Longrightarrow> blocks s p = Some b \<Longrightarrow> frame_ok f \<Longrightarrow> packet_view (parsed s p f) p = Some f"
  by (rule packet_view_packet_of [where q = "if fr_data f = [] then NULL else fresh s"])
    (auto simp: parsed_def)

lemma parsed_keeps: "mem_ok s \<Longrightarrow> blocks s p = Some b \<Longrightarrow> keeps {p} s (parsed s p f)"
  by (auto simp: parsed_def keeps_def)

lemma parsed_mem_ok: "mem_ok s \<Longrightarrow> blocks s p = Some b \<Longrightarrow> mem_ok (parsed s p f)"
  using mem_ok_Some_less [of s p b] by (auto simp: parsed_def mem_ok_def)

lemma copied_view:
  "frame_ok f \<Longrightarrow> packet_view (copied s f) (fresh s) = Some f"
  by (rule packet_view_packet_of [where q = "Suc (fresh s)"]) (auto simp: copied_def)

lemma copied_keeps: "keeps {} s (copied s f)"
  by (auto simp: copied_def keeps_def)

lemma copied_mem_ok: "mem_ok s \<Longrightarrow> mem_ok (copied s f)"
  by (auto simp: copied_def mem_ok_def)

lemma buf_read_byte: "i < length raw \<Longrightarrow> buf_read raw i (Suc 0) = give [raw ! i]"
  using take_Suc_nth [of i raw] by (simp add: buf_read_def)

lemma buf_read_2: "j = Suc i \<Longrightarrow> j < length raw \<Longrightarrow> buf_read raw i 2 = give [raw ! i, raw ! j]"
  using take_2_nth [of i raw] by (simp add: buf_read_def)

lemma buf_read_short: "length buf < off + n \<Longrightarrow> 0 < n \<Longrightarrow> buf_read buf off n = crash Out_Of_Bounds"
  by (simp add: buf_read_def)

lemma overlay_full: "length xs = length buf \<Longrightarrow> overlay buf 0 xs = xs"
  by (simp add: overlay_def)

lemma parse_packet_run:
  assumes u: "unwire raw = Some (f, n)" and p: "blocks s p = Some (Pkt k)" and m: "mem_ok s"
    and a: "fr_data f \<noteq> [] \<Longrightarrow> alloc_ok s (fresh s)"
  shows "parse_packet raw p s = Some (Ret (int n) (parsed s p f))"
proof -
  let ?m = "unat (raw ! 6)"
  from u have l: "7 + ?m \<le> length raw" and n: "n = 7 + ?m"
    and f: "f = \<lparr>fr_dest = read_u16_be [raw ! 0, raw ! 1], fr_src = read_u16_be [raw ! 2, raw ! 3],
                 fr_ack = raw ! 4, fr_seq = raw ! 5, fr_data = take ?m (drop 7 raw)\<rparr>"
    by (auto simp: unwire_def split: if_splits)
  have pf: "p \<noteq> fresh s" "fresh s \<noteq> p" using mem_ok_Some_less [OF m p] by auto
  have hdr: "buf_read raw 0 2 = give [raw ! 0, raw ! 1]" "buf_read raw 2 2 = give [raw ! 2, raw ! 3]"
    using l by (simp_all add: buf_read_2)
  have hdr2: "buf_read raw 4 (Suc 0) = give [raw ! 4]" "buf_read raw 5 (Suc 0) = give [raw ! 5]"
    "buf_read raw 6 (Suc 0) = give [raw ! 6]"
    using l by (simp_all add: buf_read_byte)
  have pay: "buf_read raw 7 ?m = give (fr_data f)"
    using l by (simp add: buf_read_fits f)
  have len: "length (fr_data f) = ?m" using f l by simp
  show ?thesis
  proof (cases "?m = 0")
    case True
    with len have "fr_data f = []" by simp
    with True show ?thesis
      by (cases k) (simp add: parse_packet_def Let_def addr_length_def hdr hdr2 pay cmd_simps p n f parsed_def
          packet_of_def unat_eq_0_iff)
  next
    case False
    with len have d: "fr_data f \<noteq> []" by auto
    have "packet_of f (fresh s) = \<lparr>dest_address = read_u16_be [raw ! 0, raw ! 1],
        src_address = read_u16_be [raw ! 2, raw ! 3], ack_id = raw ! 4,
        sequence_number = raw ! 5, payload_length = raw ! 6, payload = fresh s\<rparr>"
      using len by (simp add: packet_of_def f)
    with False d show ?thesis
      using a pf by (cases k) (simp add: parse_packet_def Let_def addr_length_def hdr hdr2 pay cmd_simps p n
          parsed_def len overlay_full fun_upd_twist unat_eq_0_iff)
  qed
qed

lemma parse_packet_short:
  assumes "unwire raw = None" and "blocks s p = Some (Pkt k)" and "alloc_ok s (fresh s)"
  shows "parse_packet raw p s = Some (Fault Out_Of_Bounds)"
proof (cases "length raw < 7")
  case True
  then consider "length raw < 2" | "2 \<le> length raw" "length raw < 4" | "length raw = 4"
    | "length raw = 5" | "length raw = 6" by linarith
  then show ?thesis
    by cases (simp_all add: parse_packet_def Let_def addr_length_def buf_read_short buf_read_fits)
next
  case False
  with assms(1) have "length raw < 7 + unat (raw ! 6)" by (simp add: unwire_def split: if_splits)
  with False assms(3) show ?thesis
    by (simp add: parse_packet_def Let_def addr_length_def buf_read_def cmd_simps
        take_Suc_nth [unfolded One_nat_def])
qed

lemma copy_packet_run:
  assumes v: "packet_view s p = Some f" and m: "mem_ok s"
    and a: "alloc_ok s (fresh s)" "alloc_ok s (Suc (fresh s))"
  shows "copy_packet p s = Some (Ret (fresh s) (copied s f))"
proof -
  from v obtain k where k: "blocks s p = Some (Pkt k)"
    and r: "read_bytes (payload k) (unat (payload_length k)) s = Some (Ret (fr_data f) s)"
    and f: "f = frame_of k (fr_data f)" and l: "length (fr_data f) = unat (payload_length k)"
    by (rule packet_viewE)
  have pf: "p < fresh s" using mem_ok_Some_less [OF m k] by simp
  have k': "k\<lparr>payload := q\<rparr> = packet_of f q" for q
    using packet_of_frame_of [OF l] f by (metis packet.update_convs(6) packet_of_def)
  let ?s = "s\<lparr>blocks := (blocks s)(fresh s \<mapsto> Pkt k, Suc (fresh s) \<mapsto>
      Bytes (junk_bytes (junk s (Suc (fresh s))) (unat (payload_length k)))),
    fresh := Suc (Suc (fresh s))\<rparr>"
  have r': "read_bytes (payload k) (unat (payload_length k)) ?s = Some (Ret (fr_data f) ?s)"
  proof (rule read_bytes_cong [OF _ r])
    show "blocks ?s (payload k) = blocks s (payload k) \<or> unat (payload_length k) = 0"
      using r mem_ok_Some_less [OF m, of "payload k"] by (auto simp: read_bytes_Ret_iff)
  qed
  have s': "s\<lparr>fresh := Suc (Suc (fresh s)), blocks := (blocks s)(fresh s \<mapsto> Pkt k, Suc (fresh s) \<mapsto>
      Bytes (junk_bytes (junk s (Suc (fresh s))) (unat (payload_length k))))\<rparr> = ?s"
    by simp
  show ?thesis
    using a pf l
    by (simp add: copy_packet_def cmd_simps k fun_upd_twist s' r' k' overlay_full copied_def)
qed

lemma packet_constructor_run:
  assumes "unat plen \<le> payload_length_max" and "alloc_ok s (fresh s)"
  shows "packet_constructor dest src ack seq plen pl s = Some (Ret (fresh s)
     (s\<lparr>blocks := (blocks s)(fresh s \<mapsto> Pkt \<lparr>dest_address = dest, src_address = src, ack_id = ack,
        sequence_number = seq, payload_length = plen, payload = pl\<rparr>), fresh := Suc (fresh s)\<rparr>))"
  using assms by (simp add: packet_constructor_def cmd_simps)

lemma packet_constructor_too_long:
  "payload_length_max < unat plen \<Longrightarrow> packet_constructor dest src ack seq plen pl s = Some (Ret NULL s)"
  by (simp add: packet_constructor_def)

lemma ack_packet_run:
  assumes "alloc_ok s (fresh s)"
  shows "ack_packet dest src ack seq s = Some (Ret (fresh s)
     (s\<lparr>blocks := (blocks s)(fresh s \<mapsto> Pkt (packet_of
         \<lparr>fr_dest = dest, fr_src = src, fr_ack = ack, fr_seq = seq, fr_data = []\<rparr> NULL)),
        fresh := Suc (fresh s)\<rparr>))"
  using assms by (simp add: ack_packet_def packet_constructor_run packet_of_def)

lemma free_packet_run:
  assumes "blocks s p = Some (Pkt k)" and "mem_ok s"
    and "payload k \<noteq> NULL \<Longrightarrow> payload k \<noteq> p \<and> blocks s (payload k) \<noteq> None"
  shows "free_packet p s = Some (Ret () (s\<lparr>blocks := (blocks s)(payload k := None, p := None)\<rparr>))"
proof -
  have "p \<noteq> 0" using mem_ok_Some_less [OF assms(2,1)] by simp
  moreover have "(blocks s)(NULL := None) = blocks s" using assms(2) by (simp add: fun_upd_idem)
  ultimately show ?thesis
    using assms(1,3) by (cases "payload k = NULL") (auto simp: free_packet_def cmd_simps)
qed

section \<open>Describing a packet\<close>

lemma length_hex_of: "0 < w \<Longrightarrow> n < 16 ^ w \<Longrightarrow> length (hex_of n) \<le> w"
proof (induction w arbitrary: n)
  case 0
  then show ?case by simp
next
  case (Suc w)
  show ?case
  proof (cases "n < 16")
    case True
    then show ?thesis by (subst hex_of.simps) simp
  next
    case False
    then have "0 < w" using Suc.prems by (cases w) auto
    moreover have "n div 16 < 16 ^ w" using Suc.prems by (simp add: less_mult_imp_div_less mult.commute)
    ultimately show ?thesis using Suc.IH False by (subst hex_of.simps) simp
  qed
qed

lemma length_fmt_hex: "0 < w \<Longrightarrow> n < 16 ^ w \<Longrightarrow> length (fmt_hex w n) = w"
  using length_hex_of [of w n] by (simp add: fmt_hex_def)

lemma length_packet_type_code [simp]: "length (packet_type_code t) = 1"
  by (cases t) simp_all

lemma length_c_string: "length (c_string bs) \<le> length bs"
  by (simp add: c_string_def length_takeWhile_le)

lemma length_description:
  "length (description_text k bs) \<le> 102 + length bs"
proof -
  have "length (fmt_hex 4 (unat w)) = 4" for w :: u16
    by (simp add: length_fmt_hex)
  moreover have "length (fmt_hex 2 (unat w)) = 2" for w :: u8
    by (simp add: length_fmt_hex)
  ultimately show ?thesis
    using length_c_string [of bs] by (simp add: description_text_def str_bytes_def)
qed

lemma c_string_terminated: "c_string (bs @ 0 # rest) = c_string bs"
  by (induction bs) (simp_all add: c_string_def)

lemma description_terminated: "description_text k (bs @ 0 # rest) = description_text k bs"
  by (simp add: description_text_def c_string_terminated)

text \<open>
  \<open>str\<close> has room for eight payload bytes and the terminator; a longer payload, which
  \<open>parse_packet\<close> accepts from the wire, runs past it.
\<close>

lemma packet_description_run:
  assumes v: "packet_view s p = Some f" and m: "mem_ok s" and a: "alloc_ok s (fresh s)"
    and b: "blocks s buf = Some (Bytes bb)" and k: "blocks s p = Some (Pkt k)"
    and l8: "length (fr_data f) \<le> payload_length_max" and room: "111 \<le> length bb"
  shows "packet_description p buf s = Some (Ret () (s\<lparr>blocks := (blocks s)
     (buf \<mapsto> Bytes (overlay bb 0 (description_text k (fr_data f) @ [0]))), fresh := Suc (fresh s)\<rparr>))"
proof -
  from v k have r: "read_bytes (payload k) (unat (payload_length k)) s = Some (Ret (fr_data f) s)"
    and l: "length (fr_data f) = unat (payload_length k)"
    by (auto elim!: packet_viewE)
  have lt: "p < fresh s" "buf < fresh s"
    using mem_ok_Some_less [OF m k] mem_ok_Some_less [OF m b] by simp_all
  define jb where "jb = junk_bytes (junk s (fresh s)) 9"
  let ?s = "s\<lparr>blocks := (blocks s)(fresh s \<mapsto> Bytes jb), fresh := Suc (fresh s)\<rparr>"
  have r': "read_bytes (payload k) (unat (payload_length k)) ?s = Some (Ret (fr_data f) ?s)"
  proof (rule read_bytes_cong [OF _ r])
    show "blocks ?s (payload k) = blocks s (payload k) \<or> unat (payload_length k) = 0"
      using r mem_ok_Some_less [OF m, of "payload k"] by (auto simp: read_bytes_Ret_iff)
  qed
  have jb: "length jb = 9" by (simp add: jb_def)
  define rest where "rest = drop (Suc (length (fr_data f))) jb"
  have str: "overlay (overlay jb 0 (fr_data f)) (length (fr_data f)) [0] = fr_data f @ 0 # rest"
    and n9: "length (fr_data f @ 0 # rest) = 9"
    using l8 jb by (simp_all add: overlay_def rest_def)
  have tlen: "length (description_text k (fr_data f)) \<le> 110"
    using length_description [of k "fr_data f"] l8 by simp
  let ?at = "\<lambda>bs. s\<lparr>blocks := (blocks s)(fresh s \<mapsto> Bytes bs), fresh := Suc (fresh s)\<rparr>"
  have w: "write_bytes (fresh s) off xs (?at bs) = Some (Ret () (?at (overlay bs off xs)))"
    if "off + length xs \<le> length bs" for off xs bs
    using that by (simp add: write_bytes_run)
  have str': "overlay (overlay jb 0 (fr_data f)) (unat (payload_length k)) [0] = fr_data f @ 0 # rest"
    using str l by simp
  have steps: "malloc_bytes 9 s = Some (Ret (fresh s) ?s)" "load_packet p ?s = Some (Ret k ?s)"
    "write_bytes (fresh s) 0 (fr_data f) ?s = Some (Ret () (?at (overlay jb 0 (fr_data f))))"
    using a l8 jb lt w k by (simp_all add: malloc_bytes_run jb_def [symmetric] load_packet_run)
  have steps': "write_bytes (fresh s) (unat (payload_length k)) [0] (?at (overlay jb 0 (fr_data f)))
       = Some (Ret () (?at (fr_data f @ 0 # rest)))"
    using w [of "unat (payload_length k)" "[0]" "overlay jb 0 (fr_data f)"] l l8 jb
    by (simp only: str') simp
  have steps'': "read_bytes (fresh s) 9 (?at (fr_data f @ 0 # rest))
       = Some (Ret (fr_data f @ 0 # rest) (?at (fr_data f @ 0 # rest)))"
    using n9 by (simp add: read_bytes_run)
  let ?t = "description_text k (fr_data f) @ [0]"
  let ?u = "s\<lparr>blocks := (blocks s)(fresh s \<mapsto> Bytes (fr_data f @ 0 # rest),
    buf \<mapsto> Bytes (overlay bb 0 ?t)), fresh := Suc (fresh s)\<rparr>"
  have last: "write_bytes buf 0 ?t (?at (fr_data f @ 0 # rest)) = Some (Ret () ?u)"
    using b lt room tlen by (simp add: write_bytes_run)
  have free: "c_free (fresh s) ?u = Some (Ret () (s\<lparr>blocks := (blocks s)
      (buf \<mapsto> Bytes (overlay bb 0 ?t)), fresh := Suc (fresh s)\<rparr>))"
    using lt m mem_ok_fresh_pos [OF m] by (simp add: c_free_run fun_upd_twist fun_upd_idem)
  show ?thesis
    by (simp only: packet_description_def andThen_Ret steps r' steps' steps'' description_terminated
        last free)
qed

lemma packet_description_overflow:
  assumes k: "blocks s p = Some (Pkt k)" and m: "mem_ok s" and a: "alloc_ok s (fresh s)"
    and r: "read_bytes (payload k) (unat (payload_length k)) s = Some (Ret bs s)"
    and big: "payload_length_max < unat (payload_length k)"
  shows "packet_description p buf s = Some (Fault Out_Of_Bounds)"
proof -
  have lt: "p < fresh s" using mem_ok_Some_less [OF m k] by simp
  define jb where "jb = junk_bytes (junk s (fresh s)) 9"
  let ?s = "s\<lparr>blocks := (blocks s)(fresh s \<mapsto> Bytes jb), fresh := Suc (fresh s)\<rparr>"
  have r': "read_bytes (payload k) (unat (payload_length k)) ?s = Some (Ret bs ?s)"
  proof (rule read_bytes_cong [OF _ r])
    show "blocks ?s (payload k) = blocks s (payload k) \<or> unat (payload_length k) = 0"
      using r mem_ok_Some_less [OF m, of "payload k"] by (auto simp: read_bytes_Ret_iff)
  qed
  have jb: "length jb = 9" by (simp add: jb_def)
  have l: "length bs = unat (payload_length k)" using r by (rule read_bytes_length)
  show ?thesis
  proof (cases "length bs \<le> 9")
    case True
    then show ?thesis using a jb lt l big
      by (simp add: packet_description_def cmd_simps k jb_def [symmetric] r' write_bytes_overflow)
  next
    case False
    then have "bs \<noteq> []" by auto
    with False show ?thesis using a jb lt
      by (simp add: packet_description_def cmd_simps k jb_def [symmetric] r' write_bytes_overflow)
  qed
qed

section \<open>The codec interface\<close>

text \<open>
  What a link needs of a frame format: decoding what was encoded gives it back whatever follows,
  and a successful decoding is the encoding of its result.
\<close>

locale frame_codec =
  fixes encode :: "'f \<Rightarrow> 'b list"
    and decode :: "'b list \<Rightarrow> ('f \<times> nat) option"
    and valid :: "'f \<Rightarrow> bool"
  assumes decode_encode: "valid f \<Longrightarrow> decode (encode f @ rest) = Some (f, length (encode f))"
    and encode_decode: "decode raw = Some (f, n) \<Longrightarrow> encode f = take n raw \<and> n \<le> length raw \<and> valid f"
begin

lemma decode_exact: "valid f \<Longrightarrow> decode (encode f) = Some (f, length (encode f))"
  using decode_encode [of f "[]"] by simp

lemma encode_prefix_free:
  assumes "valid f" and "valid g" and "encode f @ xs = encode g @ ys"
  shows "f = g \<and> xs = ys"
proof -
  have "decode (encode f @ xs) = Some (f, length (encode f))" using assms(1) by (rule decode_encode)
  moreover have "decode (encode g @ ys) = Some (g, length (encode g))" using assms(2) by (rule decode_encode)
  ultimately show ?thesis using assms(3) by simp
qed

lemma encode_inj: "valid f \<Longrightarrow> valid g \<Longrightarrow> encode f = encode g \<Longrightarrow> f = g"
  using encode_prefix_free [of f g "[]" "[]"] by simp

lemma decode_only_from_wire:
  assumes "decode raw = Some (f, n)"
  shows "\<exists>rest. raw = encode f @ rest \<and> n = length (encode f)"
  using encode_decode [OF assms] by (metis append_take_drop_id length_take min.absorb2)

end

interpretation lora_codec: frame_codec wire unwire frame_ok
  by unfold_locales (use unwire_wire wire_unwire in blast)+

section \<open>A concrete memory\<close>

text \<open>A heap with one data packet (object 1, payload 2), one unset struct (3) and a text buffer (4).\<close>

definition demo_frame :: frame where
  "demo_frame = \<lparr>fr_dest = 0xFF00, fr_src = 0x00FF, fr_ack = 5, fr_seq = 1,
     fr_data = [0x72, 0x61, 0x6D]\<rparr>"

definition demo_mem :: cmem where
  "demo_mem = \<lparr>blocks = [1 \<mapsto> Pkt (packet_of demo_frame 2), 2 \<mapsto> Bytes (fr_data demo_frame),
       3 \<mapsto> Pkt (junk_packet (\<lambda>_. 0)), 4 \<mapsto> Bytes (replicate 255 0)],
     fresh = 5, alloc_ok = (\<lambda>_. True), junk = (\<lambda>_ _. 0)\<rparr>"

lemma demo_mem_facts:
  "mem_ok demo_mem" "alloc_never_fails demo_mem" "packet_view demo_mem 1 = Some demo_frame"
  "blocks demo_mem 1 = Some (Pkt (packet_of demo_frame 2))"
  "blocks demo_mem 3 = Some (Pkt (junk_packet (\<lambda>_. 0)))"
  "blocks demo_mem 4 = Some (Bytes (replicate 255 0))"
  "fresh demo_mem = 5"
proof -
  show "packet_view demo_mem 1 = Some demo_frame"
    by (rule packet_view_packet_of [where q = 2]) (simp_all add: demo_mem_def frame_ok_def demo_frame_def)
qed (simp_all add: demo_mem_def mem_ok_def alloc_never_fails_def)

section \<open>Properties\<close>

text \<open>C15: Serialising any packet into a buffer that is large enough and parsing the buffer into
  any packet struct gives a packet with the same addresses, ids and payload; both calls report the
  frame size, and the bytes of the buffer behind the frame are untouched.\<close>

theorem serialise_parse_roundtrip:
  assumes "packet_view s p = Some f" and "mem_ok s" and "alloc_never_fails s"
    and "overhead + length (fr_data f) \<le> n" and "n \<le> length buffer"
    and "blocks s q = Some (Pkt k)"
  shows "\<exists>buffer' t. packet_to_bytestream buffer n p s
           = Some (Ret (int (overhead + length (fr_data f)), buffer') s) \<and>
         parse_packet buffer' q s = Some (Ret (int (overhead + length (fr_data f))) t) \<and>
         packet_view t q = Some f \<and> mem_ok t \<and> keeps {q} s t \<and>
         length buffer' = length buffer \<and>
         drop (overhead + length (fr_data f)) buffer' = drop (overhead + length (fr_data f)) buffer"
proof -
  let ?b = "overlay buffer 0 (wire f)"
  have ok: "frame_ok f" using assms(1) by (rule packet_view_frame_ok)
  have "?b = wire f @ drop (length (wire f)) buffer" by (simp add: overlay_def)
  then have u: "unwire ?b = Some (f, length (wire f))"
    using lora_codec.decode_encode [OF ok] by metis
  have "parse_packet ?b q s = Some (Ret (int (length (wire f))) (parsed s q f))"
    using u assms(6,2,3) by (intro parse_packet_run) auto
  moreover have "packet_to_bytestream buffer n p s = Some (Ret (int (length (wire f)), ?b) s)"
    using assms(4,5) by (subst to_bytestream_run [OF assms(1,5)]) simp
  ultimately show ?thesis
    using assms(4,5) parsed_view [OF assms(2,6) ok] parsed_mem_ok [OF assms(2,6)]
      parsed_keeps [OF assms(2,6)]
    by (intro exI [of _ ?b] exI [of _ "parsed s q f"]) (simp add: overlay_def)
qed

theorem serialise_parse_roundtrip_witness:
  "\<exists>buffer' t. packet_to_bytestream (replicate 15 0) 15 1 demo_mem
       = Some (Ret (int (overhead + length (fr_data demo_frame)), buffer') demo_mem) \<and>
     parse_packet buffer' 3 demo_mem = Some (Ret (int (overhead + length (fr_data demo_frame))) t) \<and>
     packet_view t 3 = Some demo_frame"
  using serialise_parse_roundtrip [OF demo_mem_facts(3,1,2), of 15 "replicate 15 0" 3
      "junk_packet (\<lambda>_. 0)"] demo_mem_facts
  by (auto simp: demo_frame_def)

text \<open>C34: The bytes of a frame: the two addresses and the ids big-endian in this order, the payload
  length as the seventh byte, then the payload. A buffer size below the frame size gives -1 and
  writes nothing.\<close>

theorem packet_to_bytestream_layout:
  assumes "packet_view s p = Some f" and "n \<le> length buffer"
  shows "packet_to_bytestream buffer n p s =
     (if n < overhead + length (fr_data f) then Some (Ret (-1, buffer) s)
      else Some (Ret (int (overhead + length (fr_data f)),
        [ucast (drop_bit 8 (fr_dest f)), ucast (fr_dest f),
         ucast (drop_bit 8 (fr_src f)), ucast (fr_src f), fr_ack f, fr_seq f,
         of_nat (length (fr_data f))] @ fr_data f @
        drop (overhead + length (fr_data f)) buffer) s))"
  using assms(2)
  by (simp add: to_bytestream_run [OF assms] overlay_def wire_def u16_conv_be_def eval_nat_numeral)

theorem packet_to_bytestream_layout_witness:
  "packet_to_bytestream [9, 9, 9, 9, 9, 9, 9, 9, 9, 9, 8, 7] 12 1 demo_mem = Some (Ret (10,
     [0xFF, 0, 0, 0xFF, 5, 1, 3, 0x72, 0x61, 0x6D, 8, 7]) demo_mem)"
  using packet_to_bytestream_layout [OF demo_mem_facts(3), of 12 "[9, 9, 9, 9, 9, 9, 9, 9, 9, 9, 8, 7]"]
  by (simp add: demo_frame_def)

text \<open>Parsing is the inverse on every input it accepts: when the array holds a whole frame,
  serialising the parsed packet writes the very bytes that were parsed.\<close>

theorem parse_serialise_roundtrip:
  assumes "7 \<le> length raw" and "7 + unat (raw ! 6) \<le> length raw" and "blocks s q = Some (Pkt k)"
    and "mem_ok s" and "alloc_never_fails s"
    and "7 + unat (raw ! 6) \<le> n" and "n \<le> length buffer"
  shows "\<exists>t. parse_packet raw q s = Some (Ret (7 + int (unat (raw ! 6))) t) \<and>
     packet_to_bytestream buffer n q t = Some (Ret (7 + int (unat (raw ! 6)),
       take (7 + unat (raw ! 6)) raw @ drop (7 + unat (raw ! 6)) buffer) t)"
proof -
  define m where "m = 7 + unat (raw ! 6)"
  obtain f where u: "unwire raw = Some (f, m)"
    using assms(1,2) by (simp add: unwire_def m_def)
  have w: "wire f = take m raw" and ok: "frame_ok f" using wire_unwire(1,3) [OF u] .
  have lw: "length (wire f) = m" using wire_unwire(4) [OF u] by (rule sym)
  have "parse_packet raw q s = Some (Ret (int m) (parsed s q f))"
    using assms(5) by (intro parse_packet_run [OF u assms(3,4)]) simp
  moreover have "packet_to_bytestream buffer n q (parsed s q f)
      = Some (Ret (int m, take m raw @ drop m buffer) (parsed s q f))"
    using assms(6) to_bytestream_run [OF parsed_view [OF assms(4,3) ok] assms(7)]
    by (simp only: lw m_def [symmetric] overlay_def) (simp add: w [symmetric] lw)
  moreover have "7 + int (unat (raw ! 6)) = int m" by (simp add: m_def)
  ultimately show ?thesis
    unfolding m_def [symmetric] by auto
qed

theorem parse_serialise_roundtrip_witness:
  "\<exists>t. parse_packet [1, 2, 3, 4, 9, 7, 1, 0xAA, 0xBB] 3 demo_mem = Some (Ret 8 t) \<and>
     packet_to_bytestream (replicate 9 0) 9 3 t = Some (Ret (8, [1, 2, 3, 4, 9, 7, 1, 0xAA, 0]) t)"
  using parse_serialise_roundtrip [of "[1, 2, 3, 4, 9, 7, 1, 0xAA, 0xBB]" demo_mem 3 _ 9 "replicate 9 0"]
    demo_mem_facts by simp

text \<open>C33: \<open>parse_packet\<close> trusts the length byte: it runs without an out-of-bounds access exactly
  when the frame the length byte announces fits in the array. On the 255-byte receive buffer a
  length byte above 248 reads past the end.\<close>

theorem parse_packet_in_bounds_iff:
  assumes "blocks s q = Some (Pkt k)" and "mem_ok s" and "alloc_never_fails s"
  shows "if 7 \<le> length raw \<and> 7 + unat (raw ! 6) \<le> length raw
         then \<exists>t. parse_packet raw q s = Some (Ret (7 + int (unat (raw ! 6))) t)
         else parse_packet raw q s = Some (Fault Out_Of_Bounds)"
proof -
  have short: "unwire raw = None \<Longrightarrow> parse_packet raw q s = Some (Fault Out_Of_Bounds)"
    using assms by (intro parse_packet_short) auto
  have full: "unwire raw = Some (f, n) \<Longrightarrow> parse_packet raw q s = Some (Ret (int n) (parsed s q f))" for f n
    using assms by (intro parse_packet_run) auto
  show ?thesis
    using short full by (cases "unwire raw") (auto simp: unwire_def split: if_splits)
qed

theorem parse_packet_in_bounds_iff_witness:
  "parse_packet (replicate 255 249) 3 demo_mem = Some (Fault Out_Of_Bounds) \<and>
   (\<exists>t. parse_packet (replicate 255 248) 3 demo_mem = Some (Ret 255 t))"
  using parse_packet_in_bounds_iff [OF demo_mem_facts(5,1,2), of "replicate 255 249"]
    parse_packet_in_bounds_iff [OF demo_mem_facts(5,1,2), of "replicate 255 248"] by simp

text \<open>\<open>copy_packet\<close> makes a deep copy: it has the same content, no existing object changes, and
  parsing another frame into the original struct afterwards changes the original only.\<close>

theorem copy_packet_independent:
  assumes "packet_view s p = Some f" and "mem_ok s" and "alloc_never_fails s"
    and "unwire raw = Some (g, n)"
  shows "\<exists>c t u. copy_packet p s = Some (Ret c t) \<and> c \<noteq> p \<and> keeps {} s t \<and>
     packet_view t c = Some f \<and> packet_view t p = Some f \<and>
     parse_packet raw p t = Some (Ret (int n) u) \<and>
     packet_view u c = Some f \<and> packet_view u p = Some g"
proof -
  let ?t = "copied s f"
  let ?u = "parsed ?t p g"
  have ok: "frame_ok f" using assms(1) by (rule packet_view_frame_ok)
  obtain k where k: "blocks s p = Some (Pkt k)" using assms(1) by (auto elim: packet_viewE)
  have lt: "p < fresh s" using mem_ok_Some_less [OF assms(2) k] by simp
  have kt: "blocks ?t p = Some (Pkt k)" using k lt by (simp add: copied_def)
  have m: "mem_ok ?t" using assms(2) by (rule copied_mem_ok)
  have vc: "packet_view ?t (fresh s) = Some f" using ok by (rule copied_view)
  have "copy_packet p s = Some (Ret (fresh s) ?t)"
    using assms(3) by (intro copy_packet_run [OF assms(1,2)]) auto
  moreover have "packet_view ?t p = Some f"
    using packet_view_keeps [OF assms(1) copied_keeps assms(2)] by simp
  moreover have "parse_packet raw p ?t = Some (Ret (int n) ?u)"
    using assms(3) by (intro parse_packet_run [OF assms(4) kt m]) (simp add: copied_def)
  moreover have "packet_view ?u (fresh s) = Some f"
    using packet_view_keeps [OF vc parsed_keeps [OF m kt] m] lt
    by (simp add: payload_of_def copied_def)
  moreover have "packet_view ?u p = Some g"
    using wire_unwire(3) [OF assms(4)] by (rule parsed_view [OF m kt])
  ultimately show ?thesis using vc lt copied_keeps [of s f]
    by (intro exI [of _ "fresh s"] exI [of _ ?t] exI [of _ ?u]) auto
qed

theorem copy_packet_independent_witness:
  "\<exists>c t u. copy_packet 1 demo_mem = Some (Ret c t) \<and> packet_view t c = Some demo_frame \<and>
     parse_packet [0, 1, 0, 2, 3, 0, 0] 1 t = Some (Ret 7 u) \<and> packet_view u c = Some demo_frame \<and>
     packet_view u 1 \<noteq> Some demo_frame"
proof -
  have u: "unwire [0, 1, 0, 2, 3, 0, 0] = Some (\<lparr>fr_dest = 1, fr_src = 2, fr_ack = 3, fr_seq = 0,
      fr_data = []\<rparr>, 7)" by (simp add: unwire_def read_u16_be_def)
  show ?thesis
    using copy_packet_independent [OF demo_mem_facts(3,1,2) u] by (auto simp: demo_frame_def)
qed

text \<open>Freeing a copied packet gives back both of its objects: after \<open>copy_packet\<close> and
  \<open>free_packet\<close> the live heap is what it was, so the pair neither leaks nor frees anything twice.\<close>

theorem copy_free_balanced:
  assumes "packet_view s p = Some f" and "mem_ok s" and "alloc_never_fails s"
  shows "\<exists>u. andThen (copy_packet p) free_packet s = Some (Ret () u) \<and> blocks u = blocks s \<and> mem_ok u"
proof -
  let ?t = "copied s f"
  have "copy_packet p s = Some (Ret (fresh s) ?t)"
    using assms(3) by (intro copy_packet_run [OF assms(1,2)]) auto
  moreover have "free_packet (fresh s) ?t = Some (Ret () (?t\<lparr>blocks :=
      (blocks ?t)(payload (packet_of f (Suc (fresh s))) := None, fresh s := None)\<rparr>))"
    by (rule free_packet_run) (auto simp: copied_def copied_mem_ok [unfolded copied_def] assms(2))
  moreover have "(blocks ?t)(Suc (fresh s) := None, fresh s := None) = blocks s"
    using assms(2) by (auto simp: copied_def mem_ok_def fun_eq_iff)
  ultimately show ?thesis
    using assms(2) by (auto simp: mem_ok_def copied_def)
qed

theorem copy_free_balanced_witness:
  "\<exists>u. andThen (copy_packet 1) free_packet demo_mem = Some (Ret () u) \<and> blocks u = blocks demo_mem"
  using copy_free_balanced [OF demo_mem_facts(3,1,2)] by blast

text \<open>C39: \<open>packet_description\<close> is safe up to the library's own payload limit, leaving only the
  caller's text buffer changed; for any longer payload, which \<open>parse_packet\<close> accepts, it writes
  past its nine-byte scratch string.\<close>

theorem packet_description_bounds:
  assumes "packet_view s p = Some f" and "mem_ok s" and "alloc_never_fails s"
    and "blocks s buf = Some (Bytes bb)" and "111 \<le> length bb"
  shows "if length (fr_data f) \<le> payload_length_max
     then \<exists>t bb'. packet_description p buf s = Some (Ret () t) \<and> keeps {buf} s t \<and>
            blocks t = (blocks s)(buf \<mapsto> Bytes bb') \<and> length bb' = length bb
     else packet_description p buf s = Some (Fault Out_Of_Bounds)"
proof -
  obtain k where k: "blocks s p = Some (Pkt k)"
    and r: "read_bytes (payload k) (unat (payload_length k)) s = Some (Ret (fr_data f) s)"
    and l: "length (fr_data f) = unat (payload_length k)"
    using assms(1) by (rule packet_viewE)
  have ok: "\<exists>t bb'. packet_description p buf s = Some (Ret () t) \<and> keeps {buf} s t \<and>
      blocks t = (blocks s)(buf \<mapsto> Bytes bb') \<and> length bb' = length bb"
    if l8: "length (fr_data f) \<le> payload_length_max"
  proof -
    have "length (description_text k (fr_data f)) \<le> 110"
      using length_description [of k "fr_data f"] l8 by simp
    then show ?thesis
      using assms(3,5) packet_description_run [OF assms(1,2) _ assms(4) k l8 assms(5)]
      by (simp add: keeps_def) (rule exI, rule conjI, rule refl, simp)
  qed
  have "packet_description p buf s = Some (Fault Out_Of_Bounds)"
    if "payload_length_max < length (fr_data f)"
    using packet_description_overflow [OF k assms(2) _ r] assms(3) l that by simp
  with ok show ?thesis by simp
qed

theorem packet_description_bounds_witness:
  "\<exists>t bb'. packet_description 1 4 demo_mem = Some (Ret () t) \<and>
     blocks t = (blocks demo_mem)(4 \<mapsto> Bytes bb') \<and> length bb' = 255"
  using packet_description_bounds [OF demo_mem_facts(3,1,2,6)] by (auto simp: demo_frame_def)

end
