(* ===== verification/Utils.thy ===== *)
theory Utils
  imports Complex_Main Driver Packet
begin

text \<open>
  \<open>src/sx127x_utils.c\<close> and \<open>read_last_packet\<close> of \<open>src/sx127x_rx_utils.c\<close>, which it calls: whole packets
  over the radio. A packet is serialised into the static \<open>tx_buffer\<close> and sent; a reception is read
  into the static \<open>rx_buffer\<close> and parsed; \<open>send_packet_ensure_ack\<close> repeats a transmission until the
  matching acknowledgement comes or the attempts are used up; \<open>send_burst\<close> does so for an array.
\<close>

definition UTILS_TAG :: string where
  "UTILS_TAG = ''sx_1278_utils''"

definition RX_UTILS_TAG :: string where
  "RX_UTILS_TAG = ''RX_UTILS''"

lemma tag_lengths [simp]: "length UTILS_TAG = 13" "length RX_UTILS_TAG = 8"
  by (simp_all add: UTILS_TAG_def RX_UTILS_TAG_def)

section \<open>Receiving a packet\<close>

text \<open>The \<open>cleanup\<close> label: the static buffer is zeroed, the interrupts are cleared.\<close>

definition rx_cleanup :: "sx127x_err_t \<Rightarrow> ('w, 'z, sx127x_err_t) mcmd" where
  "rx_cleanup ret =
     andThen (modify (\<lambda>s. s\<lparr>rx_buffer := replicate 255 0\<rparr>)) (\<lambda>_.
     andThen sx1278_clear_irq (\<lambda>_. give ret))"

definition read_last_packet :: "nat \<Rightarrow> ('w, 'z, sx127x_err_t) mcmd" where
  "read_last_packet p =
     andThen (gets rx_buffer) (\<lambda>buf.
     andThen (sx1278_read_last_payload buf 0) (\<lambda>(ret, buf', len).
     andThen (modify (\<lambda>s. s\<lparr>rx_buffer := buf'\<rparr>)) (\<lambda>_.
     andThen (parse_packet buf' p) (\<lambda>packet_size.
     if packet_size = -1 then
       andThen (log_err RX_UTILS_TAG (''packet couldnt be parsed, discarding packet'' @ [CHR 0x0A])) (\<lambda>_.
       rx_cleanup SX_INVALID_STATE)
     else rx_cleanup SX_OK))))"

text \<open>\<open>timeout\<close> is an \<open>int\<close> and becomes a \<open>size_t\<close> at the call of the polling loop.\<close>

definition sx1278_poll_and_read_packet :: "nat \<Rightarrow> int \<Rightarrow> ('w, 'z, sx127x_err_t) mcmd" where
  "sx1278_poll_and_read_packet rx_p timeout =
     andThen
       (checked (sx1278_switch_mode (MODE_LORA OR MODE_RX_SINGLE))
          (log_err UTILS_TAG ''couldnt switch to rx single'') (
        checked (poll_for_irq_flag (word_of_int timeout) 1 (push_bit 6 1) False)
          (log_err UTILS_TAG ''couldn't poll for packet received flag, got. '') (
        checked (sx1278_switch_mode (MODE_LORA OR MODE_STDBY))
          (log_err UTILS_TAG ''couldnt switch to standby'') (
        checked (read_last_packet rx_p)
          (log_err UTILS_TAG ''error occured while reading the last packet'') (
        give SX_OK))))) (\<lambda>ret.
     andThen sx1278_clear_irq (\<lambda>_.
     andThen (sx1278_switch_mode (MODE_LORA OR MODE_STDBY)) (\<lambda>_.
     give ret)))"

partial_function (option) poll_for_irq_flag_no_timeout_loop ::
  "u64 \<Rightarrow> u8 \<Rightarrow> bool \<Rightarrow> u8 \<Rightarrow> ('w, 'z, sx127x_err_t) mcmd" where
  "poll_for_irq_flag_no_timeout_loop poll_interval_ms irq_and_mask cleanup irq s =
     andThen (sx1278_read_irq irq) (\<lambda>(ret, irq').
     if ret \<noteq> SX_OK then
       andThen (log_err UTILS_TAG ''couldnt read irq register'') (\<lambda>_.
       andThen (irq_cleanup cleanup) (\<lambda>_. give ret))
     else if irq' AND irq_and_mask \<noteq> 0 then
       andThen (irq_cleanup cleanup) (\<lambda>_. give SX_OK)
     else
       andThen (delay_ms poll_interval_ms) (\<lambda>_.
       poll_for_irq_flag_no_timeout_loop poll_interval_ms irq_and_mask cleanup irq')) s"

definition poll_for_irq_flag_no_timeout :: "u64 \<Rightarrow> u8 \<Rightarrow> bool \<Rightarrow> ('w, 'z, sx127x_err_t) mcmd" where
  "poll_for_irq_flag_no_timeout poll_interval_ms irq_and_mask cleanup =
     poll_for_irq_flag_no_timeout_loop poll_interval_ms irq_and_mask cleanup 0"

section \<open>Sending a packet\<close>

definition sx_1278_send_packet :: "nat \<Rightarrow> bool \<Rightarrow> ('w, 'z, sx127x_err_t) mcmd" where
  "sx_1278_send_packet p switch_to_rx_after_tx =
     andThen (malloc_bytes 255) (\<lambda>p_desc.
     andThen (packet_description p p_desc) (\<lambda>_.
     andThen (log_tag UTILS_TAG ''sending packet'' LOG_INFO_LOW) (\<lambda>_.
     andThen (c_free p_desc) (\<lambda>_.
     andThen (gets tx_buffer) (\<lambda>buf.
     andThen (packet_to_bytestream buf (length buf) p) (\<lambda>(packet_size, buf').
     andThen (modify (\<lambda>s. s\<lparr>tx_buffer := buf'\<rparr>)) (\<lambda>_.
     if packet_size = -1 then
       andThen (log_err UTILS_TAG (''couldnt convert packet to bytesteam'' @ [CHR 0x0A])) (\<lambda>_.
       give SX_INVALID_STATE)
     else sx1278_send_payload buf' (word_of_int packet_size) switch_to_rx_after_tx)))))))"

section \<open>Stop and wait\<close>

text \<open>
  \<open>(int) ceilf((float) timeout / PHY_TIMEOUT_MSEC)\<close> in single precision: 24 significant bits, to
  nearest, ties to even. \<open>quotient24 a d\<close> is \<open>(m, f)\<close> with the rounded quotient \<open>m / 2 ^ f\<close> for
  \<open>0 \<le> a\<close>; for quotients below one any \<open>f \<ge> 24\<close> gives the same ceiling.
\<close>

definition round_even :: "int \<Rightarrow> int \<Rightarrow> int" where
  "round_even a d =
     (let q = a div d; r = a mod d in
      if 2 * r < d \<or> 2 * r = d \<and> even q then q else q + 1)"

fun bit_len :: "nat \<Rightarrow> nat" where
  "bit_len n = (if n = 0 then 0 else 1 + bit_len (n div 2))"

declare bit_len.simps [simp del]

definition float_of_nat :: "nat \<Rightarrow> int" where
  "float_of_nat n = (let e = bit_len n - 24 in round_even (int n) (2 ^ e) * 2 ^ e)"

definition quotient24 :: "int \<Rightarrow> int \<Rightarrow> int \<times> nat" where
  "quotient24 a d = (let f = 24 - bit_len (nat (a div d)) in (round_even (a * 2 ^ f) d, f))"

definition attempts :: "int \<Rightarrow> int" where
  "attempts timeout =
     (let (m, f) = quotient24 (float_of_nat (nat \<bar>timeout\<bar>)) PHY_TIMEOUT_MSEC in
      - ((- (sgn timeout * m)) div 2 ^ f))"

text \<open>The loop with the number of attempts that are left.\<close>

primrec ack_loop :: "nat \<Rightarrow> nat \<Rightarrow> nat \<Rightarrow> nat \<Rightarrow> packet_types \<Rightarrow> ('w, 'z, sx127x_err_t) mcmd" where
  "ack_loop 0 p rx_p p_desc ack_type = give SX_TIMEOUT"
| "ack_loop (Suc n) p rx_p p_desc ack_type =
     andThen (sx_1278_send_packet p True) (\<lambda>ret.
     if ret \<noteq> SX_OK then
       andThen (log_err UTILS_TAG ''error occured while sending the packet'') (\<lambda>_. give ret)
     else
       andThen (sx1278_poll_and_read_packet rx_p PHY_TIMEOUT_MSEC) (\<lambda>ret.
       if ret \<noteq> SX_OK then
         andThen (log_tag UTILS_TAG ''error occured while reading packet. retrying...'' LOG_INFO_LOW) (\<lambda>_.
         ack_loop n p rx_p p_desc ack_type)
       else
         andThen (load_packet p) (\<lambda>k.
         andThen (load_packet rx_p) (\<lambda>rx.
         if \<not> check_packet_features rx (dest_address k) (src_address k) (ack_id k) (sequence_number k) ack_type
         then
           andThen (packet_description rx_p p_desc) (\<lambda>_.
           andThen (log_tag UTILS_TAG ''mismatched packet. retrying...'' LOG_INFO_LOW) (\<lambda>_.
           ack_loop n p rx_p p_desc ack_type))
         else
           andThen (log_tag UTILS_TAG ''ack accepted'' LOG_INFO_LOW) (\<lambda>_. give SX_OK)))))"

definition send_packet_ensure_ack :: "nat \<Rightarrow> int \<Rightarrow> packet_types \<Rightarrow> ('w, 'z, sx127x_err_t) mcmd" where
  "send_packet_ensure_ack p timeout ack_type =
     andThen malloc_packet (\<lambda>rx_p.
     andThen (store_packet rx_p (\<lambda>k. k\<lparr>payload := NULL\<rparr>)) (\<lambda>_.
     andThen (malloc_bytes 2048) (\<lambda>p_desc.
     let timeout_n = attempts timeout in
     andThen (ack_loop (nat timeout_n) p rx_p p_desc ack_type) (\<lambda>ret.
     andThen sx1278_clear_irq (\<lambda>_.
     andThen (free_packet rx_p) (\<lambda>_.
     andThen (c_free p_desc) (\<lambda>_.
     andThen (sx1278_switch_mode (MODE_LORA OR MODE_SLEEP)) (\<lambda>_.
     give ret))))))))"

section \<open>Bursts\<close>

definition burst_ack_type :: "nat \<Rightarrow> int \<Rightarrow> packet_types" where
  "burst_ack_type i len =
     (if i = 0 then PACKET_BEGIN
      else if int i = len - 1 then PACKET_END
      else PACKET_ACK)"

function burst_loop :: "nat list \<Rightarrow> int \<Rightarrow> nat \<Rightarrow> ('w, 'z, sx127x_err_t) mcmd" where
  "burst_loop p_buf len i =
     (if int i < len then
        if i < length p_buf then
          andThen (send_packet_ensure_ack (p_buf ! i) (4 * PHY_TIMEOUT_MSEC) (burst_ack_type i len)) (\<lambda>ret.
          if ret \<noteq> SX_OK then give ret
          else
            andThen (c_free (p_buf ! i)) (\<lambda>_.
            burst_loop p_buf len (Suc i)))
        else crash Out_Of_Bounds
      else give SX_OK)"
  by pat_completeness auto

termination burst_loop
  by (relation "measure (\<lambda>(p_buf, len, i). nat (len - int i))") auto

declare burst_loop.simps [simp del]

definition send_burst :: "nat list \<Rightarrow> int \<Rightarrow> ('w, 'z, sx127x_err_t) mcmd" where
  "send_burst p_buf len = burst_loop p_buf len 0"

section \<open>Signal strength of the channels\<close>

definition RSSI_READ_DELAY_MS :: u64 where
  "RSSI_READ_DELAY_MS = 20"

definition switch_to_fsk :: "('w, 'z, sx127x_err_t) mcmd" where
  "switch_to_fsk =
     checked (sx1278_switch_mode (MODE_LORA OR MODE_SLEEP))
       (log_err UTILS_TAG (''couldnt set sleep mode on lora'' @ [CHR 0x0A])) (
     checked (sx1278_switch_mode MODE_SLEEP)
       (log_err UTILS_TAG (''couldnt set sleep mode on fsk'' @ [CHR 0x0A])) (
     andThen (sx_1278_get_op_mode 0x00) (\<lambda>(ret, data).
     if ret \<noteq> SX_OK then
       andThen (log_err UTILS_TAG ''couldnt read operation mode register'') (\<lambda>_. give ret)
     else if drop_bit 7 data \<noteq> 0 then
       andThen (log_err UTILS_TAG ''operational mode stuck at lora '') (\<lambda>_. give ret)
     else give ret)))"

text \<open>
  The entries of \<open>temp_rssi_arr\<close> are kept as values beside its heap block, \<open>None\<close> for one that was
  never written; \<open>-ret_data / 2.0\<close> is exact in double precision.
\<close>

type_synonym rssi = "rat option"

function rssi_loop :: "nat \<Rightarrow> nat \<Rightarrow> nat \<Rightarrow> rssi list \<Rightarrow> ('w, 'z, rssi list) mcmd" where
  "rssi_loop tmp channel_n i arr =
     (if i < channel_n then
        andThen (sx_1278_switch_to_nth_channel (of_nat i)) (\<lambda>ret.
        if ret \<noteq> SX_OK then
          andThen (log_err UTILS_TAG (if i = channel_n - 1 then ''couldnt switch to channel''
            else ''couldnt switch to channel, trying next one'')) (\<lambda>_.
          rssi_loop tmp channel_n (Suc i) arr)
        else
          andThen (delay_ms RSSI_READ_DELAY_MS) (\<lambda>_.
          andThen (spi_read1 0x11 0) (\<lambda>(ret, ret_data).
          if ret \<noteq> SX_OK then
            andThen (log_err UTILS_TAG (if i = channel_n - 1 then ''couldnt read rssi on channel.''
              else ''couldnt read rssi on channel. switching to next channel'')) (\<lambda>_.
            rssi_loop tmp channel_n (Suc i) arr)
          else if tmp = NULL then crash Bad_Pointer
          else rssi_loop tmp channel_n (Suc i) (arr[i := Some (- of_nat (unat ret_data) / 2)]))))
      else give arr)"
  by pat_completeness auto

termination rssi_loop
  by (relation "measure (\<lambda>(tmp, channel_n, i, arr). channel_n - i)") auto

declare rssi_loop.simps [simp del]

text \<open>The result is the code, the caller's array and the length variable.\<close>

definition sx_1278_get_channel_rssis ::
  "rssi list \<Rightarrow> nat \<Rightarrow> ('w, 'z, sx127x_err_t \<times> rssi list \<times> nat) mcmd" where
  "sx_1278_get_channel_rssis rssi_data len =
     andThen switch_to_fsk (\<lambda>ret.
     if ret \<noteq> SX_OK then
       andThen (log_err UTILS_TAG (''couldnt switch to fsk mode'' @ [CHR 0x0A])) (\<lambda>_. give (ret, rssi_data, len))
     else
       andThen (sx1278_switch_mode MODE_FSK_RECEIVER) (\<lambda>ret.
       if ret \<noteq> SX_OK then
         andThen (log_err UTILS_TAG (''couldnt set rx mode on fsk'' @ [CHR 0x0A])) (\<lambda>_. give (ret, rssi_data, len))
       else
         andThen calculate_channel_num (\<lambda>channels. let channel_n = unat channels in
         andThen (malloc_bytes (channel_n * 8)) (\<lambda>tmp.
         andThen (rssi_loop tmp channel_n 0 (replicate channel_n None)) (\<lambda>arr.
         if tmp = NULL \<and> channel_n \<noteq> 0 then crash Bad_Pointer
         else if length rssi_data < channel_n then crash Out_Of_Bounds
         else
           andThen (c_free tmp) (\<lambda>_.
           andThen (sx1278_switch_mode (MODE_SLEEP OR MODE_LORA)) (\<lambda>ret.
           andThen (if ret \<noteq> SX_OK
             then log_err UTILS_TAG ''couldnt switch back to lora sleep mode'' else give ()) (\<lambda>_.
           give (ret, overlay rssi_data 0 arr, channel_n)))))))))"

section \<open>Sending: the bytes that reach the driver\<close>

lemma log_tag_run:
  "usable s \<Longrightarrow> length tag + length str \<le> 4093 \<Longrightarrow>
   log_tag tag str level s = Some (Ret () (s\<lparr>world := logged (sx127x_logger s) tag str level (world s)\<rparr>))"
  by (simp add: log_tag_def usable_def network_log_with_tag_run on_world_run)

lemma send_packet_run:
  fixes s :: "('w, 'z) machine_scheme"
  assumes u: "usable s" and v: "packet_view s p = Some f" and l: "length (fr_data f) \<le> 8"
    and m: "mem_ok s" and a: "alloc_never_fails s" and tx: "length (tx_buffer s) = 255"
  shows "sx_1278_send_packet p rx s =
     sx1278_send_payload (overlay (tx_buffer s) 0 (wire f)) (of_nat (length (wire f))) rx
       (s\<lparr>fresh := fresh s + 2,
          world := logged (sx127x_logger s) UTILS_TAG ''sending packet'' LOG_INFO_LOW (world s),
          tx_buffer := overlay (tx_buffer s) 0 (wire f)\<rparr>)"
proof -
  obtain k where k: "blocks s p = Some (Pkt k)" using v by (rule packet_viewE)
  define jb where "jb = junk_bytes (junk s (fresh s)) 255"
  define s1 where "s1 = s\<lparr>blocks := (blocks s)(fresh s \<mapsto> Bytes jb), fresh := Suc (fresh s)\<rparr>"
  have s1: "malloc_bytes 255 s = Some (Ret (fresh s) s1)" using a by (simp add: cmd_simps s1_def jb_def)
  have m1: "mem_ok s1" using m by (auto simp: s1_def mem_ok_def)
  have keep1: "keeps {} s s1" by (auto simp: s1_def keeps_def)
  have v1: "packet_view s1 p = Some f" by (rule packet_view_keeps [OF v keep1 m]) simp
  have k1: "blocks s1 p = Some (Pkt k)" using k mem_ok_Some_less [OF m k] by (simp add: s1_def)
  define bb where "bb = overlay jb 0 (description_text k (fr_data f) @ [0])"
  define s2 where "s2 = s1\<lparr>blocks := (blocks s1)(fresh s \<mapsto> Bytes bb), fresh := Suc (fresh s1)\<rparr>"
  have "packet_description p (fresh s) s1 = Some (Ret () s2)" unfolding s2_def bb_def
    by (rule packet_description_run [OF v1 m1 _ _ k1]) (use a l in \<open>simp_all add: s1_def jb_def\<close>)
  moreover define s3 where "s3 = s2\<lparr>world := logged (sx127x_logger s2) UTILS_TAG ''sending packet'' LOG_INFO_LOW (world s2)\<rparr>"
  have "usable s2" using u by (simp add: usable_def s2_def s1_def)
  then have "log_tag UTILS_TAG ''sending packet'' LOG_INFO_LOW s2 = Some (Ret () s3)"
    unfolding s3_def by (rule log_tag_run) simp
  moreover have "blocks s3 (fresh s) = Some (Bytes bb)" by (simp add: s3_def s2_def)
  then have "c_free (fresh s) s3 = Some (Ret () (s3\<lparr>blocks := (blocks s3)(fresh s := None)\<rparr>))"
    using mem_ok_fresh_pos [OF m] by (simp add: cmd_simps)
  moreover define s4 where "s4 = s\<lparr>fresh := fresh s + 2, world := world s3\<rparr>"
  have "s3\<lparr>blocks := (blocks s3)(fresh s := None)\<rparr> = s4"
    using mem_ok_fresh [OF m] by (simp add: s4_def s3_def s2_def s1_def fun_upd_idem)
  moreover have "packet_view s4 p = Some f"
    by (rule packet_view_cong [OF v]) (simp_all add: s4_def)
  then have "packet_to_bytestream (tx_buffer s4) (length (tx_buffer s4)) p s4
      = Some (Ret (int (7 + length (fr_data f)), overlay (tx_buffer s4) 0 (wire f)) s4)"
    using l tx by (simp add: to_bytestream_run s4_def)
  moreover have "world s3 = logged (sx127x_logger s) UTILS_TAG ''sending packet'' LOG_INFO_LOW (world s)"
    by (simp add: s3_def s2_def s1_def)
  ultimately show ?thesis
    using s1 by (simp add: sx_1278_send_packet_def s4_def)
qed

context observed_platform
begin

lemma send_packet_adds:
  fixes s :: "('w, 'z) machine_scheme"
  assumes h: "here s" and u: "usable s" and v: "packet_view s p = Some f" and l: "length (fr_data f) \<le> 8"
    and m: "mem_ok s" and a: "alloc_never_fails s" and tx: "length (tx_buffer s) = 255"
    and run: "sx_1278_send_packet p rx s = Some (Ret SX_OK t)"
  shows "\<exists>base r. adds s t [(0x01, [0x81], SX_OK), (0x0D, [base], SX_OK), (0x22, [of_nat (length (wire f))], SX_OK),
     (0x00, wire f, SX_OK), (0x12, [0xFF], SX_OK), (0x01, [0x83], SX_OK),
     (0x12, [0xFF], r), (0x12, [0xFF], SX_OK), (0x01, [if rx then 0x85 else 0x80], SX_OK)]"
proof -
  let ?buf = "overlay (tx_buffer s) 0 (wire f)" and ?len = "of_nat (length (wire f)) :: u8"
  let ?s = "s\<lparr>fresh := fresh s + 2,
      world := logged (sx127x_logger s) UTILS_TAG ''sending packet'' LOG_INFO_LOW (world s),
      tx_buffer := ?buf\<rparr>"
  have ln: "unat ?len = length (wire f)" using l by (subst unat_of_nat_u8) simp_all
  have tk: "take (length (wire f)) ?buf = wire f" using l tx by (intro take_overlay_0) simp
  have "obs (logged lg tag str level w) = obs w" for tag str level w
    using obs_log by (auto simp: logged_def split: option.splits)
  then have a0: "adds s ?s []" using h by (simp add: adds_def here_def)
  have "sx1278_send_payload ?buf ?len rx ?s = Some (Ret SX_OK t)"
    using run send_packet_run [OF u v l m a tx] by simp
  from send_payload_adds [OF adds_here [OF a0] this] show ?thesis
    unfolding ln tk using adds_trans [OF a0] by fastforce
qed
end

lemma read_last_packet_run:
  fixes s :: "('w, 'z) machine_scheme"
  assumes u: "usable s" and b: "length (rx_buffer s) = 255" and p: "blocks s p = Some (Pkt k)"
    and m: "mem_ok s" and a: "alloc_never_fails s"
    and r: "sx1278_read_last_payload (rx_buffer s) 0 s = Some (Ret (ret, buf', n) (s\<lparr>world := w\<rparr>))"
  shows "case unwire buf' of
      None \<Rightarrow> read_last_packet p s = Some (Fault Out_Of_Bounds)
    | Some (f, m) \<Rightarrow> \<exists>w'. read_last_packet p s
        = Some (Ret SX_OK ((parsed s p f)\<lparr>world := w', rx_buffer := replicate 255 0\<rparr>))"
proof -
  define s1 where "s1 = s\<lparr>world := w, rx_buffer := buf'\<rparr>"
  have start: "read_last_packet p s = andThen (parse_packet buf' p) (\<lambda>packet_size.
     if packet_size = -1 then
       andThen (log_err RX_UTILS_TAG (''packet couldnt be parsed, discarding packet'' @ [CHR 0x0A])) (\<lambda>_.
       rx_cleanup SX_INVALID_STATE)
     else rx_cleanup SX_OK) s1"
    using r by (simp add: read_last_packet_def s1_def)
  have s1: "blocks s1 p = Some (Pkt k)" "mem_ok s1" "alloc_never_fails s1"
    using p m a by (simp_all add: s1_def mem_ok_def alloc_never_fails_def)
  show ?thesis
  proof (cases "unwire buf'")
    case None
    then show ?thesis
      using parse_packet_short [OF None s1(1)] s1(3) by (simp add: start)
  next
    case (Some fm)
    obtain f j where fm: "fm = (f, j)" by force
    let ?t = "(parsed s1 p f)\<lparr>rx_buffer := replicate 255 0\<rparr>"
    have "usable ?t" using u by (simp add: usable_def parsed_def s1_def)
    then obtain c w' where w': "sx1278_clear_irq ?t = Some (Ret c (?t\<lparr>world := w'\<rparr>))"
      using calmE [of sx1278_clear_irq ?t] calm_intros by (metis world_only_def)
    have "?t\<lparr>world := w'\<rparr> = (parsed s p f)\<lparr>world := w', rx_buffer := replicate 255 0\<rparr>"
      by (simp add: parsed_def s1_def)
    moreover have "parse_packet buf' p s1 = Some (Ret (int j) (parsed s1 p f))"
      using s1 Some fm by (intro parse_packet_run) auto
    ultimately show ?thesis
      using w' by (simp add: start Some fm rx_cleanup_def) blast
  qed
qed

section \<open>The number of attempts\<close>

lemma bit_len_le: "n < 2 ^ k \<Longrightarrow> bit_len n \<le> k"
proof (induction k arbitrary: n)
  case 0
  then show ?case by (simp add: bit_len.simps)
next
  case (Suc k)
  then have "n div 2 < 2 ^ k" by (simp add: less_mult_imp_div_less mult.commute)
  then show ?case using Suc.IH by (subst bit_len.simps) simp
qed

lemma float_of_nat_exact: "n < 2 ^ 24 \<Longrightarrow> float_of_nat n = int n"
  using bit_len_le [of n 24] by (simp add: float_of_nat_def round_even_def)

text \<open>A quotient that is not an integer stays above the integer below it, as long as there are
  eleven fraction bits.\<close>

lemma round_even_above:
  fixes a d :: int
  assumes "0 < d" and "a mod d \<noteq> 0" and "d < 2 * 2 ^ f" and "0 \<le> a"
  shows "a div d * 2 ^ f < round_even (a * 2 ^ f) d \<and> round_even (a * 2 ^ f) d \<le> (a div d + 1) * 2 ^ f"
proof -
  let ?q = "a div d" and ?r = "a mod d" and ?F = "2 ^ f :: int"
  have r: "0 < ?r" "?r < d" using assms by (auto simp: order_le_neq_trans)
  have "a * ?F = (d * ?q + ?r) * ?F" by simp
  then have aF: "a * ?F = d * (?q * ?F) + ?r * ?F" by (simp only: distrib_right mult.assoc)
  define q r where "q = ?r * ?F div d" and "r = ?r * ?F mod d"
  have qr: "?r * ?F = d * q + r" "0 \<le> r" "r < d" using assms(1) by (simp_all add: q_def r_def)
  have div: "a * ?F div d = ?q * ?F + q" "a * ?F mod d = r"
    unfolding aF q_def r_def using assms(1) by simp_all
  have "0 \<le> q" using r(1) assms(1) by (simp add: q_def pos_imp_zdiv_nonneg_iff)
  have "?r * ?F < d * ?F" using r by simp
  have "q < ?F"
  proof (rule ccontr)
    assume "\<not> q < ?F"
    then have "d * ?F \<le> d * q" using assms(1) by simp
    with \<open>?r * ?F < d * ?F\<close> qr show False by linarith
  qed
  have "\<not> (q = 0 \<and> (2 * r < d \<or> 2 * r = d))"
  proof
    assume z: "q = 0 \<and> (2 * r < d \<or> 2 * r = d)"
    then have "r = ?r * ?F" using qr(1) by simp
    then have "?F \<le> r" using r(1) by simp
    with z assms(3) show False by linarith
  qed
  then show ?thesis
    using \<open>0 \<le> q\<close> \<open>q < ?F\<close> unfolding round_even_def Let_def div by (auto simp: distrib_right)
qed

lemma ceil_div:
  fixes q m F :: int
  assumes "q * F < m" and "m \<le> (q + 1) * F"
  shows "- ((- m) div F) = q + 1"
proof -
  have "(- m) div F = - (q + 1)"
    by (rule int_div_pos_eq [where r = "(q + 1) * F - m"]) (use assms in \<open>simp_all add: algebra_simps\<close>)
  then show ?thesis by simp
qed

lemma attempts_eq:
  assumes "0 \<le> t" and "t < 2 ^ 24"
  shows "attempts t = (t + 2999) div 3000"
proof -
  let ?f = "24 - bit_len (nat (t div 3000))"
  have "nat (t div 3000) < 2 ^ 13" using assms by simp
  then have "bit_len (nat (t div 3000)) \<le> 13" by (rule bit_len_le)
  then have "11 \<le> ?f" by simp
  then have f: "(2 :: int) ^ 11 \<le> 2 ^ ?f" by (rule power_increasing) simp
  have nt: "float_of_nat (nat \<bar>t\<bar>) = t" using assms by (simp add: float_of_nat_exact)
  have eq: "attempts t = - ((- (sgn t * round_even (t * 2 ^ ?f) 3000)) div 2 ^ ?f)"
    by (simp only: attempts_def nt quotient24_def PHY_TIMEOUT_MSEC_def Let_def prod.case)
  show ?thesis
  proof (cases "t mod 3000 = 0")
    case True
    then obtain k where t: "t = 3000 * k" by (metis mod_0_imp_dvd dvdE)
    then have "round_even (t * 2 ^ ?f) 3000 = k * 2 ^ ?f" by (simp add: round_even_def)
    moreover have "0 \<le> k" using t assms(1) by simp
    moreover have "- (- (k * 2 ^ e) div 2 ^ e) = k" for e
      by (metis add.inverse_inverse minus_mult_left nonzero_mult_div_cancel_right power_not_zero zero_neq_numeral)
    ultimately show ?thesis using t unfolding eq by (cases "k = 0") (simp_all add: sgn_if)
  next
    case False
    let ?m = "round_even (t * 2 ^ ?f) 3000"
    have b: "t div 3000 * 2 ^ ?f < ?m" "?m \<le> (t div 3000 + 1) * 2 ^ ?f"
      using round_even_above [of 3000 t ?f] False f assms(1) by simp_all
    have "0 < t" using False assms(1) by (auto simp: order_le_less)
    then have one: "sgn t = 1" by simp
    have "attempts t = t div 3000 + 1" unfolding eq one mult_1 by (rule ceil_div [OF b])
    moreover define q r where "q = t div 3000" and "r = t mod 3000"
    have "t = 3000 * q + r" "0 < r" "r < 3000"
      using False by (simp_all add: q_def r_def order_le_neq_trans)
    then have "(t + 2999) div 3000 = q + 1" by (intro int_div_pos_eq [where r = "r - 1"]) simp_all
    then have "(t + 2999) div 3000 = t div 3000 + 1" by (simp only: q_def)
    ultimately show ?thesis by simp
  qed
qed

section \<open>Properties of packets over the radio\<close>

text \<open>A machine with the packet \<open>demo_frame\<close> at 1 and an unset struct at 3.\<close>

definition demo_heap :: "('w, 'z) machine_scheme \<Rightarrow> ('w, 'z) machine_scheme" where
  "demo_heap s = s\<lparr>blocks := [1 \<mapsto> Pkt (packet_of demo_frame 2), 2 \<mapsto> Bytes (fr_data demo_frame),
       3 \<mapsto> Pkt (junk_packet (\<lambda>_. 0))], fresh := 5\<rparr>"

lemma demo_heap_sel [simp]:
  "sx127x_spi_port (demo_heap s) = sx127x_spi_port s" "sx127x_logger (demo_heap s) = sx127x_logger s"
  "sx127x_timer_ctx (demo_heap s) = sx127x_timer_ctx s" "world (demo_heap s) = world s"
  "tx_buffer (demo_heap s) = tx_buffer s" "rx_buffer (demo_heap s) = rx_buffer s"
  "usable (demo_heap s) = usable s" "alloc_never_fails (demo_heap s) = alloc_never_fails s"
  "blocks (demo_heap s) 3 = Some (Pkt (junk_packet (\<lambda>_. 0)))"
  by (simp_all add: demo_heap_def usable_def alloc_never_fails_def)

lemma demo_heap_ok [simp]: "mem_ok (demo_heap s)" "packet_view (demo_heap s) 1 = Some demo_frame"
proof -
  show "packet_view (demo_heap s) 1 = Some demo_frame"
    by (rule packet_view_packet_of [where q = 2]) (simp_all add: demo_heap_def frame_ok_def demo_frame_def)
qed (simp add: demo_heap_def mem_ok_def)

lemma watched_machine_mem [simp]:
  "alloc_never_fails (watched_machine bad v)" "tx_buffer (watched_machine bad v) = replicate 255 0"
  "rx_buffer (watched_machine bad v) = replicate 255 0"
  by (simp_all add: watched_machine_def boot_def alloc_never_fails_def)

text \<open>C22: A packet that \<open>sx_1278_send_packet\<close> reports as sent went to the chip as exactly its frame:
  in between the steps of the transmission the frame's length and the frame's bytes, and nothing else,
  were written to the FIFO.\<close>

theorem send_packet_transmits_wire:
  assumes "observed_platform obs (sx127x_spi_port s) (sx127x_logger s) (sx127x_timer_ctx s)"
    and "usable s" and "packet_view s p = Some f" and "length (fr_data f) \<le> payload_length_max"
    and "mem_ok s" and "alloc_never_fails s" and "length (tx_buffer s) = 255"
    and "sx_1278_send_packet p rx s = Some (Ret SX_OK t)"
  shows "\<exists>base r. obs (world t) = obs (world s) @
    [(0x01, [0x81], SX_OK), (0x0D, [base], SX_OK), (0x22, [of_nat (length (wire f))], SX_OK),
     (0x00, wire f, SX_OK), (0x12, [0xFF], SX_OK), (0x01, [0x83], SX_OK),
     (0x12, [0xFF], r), (0x12, [0xFF], SX_OK), (0x01, [if rx then 0x85 else 0x80], SX_OK)]"
proof -
  have "initialized (sx127x_spi_port s)" using assms(2) by (simp add: usable_def register_bus_def)
  then have "observed_platform.here (sx127x_spi_port s) (sx127x_logger s) (sx127x_timer_ctx s) s"
    by (simp add: observed_platform.here_def [OF assms(1)])
  from observed_platform.send_packet_adds [OF assms(1) this assms(2,3) _ assms(5-8)] show ?thesis
    using assms(4) by (auto simp: observed_platform.adds_def [OF assms(1)])
qed

lemma wire_demo_frame: "wire demo_frame = [0xFF, 0, 0, 0xFF, 5, 1, 3, 0x72, 0x61, 0x6D]"
  by (simp add: wire_def demo_frame_def u16_conv_be_def)

theorem send_packet_transmits_wire_witness:
  "\<exists>t base r. sx_1278_send_packet 1 False (demo_heap (watched_machine None 0x08)) = Some (Ret SX_OK t) \<and>
     snd (world t) = [(0x01, [0x81], SX_OK), (0x0D, [base], SX_OK), (0x22, [10], SX_OK),
     (0x00, [0xFF, 0, 0, 0xFF, 5, 1, 3, 0x72, 0x61, 0x6D], SX_OK), (0x12, [0xFF], SX_OK), (0x01, [0x83], SX_OK),
     (0x12, [0xFF], r), (0x12, [0xFF], SX_OK), (0x01, [0x80], SX_OK)]"
proof -
  let ?s = "demo_heap (watched_machine None 0x08)"
  have d: "length (fr_data demo_frame) = 3" by (simp add: demo_frame_def)
  obtain t where t: "sx_1278_send_packet 1 False ?s = Some (Ret SX_OK t)"
    using send_packet_run [of ?s 1 demo_frame False]
    by (simp add: d sx1278_send_payload_def Let_def checked_def sx1278_switch_mode_def sx1278_clear_irq_def
        poll_for_irq_flag_def watched_poll fits_i64_def del: One_nat_def)
  have "observed_platform snd (sx127x_spi_port ?s) (sx127x_logger ?s) (sx127x_timer_ctx ?s)"
    by (simp add: spied.observed_platform_axioms)
  from send_packet_transmits_wire [OF this _ _ _ _ _ _ t, of demo_frame] t show ?thesis
    by (simp add: d wire_demo_frame del: One_nat_def)
qed

text \<open>C26: \<open>read_last_packet\<close> never reports an error. Whatever the reading of the payload returned, the
  call parses what is in the 255-byte buffer and returns \<open>SX_OK\<close> with the packet it finds there;
  if the length byte of the buffer is above 248 the parser reads past the end of the buffer. When
  the call returns the buffer is zero again and only the packet struct has changed on the heap.\<close>

theorem read_last_packet_outcome:
  assumes "usable s" and "length (rx_buffer s) = 255" and "blocks s p = Some (Pkt k)"
    and "mem_ok s" and "alloc_never_fails s"
  shows "\<exists>ret buf n u. sx1278_read_last_payload (rx_buffer s) 0 s = Some (Ret (ret, buf, n) u) \<and>
    (if unat (buf ! 6) \<le> 248 then \<exists>f t. read_last_packet p s = Some (Ret SX_OK t) \<and>
       packet_view t p = Some f \<and> wire f = take (7 + unat (buf ! 6)) buf \<and>
       rx_buffer t = replicate 255 0 \<and> heap_keeps {p} s t
     else read_last_packet p s = Some (Fault Out_Of_Bounds))"
proof -
  have "255 \<le> length (rx_buffer s)" using assms(2) by simp
  from calm_withD [OF read_last_payload_calm [OF this, of 0] assms(1)] assms(2)
  obtain ret buf n w where r: "sx1278_read_last_payload (rx_buffer s) 0 s = Some (Ret (ret, buf, n) (s\<lparr>world := w\<rparr>))"
    and b: "length buf = 255" by (auto simp: world_only_def)
  note run = read_last_packet_run [OF assms(1-5) r]
  show ?thesis
  proof (cases "unat (buf ! 6) \<le> 248")
    case True
    then obtain f where u: "unwire buf = Some (f, 7 + unat (buf ! 6))" using b by (simp add: unwire_def)
    then obtain w' where t: "read_last_packet p s
        = Some (Ret SX_OK ((parsed s p f)\<lparr>world := w', rx_buffer := replicate 255 0\<rparr>))"
      using run by auto
    have "packet_view (parsed s p f) p = Some f"
      by (rule parsed_view [OF assms(4,3) wire_unwire(3) [OF u]])
    then have "packet_view ((parsed s p f)\<lparr>world := w', rx_buffer := replicate 255 0\<rparr>) p = Some f"
      by (rule packet_view_cong) simp_all
    moreover have "heap_keeps {p} s (parsed s p f)" by (rule keeps_heap [OF parsed_keeps [OF assms(4,3)]])
    then have "heap_keeps {p} s ((parsed s p f)\<lparr>world := w', rx_buffer := replicate 255 0\<rparr>)"
      by (simp add: heap_keeps_def)
    ultimately show ?thesis
      using r t True wire_unwire(1) [OF u] by auto
  next
    case False
    then have "unwire buf = None" using b by (simp add: unwire_def)
    then show ?thesis using run r False by auto
  qed
qed

theorem read_last_packet_outcome_witness:
  "read_last_packet 3 (demo_heap (test_machine zero_clock (reset_state (\<lambda>_. 249) 1 0x40)))
     = Some (Fault Out_Of_Bounds)"
proof -
  let ?s = "demo_heap (test_machine zero_clock (reset_state (\<lambda>_. 249) 1 0x40))"
  obtain u where u: "sx1278_read_last_payload (rx_buffer ?s) 0 ?s = Some (Ret (SX_OK, replicate 249 249 @ replicate 6 0, 249) u)"
    by (simp add: sx1278_read_last_payload_def Let_def sx1278_switch_mode_def test_write sx1278_read_irq_def
        test_read_irq test_read test_fifo [of _ _ 249, simplified] sx1278_clear_irq_def reset_state_def overlay_def)
  have "(replicate 249 249 @ replicate 6 0) ! 6 = (249 :: u8)" by (subst nth_append) simp
  then show ?thesis
    using read_last_packet_outcome [of ?s 3 "junk_packet (\<lambda>_. 0)"] u by simp
qed

lemma unwire_zeros:
  "unwire (replicate 255 0) = Some (\<lparr>fr_dest = 0, fr_src = 0, fr_ack = 0, fr_seq = 0, fr_data = []\<rparr>, 7)"
  by (simp add: unwire_def read_u16_be_def)

text \<open>C27: A failed reception is reported as a received packet. When the reading of the payload fails
  before it touches the buffer (no packet, a bad checksum, a bus error), \<open>read_last_packet\<close> still
  returns \<open>SX_OK\<close>, and the packet is a BEGIN from address 0 to address 0 with ack id 0.\<close>

theorem read_last_packet_hides_errors:
  assumes "usable s" and "rx_buffer s = replicate 255 0" and "blocks s p = Some (Pkt k)"
    and "mem_ok s" and "alloc_never_fails s" and "ret \<noteq> SX_OK"
    and "sx1278_read_last_payload (rx_buffer s) 0 s = Some (Ret (ret, rx_buffer s, n) u)"
  shows "\<exists>t f. read_last_packet p s = Some (Ret SX_OK t) \<and> packet_view t p = Some f \<and>
    frame_type f = PACKET_BEGIN \<and> fr_dest f = 0 \<and> fr_src f = 0 \<and> fr_ack f = 0"
proof -
  let ?f = "\<lparr>fr_dest = 0, fr_src = 0, fr_ack = 0, fr_seq = 0, fr_data = []\<rparr>"
  have "255 \<le> length (rx_buffer s)" using assms(2) by simp
  from calm_withD [OF read_last_payload_calm [OF this, of 0] assms(1)] assms(7)
  obtain w where u: "u = s\<lparr>world := w\<rparr>" by (auto simp: world_only_def)
  have "length (rx_buffer s) = 255" using assms(2) by simp
  from read_last_packet_run [OF assms(1) this assms(3-5) assms(7) [unfolded u]] obtain w'
    where t: "read_last_packet p s
      = Some (Ret SX_OK ((parsed s p ?f)\<lparr>world := w', rx_buffer := replicate 255 0\<rparr>))"
    unfolding assms(2) unwire_zeros by auto
  have "packet_view (parsed s p ?f) p = Some ?f"
    by (rule parsed_view [OF assms(4,3)]) (simp add: frame_ok_def)
  then have "packet_view ((parsed s p ?f)\<lparr>world := w', rx_buffer := replicate 255 0\<rparr>) p = Some ?f"
    by (rule packet_view_cong) simp_all
  with t show ?thesis by (auto simp: frame_type_def)
qed

theorem read_last_packet_hides_errors_witness:
  "\<exists>t f. read_last_packet 3 (demo_heap (test_machine zero_clock (reset_state (\<lambda>_. 7) 1 0x60)))
     = Some (Ret SX_OK t) \<and> packet_view t 3 = Some f \<and> frame_type f = PACKET_BEGIN"
proof -
  let ?s = "demo_heap (test_machine zero_clock (reset_state (\<lambda>_. 7) 1 0x60))"
  obtain u where "sx1278_read_last_payload (rx_buffer ?s) 0 ?s = Some (Ret (SX_INVALID_CRC, rx_buffer ?s, 0) u)"
    by (simp add: sx1278_read_last_payload_def Let_def sx1278_switch_mode_def test_write sx1278_read_irq_def
        test_read_irq sx1278_clear_irq_def reset_state_def clear_and_log_def test_log)
  from read_last_packet_hides_errors [OF _ _ _ _ _ _ this, of 3 "junk_packet (\<lambda>_. 0)"] show ?thesis
    by auto
qed

text \<open>The number of transmissions allowed by a timeout is the timeout divided by 3000 ms, rounded up;
  the single-precision arithmetic of the code is exact for every timeout below \<open>2 ^ 24\<close> ms (4.6
  hours).\<close>

theorem attempts_round_up:
  assumes "0 \<le> timeout" and "timeout < 2 ^ 24"
  shows "attempts timeout = \<lceil>rat_of_int timeout / rat_of_int PHY_TIMEOUT_MSEC\<rceil>"
proof -
  define a b where "a = (- timeout) div 3000" and "b = (- timeout) mod 3000"
  have "- timeout = 3000 * a + b" "0 \<le> b" "b < 3000" by (simp_all add: a_def b_def)
  then have "(timeout + 2999) div 3000 = - a" by (intro int_div_pos_eq [where r = "2999 - b"]) simp_all
  then show ?thesis
    unfolding attempts_eq [OF assms] ceiling_divide_eq_div PHY_TIMEOUT_MSEC_def a_def .
qed

theorem attempts_round_up_witness: "attempts 12000 = 4"
  using attempts_round_up [of 12000] by (simp add: PHY_TIMEOUT_MSEC_def)

section \<open>Waiting without a timeout\<close>

lemma no_timeout_loop_cases:
  assumes r: "spi_read1 0x12 irq s = Some (Ret (ret, irq') s1)"
  shows "poll_for_irq_flag_no_timeout_loop interval msk cleanup irq s =
     (if ret \<noteq> SX_OK then
        andThen (log_err UTILS_TAG ''couldnt read irq register'') (\<lambda>_.
        andThen (irq_cleanup cleanup) (\<lambda>_. give ret)) s1
      else if irq' AND msk \<noteq> 0 then andThen (irq_cleanup cleanup) (\<lambda>_. give SX_OK) s1
      else
        andThen (delay_ms interval) (\<lambda>_.
        poll_for_irq_flag_no_timeout_loop interval msk cleanup irq') s1)"
  by (subst poll_for_irq_flag_no_timeout_loop.simps) (simp add: sx1278_read_irq_def r)

end
