(* ===== verification/Air.thy ===== *)
theory Air
  imports Utils
begin

text \<open>
  A scripted radio: a platform on which every transmission succeeds, and after the \<open>n\<close>-th
  transmission the \<open>n\<close>-th answer of a script is received, or nothing is. The answers are of any type
  with an encoding \<open>enc\<close> as bytes (frames, or the bytes themselves).
\<close>

unbundle bit_operations_syntax

section \<open>The platform\<close>

record 'a air_world =
  air :: "u8 list list"
  script :: "'a option list"
  ticks :: nat

text \<open>\<open>air\<close> is what was transmitted; the answer that can be received now.\<close>

definition answer :: "'a air_world \<Rightarrow> 'a option" where
  "answer w = (if air w = [] \<or> length (script w) < length (air w) then None
     else script w ! (length (air w) - 1))"

definition air_writer :: "'a air_world spi_register_writer_t" where
  "air_writer h reg data len w =
     (SX_OK, if reg = 0 then w\<lparr>air := air w @ [take (nat len) data]\<rparr> else w)"

text \<open>TxDone is always shown, RxDone when there is an answer; the version is that of the SX1278.\<close>

fun air_bytes :: "('a \<Rightarrow> u8 list) \<Rightarrow> 'a option \<Rightarrow> u8 \<Rightarrow> u8 list" where
  "air_bytes enc a reg =
     (if reg = 0x12 then [if a = None then 0x08 else 0x48]
      else if reg = 0x13 then [case a of None \<Rightarrow> 0 | Some f \<Rightarrow> of_nat (length (enc f))]
      else if reg = 0 then (case a of None \<Rightarrow> [] | Some f \<Rightarrow> enc f)
      else if reg = 0x42 then [0x12]
      else [0])"

declare air_bytes.simps [simp del]

definition air_reader :: "('a \<Rightarrow> u8 list) \<Rightarrow> 'a air_world spi_register_reader_t" where
  "air_reader enc h reg len w = ((SX_OK, take (nat len) (air_bytes enc (answer w) reg)), w)"

text \<open>A delay takes ten seconds: longer than any timeout of the library.\<close>

definition air_time :: "'a air_world sx127x_timer_t" where
  "air_time w = (of_nat (ticks w), w)"

definition air_delay :: "'a air_world sx127x_task_delayer_ms_t" where
  "air_delay ms w = w\<lparr>ticks := ticks w + 10000000\<rparr>"

definition air_port :: "('a \<Rightarrow> u8 list) \<Rightarrow> 'a air_world spi_port_t" where
  "air_port enc = snd (spi_port_init (Some air_writer) (Some (air_reader enc)) 0)"

definition air_timer :: "'a air_world sx127x_timer_ctx_t" where
  "air_timer = sx127x_timer_init (Some air_time) (Some air_delay)"

lemma air_port_sel [simp]:
  "initialized (air_port enc)" "writer (air_port enc) = Some air_writer" "reader (air_port enc) = Some (air_reader enc)"
  "spi_handle (air_port enc) = 0" "timer air_timer = Some air_time" "delayer air_timer = Some air_delay"
  by (simp_all add: air_port_def spi_port_init_def air_timer_def sx127x_timer_init_def)

interpretation air_bus: register_bus "air_port enc" for enc :: "'a \<Rightarrow> u8 list"
  by unfold_locales (auto simp: air_reader_def)

text \<open>The platform is in place; the static buffers are as they are between two calls.\<close>

definition on_air :: "('a \<Rightarrow> u8 list) \<Rightarrow> ('a air_world, 'z) machine_scheme \<Rightarrow> bool" where
  "on_air enc s \<longleftrightarrow> sx127x_spi_port s = air_port enc \<and> sx127x_logger s = zero_logger \<and>
     sx127x_timer_ctx s = air_timer"

lemma on_air_usable: "on_air enc s \<Longrightarrow> usable s"
  by (simp add: on_air_def usable_def air_bus.register_bus_axioms logger_ok_init)

lemma on_air_update [simp]:
  "on_air enc (s\<lparr>world := w\<rparr>) = on_air enc s" "on_air enc (s\<lparr>blocks := b\<rparr>) = on_air enc s"
  "on_air enc (s\<lparr>fresh := n\<rparr>) = on_air enc s" "on_air enc (s\<lparr>tx_buffer := x\<rparr>) = on_air enc s"
  "on_air enc (s\<lparr>rx_buffer := x\<rparr>) = on_air enc s"
  by (simp_all add: on_air_def)

lemma air_write:
  "on_air enc s \<Longrightarrow> spi_write reg data len s = Some (Ret SX_OK (if reg = 0
     then s\<lparr>world := (world s)\<lparr>air := air (world s) @ [take (nat len) data]\<rparr>\<rparr> else s))"
  by (simp add: on_air_def spi_write_def on_world_def spi_burst_write_reg_def air_writer_def)

lemma air_read1:
  "on_air enc s \<Longrightarrow> reg \<noteq> 0 \<Longrightarrow> spi_read1 reg old s = Some (Ret (SX_OK, hd (air_bytes enc (answer (world s)) reg)) s)"
  by (auto simp: on_air_def spi_read1_def spi_read_def on_world_def spi_burst_read_reg_def air_reader_def
      buf_write_def overlay_def air_bytes.simps)

lemma air_fifo:
  assumes "on_air enc s" and "answer (world s) = Some f" and "length (enc f) \<le> length buf"
  shows "spi_read 0 buf (int (length (enc f))) s = Some (Ret (SX_OK, overlay buf 0 (enc f)) s)"
  using assms
  by (simp add: on_air_def spi_read_def on_world_def spi_burst_read_reg_def air_reader_def
      buf_write_def air_bytes.simps)

lemma air_log: "on_air enc s \<Longrightarrow> length tag + length str \<le> 4093 \<Longrightarrow> log_err tag str s = Some (Ret () s)"
  by (simp add: on_air_def test_log)

lemma air_log_tag:
  "on_air enc s \<Longrightarrow> length tag + length str \<le> 4093 \<Longrightarrow> log_tag tag str level s = Some (Ret () s)"
  using log_tag_run [OF on_air_usable, of enc s tag str level]
  by (simp add: on_air_def logged_def zero_logger_def)

lemma air_time_us: "on_air enc s \<Longrightarrow> time_us s = Some (Ret (of_nat (ticks (world s))) s)"
  by (simp add: on_air_def time_us_def on_world_def sx127x_timer_get_time_us_def air_time_def)

lemma air_delay_ms:
  "on_air enc s \<Longrightarrow> delay_ms ms s
     = Some (Ret () (s\<lparr>world := (world s)\<lparr>ticks := ticks (world s) + 10000000\<rparr>\<rparr>))"
  by (simp add: on_air_def delay_ms_def on_world_def sx127x_task_delay_ms_def air_delay_def)

lemma air_irq:
  "on_air enc s \<Longrightarrow> spi_read1 0x12 old s
     = Some (Ret (SX_OK, if answer (world s) = None then 0x08 else 0x48) s)"
  by (simp add: air_read1 air_bytes.simps)

lemmas air_run = air_write air_irq air_log air_log_tag air_time_us air_delay_ms

section \<open>The driver on the platform\<close>

lemma sint_ticks: "n < 2 ^ 63 \<Longrightarrow> sint (of_nat n :: i64) = int n"
proof -
  assume "n < 2 ^ 63"
  then have "sint (word_of_int (int n) :: i64) = int n"
    by (simp add: signed_of_int signed_take_bit_int_eq_self del: of_int_of_nat_eq)
  then show ?thesis by simp
qed

text \<open>Polling ends at once when the flag shows, with a timeout otherwise.\<close>

lemma air_poll_flag:
  assumes "on_air enc s" and "(if answer (world s) = None then 0x08 else 0x48) AND msk \<noteq> 0"
  shows "poll_for_irq_flag 3000 interval msk cleanup s = Some (Ret SX_OK s)"
  using assms poll_loop_cases [OF air_irq [OF assms(1)]]
  by (simp add: poll_for_irq_flag_def Let_def air_time_us fits_i64_def irq_cleanup_def air_write)

lemma air_poll_silent:
  assumes "on_air enc s" and "answer (world s) = None" and "ticks (world s) + 10000000 < 2 ^ 63"
    and "0 < interval"
  shows "poll_for_irq_flag 3000 interval (push_bit 6 1) False s
     = Some (Ret SX_TIMEOUT (s\<lparr>world := (world s)\<lparr>ticks := ticks (world s) + 10000000\<rparr>\<rparr>))"
proof -
  let ?t = "s\<lparr>world := (world s)\<lparr>ticks := ticks (world s) + 10000000\<rparr>\<rparr>"
  have "answer (world ?t) = answer (world s)" by (simp add: answer_def)
  then have t: "on_air enc ?t" "answer (world ?t) = None" using assms by simp_all
  have "ticks (world s) < 2 ^ 63" "ticks (world ?t) < 2 ^ 63" using assms(3) by simp_all
  note clk = this [THEN sint_ticks]
  have "\<not> interval \<le> 0" using assms(4) by simp
  have "poll_loop (int (ticks (world s))) 3000000 interval 0x40 False 0 s
      = poll_loop (int (ticks (world s))) 3000000 interval 0x40 False 8 ?t"
    using poll_loop_cases [OF air_irq [OF assms(1)]] assms clk
    by (simp add: air_time_us fits_i64_def air_delay_ms)
  moreover have "poll_loop (int (ticks (world s))) 3000000 interval 0x40 False 8 ?t = Some (Ret SX_TIMEOUT ?t)"
    using poll_loop_cases [OF air_irq [OF t(1)]] t clk(2)
    by (simp add: air_time_us fits_i64_def irq_cleanup_def air_log)
  ultimately show ?thesis
    using clk(1) \<open>\<not> interval \<le> 0\<close> by (simp add: poll_for_irq_flag_def Let_def air_time_us [OF assms(1)] fits_i64_def)
qed

lemma air_poll_loop_silent:
  assumes "on_air enc s" and "answer (world s) = None" and "ticks (world s) + 10000000 * n < 2 ^ 63"
    and "start \<le> ticks (world s)" and "timeout_us < int (ticks (world s) + 10000000 * n) - int start"
  shows "\<exists>m \<le> n. poll_loop (int start) timeout_us interval 0x40 False irq s
     = Some (Ret SX_TIMEOUT (s\<lparr>world := (world s)\<lparr>ticks := ticks (world s) + 10000000 * m\<rparr>\<rparr>))"
  using assms
proof (induction n arbitrary: s irq)
  case (0 s)
  have "sint (of_nat (ticks (world s)) :: i64) = int (ticks (world s))" using 0 by (simp add: sint_ticks)
  then show ?case
    using 0 poll_loop_cases [OF air_irq [OF 0(1)]]
    by (auto simp: air_time_us fits_i64_def irq_cleanup_def air_log)
next
  case (Suc n s)
  let ?t = "s\<lparr>world := (world s)\<lparr>ticks := ticks (world s) + 10000000\<rparr>\<rparr>"
  have clk: "sint (of_nat (ticks (world s)) :: i64) = int (ticks (world s))"
    using Suc.prems(3) by (simp add: sint_ticks)
  have fits: "fits_i64 (int (ticks (world s)) - int start)" using Suc.prems(3,4) by (simp add: fits_i64_def)
  show ?case
  proof (cases "int (ticks (world s)) - int start > timeout_us")
    case True
    then show ?thesis
      using Suc.prems(1,2) clk fits poll_loop_cases [OF air_irq [OF Suc.prems(1)]]
      by (intro exI [of _ 0]) (simp add: air_time_us irq_cleanup_def air_log)
  next
    case False
    have step: "poll_loop (int start) timeout_us interval 0x40 False irq s
        = poll_loop (int start) timeout_us interval 0x40 False 8 ?t"
      using Suc.prems(1,2) clk fits False poll_loop_cases [OF air_irq [OF Suc.prems(1)]]
      by (simp add: air_time_us air_delay_ms)
    have "answer (world ?t) = answer (world s)" by (simp add: answer_def)
    then have "on_air enc ?t" "answer (world ?t) = None" using Suc.prems(1,2) by simp_all
    from Suc.IH [OF this, of 8] Suc.prems(3-5) obtain m where "m \<le> n"
      "poll_loop (int start) timeout_us interval 0x40 False 8 ?t
        = Some (Ret SX_TIMEOUT (?t\<lparr>world := (world ?t)\<lparr>ticks := ticks (world ?t) + 10000000 * m\<rparr>\<rparr>))"
      by auto
    then show ?thesis using step by (intro exI [of _ "Suc m"]) (simp add: add.commute add.left_commute)
  qed
qed

lemma air_send_payload:
  assumes p: "on_air enc s" and l: "unat len \<le> length buf"
  shows "sx1278_send_payload buf len rx s
     = Some (Ret SX_OK (s\<lparr>world := (world s)\<lparr>air := air (world s) @ [take (unat len) buf]\<rparr>\<rparr>))"
proof -
  let ?t = "s\<lparr>world := (world s)\<lparr>air := air (world s) @ [take (unat len) buf]\<rparr>\<rparr>"
  have t: "on_air enc ?t" using p by simp
  have poll: "poll_for_irq_flag 3000 3 8 True ?t = Some (Ret SX_OK ?t)"
    by (rule air_poll_flag [OF t]) simp
  show ?thesis
    using l by (simp add: sx1278_send_payload_def checked_def sx1278_switch_mode_def sx1278_clear_irq_def
        air_write [OF p] air_write [OF t] air_read1 [OF p] poll Let_def)
qed

lemma air_read_last_payload:
  assumes p: "on_air enc s" and a: "answer (world s) = Some f" and l: "length (enc f) \<le> 255"
    and b: "length (enc f) \<le> length buf"
  shows "sx1278_read_last_payload buf n s = Some (Ret (SX_OK, overlay buf 0 (enc f), length (enc f)) s)"
proof -
  have "unat (of_nat (length (enc f)) :: u8) = length (enc f)" using l by (subst unat_of_nat_u8) simp_all
  then show ?thesis
    using a b l
    by (simp add: sx1278_read_last_payload_def Let_def sx1278_switch_mode_def sx1278_clear_irq_def
        sx1278_read_irq_def air_write [OF p] air_read1 [OF p] air_irq [OF p] air_bytes.simps
        air_fifo [OF p a] del: length_wire)
qed

end
