(* ===== verification/Peer.thy ===== *)
theory Peer
  imports Air
begin

text \<open>
  A scripted peer: the scripted radio with frames as answers. It shows, on concrete platforms,
  what the acknowledged transmission of \<open>sx127x_utils.c\<close> does for every pattern of lost and wrong
  acknowledgements: \<open>send_packet_ensure_ack\<close> is a stop-and-wait sender.
\<close>

unbundle bit_operations_syntax

section \<open>The platform\<close>

type_synonym peer_world = "frame air_world"

abbreviation peer_port :: "peer_world spi_port_t" where "peer_port \<equiv> air_port wire"

abbreviation peer_timer :: "peer_world sx127x_timer_ctx_t" where "peer_timer \<equiv> air_timer"

abbreviation on_peer :: "(peer_world, 'z) machine_scheme \<Rightarrow> bool" where "on_peer \<equiv> on_air wire"

text \<open>The platform is in place; the static buffers are as they are between two calls.\<close>

definition at_peer :: "(peer_world, 'z) machine_scheme \<Rightarrow> bool" where
  "at_peer s \<longleftrightarrow> on_peer s \<and> rx_buffer s = replicate 255 0 \<and> length (tx_buffer s) = 255 \<and>
     mem_ok s \<and> alloc_never_fails s"

lemmas on_peer_usable = on_air_usable [where enc = wire]
lemmas peer_write = air_write [where enc = wire]
lemmas peer_irq = air_irq [where enc = wire]
lemmas peer_log = air_log [where enc = wire]
lemmas peer_log_tag = air_log_tag [where enc = wire]
lemmas peer_time_us = air_time_us [where enc = wire]
lemmas peer_delay_ms = air_delay_ms [where enc = wire]
lemmas peer_poll_flag = air_poll_flag [where enc = wire]
lemmas peer_poll_silent = air_poll_silent [where enc = wire]
lemmas peer_send_payload = air_send_payload [where enc = wire]
lemmas peer_read_last_payload = air_read_last_payload [where enc = wire]

section \<open>Receiving a packet on the peer\<close>

lemma peer_read_last_packet:
  assumes p: "at_peer s" and a: "answer (world s) = Some f" and l: "length (wire f) \<le> 255"
    and k: "blocks s p = Some (Pkt k)"
  shows "read_last_packet p s = Some (Ret SX_OK (parsed s p f))"
proof -
  let ?buf = "overlay (replicate 255 0) 0 (wire f)"
  have h: "on_peer s" "rx_buffer s = replicate 255 0" "mem_ok s" "alloc_never_fails s"
    using p by (simp_all add: at_peer_def)
  let ?s = "s\<lparr>rx_buffer := ?buf\<rparr>" and ?t = "parsed (s\<lparr>rx_buffer := ?buf\<rparr>) p f"
  have read: "sx1278_read_last_payload (rx_buffer s) 0 s = Some (Ret (SX_OK, ?buf, length (wire f)) s)"
    unfolding h(2) by (rule peer_read_last_payload [OF h(1) a l]) (use l in simp)
  have "unwire ?buf = Some (f, length (wire f))"
    using unwire_wire [of f "replicate (255 - length (wire f)) 0"] l
    by (simp add: overlay_def frame_ok_def)
  then have parse: "parse_packet ?buf p ?s = Some (Ret (int (length (wire f))) ?t)"
    by (rule parse_packet_run [where k = k]) (use h k in \<open>simp_all add: mem_ok_def alloc_never_fails_def\<close>)
  have same: "?t\<lparr>rx_buffer := replicate 255 0\<rparr> = parsed s p f"
    using h(2) by (simp add: parsed_def)
  have "on_peer (?t\<lparr>rx_buffer := replicate 255 0\<rparr>)" using h(1) by (simp add: same parsed_def)
  then show ?thesis
    using read parse by (simp add: read_last_packet_def rx_cleanup_def sx1278_clear_irq_def Let_def
        peer_write same del: length_wire)
qed

text \<open>One reception: the answer is parsed into the struct, silence is a timeout.\<close>

lemma peer_poll_and_read:
  assumes p: "at_peer s" and k: "blocks s p = Some (Pkt k)"
    and t: "ticks (world s) + 10000000 < 2 ^ 63"
    and l: "\<And>f. answer (world s) = Some f \<Longrightarrow> length (wire f) \<le> 255"
  shows "sx1278_poll_and_read_packet p PHY_TIMEOUT_MSEC s = (case answer (world s) of
      None \<Rightarrow> Some (Ret SX_TIMEOUT (s\<lparr>world := (world s)\<lparr>ticks := ticks (world s) + 10000000\<rparr>\<rparr>))
    | Some f \<Rightarrow> Some (Ret SX_OK (parsed s p f)))"
proof -
  have h: "on_peer s" using p by (simp add: at_peer_def)
  have [simp]: "word_of_int PHY_TIMEOUT_MSEC = (3000 :: u64)" by (simp add: PHY_TIMEOUT_MSEC_def)
  show ?thesis
  proof (cases "answer (world s)")
    case None
    let ?t = "s\<lparr>world := (world s)\<lparr>ticks := ticks (world s) + 10000000\<rparr>\<rparr>"
    have "on_peer ?t" using h by simp
    then show ?thesis
      using peer_poll_silent [OF h None t, of 1] None
      by (simp add: sx1278_poll_and_read_packet_def checked_def sx1278_switch_mode_def sx1278_clear_irq_def
          peer_write [OF h] peer_write peer_log)
  next
    case (Some f)
    have poll: "poll_for_irq_flag 3000 1 64 False s = Some (Ret SX_OK s)"
      by (rule peer_poll_flag [OF h]) (simp add: Some)
    have "on_peer (parsed s p f)" using h by (simp add: parsed_def)
    then show ?thesis
      using poll peer_read_last_packet [OF p Some l [OF Some] k] Some
      by (simp add: sx1278_poll_and_read_packet_def checked_def sx1278_switch_mode_def sx1278_clear_irq_def
          peer_write [OF h] peer_write)
  qed
qed

section \<open>Stop and wait\<close>

text \<open>What an acknowledgement of the packet \<open>f\<close> is, and the abstract sender: it transmits until an
  answer is accepted, \<open>n\<close> times at most. The result is the code and the number of transmissions.\<close>

definition acknowledges :: "frame \<Rightarrow> packet_types \<Rightarrow> frame \<Rightarrow> bool" where
  "acknowledges f ty g \<longleftrightarrow> fr_src g = fr_dest f \<and> fr_dest g = fr_src f \<and> fr_ack g = fr_ack f \<and>
     fr_seq g = fr_seq f \<and> frame_type g = ty"

fun stop_and_wait :: "(frame \<Rightarrow> bool) \<Rightarrow> frame option list \<Rightarrow> nat \<Rightarrow> sx127x_err_t \<times> nat" where
  "stop_and_wait ok rs 0 = (SX_TIMEOUT, 0)"
| "stop_and_wait ok [] (Suc n) = (SX_TIMEOUT, Suc n)"
| "stop_and_wait ok (None # rs) (Suc n) = (let (ret, k) = stop_and_wait ok rs n in (ret, Suc k))"
| "stop_and_wait ok (Some g # rs) (Suc n) =
     (if ok g then (SX_OK, 1) else let (ret, k) = stop_and_wait ok rs n in (ret, Suc k))"

lemma stop_and_wait_OK:
  "fst (stop_and_wait ok rs n) = SX_OK \<longleftrightarrow> (\<exists>i g. i < n \<and> i < length rs \<and> rs ! i = Some g \<and> ok g)"
proof (induction ok rs n rule: stop_and_wait.induct)
  case (3 ok rs n)
  have "(\<exists>i g. i < Suc n \<and> i < length (None # rs) \<and> (None # rs) ! i = Some g \<and> ok g)
      \<longleftrightarrow> (\<exists>i g. i < n \<and> i < length rs \<and> rs ! i = Some g \<and> ok g)"
    by (auto simp: less_Suc_eq_0_disj)
  with 3 show ?case by (cases "stop_and_wait ok rs n") simp
next
  case (4 ok g rs n)
  have "(\<exists>i h. i < Suc n \<and> i < length (Some g # rs) \<and> (Some g # rs) ! i = Some h \<and> ok h)
      \<longleftrightarrow> ok g \<or> (\<exists>i g. i < n \<and> i < length rs \<and> rs ! i = Some g \<and> ok g)"
    by (auto simp: less_Suc_eq_0_disj)
  with 4 show ?case by (cases "stop_and_wait ok rs n") simp
qed simp_all

lemma stop_and_wait_bound: "snd (stop_and_wait ok rs n) \<le> n"
  by (induction ok rs n rule: stop_and_wait.induct) (auto split: prod.splits)

lemma stop_and_wait_timeout:
  "fst (stop_and_wait ok rs n) \<noteq> SX_OK \<Longrightarrow> stop_and_wait ok rs n = (SX_TIMEOUT, n)"
  by (induction ok rs n rule: stop_and_wait.induct) (auto split: prod.splits if_splits)

text \<open>The state of the sender between two attempts: its packet, the struct for the answers and the
  text buffer share no object.\<close>

definition waiting :: "nat \<Rightarrow> frame \<Rightarrow> nat \<Rightarrow> nat \<Rightarrow> (peer_world, 'z) machine_scheme \<Rightarrow> bool" where
  "waiting p f rx d s \<longleftrightarrow> at_peer s \<and> packet_view s p = Some f \<and> length (fr_data f) \<le> 8 \<and>
     (\<exists>k. blocks s rx = Some (Pkt k) \<and> (payload k = NULL \<or> d < payload k \<and> blocks s (payload k) \<noteq> None)) \<and>
     (\<exists>bb. blocks s d = Some (Bytes bb) \<and> length bb = 2048) \<and> rx < d \<and> owned s p \<subseteq> {..<rx} \<and>
     (\<forall>g. Some g \<in> set (script (world s)) \<longrightarrow> length (fr_data g) \<le> 8)"

text \<open>What an attempt may change.\<close>

definition goes_on :: "nat set \<Rightarrow> (peer_world, 'z) machine_scheme \<Rightarrow> (peer_world, 'z) machine_scheme \<Rightarrow> bool" where
  "goes_on A s t \<longleftrightarrow> heap_keeps A s t \<and> script (world t) = script (world s) \<and>
     machine.more t = machine.more s \<and>
     ((\<forall>g. Some g \<in> set (script (world s)) \<longrightarrow> fr_data g = []) \<longrightarrow>
        (\<forall>q. q \<notin> A \<longrightarrow> blocks t q = blocks s q))"

lemma goes_on_trans: "goes_on A s t \<Longrightarrow> goes_on A t u \<Longrightarrow> goes_on A s u"
  using heap_keeps_trans [of A s t A u] by (auto simp: goes_on_def)

lemma peer_send_packet:
  assumes p: "at_peer s" and v: "packet_view s p = Some f" and l: "length (fr_data f) \<le> 8"
  shows "sx_1278_send_packet p rx s = Some (Ret SX_OK (s\<lparr>fresh := fresh s + 2,
     world := (world s)\<lparr>air := air (world s) @ [wire f]\<rparr>, tx_buffer := overlay (tx_buffer s) 0 (wire f)\<rparr>))"
proof -
  have h: "on_peer s" "mem_ok s" "alloc_never_fails s" "length (tx_buffer s) = 255" "sx127x_logger s = zero_logger"
    using p by (simp_all add: at_peer_def on_air_def)
  let ?buf = "overlay (tx_buffer s) 0 (wire f)"
  let ?s = "s\<lparr>fresh := fresh s + 2, world := world s, tx_buffer := ?buf\<rparr>"
  have "unat (of_nat (length (wire f)) :: u8) = length (wire f)" using l by (subst unat_of_nat_u8) simp_all
  moreover have "take (length (wire f)) ?buf = wire f" using l h(4) by (intro take_overlay_0) simp
  moreover have "on_peer ?s" using h(1) by simp
  ultimately have "sx1278_send_payload ?buf (of_nat (length (wire f))) rx ?s
      = Some (Ret SX_OK (?s\<lparr>world := (world ?s)\<lparr>air := air (world ?s) @ [wire f]\<rparr>\<rparr>))"
    using peer_send_payload [of ?s "of_nat (length (wire f))" ?buf rx] l h(4) by simp
  moreover have "logged (sx127x_logger s) UTILS_TAG ''sending packet'' LOG_INFO_LOW (world s) = world s"
    using h(5) by (simp add: logged_def zero_logger_def)
  ultimately show ?thesis
    using send_packet_run [OF on_peer_usable [OF h(1)] v l h(2-4), of rx] by simp
qed

lemma waiting_cong:
  assumes w: "waiting p f rx d s" and "at_peer t" and "blocks t = blocks s"
    and "script (world t) = script (world s)"
  shows "waiting p f rx d t"
proof -
  have vs: "packet_view s p = Some f" using w by (simp only: waiting_def)
  have v: "packet_view t p = Some f" by (rule packet_view_cong [OF vs]) (simp_all only: assms(3))
  have o: "owned t p = owned s p" by (simp only: owned_def payload_of_def assms(3))
  show ?thesis using w assms(2) v unfolding waiting_def o assms(3,4) by blast
qed

lemma waiting_after_send:
  assumes "waiting p f rx d s"
  shows "waiting p f rx d (s\<lparr>fresh := fresh s + 2, world := (world s)\<lparr>air := xs\<rparr>, tx_buffer := overlay (tx_buffer s) 0 (wire f)\<rparr>)"
  using assms by (intro waiting_cong [OF assms])
    (auto simp: waiting_def at_peer_def mem_ok_def alloc_never_fails_def)

lemma waiting_after_silence:
  assumes "waiting p f rx d s"
  shows "waiting p f rx d (s\<lparr>world := (world s)\<lparr>ticks := n\<rparr>\<rparr>)"
  using assms by (intro waiting_cong [OF assms])
    (auto simp: waiting_def at_peer_def mem_ok_def alloc_never_fails_def)

lemma waiting_parts:
  assumes "waiting p f rx d s"
  obtains k bb where "at_peer s" "packet_view s p = Some f" "length (fr_data f) \<le> 8"
    "blocks s rx = Some (Pkt k)" "payload k = NULL \<or> d < payload k \<and> blocks s (payload k) \<noteq> None"
    "blocks s d = Some (Bytes bb)" "length bb = 2048" "rx \<notin> owned s p" "d \<notin> owned s p" "mem_ok s"
    "alloc_never_fails s" "on_peer s" "rx < d" "owned s p \<subseteq> {..<rx}"
  using assms by (fastforce simp: waiting_def at_peer_def)

lemma waiting_after_answer:
  assumes w: "waiting p f rx d s" and g: "length (fr_data g) \<le> 8"
  shows "waiting p f rx d (parsed s rx g)"
proof -
  obtain k bb where h: "at_peer s" "packet_view s p = Some f" "length (fr_data f) \<le> 8"
    "blocks s rx = Some (Pkt k)" "blocks s d = Some (Bytes bb)" "length bb = 2048" "rx \<notin> owned s p"
    "d \<notin> owned s p" "mem_ok s" "alloc_never_fails s" "on_peer s" "rx < d" "owned s p \<subseteq> {..<rx}"
    using w by (rule waiting_parts)
  let ?t = "parsed s rx g"
  have k: "keeps {rx} s ?t" by (rule parsed_keeps [OF h(9,4)])
  have pf: "p < fresh s" using packet_view_less [OF h(2,9)] by simp
  have o: "owned ?t p = owned s p" using h(7) by (intro owned_heap_keeps [OF keeps_heap [OF k] pf]) auto
  have v: "packet_view ?t p = Some f" using h(7) by (intro packet_view_keeps [OF h(2) k h(9)]) (auto simp: owned_def)
  have m: "mem_ok ?t" by (rule parsed_mem_ok [OF h(9,4)])
  have below: "rx < fresh s" "d < fresh s" using mem_ok_Some_less [OF h(9)] h(4,5) by auto
  have p: "at_peer ?t"
    using h(1) m keeps_never_fails [OF k h(10)] by (auto simp: at_peer_def on_air_def parsed_def)
  have "d \<noteq> rx" using h(4,5) by auto
  then have d: "blocks ?t d = Some (Bytes bb)" using keeps_block [OF k below(2)] h(5) by simp
  have r: "\<exists>k. blocks ?t rx = Some (Pkt k) \<and> (payload k = NULL \<or> d < payload k \<and> blocks ?t (payload k) \<noteq> None)"
    using below by (auto simp: parsed_def)
  have "script (world ?t) = script (world s)" by (simp add: parsed_def)
  with p v h(3,6,12,13) o d r w show ?thesis by (auto simp: waiting_def)
qed

lemma waiting_after_description:
  assumes w: "waiting p f rx d s" and g: "packet_view s rx = Some g" "length (fr_data g) \<le> 8"
  shows "\<exists>t. packet_description rx d s = Some (Ret () t) \<and> waiting p f rx d t \<and>
     goes_on {rx, d} s t \<and> world t = world s"
proof -
  obtain k bb where h: "at_peer s" "packet_view s p = Some f" "length (fr_data f) \<le> 8"
    "blocks s rx = Some (Pkt k)" "payload k = NULL \<or> d < payload k \<and> blocks s (payload k) \<noteq> None"
    "blocks s d = Some (Bytes bb)" "length bb = 2048" "rx \<notin> owned s p"
    "d \<notin> owned s p" "mem_ok s" "alloc_never_fails s" "on_peer s" "rx < d" "owned s p \<subseteq> {..<rx}"
    using w by (rule waiting_parts)
  define xs where "xs = overlay bb 0 (description_text k (fr_data g) @ [0])"
  let ?t = "s\<lparr>blocks := (blocks s)(d \<mapsto> Bytes xs), fresh := Suc (fresh s)\<rparr>"
  have run: "packet_description rx d s = Some (Ret () ?t)" unfolding xs_def
    by (rule packet_description_run [OF g(1) h(10) _ h(6,4)]) (use g h in simp_all)
  have dl: "0 < d" "d < fresh s" "d \<noteq> rx" using mem_ok_Some_less [OF h(10,6)] h(4,6) by auto
  have k: "keeps {d} s ?t" by (auto simp: keeps_def)
  have pf: "p < fresh s" using packet_view_less [OF h(2,10)] by simp
  have o: "owned ?t p = owned s p" using h(9) by (intro owned_heap_keeps [OF keeps_heap [OF k] pf]) auto
  have v: "packet_view ?t p = Some f" using h(9) by (intro packet_view_keeps [OF h(2) k h(10)]) (auto simp: owned_def)
  have "length (description_text k (fr_data g)) \<le> 110" using length_description [of k "fr_data g"] g(2) by simp
  then have x: "length xs = 2048" using h(7) by (simp add: xs_def)
  have p: "at_peer ?t" using h(1) dl by (auto simp: at_peer_def on_air_def mem_ok_def alloc_never_fails_def)
  have "waiting p f rx d ?t"
    using w p v x h(4,5) dl unfolding waiting_def o by auto
  moreover have "heap_keeps {rx, d} s ?t" using heap_keeps_mono [OF keeps_heap [OF k]] by blast
  then have "goes_on {rx, d} s ?t" by (simp add: goes_on_def)
  ultimately show ?thesis using run by (intro exI [of _ ?t]) simp
qed

lemma goes_on_send:
  "goes_on A s (s\<lparr>fresh := fresh s + 2, world := (world s)\<lparr>air := xs\<rparr>, tx_buffer := b\<rparr>)"
  by (simp add: goes_on_def heap_keeps_def)

lemma goes_on_silence: "goes_on A s (s\<lparr>world := (world s)\<lparr>ticks := n\<rparr>\<rparr>)"
  by (simp add: goes_on_def heap_keeps_def)

lemma goes_on_answer:
  assumes "mem_ok s" and "blocks s rx = Some (Pkt k)" and "Some g \<in> set (script (world s))"
  shows "goes_on {rx, d} s (parsed s rx g)"
proof -
  have "heap_keeps {rx, d} s (parsed s rx g)"
    by (rule heap_keeps_mono [OF keeps_heap [OF parsed_keeps [OF assms(1,2)]]]) simp
  then show ?thesis using assms(3) by (auto simp: goes_on_def parsed_def)
qed

lemma answer_next:
  "answer (w\<lparr>air := air w @ [x]\<rparr>) = (case drop (length (air w)) (script w) of [] \<Rightarrow> None | r # rs \<Rightarrow> r)"
proof (cases "length (air w) < length (script w)")
  case True
  then show ?thesis by (simp add: answer_def Cons_nth_drop_Suc [symmetric])
qed (simp add: answer_def)

text \<open>The check of the answer, read off the views.\<close>

lemma check_acknowledges:
  assumes "packet_view s p = Some f" and "blocks s p = Some (Pkt k)"
    and "packet_view s rx = Some g" and "blocks s rx = Some (Pkt r)"
  shows "check_packet_features r (dest_address k) (src_address k) (ack_id k) (sequence_number k) ty
     \<longleftrightarrow> acknowledges f ty g"
  using packet_view_sel [OF assms(1,2)] packet_view_sel [OF assms(3,4)]
  by (auto simp: check_packet_features_def acknowledges_def)

text \<open>One attempt: it ends the loop when the next answer is an acknowledgement; otherwise the loop goes
  on in a state that is waiting again.\<close>

definition next_accepted :: "(frame \<Rightarrow> bool) \<Rightarrow> peer_world \<Rightarrow> bool" where
  "next_accepted ok w = (case drop (length (air w)) (script w) of Some g # rs \<Rightarrow> ok g | _ \<Rightarrow> False)"

text \<open>After the transmission: what a round does with an answer, and without one.\<close>

lemma ack_loop_answered:
  assumes send: "sx_1278_send_packet p True s = Some (Ret SX_OK s1)" and w1: "waiting p f rx d s1"
    and t: "ticks (world s1) + 10000000 < 2 ^ 63" and ans: "answer (world s1) = Some g"
    and gs: "Some g \<in> set (script (world s1))"
  shows "\<exists>u. waiting p f rx d u \<and> goes_on {rx, d} s1 u \<and> world u = world s1 \<and>
     ack_loop (Suc n) p rx d ty s = (if acknowledges f ty g then Some (Ret SX_OK u) else ack_loop n p rx d ty u)"
proof -
  obtain kr where p1: "at_peer s1" "on_peer s1" "mem_ok s1" and kr: "blocks s1 rx = Some (Pkt kr)"
    using w1 by (auto simp: waiting_def at_peer_def)
  have short: "length (fr_data g) \<le> 8" using w1 gs by (simp add: waiting_def)
  let ?v = "parsed s1 rx g"
  have poll: "sx1278_poll_and_read_packet rx PHY_TIMEOUT_MSEC s1 = Some (Ret SX_OK ?v)"
    using peer_poll_and_read [OF p1(1) kr t] ans short by simp
  have wv: "waiting p f rx d ?v" by (rule waiting_after_answer [OF w1 short])
  have gv: "goes_on {rx, d} s1 ?v" by (rule goes_on_answer [OF p1(3) kr gs])
  have wld: "world ?v = world s1" by (simp add: parsed_def)
  have view: "packet_view ?v rx = Some g"
    using short by (intro parsed_view [OF p1(3) kr]) (simp add: frame_ok_def)
  obtain kp where kp: "blocks ?v p = Some (Pkt kp)" "packet_view ?v p = Some f" and onv: "on_peer ?v"
    using wv by (auto simp: waiting_def at_peer_def elim: packet_viewE)
  obtain kg where kg: "blocks ?v rx = Some (Pkt kg)" using view by (rule packet_viewE)
  note run = send poll onv load_packet_run [OF kp(1)] load_packet_run [OF kg]
    check_acknowledges [OF kp(2,1) view kg, of ty]
  show ?thesis
  proof (cases "acknowledges f ty g")
    case True
    then show ?thesis using run wv gv wld by (intro exI [of _ ?v]) (simp add: peer_log_tag)
  next
    case False
    obtain u where u: "packet_description rx d ?v = Some (Ret () u)" "waiting p f rx d u"
      "goes_on {rx, d} ?v u" "world u = world ?v"
      using waiting_after_description [OF wv view short] by blast
    have "on_peer u" using u(2) by (simp add: waiting_def at_peer_def)
    then show ?thesis
      using run False u goes_on_trans [OF gv u(3)] wld by (intro exI [of _ u]) (simp add: peer_log_tag)
  qed
qed

lemma ack_loop_unanswered:
  assumes send: "sx_1278_send_packet p True s = Some (Ret SX_OK s1)" and w1: "waiting p f rx d s1"
    and t: "ticks (world s1) + 10000000 < 2 ^ 63" and ans: "answer (world s1) = None"
  shows "ack_loop (Suc n) p rx d ty s =
    ack_loop n p rx d ty (s1\<lparr>world := (world s1)\<lparr>ticks := ticks (world s1) + 10000000\<rparr>\<rparr>)"
proof -
  let ?u = "s1\<lparr>world := (world s1)\<lparr>ticks := ticks (world s1) + 10000000\<rparr>\<rparr>"
  obtain kr where p1: "at_peer s1" "on_peer s1" and kr: "blocks s1 rx = Some (Pkt kr)"
    using w1 by (auto simp: waiting_def at_peer_def)
  have "on_peer ?u" using p1(2) by simp
  then show ?thesis using send peer_poll_and_read [OF p1(1) kr t] ans by (simp add: peer_log_tag)
qed

lemma ack_loop_attempt:
  assumes w: "waiting p f rx d s" and t: "ticks (world s) + 10000000 < 2 ^ 63"
  shows "\<exists>u. waiting p f rx d u \<and> goes_on {rx, d} s u \<and> air (world u) = air (world s) @ [wire f] \<and>
     ticks (world u) \<le> ticks (world s) + 10000000 \<and>
     ack_loop (Suc n) p rx d ty s = (if next_accepted (acknowledges f ty) (world s)
       then Some (Ret SX_OK u) else ack_loop n p rx d ty u)"
proof -
  define s1 where "s1 = s\<lparr>fresh := fresh s + 2, world := (world s)\<lparr>air := air (world s) @ [wire f]\<rparr>,
      tx_buffer := overlay (tx_buffer s) 0 (wire f)\<rparr>"
  have h: "at_peer s" "packet_view s p = Some f" "length (fr_data f) \<le> 8" using w by (auto simp: waiting_def)
  have send: "sx_1278_send_packet p True s = Some (Ret SX_OK s1)"
    unfolding s1_def by (rule peer_send_packet [OF h])
  have w1: "waiting p f rx d s1" unfolding s1_def by (rule waiting_after_send [OF w])
  have g1: "goes_on {rx, d} s s1" unfolding s1_def by (rule goes_on_send)
  have eq1: "air (world s1) = air (world s) @ [wire f]" "ticks (world s1) = ticks (world s)"
    "script (world s1) = script (world s)" by (simp_all add: s1_def)
  have ans: "answer (world s1) = (case drop (length (air (world s))) (script (world s)) of [] \<Rightarrow> None | r # rs \<Rightarrow> r)"
    unfolding s1_def by (simp add: answer_next)
  have t1: "ticks (world s1) + 10000000 < 2 ^ 63" using t eq1 by simp
  show ?thesis
  proof (cases "answer (world s1)")
    case None
    have "\<not> next_accepted (acknowledges f ty) (world s)"
      using ans None by (auto simp: next_accepted_def split: list.splits option.splits)
    then show ?thesis
      using ack_loop_unanswered [OF send w1 t1 None, of n ty] goes_on_trans [OF g1 goes_on_silence]
        waiting_after_silence [OF w1] eq1
      by (intro exI [of _ "s1\<lparr>world := (world s1)\<lparr>ticks := ticks (world s1) + 10000000\<rparr>\<rparr>"]) simp
  next
    case (Some g)
    then obtain rs where rest: "drop (length (air (world s))) (script (world s)) = Some g # rs"
      using ans by (auto split: list.splits)
    then have "Some g \<in> set (script (world s1))" using in_set_dropD eq1(3) by (metis list.set_intros(1))
    from ack_loop_answered [OF send w1 t1 Some this, of n ty] obtain u
      where "waiting p f rx d u" "goes_on {rx, d} s1 u" "world u = world s1"
        "ack_loop (Suc n) p rx d ty s = (if acknowledges f ty g then Some (Ret SX_OK u) else ack_loop n p rx d ty u)"
      by blast
    moreover have "next_accepted (acknowledges f ty) (world s) = acknowledges f ty g"
      by (simp add: next_accepted_def rest)
    ultimately show ?thesis using goes_on_trans [OF g1] eq1 by (intro exI [of _ u]) simp
  qed
qed

text \<open>The loop of the code is the abstract sender on the rest of the script.\<close>

lemma stop_and_wait_Suc:
  "stop_and_wait ok (drop (length (air w)) (script w)) (Suc n) =
     (if next_accepted ok w then (SX_OK, 1)
      else let (ret, k) = stop_and_wait ok (drop (Suc (length (air w))) (script w)) n in (ret, Suc k))"
proof (cases "drop (length (air w)) (script w)")
  case Nil
  then have "drop (Suc (length (air w))) (script w) = []" by simp
  with Nil show ?thesis by (cases n) (simp_all add: next_accepted_def)
next
  case (Cons r rs)
  then have "drop (Suc (length (air w))) (script w) = rs"
    by (metis drop_Suc list.sel(3) tl_drop)
  with Cons show ?thesis by (cases r) (simp_all add: next_accepted_def)
qed

lemma ack_loop_stop_and_wait:
  assumes "waiting p f rx d s" and "ticks (world s) + 10000000 * n < 2 ^ 63"
    and "stop_and_wait (acknowledges f ty) (drop (length (air (world s))) (script (world s))) n = (ret, k)"
  shows "\<exists>t. ack_loop n p rx d ty s = Some (Ret ret t) \<and> waiting p f rx d t \<and> goes_on {rx, d} s t \<and>
     air (world t) = air (world s) @ replicate k (wire f) \<and>
     ticks (world t) \<le> ticks (world s) + 10000000 * n"
  using assms
proof (induction n arbitrary: s ret k)
  case 0
  then show ?case by (auto simp: goes_on_def)
next
  case (Suc n)
  have "ticks (world s) + 10000000 < 2 ^ 63" using Suc.prems(2) by simp
  from ack_loop_attempt [OF Suc.prems(1) this, of n ty] obtain u
    where u: "waiting p f rx d u" "goes_on {rx, d} s u" "air (world u) = air (world s) @ [wire f]"
      "ticks (world u) \<le> ticks (world s) + 10000000"
      "ack_loop (Suc n) p rx d ty s = (if next_accepted (acknowledges f ty) (world s)
         then Some (Ret SX_OK u) else ack_loop n p rx d ty u)" by blast
  note sw = Suc.prems(3) [unfolded stop_and_wait_Suc]
  show ?case
  proof (cases "next_accepted (acknowledges f ty) (world s)")
    case True
    then show ?thesis using sw u by (intro exI [of _ u]) (auto simp del: ack_loop.simps)
  next
    case False
    obtain j where j: "stop_and_wait (acknowledges f ty) (drop (Suc (length (air (world s)))) (script (world s))) n = (ret, j)"
      "k = Suc j" using sw False by (auto split: prod.splits)
    have "script (world u) = script (world s)" using u(2) by (simp add: goes_on_def)
    then have "stop_and_wait (acknowledges f ty) (drop (length (air (world u))) (script (world u))) n = (ret, j)"
      using j(1) u(3) by simp
    moreover have "ticks (world u) + 10000000 * n < 2 ^ 63" using u(4) Suc.prems(2) by simp
    ultimately obtain t where "ack_loop n p rx d ty u = Some (Ret ret t)" "waiting p f rx d t"
      "goes_on {rx, d} u t" "air (world t) = air (world u) @ replicate j (wire f)"
      "ticks (world t) \<le> ticks (world u) + 10000000 * n" using Suc.IH [OF u(1)] by blast
    then show ?thesis
      using u False j(2) goes_on_trans [OF u(2)] by (intro exI [of _ t]) (auto simp: replicate_append_same simp del: ack_loop.simps)
  qed
qed

section \<open>The whole call\<close>

text \<open>\<open>rx_p\<close>, its null payload and \<open>p_desc\<close>, before the loop.\<close>

definition ack_buffers :: "('w, 'z) machine_scheme \<Rightarrow> ('w, 'z) machine_scheme" where
  "ack_buffers s = s\<lparr>blocks := (blocks s)
     (fresh s \<mapsto> Pkt ((junk_packet (junk s (fresh s)))\<lparr>payload := NULL\<rparr>),
      Suc (fresh s) \<mapsto> Bytes (junk_bytes (junk s (Suc (fresh s))) 2048)), fresh := fresh s + 2\<rparr>"

lemma ack_buffers_facts:
  assumes p: "at_peer s" and v: "packet_view s p = Some f" and l: "length (fr_data f) \<le> 8"
    and sc: "\<And>g. Some g \<in> set (script (world s)) \<Longrightarrow> length (fr_data g) \<le> 8"
  shows "waiting p f (fresh s) (Suc (fresh s)) (ack_buffers s)" and "keeps {} s (ack_buffers s)"
    and "world (ack_buffers s) = world s"
proof -
  have m: "mem_ok s" using p by (simp add: at_peer_def)
  show k: "keeps {} s (ack_buffers s)" by (auto simp: ack_buffers_def keeps_def)
  show w: "world (ack_buffers s) = world s" by (simp add: ack_buffers_def)
  have pf: "p < fresh s" using packet_view_less [OF v m] by simp
  have "packet_view (ack_buffers s) p = Some f" by (rule packet_view_keeps [OF v k m]) simp
  moreover have "owned (ack_buffers s) p = owned s p" by (rule owned_keeps [OF k pf])
  moreover have "at_peer (ack_buffers s)"
    using p by (auto simp: at_peer_def on_air_def ack_buffers_def mem_ok_def alloc_never_fails_def)
  ultimately show "waiting p f (fresh s) (Suc (fresh s)) (ack_buffers s)"
    using l sc owned_less [OF v m] by (simp add: waiting_def w) (simp add: ack_buffers_def)
qed

text \<open>The cleanup: the answer and the buffers are freed.\<close>

lemma ack_cleanup:
  assumes w: "waiting p f rx d t"
  shows "\<exists>u q. andThen (sx1278_clear_irq) (\<lambda>_. andThen (free_packet rx) (\<lambda>_. andThen (c_free d) (\<lambda>_.
       andThen (sx1278_switch_mode (MODE_LORA OR MODE_SLEEP)) (\<lambda>_. give ret)))) t = Some (Ret ret u) \<and>
     u = t\<lparr>blocks := (blocks t)(q := None, rx := None, d := None)\<rparr> \<and> at_peer u \<and>
     (q = NULL \<or> d < q \<and> blocks t q \<noteq> None)"
proof -
  obtain k bb where h: "at_peer t" "blocks t rx = Some (Pkt k)"
    "payload k = NULL \<or> d < payload k \<and> blocks t (payload k) \<noteq> None"
    "blocks t d = Some (Bytes bb)" "mem_ok t" "on_peer t" "rx < d" using w by (rule waiting_parts)
  have "payload k \<noteq> NULL \<Longrightarrow> payload k \<noteq> rx \<and> blocks t (payload k) \<noteq> None" using h(3,7) by auto
  note fr = free_packet_run [OF h(2,5) this]
  let ?t = "t\<lparr>blocks := (blocks t)(payload k := None, rx := None)\<rparr>"
  let ?u = "?t\<lparr>blocks := (blocks ?t)(d := None)\<rparr>"
  have "0 < d" using mem_ok_Some_less [OF h(5,4)] by simp
  then have "blocks ?t d = Some (Bytes bb)" using h(3,4,7) by auto
  then have fd: "c_free d ?t = Some (Ret () ?u)" using \<open>0 < d\<close> by (simp add: cmd_simps)
  have "at_peer ?u" using h(1) by (auto simp: at_peer_def on_air_def mem_ok_def alloc_never_fails_def)
  moreover have "on_peer ?u" using h(6) by simp
  ultimately show ?thesis
    using fr fd h(3) by (intro exI [of _ ?u] exI [of _ "payload k"])
      (simp add: sx1278_clear_irq_def sx1278_switch_mode_def Let_def peer_write h(6))
qed

lemma ensure_ack_run:
  assumes p: "at_peer s" and v: "packet_view s p = Some f" and l: "length (fr_data f) \<le> 8"
    and sc: "\<And>g. Some g \<in> set (script (world s)) \<Longrightarrow> length (fr_data g) \<le> 8"
    and n: "n = nat (attempts timeout)" and tk: "ticks (world s) + 10000000 * n < 2 ^ 63"
    and sw: "stop_and_wait (acknowledges f ty) (drop (length (air (world s))) (script (world s))) n = (ret, k)"
  shows "\<exists>u. send_packet_ensure_ack p timeout ty s = Some (Ret ret u) \<and> at_peer u \<and> goes_on {} s u \<and>
     air (world u) = air (world s) @ replicate k (wire f) \<and>
     ticks (world u) \<le> ticks (world s) + 10000000 * n"
proof -
  let ?rx = "fresh s" and ?d = "Suc (fresh s)" and ?s = "ack_buffers s"
  have b: "waiting p f ?rx ?d ?s" "keeps {} s ?s" "world ?s = world s"
    using ack_buffers_facts [OF p v l] sc by blast+
  have m: "mem_ok s" "alloc_never_fails s" using p by (simp_all add: at_peer_def)
  from ack_loop_stop_and_wait [OF b(1), of n ty ret k, unfolded b(3), OF tk sw] obtain t
    where t: "ack_loop n p ?rx ?d ty ?s = Some (Ret ret t)" "waiting p f ?rx ?d t" "goes_on {?rx, ?d} ?s t"
      "air (world t) = air (world s) @ replicate k (wire f)" "ticks (world t) \<le> ticks (world s) + 10000000 * n"
    by blast
  from ack_cleanup [OF t(2), of ret] obtain u q
    where u: "andThen (sx1278_clear_irq) (\<lambda>_. andThen (free_packet ?rx) (\<lambda>_. andThen (c_free ?d) (\<lambda>_.
       andThen (sx1278_switch_mode (MODE_LORA OR MODE_SLEEP)) (\<lambda>_. give ret)))) t = Some (Ret ret u)"
      "u = t\<lparr>blocks := (blocks t)(q := None, ?rx := None, ?d := None)\<rparr>" "at_peer u"
      "q = NULL \<or> ?d < q \<and> blocks t q \<noteq> None" by blast
  have "send_packet_ensure_ack p timeout ty s = Some (Ret ret u)"
    using u(1) t(1) m(2) n
    by (simp add: send_packet_ensure_ack_def cmd_simps Let_def ack_buffers_def store_packet_def fun_upd_twist)
  moreover have q0: "blocks s q = None" "fresh s \<le> q \<or> q = NULL"
    using u(4) m(1) by (auto simp: mem_ok_def)
  moreover have out: "blocks u x = blocks s x" if "x \<noteq> ?rx" "x \<noteq> ?d" "blocks t x = blocks ?s x" for x
    using that u(2) q0(1) by (simp add: ack_buffers_def)
  have new: "blocks u ?rx = None" "blocks u ?d = None" "blocks s ?rx = None" "blocks s ?d = None"
    using u(2) m(1) by (simp_all add: mem_ok_def)
  have "goes_on {} s u"
    unfolding goes_on_def
  proof (intro conjI impI allI)
    have "blocks t x = blocks ?s x" if "x < fresh s" for x
      using t(3) that by (auto simp: goes_on_def heap_keeps_def ack_buffers_def)
    then show "heap_keeps {} s u"
      using t(3) out u(2) by (auto simp: goes_on_def heap_keeps_def ack_buffers_def)
    show "script (world u) = script (world s)" "machine.more u = machine.more s"
      using t(3) u(2) b(3) by (simp_all add: goes_on_def ack_buffers_def)
    fix x
    assume "\<forall>g. Some g \<in> set (script (world s)) \<longrightarrow> fr_data g = []"
    then have "x \<noteq> ?rx \<Longrightarrow> x \<noteq> ?d \<Longrightarrow> blocks t x = blocks ?s x"
      using t(3) by (simp add: goes_on_def b(3))
    then show "blocks u x = blocks s x" using out new by metis
  qed
  ultimately show ?thesis using u(2,3) t(4,5) by auto
qed

section \<open>Bursts on the peer\<close>

text \<open>The abstract burst: each packet by stop and wait with four attempts, until one fails. The result is
  the code and the frames transmitted, repetitions included.\<close>

fun burst_spec :: "(frame \<times> packet_types) list \<Rightarrow> frame option list \<Rightarrow> sx127x_err_t \<times> frame list" where
  "burst_spec [] rs = (SX_OK, [])"
| "burst_spec ((f, ty) # fs) rs = (case stop_and_wait (acknowledges f ty) rs 4 of (ret, k) \<Rightarrow>
     if ret \<noteq> SX_OK then (ret, replicate k f)
     else (case burst_spec fs (drop k rs) of (ret', xs) \<Rightarrow> (ret', replicate k f @ xs)))"

lemma other_packet_not_owned:
  assumes "packet_view s p = Some f" and "packet_view s q = Some g" and "p \<noteq> q"
  shows "p \<notin> owned s q"
proof -
  obtain kp where kp: "blocks s p = Some (Pkt kp)" using assms(1) by (rule packet_viewE)
  obtain kq where kq: "blocks s q = Some (Pkt kq)"
    "read_bytes (payload kq) (unat (payload_length kq)) s = Some (Ret (fr_data g) s)"
    using assms(2) by (rule packet_viewE)
  then show ?thesis
    using kp assms(3) by (auto simp: owned_def payload_of_def read_bytes_Ret_iff unat_eq_0_iff)
qed

lemma views_after_free:
  assumes v: "map (packet_view s) (p # ps) = map Some (f # fs)" and d: "distinct (p # ps)" and m: "mem_ok s"
    and k: "heap_keeps {p} s t"
  shows "map (packet_view t) ps = map Some fs"
proof (rule views_heap_keeps [OF _ k m])
  show "map (packet_view s) ps = map Some fs" using v by simp
  fix q
  assume q: "q \<in> set ps"
  then obtain g where "packet_view s q = Some g" using v views_Some [of s ps fs q] by auto
  moreover have "packet_view s p = Some f" "p \<noteq> q" using v d q by auto
  ultimately show "owned s q \<inter> {p} = {}" using other_packet_not_owned by blast
qed

lemma burst_loop_step:
  assumes "i < length p_buf" and "len = int (length p_buf)"
  shows "burst_loop p_buf len i s =
     andThen (send_packet_ensure_ack (p_buf ! i) (4 * PHY_TIMEOUT_MSEC) (burst_ack_type i len)) (\<lambda>ret.
       if ret \<noteq> SX_OK then give ret
       else andThen (c_free (p_buf ! i)) (\<lambda>_. burst_loop p_buf len (Suc i))) s"
  using assms by (subst burst_loop.simps) simp

lemma burst_attempts: "nat (attempts (4 * PHY_TIMEOUT_MSEC)) = 4"
  by (simp add: attempts_eq PHY_TIMEOUT_MSEC_def)

text \<open>The acknowledgement types the loop asks for, from index \<open>i\<close> on.\<close>

definition expected :: "nat \<Rightarrow> nat \<Rightarrow> packet_types list" where
  "expected i n = map (\<lambda>j. burst_ack_type j (int n)) [i..<n]"

text \<open>What a burst leaves: \<open>s\<close> is the state before it, \<open>xs\<close> are the frames sent and \<open>ps\<close> the packets freed.\<close>

definition burst_done ::
  "nat list \<Rightarrow> (peer_world, 'z) machine_scheme \<Rightarrow> sx127x_err_t \<Rightarrow> frame list \<Rightarrow> (peer_world, 'z) machine_scheme \<Rightarrow> bool" where
  "burst_done ps s ret xs u \<longleftrightarrow> at_peer u \<and> script (world u) = script (world s) \<and>
     air (world u) = air (world s) @ map wire xs \<and> machine.more u = machine.more s \<and> heap_keeps (set ps) s u \<and>
     (ret = SX_OK \<and> (\<forall>g. Some g \<in> set (script (world s)) \<longrightarrow> fr_data g = []) \<longrightarrow>
        blocks u = blocks s |` (- set ps))"

text \<open>One packet of the burst: its attempts, and on success its release.\<close>

lemma burst_first:
  assumes p: "at_peer s" and v: "packet_view s p = Some f" and l: "length (fr_data f) \<le> 8"
    and sc: "\<And>g. Some g \<in> set (script (world s)) \<Longrightarrow> length (fr_data g) \<le> 8"
    and tk: "ticks (world s) + 40000000 < 2 ^ 63" and i: "i < length p_buf" "p_buf ! i = p"
    and sw: "stop_and_wait (acknowledges f (burst_ack_type i (int (length p_buf))))
      (drop (length (air (world s))) (script (world s))) 4 = (r, k)"
  shows "\<exists>t. burst_loop p_buf (int (length p_buf)) i s =
      (if r = SX_OK then burst_loop p_buf (int (length p_buf)) (Suc i) t else Some (Ret r t)) \<and>
    burst_done (if r = SX_OK then [p] else []) s r (replicate k f) t \<and>
    ticks (world t) \<le> ticks (world s) + 40000000"
proof -
  have m: "mem_ok s" using p by (simp add: at_peer_def)
  have "ticks (world s) + 10000000 * 4 < 2 ^ 63" using tk by simp
  from ensure_ack_run [OF p v l sc burst_attempts [symmetric] this sw] obtain t
    where t: "send_packet_ensure_ack p (4 * PHY_TIMEOUT_MSEC) (burst_ack_type i (int (length p_buf))) s
        = Some (Ret r t)" "at_peer t" "goes_on {} s t" "air (world t) = air (world s) @ replicate k (wire f)"
      "ticks (world t) \<le> ticks (world s) + 40000000" by auto
  note step = burst_loop_step [OF i(1) refl, of s, unfolded i(2)]
  have over: "burst_done [] s r (replicate k f) t"
    using t by (auto simp: burst_done_def goes_on_def restrict_map_def)
  show ?thesis
  proof (cases "r = SX_OK")
    case False
    then show ?thesis using step t(1,5) over by (intro exI [of _ t]) simp
  next
    case True
    let ?t = "t\<lparr>blocks := (blocks t)(p := None)\<rparr>"
    have pl: "p < fresh s" "0 < p" using packet_view_less [OF v m] by auto
    obtain kk where "blocks s p = Some (Pkt kk)" using v by (rule packet_viewE)
    then have "blocks t p = Some (Pkt kk)" using t(3) pl by (simp add: goes_on_def heap_keeps_def)
    then have "c_free p t = Some (Ret () ?t)" using pl by (simp add: cmd_simps)
    then have run: "burst_loop p_buf (int (length p_buf)) i s = burst_loop p_buf (int (length p_buf)) (Suc i) ?t"
      using step t(1) True by simp
    have "burst_done [p] s r (replicate k f) ?t"
      using over by (auto simp: burst_done_def at_peer_def on_air_def mem_ok_def alloc_never_fails_def
          heap_keeps_def restrict_map_def fun_eq_iff)
    then show ?thesis using run True t(5) by (intro exI [of _ ?t]) simp
  qed
qed

lemma burst_done_trans:
  assumes "burst_done ps s SX_OK xs t" and "burst_done qs t ret ys u"
  shows "burst_done (ps @ qs) s ret (xs @ ys) u"
proof -
  have "heap_keeps (set (ps @ qs)) s u"
    using assms by (auto simp: burst_done_def intro: heap_keeps_trans [OF heap_keeps_mono])
  moreover have "blocks u = blocks s |` (- set (ps @ qs))"
    if "ret = SX_OK" "\<forall>g. Some g \<in> set (script (world s)) \<longrightarrow> fr_data g = []"
    using assms that by (auto simp: burst_done_def restrict_map_def fun_eq_iff)
  ultimately show ?thesis using assms by (auto simp: burst_done_def)
qed

lemma burst_loop_done:
  assumes "at_peer s" and "drop i p_buf = ps" and "map (packet_view s) ps = map Some fs" and "distinct ps"
    and "\<And>f. f \<in> set fs \<Longrightarrow> length (fr_data f) \<le> 8"
    and "\<And>g. Some g \<in> set (script (world s)) \<Longrightarrow> length (fr_data g) \<le> 8"
    and "ticks (world s) + 40000000 * length ps < 2 ^ 63"
    and "burst_spec (zip fs (expected i (length p_buf))) (drop (length (air (world s))) (script (world s))) = (ret, xs)"
  shows "\<exists>u. burst_loop p_buf (int (length p_buf)) i s = Some (Ret ret u) \<and> burst_done ps s ret xs u"
  using assms
proof (induction ps arbitrary: i s fs ret xs)
  case Nil
  then have "burst_loop p_buf (int (length p_buf)) i s = Some (Ret SX_OK s)"
    by (subst burst_loop.simps) simp
  then show ?case using Nil by (simp add: burst_done_def restrict_map_def)
next
  case (Cons p ps)
  have il: "i < length p_buf" using Cons.prems(2) by (metis drop_all linorder_not_le list.distinct(1))
  have pi: "p_buf ! i = p" "drop (Suc i) p_buf = ps"
    using Cons.prems(2) Cons_nth_drop_Suc [OF il] by auto
  obtain f fs' where fs: "fs = f # fs'" and v: "packet_view s p = Some f" using Cons.prems(3) by (cases fs) auto
  let ?ty = "burst_ack_type i (int (length p_buf))"
  have ex: "expected i (length p_buf) = ?ty # expected (Suc i) (length p_buf)"
    unfolding expected_def by (subst upt_conv_Cons [OF il]) simp
  obtain r k where sw: "stop_and_wait (acknowledges f ?ty)
      (drop (length (air (world s))) (script (world s))) 4 = (r, k)" by force
  have m: "mem_ok s" using Cons.prems(1) by (simp add: at_peer_def)
  have fl: "length (fr_data f) \<le> 8" "ticks (world s) + 40000000 < 2 ^ 63" using Cons.prems(5,7) fs by simp_all
  from burst_first [OF Cons.prems(1) v fl(1) Cons.prems(6) fl(2) il pi(1) sw] obtain t
    where t: "burst_loop p_buf (int (length p_buf)) i s =
        (if r = SX_OK then burst_loop p_buf (int (length p_buf)) (Suc i) t else Some (Ret r t))"
      "burst_done (if r = SX_OK then [p] else []) s r (replicate k f) t"
      "ticks (world t) \<le> ticks (world s) + 40000000" by blast
  show ?case
  proof (cases "r = SX_OK")
    case False
    then have "ret = r" "xs = replicate k f" using Cons.prems(8) fs ex sw by simp_all
    then show ?thesis using t False by (auto simp: burst_done_def intro: heap_keeps_mono)
  next
    case True
    obtain ys where ys: "burst_spec (zip fs' (expected (Suc i) (length p_buf)))
        (drop (length (air (world s)) + k) (script (world s))) = (ret, ys)" "xs = replicate k f @ ys"
      using Cons.prems(8) fs ex sw True by (auto simp: add.commute split: prod.splits)
    have d: "burst_done [p] s SX_OK (replicate k f) t" using t(2) True by simp
    then have tt: "at_peer t" "script (world t) = script (world s)" "length (air (world t)) = length (air (world s)) + k"
      "heap_keeps {p} s t" by (simp_all add: burst_done_def)
    have "map (packet_view t) ps = map Some fs'"
      using views_after_free [OF _ Cons.prems(4) m tt(4)] Cons.prems(3) fs by simp
    from Cons.IH [OF tt(1) pi(2) this, of ret ys] obtain u
      where "burst_loop p_buf (int (length p_buf)) (Suc i) t = Some (Ret ret u)" "burst_done ps t ret ys u"
      using Cons.prems(4-7) fs tt(2,3) t(3) ys(1) by auto
    then show ?thesis using t(1) True burst_done_trans [OF d] ys(2) by auto
  qed
qed

lemma burst_loop_run:
  assumes "at_peer s" and "drop i p_buf = ps" and "map (packet_view s) ps = map Some fs" and "distinct ps"
    and "\<And>f. f \<in> set fs \<Longrightarrow> length (fr_data f) \<le> 8"
    and "\<And>g. Some g \<in> set (script (world s)) \<Longrightarrow> length (fr_data g) \<le> 8"
    and "ticks (world s) + 40000000 * length ps < 2 ^ 63"
    and "burst_spec (zip fs (expected i (length p_buf))) (drop (length (air (world s))) (script (world s))) = (ret, xs)"
  shows "\<exists>u. burst_loop p_buf (int (length p_buf)) i s = Some (Ret ret u) \<and> at_peer u \<and>
     script (world u) = script (world s) \<and> air (world u) = air (world s) @ map wire xs \<and>
     machine.more u = machine.more s \<and> heap_keeps (set ps) s u \<and>
     (ret = SX_OK \<and> (\<forall>g. Some g \<in> set (script (world s)) \<longrightarrow> fr_data g = []) \<longrightarrow>
        blocks u = blocks s |` (- set ps))"
  using burst_loop_done [OF assms] unfolding burst_done_def .

section \<open>Properties\<close>

lemma stop_and_wait_first:
  "stop_and_wait ok rs n = (SX_OK, k) \<Longrightarrow>
   \<exists>g. 0 < k \<and> k \<le> n \<and> k \<le> length rs \<and> rs ! (k - 1) = Some g \<and> ok g \<and>
     (\<forall>i < k - 1. \<forall>h. rs ! i = Some h \<longrightarrow> \<not> ok h)"
proof (induction ok rs n arbitrary: k rule: stop_and_wait.induct)
  case (3 ok rs n)
  obtain j where j: "stop_and_wait ok rs n = (SX_OK, j)" "k = Suc j"
    using "3.prems" by (auto split: prod.splits)
  from "3.IH" [OF j(1)] obtain g where g: "0 < j" "j \<le> n" "j \<le> length rs" "rs ! (j - 1) = Some g" "ok g"
    "\<forall>i < j - 1. \<forall>h. rs ! i = Some h \<longrightarrow> \<not> ok h" by blast
  have "\<not> ok h" if "i < j" "(None # rs) ! i = Some h" for i h
    using that g(6) [rule_format, of "i - 1" h] by (cases i) simp_all
  then show ?case using g j(2) by auto
next
  case (4 ok g rs n)
  show ?case
  proof (cases "ok g")
    case True
    then show ?thesis using "4.prems" by auto
  next
    case False
    obtain j where j: "stop_and_wait ok rs n = (SX_OK, j)" "k = Suc j"
      using "4.prems" False by (auto split: prod.splits)
    from "4.IH" [OF False j(1)] obtain h where h: "0 < j" "j \<le> n" "j \<le> length rs" "rs ! (j - 1) = Some h" "ok h"
      "\<forall>i < j - 1. \<forall>h. rs ! i = Some h \<longrightarrow> \<not> ok h" by blast
    have "\<not> ok h'" if "i < j" "(Some g # rs) ! i = Some h'" for i h'
      using that h(6) [rule_format, of "i - 1" h'] False by (cases i) simp_all
    then show ?thesis using h j(2) by auto
  qed
qed simp_all

text \<open>C8: \<open>send_packet_ensure_ack\<close> is a stop-and-wait sender. For every script of lost, wrong and
  right answers: it transmits the packet, byte for byte its frame, until the first answer that
  acknowledges it (from the destination, with the same ids and of the expected type) and then returns
  \<open>SX_OK\<close>; it returns \<open>SX_TIMEOUT\<close> after \<open>attempts timeout\<close> transmissions when there is none.
  Everything it allocates is released, up to the payloads of the answers it discards.\<close>

theorem ensure_ack_stop_and_wait:
  assumes "at_peer s" and "packet_view s p = Some f" and "length (fr_data f) \<le> payload_length_max"
    and "\<And>g. Some g \<in> set (script (world s)) \<Longrightarrow> length (fr_data g) \<le> payload_length_max"
    and "n = nat (attempts timeout)" and "ticks (world s) + 10000000 * n < 2 ^ 63"
    and "rs = drop (length (air (world s))) (script (world s))"
  shows "\<exists>ret k u. send_packet_ensure_ack p timeout ty s = Some (Ret ret u) \<and>
    air (world u) = air (world s) @ replicate k (wire f) \<and>
    (if \<exists>i g. i < n \<and> i < length rs \<and> rs ! i = Some g \<and> acknowledges f ty g
     then ret = SX_OK \<and> 0 < k \<and> k \<le> n \<and> (\<exists>g. rs ! (k - 1) = Some g \<and> acknowledges f ty g) \<and>
       (\<forall>i < k - 1. \<forall>g. rs ! i = Some g \<longrightarrow> \<not> acknowledges f ty g)
     else ret = SX_TIMEOUT \<and> k = n) \<and>
    heap_keeps {} s u \<and>
    ((\<forall>g. Some g \<in> set (script (world s)) \<longrightarrow> fr_data g = []) \<longrightarrow> blocks u = blocks s)"
proof -
  obtain ret k where sw: "stop_and_wait (acknowledges f ty) rs n = (ret, k)" by force
  have "length (fr_data f) \<le> 8" "\<And>g. Some g \<in> set (script (world s)) \<Longrightarrow> length (fr_data g) \<le> 8"
    using assms(3,4) by simp_all
  from ensure_ack_run [OF assms(1,2) this assms(5,6), of ty ret k] sw assms(7) obtain u
    where u: "send_packet_ensure_ack p timeout ty s = Some (Ret ret u)" "goes_on {} s u"
      "air (world u) = air (world s) @ replicate k (wire f)" by auto
  have mem: "heap_keeps {} s u \<and>
      ((\<forall>g. Some g \<in> set (script (world s)) \<longrightarrow> fr_data g = []) \<longrightarrow> blocks u = blocks s)"
    using u(2) by (auto simp: goes_on_def)
  show ?thesis
  proof (cases "\<exists>i g. i < n \<and> i < length rs \<and> rs ! i = Some g \<and> acknowledges f ty g")
    case True
    then have "ret = SX_OK" using stop_and_wait_OK [of "acknowledges f ty" rs n] sw by simp
    then show ?thesis
      using u mem True stop_and_wait_first [of "acknowledges f ty" rs n k] sw by auto
  next
    case False
    then have "ret = SX_TIMEOUT \<and> k = n"
      using stop_and_wait_OK [of "acknowledges f ty" rs n] stop_and_wait_timeout [of "acknowledges f ty" rs n] sw
      by simp
    then show ?thesis using u mem False by auto
  qed
qed

text \<open>A machine on the peer with one packet (\<open>demo_frame\<close> at 1).\<close>

definition peer_machine :: "frame option list \<Rightarrow> peer_world machine" where
  "peer_machine rs = demo_heap ((boot \<lparr>air = [], script = rs, ticks = 0\<rparr>)\<lparr>sx127x_spi_port := peer_port,
     sx127x_timer_ctx := peer_timer\<rparr>)"

lemma peer_machine_facts [simp]:
  "at_peer (peer_machine rs)" "packet_view (peer_machine rs) 1 = Some demo_frame"
  "world (peer_machine rs) = \<lparr>air = [], script = rs, ticks = 0\<rparr>"
proof -
  have "alloc_never_fails ((boot w)\<lparr>sx127x_spi_port := peer_port, sx127x_timer_ctx := peer_timer\<rparr>)" for w
    by (simp add: boot_def alloc_never_fails_def)
  then show "at_peer (peer_machine rs)"
    by (simp add: peer_machine_def at_peer_def on_air_def) (simp add: boot_def)
qed (simp_all add: peer_machine_def boot_def del: One_nat_def)

definition ack_of :: "frame \<Rightarrow> frame" where
  "ack_of f = \<lparr>fr_dest = fr_src f, fr_src = fr_dest f, fr_ack = fr_ack f, fr_seq = fr_seq f, fr_data = []\<rparr>"

lemma ack_of_acknowledges: "acknowledges f ty (ack_of f) \<longleftrightarrow> frame_type (ack_of f) = ty"
  by (simp add: acknowledges_def ack_of_def)

text \<open>The first acknowledgement is lost, the second is of another packet, the third is right.\<close>

theorem ensure_ack_stop_and_wait_witness:
  "\<exists>u. send_packet_ensure_ack 1 12000 PACKET_ACK (peer_machine [None, Some (ack_of (demo_frame\<lparr>fr_seq := 9\<rparr>)),
      Some (ack_of demo_frame)]) = Some (Ret SX_OK u) \<and> air (world u) = replicate 3 (wire demo_frame)"
proof -
  let ?rs = "[None, Some (ack_of (demo_frame\<lparr>fr_seq := 9\<rparr>)), Some (ack_of demo_frame)]"
  have n: "4 = nat (attempts 12000)" by (simp add: attempts_eq)
  have no: "\<not> acknowledges demo_frame PACKET_ACK (ack_of (demo_frame\<lparr>fr_seq := 9\<rparr>))"
    and yes: "acknowledges demo_frame PACKET_ACK (ack_of demo_frame)"
    by (simp_all add: acknowledges_def ack_of_def demo_frame_def frame_type_def)
  have "\<exists>i g. i < (4 :: nat) \<and> i < length ?rs \<and> ?rs ! i = Some g \<and> acknowledges demo_frame PACKET_ACK g"
    using yes by (intro exI [of _ 2]) simp
  note ok = if_P [OF this]
  have short: "length (fr_data demo_frame) \<le> payload_length_max"
    "\<And>g. Some g \<in> set (script (world (peer_machine ?rs))) \<Longrightarrow> length (fr_data g) \<le> payload_length_max"
    by (auto simp: demo_frame_def ack_of_def)
  have "ticks (world (peer_machine ?rs)) + 10000000 * 4 < 2 ^ 63"
    "?rs = drop (length (air (world (peer_machine ?rs)))) (script (world (peer_machine ?rs)))" by simp_all
  from ensure_ack_stop_and_wait [OF peer_machine_facts(1,2) short n this, where ty = PACKET_ACK, unfolded ok]
  obtain k u where u: "send_packet_ensure_ack 1 12000 PACKET_ACK (peer_machine ?rs) = Some (Ret SX_OK u)"
    "air (world u) = replicate k (wire demo_frame)" "0 < k" "k \<le> 4"
    "\<exists>g. ?rs ! (k - 1) = Some g \<and> acknowledges demo_frame PACKET_ACK g"
    "\<forall>i < k - 1. \<forall>g. ?rs ! i = Some g \<longrightarrow> \<not> acknowledges demo_frame PACKET_ACK g"
    by (simp only: peer_machine_facts air_world.select_convs append_Nil) blast
  have "k = 1 \<or> k = 2 \<or> k = 3 \<or> k = 4" using u(3,4) by linarith
  then have "k = 3" using u(5,6) no yes by (auto simp: numeral_3_eq_3 eval_nat_numeral)
  then show ?thesis using u(1,2) by auto
qed

text \<open>C7: \<open>send_burst\<close> is the burst of stop-and-wait transmissions. Let every answer that arrives carry at most
  eight payload bytes (a longer one overflows the scratch string of the attempt loop); answers may be lost, be wrong,
  be data packets. Then the packets go out in order, each repeated until it is acknowledged and four times at
  most, the call stops with \<open>SX_TIMEOUT\<close> at the first that is not, and of the memory that was there it changes
  nothing but the packets. If the answers carry no payload, then on success the packet structs are freed, every
  payload buffer of them is still live, and nothing else is left behind.\<close>

theorem send_burst_stop_and_wait:
  assumes "at_peer s" and "map (packet_view s) ps = map Some fs" and "distinct ps"
    and "\<And>f. f \<in> set fs \<Longrightarrow> length (fr_data f) \<le> payload_length_max"
    and "\<And>g. Some g \<in> set (script (world s)) \<Longrightarrow> length (fr_data g) \<le> payload_length_max"
    and "ticks (world s) + 40000000 * length ps < 2 ^ 63"
    and "rs = drop (length (air (world s))) (script (world s))"
    and "burst_spec (zip fs (expected 0 (length ps))) rs = (ret, xs)"
  shows "\<exists>u. send_burst ps (int (length ps)) s = Some (Ret ret u) \<and>
    air (world u) = air (world s) @ map wire xs \<and> heap_keeps (set ps) s u \<and>
    (ret = SX_OK \<and> (\<forall>g. Some g \<in> set (script (world s)) \<longrightarrow> fr_data g = []) \<longrightarrow>
      blocks u = blocks s |` (- set ps))"
proof -
  have "\<And>f. f \<in> set fs \<Longrightarrow> length (fr_data f) \<le> 8"
    "\<And>g. Some g \<in> set (script (world s)) \<Longrightarrow> length (fr_data g) \<le> 8" using assms(4,5) by simp_all
  from burst_loop_run [OF assms(1) drop_0 assms(2,3) this assms(6)] assms(7,8)
  show ?thesis by (fastforce simp: send_burst_def)
qed

text \<open>A lone packet is expected to be acknowledged as a BEGIN: one with sequence number 1 is not; nor does the data
  packet acknowledge that comes after it.\<close>

theorem send_burst_stop_and_wait_witness:
  "\<exists>u. send_burst [1] 1 (peer_machine [Some (ack_of demo_frame), Some demo_frame]) = Some (Ret SX_TIMEOUT u) \<and>
     air (world u) = replicate 4 (wire demo_frame)"
proof -
  let ?rs = "[Some (ack_of demo_frame), Some demo_frame]"
  have "\<not> acknowledges demo_frame PACKET_BEGIN (ack_of demo_frame)" "\<not> acknowledges demo_frame PACKET_BEGIN demo_frame"
    by (simp_all add: acknowledges_def ack_of_def demo_frame_def frame_type_def)
  then have b: "burst_spec (zip [demo_frame] (expected 0 (length [1 :: nat]))) ?rs = (SX_TIMEOUT, replicate 4 demo_frame)"
    by (simp add: expected_def burst_ack_type_def eval_nat_numeral)
  have small: "\<And>g. Some g \<in> set (script (world (peer_machine ?rs))) \<Longrightarrow> length (fr_data g) \<le> payload_length_max"
    by (auto simp: demo_frame_def ack_of_def)
  have "?rs = drop (length (air (world (peer_machine ?rs)))) (script (world (peer_machine ?rs)))" by simp
  from send_burst_stop_and_wait [OF peer_machine_facts(1) _ _ _ small _ this b] show ?thesis
    by (auto simp: demo_frame_def simp del: One_nat_def)
qed

end
