(* ===== verification/Rx_Handler.thy ===== *)
theory Rx_Handler
  imports Packet
begin

text \<open>
  \<open>src/rx_packet_handler.c\<close>: the receiver's session. The handler rejects foreign and repeated
  packets, opens a capture at BEGIN, copies the data packets of the captured burst in order, hands
  the array to the capture-end callback at END, and gives every data packet of another ack id to the
  command callback. The two callbacks are commands on the same memory; a null callback is \<open>None\<close>.

  The abstract machine \<open>session_step\<close> keeps the captured frames as values. \<open>rx_rel\<close> relates the
  context struct and the heap to it, and \<open>rx_packet_handler_refines\<close> shows that the code follows
  it on every packet.
\<close>

section \<open>The context struct\<close>

datatype rx_handler_return =
    PACKET_REJECTED
  | COMMAND_PACKET
  | CAPTURE_BEGIN
  | CAPTURE_END
  | CAPTURE_ARRAY_FULL
  | DATA_PACKET_CAPTURED
  | CAPTURE_ALREADY_ON
  | UNKNOWN_PACKET
  | NULL_PACKET
  | CAPTURE_NOT_ON
  | PACKET_REDUNDANT
  | HANDLER_NOT_CONFIGURED

definition PACKET_CAPTURE_MAX_COUNT :: nat where
  "PACKET_CAPTURE_MAX_COUNT = UINT8_MAX - 1"

lemma PACKET_CAPTURE_MAX_COUNT_254 [simp]: "PACKET_CAPTURE_MAX_COUNT = 254"
  by (simp add: PACKET_CAPTURE_MAX_COUNT_def UINT8_MAX_def)

text \<open>The end handler gets the array (its contents, as pointers) and the number of packets in it.\<close>

record 's rx_handler_ctx =
  command_packet_handler :: "(nat \<Rightarrow> ('s, unit) cmd) option"
  capture_end_handler :: "(nat list \<Rightarrow> nat \<Rightarrow> ('s, unit) cmd) option"
  host_addr :: u16
  remote_src_addr :: u16
  configured :: bool
  capture :: bool
  capture_ack_id :: u8
  captured_packet_arr :: "nat list"
  captured_n :: nat
  last_received_ack_id :: u8
  last_received_seq_number :: u8

text \<open>\<open>memset(ctx, 0, sizeof(*ctx))\<close>\<close>

definition zeroed_ctx :: "'s rx_handler_ctx" where
  "zeroed_ctx =
     \<lparr>command_packet_handler = None, capture_end_handler = None, host_addr = 0,
      remote_src_addr = 0, configured = False, capture = False, capture_ack_id = 0,
      captured_packet_arr = replicate PACKET_CAPTURE_MAX_COUNT NULL, captured_n = 0,
      last_received_ack_id = 0, last_received_seq_number = 0\<rparr>"

definition rx_handler_init ::
  "(nat \<Rightarrow> ('s, unit) cmd) option \<Rightarrow> (nat list \<Rightarrow> nat \<Rightarrow> ('s, unit) cmd) option \<Rightarrow> u16 \<Rightarrow> u16
    \<Rightarrow> 's rx_handler_ctx" where
  "rx_handler_init cmd_handler end_handler host remote =
     zeroed_ctx\<lparr>command_packet_handler := cmd_handler, capture_end_handler := end_handler,
       host_addr := host, remote_src_addr := remote, configured := True\<rparr>"

definition rx_handler_set_remote_addr :: "'s rx_handler_ctx \<Rightarrow> u16 \<Rightarrow> 's rx_handler_ctx" where
  "rx_handler_set_remote_addr ctx remote = ctx\<lparr>remote_src_addr := remote\<rparr>"

definition rx_handler_reset :: "'s rx_handler_ctx \<Rightarrow> 's rx_handler_ctx" where
  "rx_handler_reset ctx = ctx\<lparr>capture := False, captured_n := 0, capture_ack_id := 0\<rparr>"

definition rx_handler_get_captured_array :: "'s rx_handler_ctx \<Rightarrow> nat list" where
  "rx_handler_get_captured_array ctx = captured_packet_arr ctx"

section \<open>The handler\<close>

definition rx_packet_handler ::
  "'z cmem_scheme rx_handler_ctx \<Rightarrow> nat
    \<Rightarrow> ('z cmem_scheme, rx_handler_return \<times> 'z cmem_scheme rx_handler_ctx) cmd" where
  "rx_packet_handler ctx rx_p =
     (if \<not> configured ctx then give (HANDLER_NOT_CONFIGURED, ctx)
      else if rx_p = NULL then give (NULL_PACKET, ctx)
      else
        andThen (load_packet rx_p) (\<lambda>k.
        if dest_address k \<noteq> host_addr ctx then give (PACKET_REJECTED, ctx)
        else if src_address k \<noteq> remote_src_addr ctx then give (PACKET_REJECTED, ctx)
        else if ack_id k = last_received_ack_id ctx \<and>
                sequence_number k = last_received_seq_number ctx
        then give (PACKET_REDUNDANT, ctx)
        else
          let ctx1 = ctx\<lparr>last_received_ack_id := ack_id k,
                         last_received_seq_number := sequence_number k\<rparr> in
          case check_packet_type k of
            PACKET_BEGIN \<Rightarrow>
              if \<not> capture ctx1
              then give (CAPTURE_BEGIN,
                     (rx_handler_reset ctx1)\<lparr>capture := True, capture_ack_id := ack_id k\<rparr>)
              else give (CAPTURE_ALREADY_ON, ctx1)
          | PACKET_DATA \<Rightarrow>
              if capture ctx1 \<and> ack_id k = capture_ack_id ctx1 then
                if captured_n ctx1 \<ge> PACKET_CAPTURE_MAX_COUNT then give (CAPTURE_ARRAY_FULL, ctx1)
                else if unat (sequence_number k) \<noteq> captured_n ctx1 + 1
                then give (PACKET_REJECTED, ctx1)
                else
                  andThen (copy_packet rx_p) (\<lambda>rx_p_copy.
                  if captured_n ctx1 < length (captured_packet_arr ctx1)
                  then give (DATA_PACKET_CAPTURED,
                         ctx1\<lparr>captured_packet_arr :=
                                 (captured_packet_arr ctx1)[captured_n ctx1 := rx_p_copy],
                               captured_n := captured_n ctx1 + 1\<rparr>)
                  else crash Out_Of_Bounds)
              else if ack_id k \<noteq> capture_ack_id ctx1 then
                andThen (copy_packet rx_p) (\<lambda>rx_p_copy.
                case command_packet_handler ctx1 of
                  None \<Rightarrow> crash Null_Call
                | Some h \<Rightarrow> andThen (h rx_p_copy) (\<lambda>_. give (COMMAND_PACKET, ctx1)))
              else give (PACKET_REJECTED, ctx1)
          | PACKET_END \<Rightarrow>
              if \<not> capture ctx1 then give (CAPTURE_NOT_ON, ctx1)
              else
                (case capture_end_handler ctx1 of
                   None \<Rightarrow> crash Null_Call
                 | Some h \<Rightarrow> andThen (h (captured_packet_arr ctx1) (captured_n ctx1))
                     (\<lambda>_. give (CAPTURE_END, rx_handler_reset ctx1)))
          | PACKET_ACK \<Rightarrow> give (UNKNOWN_PACKET, ctx1)))"

section \<open>The abstract session\<close>

text \<open>
  What a receiver remembers: the two addresses, the open capture (the ack id of its BEGIN and the
  frames so far) and the ids of the last accepted frame. A step returns the handler's code and,
  possibly, an event for the application.
\<close>

record session =
  s_host :: u16
  s_remote :: u16
  s_capture :: "(u8 \<times> frame list) option"
  s_last :: "u8 \<times> u8"

datatype event =
    Command frame
  | Deliver "frame list"

definition concerns :: "session \<Rightarrow> frame \<Rightarrow> bool" where
  "concerns S f \<longleftrightarrow> fr_dest f = s_host S \<and> fr_src f = s_remote S"

definition fr_ids :: "frame \<Rightarrow> u8 \<times> u8" where
  "fr_ids f = (fr_ack f, fr_seq f)"

fun open_ack :: "(u8 \<times> frame list) option \<Rightarrow> u8" where
  "open_ack None = 0"
| "open_ack (Some (a, fs)) = a"

fun capture_step ::
  "(u8 \<times> frame list) option \<Rightarrow> frame
    \<Rightarrow> rx_handler_return \<times> (u8 \<times> frame list) option \<times> event option" where
  "capture_step c f = (case (frame_type f, c) of
       (PACKET_BEGIN, None) \<Rightarrow> (CAPTURE_BEGIN, Some (fr_ack f, []), None)
     | (PACKET_BEGIN, Some _) \<Rightarrow> (CAPTURE_ALREADY_ON, c, None)
     | (PACKET_DATA, _) \<Rightarrow>
         (if fr_ack f \<noteq> open_ack c then (COMMAND_PACKET, c, Some (Command f))
          else case c of
            None \<Rightarrow> (PACKET_REJECTED, c, None)
          | Some (a, fs) \<Rightarrow>
              if length fs \<ge> PACKET_CAPTURE_MAX_COUNT then (CAPTURE_ARRAY_FULL, c, None)
              else if unat (fr_seq f) \<noteq> length fs + 1 then (PACKET_REJECTED, c, None)
              else (DATA_PACKET_CAPTURED, Some (a, fs @ [f]), None))
     | (PACKET_END, None) \<Rightarrow> (CAPTURE_NOT_ON, None, None)
     | (PACKET_END, Some (a, fs)) \<Rightarrow> (CAPTURE_END, None, Some (Deliver fs))
     | (PACKET_ACK, _) \<Rightarrow> (UNKNOWN_PACKET, c, None))"

declare capture_step.simps [simp del]

definition session_step :: "session \<Rightarrow> frame \<Rightarrow> rx_handler_return \<times> session \<times> event option" where
  "session_step S f =
     (if \<not> concerns S f then (PACKET_REJECTED, S, None)
      else if fr_ids f = s_last S then (PACKET_REDUNDANT, S, None)
      else (case capture_step (s_capture S) f of
         (r, c, e) \<Rightarrow> (r, S\<lparr>s_capture := c, s_last := fr_ids f\<rparr>, e)))"

definition new_session :: "u16 \<Rightarrow> u16 \<Rightarrow> session" where
  "new_session host remote =
     \<lparr>s_host = host, s_remote = remote, s_capture = None, s_last = (0, 0)\<rparr>"

lemma new_session_sel [simp]:
  "s_host (new_session host remote) = host" "s_remote (new_session host remote) = remote"
  "s_capture (new_session host remote) = None" "s_last (new_session host remote) = (0, 0)"
  by (simp_all add: new_session_def)

section \<open>The relation between the code and the session\<close>

text \<open>The captured packets: the first \<open>n\<close> pointers of the array denote the frames, share no object
  with each other and none with \<open>X\<close>, the objects that belong to someone else.\<close>

definition holds :: "nat set \<Rightarrow> nat list \<Rightarrow> 'z cmem_scheme \<Rightarrow> frame list \<Rightarrow> bool" where
  "holds X ps s fs \<longleftrightarrow> map (packet_view s) ps = map Some fs \<and>
     sorted_wrt (\<lambda>p q. owned s p \<inter> owned s q = {}) ps \<and> (\<forall>p \<in> set ps. owned s p \<inter> X = {})"

definition rx_rel ::
  "nat set \<Rightarrow> 'z cmem_scheme rx_handler_ctx \<Rightarrow> 'z cmem_scheme \<Rightarrow> session \<Rightarrow> bool" where
  "rx_rel X ctx s S \<longleftrightarrow>
     configured ctx \<and> host_addr ctx = s_host S \<and> remote_src_addr ctx = s_remote S \<and>
     (last_received_ack_id ctx, last_received_seq_number ctx) = s_last S \<and>
     length (captured_packet_arr ctx) = PACKET_CAPTURE_MAX_COUNT \<and>
     capture_ack_id ctx = open_ack (s_capture S) \<and>
     (case s_capture S of
        None \<Rightarrow> \<not> capture ctx \<and> captured_n ctx = 0
      | Some (a, fs) \<Rightarrow> capture ctx \<and> captured_n ctx = length fs \<and>
          length fs \<le> PACKET_CAPTURE_MAX_COUNT \<and>
          holds X (take (length fs) (captured_packet_arr ctx)) s fs)"

section \<open>The captured packets under later commands\<close>

lemma holds_views: "holds X ps s fs \<Longrightarrow> map (packet_view s) ps = map Some fs"
  by (simp add: holds_def)

lemma holds_Nil [simp]: "holds X [] s fs \<longleftrightarrow> fs = []"
  by (auto simp: holds_def)

lemma sorted_wrt_map_cong:
  "(\<And>x. x \<in> set xs \<Longrightarrow> f x = g x) \<Longrightarrow>
   sorted_wrt (\<lambda>x y. f x \<inter> f y = {}) xs = sorted_wrt (\<lambda>x y. g x \<inter> g y = {}) xs"
  by (induction xs) auto

lemma holds_heap_keeps:
  assumes h: "holds X ps s fs" and k: "heap_keeps A s t" and m: "mem_ok s"
    and A: "\<And>p. p \<in> set ps \<Longrightarrow> owned s p \<inter> A = {}"
  shows "holds X ps t fs"
proof -
  have o: "owned t p = owned s p" if "p \<in> set ps" for p
    using A [OF that] in_owned [of p s]
    by (intro owned_heap_keeps [OF k views_less [OF holds_views [OF h] m that]]) (auto simp: disjoint_iff)
  show ?thesis
    using h views_heap_keeps [OF holds_views [OF h] k m A]
    by (simp add: holds_def o cong: sorted_wrt_map_cong)
qed

lemma owned_copied: "fr_data f \<noteq> [] \<Longrightarrow> frame_ok f \<Longrightarrow> owned (copied s f) (fresh s) = {fresh s, Suc (fresh s)}"
  by (auto simp: owned_def payload_of_def copied_def frame_ok_def word_of_nat_eq_0_iff
      dest: dvd_imp_le)

lemma holds_snoc:
  assumes h: "holds X ps s fs" and m: "mem_ok s" and f: "frame_ok f" "fr_data f \<noteq> []"
    and X: "X \<subseteq> {..<fresh s}"
  shows "holds X (ps @ [fresh s]) (copied s f) (fs @ [f])"
proof -
  have h': "holds X ps (copied s f) fs"
    by (rule holds_heap_keeps [OF h keeps_heap [OF copied_keeps] m]) simp
  have o: "owned (copied s f) p \<subseteq> {..<fresh s}" if p: "p \<in> set ps" for p
  proof -
    obtain g where "packet_view s p = Some g" using views_Some [OF holds_views [OF h] p] ..
    then show ?thesis
      using owned_less [OF _ m] owned_keeps [OF copied_keeps views_less [OF holds_views [OF h] m p]]
      by simp
  qed
  have new: "owned (copied s f) (fresh s) = {fresh s, Suc (fresh s)}"
    using f by (simp add: owned_copied)
  have "owned (copied s f) p \<inter> owned (copied s f) (fresh s) = {}" if "p \<in> set ps" for p
    using o [OF that] unfolding new by fastforce
  moreover have "owned (copied s f) (fresh s) \<inter> X = {}" using X unfolding new by fastforce
  moreover have "packet_view (copied s f) (fresh s) = Some f" using f(1) by (rule copied_view)
  ultimately show ?thesis
    using h' by (simp add: holds_def sorted_wrt_append)
qed

lemma rx_rel_init:
  "rx_rel X (rx_handler_init cmd_handler end_handler host remote) s (new_session host remote)"
  by (simp add: rx_rel_def rx_handler_init_def zeroed_ctx_def new_session_def)

lemma rx_rel_heap_keeps:
  assumes r: "rx_rel X ctx s S" and k: "heap_keeps A s t" and m: "mem_ok s"
    and A: "\<And>a fs p. s_capture S = Some (a, fs) \<Longrightarrow>
              p \<in> set (take (length fs) (captured_packet_arr ctx)) \<Longrightarrow> owned s p \<inter> A = {}"
  shows "rx_rel X ctx t S"
proof (cases "s_capture S")
  case None
  with r show ?thesis by (simp add: rx_rel_def)
next
  case (Some c)
  obtain a fs where c: "c = (a, fs)" by force
  then have "holds X (take (length fs) (captured_packet_arr ctx)) t fs"
    using r Some A by (intro holds_heap_keeps [OF _ k m, of _ _ fs]) (simp_all add: rx_rel_def)
  with r Some c show ?thesis by (simp add: rx_rel_def)
qed

text \<open>Commands that touch only the objects in \<open>X\<close> keep the relation.\<close>

lemma rx_rel_frame:
  assumes r: "rx_rel X ctx s S" and k: "heap_keeps A s t" and m: "mem_ok s" and A: "A \<subseteq> X"
  shows "rx_rel X ctx t S"
  by (rule rx_rel_heap_keeps [OF r k m]) (use r A in \<open>fastforce simp: rx_rel_def holds_def\<close>)

lemma rx_rel_forget:
  "s_capture S = None \<Longrightarrow> rx_rel X ctx s S \<Longrightarrow> rx_rel Y ctx t S"
  by (simp add: rx_rel_def)

section \<open>The code follows the session\<close>

text \<open>The context after an accepted packet, before the switch on its type.\<close>

definition noted :: "'s rx_handler_ctx \<Rightarrow> frame \<Rightarrow> 's rx_handler_ctx" where
  "noted ctx f = ctx\<lparr>last_received_ack_id := fr_ack f, last_received_seq_number := fr_seq f\<rparr>"

lemma noted_sel [simp]:
  "command_packet_handler (noted ctx f) = command_packet_handler ctx"
  "capture_end_handler (noted ctx f) = capture_end_handler ctx"
  "host_addr (noted ctx f) = host_addr ctx" "remote_src_addr (noted ctx f) = remote_src_addr ctx"
  "configured (noted ctx f) = configured ctx" "capture (noted ctx f) = capture ctx"
  "capture_ack_id (noted ctx f) = capture_ack_id ctx"
  "captured_packet_arr (noted ctx f) = captured_packet_arr ctx"
  "captured_n (noted ctx f) = captured_n ctx"
  "last_received_ack_id (noted ctx f) = fr_ack f" "last_received_seq_number (noted ctx f) = fr_seq f"
  by (simp_all add: noted_def)

lemma rx_packet_handler_run:
  assumes c: "configured ctx" and v: "packet_view s p = Some f" and m: "mem_ok s"
    and a: "alloc_never_fails s"
  shows "rx_packet_handler ctx p s =
    (if fr_dest f \<noteq> host_addr ctx \<or> fr_src f \<noteq> remote_src_addr ctx
     then Some (Ret (PACKET_REJECTED, ctx) s)
     else if fr_ids f = (last_received_ack_id ctx, last_received_seq_number ctx)
     then Some (Ret (PACKET_REDUNDANT, ctx) s)
     else case frame_type f of
       PACKET_BEGIN \<Rightarrow>
         (if capture ctx then Some (Ret (CAPTURE_ALREADY_ON, noted ctx f) s)
          else Some (Ret (CAPTURE_BEGIN, (rx_handler_reset (noted ctx f))
                 \<lparr>capture := True, capture_ack_id := fr_ack f\<rparr>) s))
     | PACKET_DATA \<Rightarrow>
         (if capture ctx \<and> fr_ack f = capture_ack_id ctx then
            if captured_n ctx \<ge> 254 then Some (Ret (CAPTURE_ARRAY_FULL, noted ctx f) s)
            else if unat (fr_seq f) \<noteq> captured_n ctx + 1
            then Some (Ret (PACKET_REJECTED, noted ctx f) s)
            else if captured_n ctx < length (captured_packet_arr ctx)
            then Some (Ret (DATA_PACKET_CAPTURED, (noted ctx f)\<lparr>captured_packet_arr :=
                   (captured_packet_arr ctx)[captured_n ctx := fresh s],
                   captured_n := captured_n ctx + 1\<rparr>) (copied s f))
            else Some (Fault Out_Of_Bounds)
          else if fr_ack f \<noteq> capture_ack_id ctx then
            (case command_packet_handler ctx of
               None \<Rightarrow> Some (Fault Null_Call)
             | Some h \<Rightarrow> andThen (h (fresh s)) (\<lambda>_. give (COMMAND_PACKET, noted ctx f)) (copied s f))
          else Some (Ret (PACKET_REJECTED, noted ctx f) s))
     | PACKET_END \<Rightarrow>
         (if \<not> capture ctx then Some (Ret (CAPTURE_NOT_ON, noted ctx f) s)
          else case capture_end_handler ctx of
            None \<Rightarrow> Some (Fault Null_Call)
          | Some h \<Rightarrow> andThen (h (captured_packet_arr ctx) (captured_n ctx))
              (\<lambda>_. give (CAPTURE_END, rx_handler_reset (noted ctx f))) s)
     | PACKET_ACK \<Rightarrow> Some (Ret (UNKNOWN_PACKET, noted ctx f) s))"
proof -
  obtain k where k: "blocks s p = Some (Pkt k)" using v by (rule packet_viewE)
  note sel = packet_view_sel(1-4) [OF v k]
  note ty = packet_view_sel(6) [OF v k]
  have p: "p \<noteq> 0" using packet_view_less [OF v m] by simp
  have cp: "copy_packet p s = Some (Ret (fresh s) (copied s f))"
    using a by (intro copy_packet_run [OF v m]) simp_all
  have nt: "ctx\<lparr>last_received_ack_id := ack_id k, last_received_seq_number := sequence_number k\<rparr>
      = noted ctx f"
    by (simp add: noted_def sel)
  show ?thesis
    unfolding rx_packet_handler_def Let_def
    by (cases "frame_type f"; cases "command_packet_handler ctx"; cases "capture_end_handler ctx")
      (simp_all add: c p load_packet_run [OF k] nt [unfolded sel] ty cp fr_ids_def sel)
qed

text \<open>The three kinds of step: no event, a command, a delivery. The callbacks never change.\<close>

definition same_handlers :: "'s rx_handler_ctx \<Rightarrow> 's rx_handler_ctx \<Rightarrow> bool" where
  "same_handlers c d \<longleftrightarrow> command_packet_handler d = command_packet_handler c \<and>
     capture_end_handler d = capture_end_handler c"

lemma same_handlers_refl [simp]: "same_handlers c c"
  by (simp add: same_handlers_def)

lemma same_handlers_noted [simp]: "same_handlers c (noted c f)"
  by (simp add: same_handlers_def)

lemma same_handlers_trans: "same_handlers b c \<Longrightarrow> same_handlers c d \<Longrightarrow> same_handlers b d"
  by (simp add: same_handlers_def)

lemma rx_rel_noted:
  "rx_rel X ctx s S \<Longrightarrow> rx_rel X (noted ctx f) s (S\<lparr>s_last := fr_ids f\<rparr>)"
  by (auto simp: rx_rel_def fr_ids_def split: option.splits)

lemma rx_rel_open:
  assumes "rx_rel X ctx s S" and "s_capture S = None"
  shows "rx_rel X ((rx_handler_reset (noted ctx f))\<lparr>capture := True, capture_ack_id := fr_ack f\<rparr>) s
     (S\<lparr>s_capture := Some (fr_ack f, []), s_last := fr_ids f\<rparr>)"
  using assms by (simp add: rx_rel_def rx_handler_reset_def fr_ids_def)

lemma rx_rel_close:
  assumes "rx_rel X ctx s S"
  shows "rx_rel Y (rx_handler_reset (noted ctx f)) t (S\<lparr>s_capture := None, s_last := fr_ids f\<rparr>)"
  using assms by (simp add: rx_rel_def rx_handler_reset_def fr_ids_def)

lemma rx_rel_capture:
  assumes r: "rx_rel X ctx s S" and c: "s_capture S = Some (a, fs)" and l: "length fs < 254"
    and m: "mem_ok s" and f: "frame_ok f" "fr_data f \<noteq> []" and X: "X \<subseteq> {..<fresh s}"
  shows "rx_rel X ((noted ctx f)\<lparr>captured_packet_arr :=
      (captured_packet_arr ctx)[captured_n ctx := fresh s], captured_n := captured_n ctx + 1\<rparr>)
    (copied s f) (S\<lparr>s_capture := Some (a, fs @ [f]), s_last := fr_ids f\<rparr>)"
proof -
  let ?ps = "captured_packet_arr ctx"
  have n: "captured_n ctx = length fs" "length fs < length ?ps" using r c l by (simp_all add: rx_rel_def)
  have "take (Suc (length fs)) (?ps[length fs := fresh s]) = take (length fs) ?ps @ [fresh s]"
    using n by (simp add: take_Suc_conv_app_nth)
  moreover have "holds X (take (length fs) ?ps @ [fresh s]) (copied s f) (fs @ [f])"
    using r c by (intro holds_snoc [OF _ m f X]) (simp add: rx_rel_def)
  ultimately show ?thesis using r c l n by (simp add: rx_rel_def fr_ids_def)
qed

lemma capture_step_quiet_data:
  assumes "frame_type f = PACKET_DATA" and "capture_step c f = (ret, cs, None)"
  shows "case c of
      None \<Rightarrow> fr_ack f = 0 \<and> ret = PACKET_REJECTED \<and> cs = c
    | Some (a, fs) \<Rightarrow> fr_ack f = a \<and>
        (if length fs \<ge> 254 then ret = CAPTURE_ARRAY_FULL \<and> cs = c
         else if unat (fr_seq f) \<noteq> length fs + 1 then ret = PACKET_REJECTED \<and> cs = c
         else ret = DATA_PACKET_CAPTURED \<and> cs = Some (a, fs @ [f]))"
  using assms by (auto simp: capture_step.simps split: option.splits if_splits)

lemma rx_rel_sel:
  assumes "rx_rel X ctx s S"
  shows "configured ctx" "host_addr ctx = s_host S" "remote_src_addr ctx = s_remote S"
    "(last_received_ack_id ctx, last_received_seq_number ctx) = s_last S"
    "length (captured_packet_arr ctx) = 254" "capture_ack_id ctx = open_ack (s_capture S)"
    "capture ctx \<longleftrightarrow> s_capture S \<noteq> None"
    "s_capture S = Some (a, fs) \<Longrightarrow> captured_n ctx = length fs"
  using assms by (auto simp: rx_rel_def split: option.splits)

text \<open>What \<open>rx_handler_quiet\<close> states of one call, and the calls that only note the ids.\<close>

definition quiet_call ::
  "nat set \<Rightarrow> 'z cmem_scheme rx_handler_ctx \<Rightarrow> nat \<Rightarrow> 'z cmem_scheme \<Rightarrow> rx_handler_return \<Rightarrow> session \<Rightarrow> bool" where
  "quiet_call X ctx p s ret S' \<longleftrightarrow>
     (\<exists>ctx' t. rx_packet_handler ctx p s = Some (Ret (ret, ctx') t) \<and> rx_rel X ctx' t S' \<and>
        same_handlers ctx ctx' \<and> keeps {} s t \<and> mem_ok t)"

lemma quiet_call_noted:
  assumes "rx_packet_handler ctx p s = Some (Ret (ret, noted ctx f) s)" and "rx_rel X ctx s S"
    and "mem_ok s" and "cs = s_capture S"
  shows "quiet_call X ctx p s ret (S\<lparr>s_capture := cs, s_last := fr_ids f\<rparr>)"
  using assms rx_rel_noted [OF assms(2), of f] by (auto simp: quiet_call_def)

lemma rx_handler_quiet_data:
  assumes r: "rx_rel X ctx s S" and v: "packet_view s p = Some f" and m: "mem_ok s"
    and a: "alloc_never_fails s" and X: "X \<subseteq> {..<fresh s}"
    and ours: "concerns S f" "fr_ids f \<noteq> s_last S" and ty: "frame_type f = PACKET_DATA"
    and cs: "capture_step (s_capture S) f = (ret, cs, None)"
  shows "quiet_call X ctx p s ret (S\<lparr>s_capture := cs, s_last := fr_ids f\<rparr>)"
proof -
  note sel = rx_rel_sel [OF r]
  note run = rx_packet_handler_run [OF sel(1) v m a, unfolded sel(2,3,4,6)]
  note st = capture_step_quiet_data [OF ty cs]
  note ours' = ours [unfolded concerns_def]
  show ?thesis
  proof (cases "\<exists>a fs. s_capture S = Some (a, fs) \<and> length fs < 254 \<and> unat (fr_seq f) = length fs + 1")
    case True
    then obtain b fs where c: "s_capture S = Some (b, fs)" and l: "length fs < 254"
      and sq: "unat (fr_seq f) = length fs + 1" by blast
    let ?ctx = "(noted ctx f)\<lparr>captured_packet_arr :=
        (captured_packet_arr ctx)[captured_n ctx := fresh s], captured_n := captured_n ctx + 1\<rparr>"
    have rc: "fr_ack f = b" "ret = DATA_PACKET_CAPTURED" "cs = Some (b, fs @ [f])"
      using st c l sq by simp_all
    have "rx_packet_handler ctx p s = Some (Ret (ret, ?ctx) (copied s f))"
      using run ours' ty c l sq rc(1,2) sel(5,7) sel(8) [OF c] by simp
    moreover have "rx_rel X ?ctx (copied s f) (S\<lparr>s_capture := cs, s_last := fr_ids f\<rparr>)"
      unfolding rc(3) using frame_type_data [of f] ty packet_view_frame_ok [OF v]
      by (intro rx_rel_capture [OF r c l m _ _ X]) simp_all
    moreover have "same_handlers ctx ?ctx" by (simp add: same_handlers_def)
    ultimately show ?thesis
      unfolding quiet_call_def using copied_keeps copied_mem_ok [OF m] by blast
  next
    case False
    have "rx_packet_handler ctx p s = Some (Ret (ret, noted ctx f) s) \<and> cs = s_capture S"
    proof (cases "s_capture S")
      case None
      then show ?thesis using st run ours' ty sel(7) by simp
    next
      case (Some c)
      then obtain b fs where c: "s_capture S = Some (b, fs)" by (cases c) simp
      then show ?thesis using st run ours' ty sel(7) sel(8) [OF c] False by (auto split: if_splits)
    qed
    then show ?thesis by (intro quiet_call_noted [OF _ r m]) simp_all
  qed
qed

lemma rx_handler_quiet:
  assumes r: "rx_rel X ctx s S" and v: "packet_view s p = Some f" and m: "mem_ok s"
    and a: "alloc_never_fails s" and X: "X \<subseteq> {..<fresh s}"
    and st: "session_step S f = (ret, S', None)"
  shows "quiet_call X ctx p s ret S'"
proof (cases "concerns S f \<and> fr_ids f \<noteq> s_last S")
  case False
  then show ?thesis
    using st rx_packet_handler_run [OF rx_rel_sel(1) [OF r] v m a, unfolded rx_rel_sel(2,3,4) [OF r]] r m
    by (auto simp: quiet_call_def session_step_def concerns_def split: if_splits)
next
  case True
  then obtain cs where cs: "capture_step (s_capture S) f = (ret, cs, None)"
    and S': "S' = S\<lparr>s_capture := cs, s_last := fr_ids f\<rparr>"
    using st by (auto simp: session_step_def split: prod.splits)
  note sel = rx_rel_sel [OF r]
  note run = rx_packet_handler_run [OF sel(1) v m a, unfolded sel(2,3,4,6)]
  note ours = True [unfolded concerns_def]
  show ?thesis
  proof (cases "frame_type f = PACKET_BEGIN \<and> s_capture S = None")
    case True
    then show ?thesis
      using cs run ours sel(7) m rx_rel_open [OF r, of f]
      by (auto simp: quiet_call_def capture_step.simps S' same_handlers_def rx_handler_reset_def)
  next
    case False
    have "rx_packet_handler ctx p s = Some (Ret (ret, noted ctx f) s) \<and> cs = s_capture S"
      if "frame_type f \<noteq> PACKET_DATA"
      using that False cs run ours sel(7)
      by (cases "frame_type f"; cases "s_capture S") (auto simp: capture_step.simps)
    then show ?thesis
      using rx_handler_quiet_data [OF r v m a X _ _ _ cs] quiet_call_noted [OF _ r m] True
      unfolding S' by blast
  qed
qed

lemma rx_handler_command:
  assumes r: "rx_rel X ctx s S" and v: "packet_view s p = Some f" and m: "mem_ok s"
    and a: "alloc_never_fails s" and st: "session_step S f = (ret, S', Some (Command g))"
  shows "g = f \<and> ret = COMMAND_PACKET \<and>
     rx_packet_handler ctx p s = (case command_packet_handler ctx of
        None \<Rightarrow> Some (Fault Null_Call)
      | Some h \<Rightarrow> andThen (h (fresh s)) (\<lambda>_. give (ret, noted ctx f)) (copied s f)) \<and>
     rx_rel X (noted ctx f) (copied s f) S' \<and> packet_view (copied s f) (fresh s) = Some f \<and>
     owned (copied s f) (fresh s) = {fresh s, Suc (fresh s)}"
proof -
  have c: "configured ctx" and eqs: "host_addr ctx = s_host S" "remote_src_addr ctx = s_remote S"
    "(last_received_ack_id ctx, last_received_seq_number ctx) = s_last S"
    "capture_ack_id ctx = open_ack (s_capture S)"
    using r by (auto simp: rx_rel_def)
  have ok: "frame_ok f" using v by (rule packet_view_frame_ok)
  have st': "concerns S f" "fr_ids f \<noteq> s_last S" "frame_type f = PACKET_DATA"
    "fr_ack f \<noteq> open_ack (s_capture S)" "g = f" "ret = COMMAND_PACKET" "S' = S\<lparr>s_last := fr_ids f\<rparr>"
    using st by (auto simp: session_step_def capture_step.simps
        split: if_splits prod.splits packet_types.splits option.splits)
  moreover have "rx_rel X (noted ctx f) (copied s f) (S\<lparr>s_last := fr_ids f\<rparr>)"
    by (rule rx_rel_frame [OF rx_rel_noted [OF r] keeps_heap [OF copied_keeps] m]) simp
  moreover have "fr_data f \<noteq> []" using st'(3) by (simp add: frame_type_data)
  ultimately show ?thesis
    using rx_packet_handler_run [OF c v m a, unfolded eqs] copied_view [OF ok]
    by (cases "command_packet_handler ctx") (simp_all add: concerns_def owned_copied ok)
qed

lemma rx_handler_deliver:
  assumes r: "rx_rel X ctx s S" and v: "packet_view s p = Some f" and m: "mem_ok s"
    and a: "alloc_never_fails s" and st: "session_step S f = (ret, S', Some (Deliver fs))"
  shows "ret = CAPTURE_END \<and> holds X (take (length fs) (captured_packet_arr ctx)) s fs \<and>
     length fs \<le> length (captured_packet_arr ctx) \<and>
     rx_packet_handler ctx p s = (case capture_end_handler ctx of
        None \<Rightarrow> Some (Fault Null_Call)
      | Some h \<Rightarrow> andThen (h (captured_packet_arr ctx) (length fs))
          (\<lambda>_. give (ret, rx_handler_reset (noted ctx f))) s) \<and>
     (\<forall>Y t. rx_rel Y (rx_handler_reset (noted ctx f)) t S')"
proof -
  have c: "configured ctx" and eqs: "host_addr ctx = s_host S" "remote_src_addr ctx = s_remote S"
    "(last_received_ack_id ctx, last_received_seq_number ctx) = s_last S"
    using r by (auto simp: rx_rel_def)
  obtain a where st': "concerns S f" "fr_ids f \<noteq> s_last S" "frame_type f = PACKET_END"
    "s_capture S = Some (a, fs)" "ret = CAPTURE_END" "S' = S\<lparr>s_capture := None, s_last := fr_ids f\<rparr>"
    using st by (auto simp: session_step_def capture_step.simps
        split: if_splits prod.splits packet_types.splits option.splits)
  moreover have "capture ctx" "captured_n ctx = length fs" "length fs \<le> length (captured_packet_arr ctx)"
    "holds X (take (length fs) (captured_packet_arr ctx)) s fs"
    using r st'(4) by (simp_all add: rx_rel_def)
  ultimately show ?thesis
    using rx_packet_handler_run [OF c v m a, unfolded eqs] rx_rel_close [OF r, of _ f]
    by (cases "capture_end_handler ctx") (simp_all add: concerns_def)
qed
section \<open>Main properties\<close>

text \<open>C1: The receive handler implements the session machine. From related states, for every packet,
  it returns the code the session step returns and ends in related states; when the step has no
  event nothing but newly allocated copies has changed; when it has a command the command callback
  is called on a fresh deep copy of the packet; when it has a delivery the end callback is called
  on the captured packets, in order. A missing callback is a call through a null pointer.\<close>

theorem rx_packet_handler_refines:
  assumes "rx_rel X ctx s S" and "packet_view s p = Some f" and "mem_ok s"
    and "alloc_never_fails s" and "X \<subseteq> {..<fresh s}" and "session_step S f = (ret, S', e)"
  shows "\<exists>ctx' t. rx_rel X ctx' t S' \<and> keeps {} s t \<and> mem_ok t \<and>
    (case e of
       None \<Rightarrow> rx_packet_handler ctx p s = Some (Ret (ret, ctx') t)
     | Some (Command g) \<Rightarrow> (\<exists>c. g = f \<and> blocks s c = None \<and> packet_view t c = Some g \<and>
         rx_packet_handler ctx p s = (case command_packet_handler ctx of
            None \<Rightarrow> Some (Fault Null_Call)
          | Some h \<Rightarrow> andThen (h c) (\<lambda>_. give (ret, ctx')) t))
     | Some (Deliver fs) \<Rightarrow>
         map (packet_view t) (take (length fs) (captured_packet_arr ctx)) = map Some fs \<and>
         rx_packet_handler ctx p s = (case capture_end_handler ctx of
            None \<Rightarrow> Some (Fault Null_Call)
          | Some h \<Rightarrow> andThen (h (captured_packet_arr ctx) (length fs)) (\<lambda>_. give (ret, ctx')) t))"
proof (cases e)
  case None
  with assms(6) show ?thesis
    using rx_handler_quiet [OF assms(1-5), of ret S'] by (auto simp: quiet_call_def)
next
  case (Some ev)
  show ?thesis
  proof (cases ev)
    case (Command g)
    then have st: "session_step S f = (ret, S', Some (Command g))" using assms(6) Some by simp
    show ?thesis
      using rx_handler_command [OF assms(1-4) st] copied_keeps copied_mem_ok [OF assms(3)]
        mem_ok_fresh [OF assms(3)] Some Command
      by (intro exI [of _ "noted ctx f"] exI [of _ "copied s f"])
        (auto intro: exI [of _ "fresh s"])
  next
    case (Deliver fs)
    then have st: "session_step S f = (ret, S', Some (Deliver fs))" using assms(6) Some by simp
    show ?thesis
      using rx_handler_deliver [OF assms(1-4) st] assms(3) Some Deliver
      by (intro exI [of _ "rx_handler_reset (noted ctx f)"] exI [of _ s]) (auto dest: holds_views)
  qed
qed

theorem rx_packet_handler_refines_witness:
  "rx_packet_handler (rx_handler_init None None 0xFF00 0xFF) 1 demo_mem = Some (Fault Null_Call)"
proof -
  have "session_step (new_session 0xFF00 0xFF) demo_frame = (COMMAND_PACKET,
      (new_session 0xFF00 0xFF)\<lparr>s_last := (5, 1)\<rparr>, Some (Command demo_frame))"
    by (simp add: session_step_def new_session_def demo_frame_def concerns_def fr_ids_def
        capture_step.simps frame_type_def)
  from rx_packet_handler_refines [OF rx_rel_init demo_mem_facts(3,1,2) _ this, of "{}" None None]
  show ?thesis by (auto simp: rx_handler_init_def)
qed

end
