(* ===== verification/Network_Data.thy ===== *)
theory Network_Data
  imports Packet
begin

text \<open>
  \<open>src/network_data_operations.c\<close>: cutting a byte array into an array of packets, with or without
  the BEGIN and END packets around it, and putting the payloads back together. The abstract side is
  \<open>chunks\<close> and \<open>packetise\<close> on frames. The caller's arrays (\<open>callback_buf\<close>, \<open>data\<close>) are list values;
  the working array, the packets and their payloads are heap objects.
\<close>

section \<open>The code\<close>

text \<open>\<open>(size_t)ceil((double)data_len / payload_length_max)\<close>: exact in double precision for every
  \<open>int\<close>; converting a negative value to \<open>size_t\<close> is undefined.\<close>

definition ceil_packets :: "int \<Rightarrow> int" where
  "ceil_packets data_len = - ((- data_len) div int payload_length_max)"

fun fill_loop ::
  "nat \<Rightarrow> nat \<Rightarrow> nat \<Rightarrow> u8 list \<Rightarrow> nat \<Rightarrow> u16 \<Rightarrow> u16 \<Rightarrow> u8 \<Rightarrow> nat \<Rightarrow> ('z cmem_scheme, unit) cmd" where
  "fill_loop 0 i buf data bytes_left dest src ack seq_offset = give ()"
| "fill_loop (Suc r) i buf data bytes_left dest src ack seq_offset =
     (let payload_size = (if bytes_left < payload_length_max then bytes_left else payload_length_max) in
      andThen (malloc_bytes payload_size) (\<lambda>p_data_buf.
      andThen (buf_read data (i * payload_length_max) payload_size) (\<lambda>bs.
      andThen (write_bytes p_data_buf 0 bs) (\<lambda>_.
      andThen (packet_constructor dest src ack (of_nat (seq_offset + i)) (of_nat payload_size)
          p_data_buf) (\<lambda>p.
      andThen (store_ptrs buf i [p]) (\<lambda>_.
      fill_loop r (Suc i) buf data (bytes_left - payload_size) dest src ack seq_offset))))))"

text \<open>The copy of the first \<open>n\<close> pointers to the caller's array and the release of the working array.\<close>

definition finish_packet_array ::
  "nat list \<Rightarrow> nat \<Rightarrow> nat \<Rightarrow> ('z cmem_scheme, int \<times> nat list) cmd" where
  "finish_packet_array callback_buf buf n =
     andThen (load_ptrs buf) (\<lambda>xs.
     if n \<le> length xs \<and> n \<le> length callback_buf
     then andThen (c_free buf) (\<lambda>_. give (0, overlay callback_buf 0 (take n xs)))
     else crash Out_Of_Bounds)"

definition data_to_packet_array ::
  "nat list \<Rightarrow> u8 list \<Rightarrow> int \<Rightarrow> u16 \<Rightarrow> u16 \<Rightarrow> u8 \<Rightarrow> bool \<Rightarrow> ('z cmem_scheme, int \<times> nat list) cmd" where
  "data_to_packet_array callback_buf data data_len dest src ack include_handshakes =
     (if ceil_packets data_len < 0 then crash Bad_Conversion
      else
      let npackets = nat (ceil_packets data_len);
          seq_offset = (if include_handshakes then 1 else 0) in
      andThen (malloc_ptrs npackets) (\<lambda>buf.
      if buf = NULL then give (-1, callback_buf)
      else
        andThen (fill_loop npackets 0 buf data (nat data_len) dest src ack seq_offset) (\<lambda>_.
        if include_handshakes then
          andThen (realloc_ptrs buf (npackets + 2)) (\<lambda>buf2.
          if buf2 = NULL then give (-1, callback_buf)
          else
            andThen (load_ptrs buf2) (\<lambda>xs.
            andThen (store_ptrs buf2 1 (take npackets xs)) (\<lambda>_.
            andThen (ack_packet dest src ack 0) (\<lambda>b.
            andThen (store_ptrs buf2 0 [b]) (\<lambda>_.
            andThen (ack_packet dest src ack (of_nat UINT8_MAX)) (\<lambda>e.
            andThen (store_ptrs buf2 (npackets + 1) [e]) (\<lambda>_.
            finish_packet_array callback_buf buf2 (npackets + 2))))))))
        else finish_packet_array callback_buf buf npackets)))"

fun gather_loop ::
  "nat \<Rightarrow> nat \<Rightarrow> nat list \<Rightarrow> nat \<Rightarrow> u8 list \<Rightarrow> nat \<Rightarrow> ('z cmem_scheme, u8 list) cmd" where
  "gather_loop 0 i p_buf p_desc data filled = give data"
| "gather_loop (Suc r) i p_buf p_desc data filled =
     (if length p_buf \<le> i then crash Out_Of_Bounds
      else
        andThen (packet_description (p_buf ! i) p_desc) (\<lambda>_.
        andThen (load_packet (p_buf ! i)) (\<lambda>k.
        andThen (read_bytes (payload k) (unat (payload_length k))) (\<lambda>bs.
        andThen (buf_write data filled bs) (\<lambda>data'.
        gather_loop r (Suc i) p_buf p_desc data' (filled + unat (payload_length k)))))))"

definition packet_array_to_data ::
  "nat list \<Rightarrow> u8 list \<Rightarrow> int \<Rightarrow> ('z cmem_scheme, int \<times> u8 list) cmd" where
  "packet_array_to_data p_buf data n =
     andThen (malloc_bytes 2048) (\<lambda>p_desc.
     andThen (gather_loop (nat n) 0 p_buf p_desc data 0) (\<lambda>data'.
     give (0, data')))"

section \<open>The abstract operations\<close>

function chunks :: "nat \<Rightarrow> 'a list \<Rightarrow> 'a list list" where
  "chunks n xs = (if n = 0 \<or> xs = [] then [] else take n xs # chunks n (drop n xs))"
  by pat_completeness auto
termination
  by (relation "measure (\<lambda>(n, xs). length xs)") auto

declare chunks.simps [simp del]

definition data_frame :: "u16 \<Rightarrow> u16 \<Rightarrow> u8 \<Rightarrow> nat \<Rightarrow> u8 list \<Rightarrow> frame" where
  "data_frame dest src ack i bs =
     \<lparr>fr_dest = dest, fr_src = src, fr_ack = ack, fr_seq = of_nat i, fr_data = bs\<rparr>"

fun number_frames :: "u16 \<Rightarrow> u16 \<Rightarrow> u8 \<Rightarrow> nat \<Rightarrow> u8 list list \<Rightarrow> frame list" where
  "number_frames dest src ack i [] = []"
| "number_frames dest src ack i (c # cs) =
     data_frame dest src ack i c # number_frames dest src ack (Suc i) cs"

definition begin_frame :: "u16 \<Rightarrow> u16 \<Rightarrow> u8 \<Rightarrow> frame" where
  "begin_frame dest src ack = data_frame dest src ack 0 []"

definition end_frame :: "u16 \<Rightarrow> u16 \<Rightarrow> u8 \<Rightarrow> frame" where
  "end_frame dest src ack = data_frame dest src ack 255 []"

definition packetise :: "u16 \<Rightarrow> u16 \<Rightarrow> u8 \<Rightarrow> bool \<Rightarrow> u8 list \<Rightarrow> frame list" where
  "packetise dest src ack hs data =
     (if hs then begin_frame dest src ack # number_frames dest src ack 1 (chunks 8 data)
        @ [end_frame dest src ack]
      else number_frames dest src ack 0 (chunks 8 data))"

lemma chunks_Nil [simp]: "chunks n [] = []"
  by (subst chunks.simps) simp

lemma chunks_step: "0 < n \<Longrightarrow> xs \<noteq> [] \<Longrightarrow> chunks n xs = take n xs # chunks n (drop n xs)"
  by (subst chunks.simps) simp

lemma concat_chunks: "0 < n \<Longrightarrow> concat (chunks n xs) = xs"
  by (induction n xs rule: chunks.induct) (metis append_take_drop_id chunks_Nil chunks_step
      concat.simps neq0_conv)

lemma chunks_lengths: "c \<in> set (chunks n xs) \<Longrightarrow> 0 < length c \<and> length c \<le> n"
proof (induction n xs rule: chunks.induct)
  case (1 n xs)
  show ?case
  proof (cases "n = 0 \<or> xs = []")
    case True
    with 1 show ?thesis by (subst (asm) (2) chunks.simps) simp
  next
    case False
    with 1 show ?thesis by (subst (asm) (2) chunks.simps) auto
  qed
qed

lemma length_chunks:
  assumes "0 < n"
  shows "length (chunks n xs) = (length xs + n - 1) div n"
  using assms
proof (induction n xs rule: chunks.induct)
  case (1 n xs)
  show ?case
  proof (cases "xs = []")
    case True
    then show ?thesis using 1 by (simp add: div_less)
  next
    case False
    then have "(length xs + n - 1) div n = Suc ((length xs - n + n - 1) div n)"
    proof (cases "n \<le> length xs")
      case True
      then have "length xs + n - 1 = (length xs - n + n - 1) + n" using 1(2) by simp
      then show ?thesis using 1(2) by (metis add.commute div_add_self2 neq0_conv plus_1_eq_Suc)
    next
      case le: False
      moreover have "0 < length xs" using False by simp
      ultimately have "length xs + n - 1 = (length xs - 1) + n" and "length xs - 1 < n"
        by linarith+
      then have "(length xs + n - 1) div n = 1" using 1(2) by (metis add_0 div_add_self2 div_less neq0_conv)
      moreover have "(length xs - n + n - 1) div n = 0" using le 1(2) by simp
      ultimately show ?thesis by simp
    qed
    with False 1 show ?thesis by (simp add: chunks_step)
  qed
qed

lemma number_frames_length [simp]: "length (number_frames dest src ack i cs) = length cs"
  by (induction cs arbitrary: i) simp_all

lemma number_frames_data [simp]: "map fr_data (number_frames dest src ack i cs) = cs"
  by (induction cs arbitrary: i) (simp_all add: data_frame_def)

lemma number_frames_nth:
  "j < length cs \<Longrightarrow> number_frames dest src ack i cs ! j = data_frame dest src ack (i + j) (cs ! j)"
  by (induction cs arbitrary: i j) (auto simp: nth_Cons split: nat.splits)

lemma ceil_packets_chunks: "nat (ceil_packets (int (length data))) = length (chunks 8 data)"
proof -
  have "- ((- x) div 8) = (x + 7) div 8" for x :: int by presburger
  then have "- ((- int n) div 8) = int ((n + 7) div 8)" for n :: nat by (simp add: zdiv_int)
  then have "ceil_packets (int (length data)) = int ((length data + 7) div 8)"
    by (simp only: ceil_packets_def payload_length_max_8 of_nat_numeral)
  then show ?thesis by (simp only: nat_int length_chunks zero_less_numeral)
qed

lemma ceil_packets_nonneg: "0 \<le> n \<Longrightarrow> 0 \<le> ceil_packets n"
  by (simp add: ceil_packets_def)

section \<open>The heap the fragmentation builds\<close>

definition put_frag :: "'z cmem_scheme \<Rightarrow> frame \<Rightarrow> 'z cmem_scheme" where
  "put_frag s f = s\<lparr>blocks := (blocks s)(fresh s \<mapsto> Bytes (fr_data f),
       Suc (fresh s) \<mapsto> Pkt (packet_of f (fresh s))), fresh := fresh s + 2\<rparr>"

primrec put_frags :: "'z cmem_scheme \<Rightarrow> frame list \<Rightarrow> 'z cmem_scheme" where
  "put_frags s [] = s"
| "put_frags s (f # fs) = put_frags (put_frag s f) fs"

primrec frag_ptrs :: "nat \<Rightarrow> nat \<Rightarrow> nat list" where
  "frag_ptrs a 0 = []"
| "frag_ptrs a (Suc r) = Suc a # frag_ptrs (a + 2) r"

definition set_ptrs :: "nat \<Rightarrow> nat list \<Rightarrow> 'z cmem_scheme \<Rightarrow> 'z cmem_scheme" where
  "set_ptrs b xs s = s\<lparr>blocks := (blocks s)(b \<mapsto> Ptrs xs)\<rparr>"

lemma length_frag_ptrs [simp]: "length (frag_ptrs a r) = r"
  by (induction r arbitrary: a) simp_all

lemma set_frag_ptrs: "p \<in> set (frag_ptrs a r) \<Longrightarrow> a < p \<and> p < a + 2 * r"
  by (induction r arbitrary: a) fastforce+

lemma distinct_frag_ptrs: "distinct (frag_ptrs a r)"
  by (induction r arbitrary: a) (auto dest: set_frag_ptrs)

lemma put_frags_fresh [simp]: "fresh (put_frags s fs) = fresh s + 2 * length fs"
  by (induction fs arbitrary: s) (simp_all add: put_frag_def)

lemma put_frag_keeps: "keeps {} s (put_frag s f)"
  by (auto simp: keeps_def put_frag_def)

lemma put_frags_keeps: "keeps {} s (put_frags s fs)"
  by (induction fs arbitrary: s) (auto intro: keeps_trans put_frag_keeps)

lemma put_frag_mem_ok: "mem_ok s \<Longrightarrow> mem_ok (put_frag s f)"
  by (auto simp: mem_ok_def put_frag_def)

lemma put_frags_mem_ok: "mem_ok s \<Longrightarrow> mem_ok (put_frags s fs)"
  by (induction fs arbitrary: s) (auto intro: put_frag_mem_ok)

lemma put_frag_view: "frame_ok f \<Longrightarrow> packet_view (put_frag s f) (Suc (fresh s)) = Some f"
  by (rule packet_view_packet_of [where q = "fresh s"]) (auto simp: put_frag_def)

lemma put_frags_views:
  "mem_ok s \<Longrightarrow> list_all frame_ok fs \<Longrightarrow>
   map (packet_view (put_frags s fs)) (frag_ptrs (fresh s) (length fs)) = map Some fs"
proof (induction fs arbitrary: s)
  case Nil
  then show ?case by simp
next
  case (Cons f fs)
  have m: "mem_ok (put_frag s f)" using Cons.prems(1) by (rule put_frag_mem_ok)
  have v: "packet_view (put_frag s f) (Suc (fresh s)) = Some f"
    using Cons.prems(2) by (intro put_frag_view) simp
  have "packet_view (put_frags (put_frag s f) fs) (Suc (fresh s)) = Some f"
    by (rule packet_view_keeps [OF v put_frags_keeps m]) simp
  moreover have "fresh (put_frag s f) = fresh s + 2" by (simp add: put_frag_def)
  ultimately show ?case using Cons.IH [OF m] Cons.prems(2) by simp
qed

lemma put_frags_dom: "dom (blocks (put_frags s fs)) = dom (blocks s) \<union> {fresh s..<fresh s + 2 * length fs}"
proof (induction fs arbitrary: s)
  case Nil
  then show ?case by simp
next
  case (Cons f fs)
  have "dom (blocks (put_frag s f)) = dom (blocks s) \<union> {fresh s, Suc (fresh s)}"
    by (auto simp: put_frag_def)
  moreover have "fresh (put_frag s f) = fresh s + 2" by (simp add: put_frag_def)
  moreover have "{fresh s, Suc (fresh s)} \<union> {fresh s + 2..<fresh s + 2 + 2 * length fs}
      = {fresh s..<fresh s + 2 * length (f # fs)}" by auto
  ultimately show ?case by (simp add: Cons.IH) blast
qed

text \<open>Writing the pointer array does not interfere with the objects allocated after it.\<close>

lemma put_frag_set_ptrs: "b < fresh s \<Longrightarrow> put_frag (set_ptrs b xs s) f = set_ptrs b xs (put_frag s f)"
  by (simp add: put_frag_def set_ptrs_def fun_upd_twist)

lemma put_frags_set_ptrs: "b < fresh s \<Longrightarrow> put_frags (set_ptrs b xs s) fs = set_ptrs b xs (put_frags s fs)"
proof (induction fs arbitrary: s)
  case (Cons f fs)
  have "b < fresh (put_frag s f)" using Cons.prems by (simp add: put_frag_def)
  with Cons show ?case by (simp add: put_frag_set_ptrs)
qed simp

lemma set_ptrs_fresh [simp]: "fresh (set_ptrs b xs s) = fresh s"
  by (simp add: set_ptrs_def)

lemma set_ptrs_twice [simp]: "set_ptrs b xs (set_ptrs b ys s) = set_ptrs b xs s"
  by (simp add: set_ptrs_def)

lemma alloc_ok_puts [simp]:
  "alloc_ok (set_ptrs b xs s) = alloc_ok s" "alloc_ok (put_frag s f) = alloc_ok s"
  by (simp_all add: set_ptrs_def put_frag_def)

lemma never_fails_puts [simp]:
  "alloc_never_fails (set_ptrs b xs s) = alloc_never_fails s"
  "alloc_never_fails (put_frag s f) = alloc_never_fails s"
  by (simp_all add: alloc_never_fails_def)

text \<open>One turn of the loop allocates the payload and the struct and records the pointer.\<close>

lemma fill_step:
  assumes "alloc_never_fails s" and "b < fresh s" and "blocks s b = Some (Ptrs ys)" and "i < length ys"
    and "length c \<le> payload_length_max"
  shows "andThen (malloc_bytes (length c)) (\<lambda>q.
      andThen (write_bytes q 0 c) (\<lambda>_.
      andThen (packet_constructor dest src ack (of_nat j) (of_nat (length c)) q) (\<lambda>p.
      andThen (store_ptrs b i [p]) (\<lambda>_. m)))) s
    = m (set_ptrs b (overlay ys i [Suc (fresh s)]) (put_frag s (data_frame dest src ack j c)))"
proof -
  have k: "packet_of (data_frame dest src ack j c) q = \<lparr>dest_address = dest, src_address = src,
      ack_id = ack, sequence_number = of_nat j, payload_length = of_nat (length c), payload = q\<rparr>" for q
    by (simp add: packet_of_def data_frame_def)
  have d: "fr_data (data_frame dest src ack j c) = c" by (simp add: data_frame_def)
  have s: "set_ptrs b xs (put_frag s (data_frame dest src ack j c)) = s\<lparr>blocks := (blocks s)
      (fresh s \<mapsto> Bytes c, Suc (fresh s) \<mapsto> Pkt (packet_of (data_frame dest src ack j c) (fresh s)),
       b \<mapsto> Ptrs xs), fresh := Suc (Suc (fresh s))\<rparr>" for xs
    by (simp add: set_ptrs_def put_frag_def d add_2_eq_Suc')
  show ?thesis
    using assms by (simp add: s k cmd_simps packet_constructor_run overlay_full)
qed

lemma fill_loop_run:
  assumes "alloc_never_fails s" and "mem_ok s" and "b < fresh s" and "blocks s b = Some (Ptrs ys)"
    and "length ys = i + length (chunks 8 (drop (8 * i) data))" and "8 * i \<le> length data \<or> length ys = i"
  shows "fill_loop (length (chunks 8 (drop (8 * i) data))) i b data (length data - 8 * i)
           dest src ack off s
    = Some (Ret () (set_ptrs b (take i ys @ frag_ptrs (fresh s) (length (chunks 8 (drop (8 * i) data))))
        (put_frags s (number_frames dest src ack (off + i) (chunks 8 (drop (8 * i) data))))))"
  using assms
proof (induction "length (chunks 8 (drop (8 * i) data))" arbitrary: i s ys)
  case 0
  then show ?case by (simp add: set_ptrs_def fun_upd_idem)
next
  case (Suc r)
  let ?d = "drop (8 * i) data"
  define c where "c = take 8 ?d"
  have ne: "?d \<noteq> []" using Suc.hyps(2) by auto
  have dd: "drop 8 ?d = drop (8 * Suc i) data" by (simp add: add.commute)
  have ch: "chunks 8 ?d = c # chunks 8 (drop (8 * Suc i) data)"
    using ne chunks_step [of 8 ?d] by (simp add: c_def dd)
  have r: "length (chunks 8 (drop (8 * Suc i) data)) = r" using Suc.hyps(2) ch by simp
  have lc: "length c = (if length data - 8 * i < 8 then length data - 8 * i else 8)"
    by (simp add: c_def)
  have le: "8 * i + length c \<le> length data" using ne lc by (auto split: if_splits)
  have rd: "buf_read data (i * 8) (length c) = give c"
    using le lc by (simp add: buf_read_fits mult.commute c_def)
  let ?f = "data_frame dest src ack (off + i) c"
  let ?ys = "overlay ys i [Suc (fresh s)]"
  let ?s = "set_ptrs b ?ys (put_frag s ?f)"
  have iy: "i < length ys" using Suc.prems(5) Suc.hyps(2) by linarith
  have fr: "fresh ?s = fresh s + 2" by (simp add: put_frag_def)
  have m: "mem_ok ?s" using put_frag_mem_ok [OF Suc.prems(2), of ?f] Suc.prems(3)
      mem_ok_Some_less [OF Suc.prems(2,4)] by (auto simp: mem_ok_def set_ptrs_def put_frag_def)
  have step: "fill_loop (Suc r) i b data (length data - 8 * i) dest src ack off s
      = fill_loop r (Suc i) b data (length data - 8 * Suc i) dest src ack off ?s"
  proof -
    have "length data - 8 * i - length c = length data - 8 * Suc i" using lc by auto
    moreover have "length c \<le> payload_length_max" using lc by simp
    note fill_step [OF Suc.prems(1,3,4) iy this, of dest src ack "off + i"]
    ultimately show ?thesis
      by (simp only: fill_loop.simps Let_def payload_length_max_8 lc [symmetric] rd andThen_give)
  qed
  have IH: "fill_loop r (Suc i) b data (length data - 8 * Suc i) dest src ack off ?s
      = Some (Ret () (set_ptrs b (take (Suc i) ?ys @ frag_ptrs (fresh ?s) r)
         (put_frags ?s (number_frames dest src ack (off + Suc i) (chunks 8 (drop (8 * Suc i) data))))))"
  proof -
    have "length ?ys = length ys" using iy by simp
    moreover have "8 * Suc i \<le> length data \<or> length ?ys = Suc i"
      using r ne lc Suc.prems(5) Suc.hyps(2) iy by (cases "8 * Suc i \<le> length data") auto
    ultimately show ?thesis
      using Suc.hyps(1) [of "Suc i" ?s ?ys] r Suc.prems m fr Suc.hyps(2)
      by (simp add: set_ptrs_def)
  qed
  have tk: "take (Suc i) ?ys = take i ys @ [Suc (fresh s)]" using iy by (simp add: overlay_def)
  have "b < fresh (put_frag s ?f)" using Suc.prems(3) by (simp add: put_frag_def)
  then have ps: "put_frags ?s fs = set_ptrs b ?ys (put_frags (put_frag s ?f) fs)" for fs
    by (rule put_frags_set_ptrs)
  have "fill_loop (Suc r) i b data (length data - 8 * i) dest src ack off s
      = Some (Ret () (set_ptrs b (take i ys @ frag_ptrs (fresh s) (Suc r))
          (put_frags s (number_frames dest src ack (off + i) (chunks 8 ?d)))))"
    by (simp only: step IH ch ps tk fr set_ptrs_twice number_frames.simps put_frags.simps
        frag_ptrs.simps append_Cons append_Nil append_assoc add_Suc_right)
  then show ?case by (simp only: Suc.hyps(2))
qed

definition skip_addr :: "'z cmem_scheme \<Rightarrow> 'z cmem_scheme" where
  "skip_addr s = s\<lparr>fresh := Suc (fresh s)\<rparr>"

definition put_bare :: "'z cmem_scheme \<Rightarrow> frame \<Rightarrow> 'z cmem_scheme" where
  "put_bare s f = s\<lparr>blocks := (blocks s)(fresh s \<mapsto> Pkt (packet_of f NULL)), fresh := Suc (fresh s)\<rparr>"

lemma skip_addr_facts [simp]:
  "blocks (skip_addr s) = blocks s" "fresh (skip_addr s) = Suc (fresh s)"
  "alloc_ok (skip_addr s) = alloc_ok s"
  by (simp_all add: skip_addr_def)

lemma skip_addr_mem_ok: "mem_ok s \<Longrightarrow> mem_ok (skip_addr s)"
  by (simp add: mem_ok_def skip_addr_def)

lemma skip_addr_keeps: "keeps {} s (skip_addr s)"
  by (simp add: keeps_def skip_addr_def)

lemma put_bare_facts [simp]:
  "fresh (put_bare s f) = Suc (fresh s)" "alloc_ok (put_bare s f) = alloc_ok s"
  by (simp_all add: put_bare_def)

lemma put_bare_mem_ok: "mem_ok s \<Longrightarrow> mem_ok (put_bare s f)"
  by (simp add: mem_ok_def put_bare_def)

lemma put_bare_keeps: "keeps {} s (put_bare s f)"
  by (auto simp: keeps_def put_bare_def)

lemma put_bare_view: "fr_data f = [] \<Longrightarrow> packet_view (put_bare s f) (fresh s) = Some f"
  by (rule packet_view_packet_of [where q = NULL]) (auto simp: put_bare_def frame_ok_def)

lemma put_bare_dom: "dom (blocks (put_bare s f)) = insert (fresh s) (dom (blocks s))"
  by (auto simp: put_bare_def)

lemma put_bare_set_ptrs: "b < fresh s \<Longrightarrow> put_bare (set_ptrs b xs s) f = set_ptrs b xs (put_bare s f)"
  by (simp add: put_bare_def set_ptrs_def fun_upd_twist)

lemma ack_packet_put_bare:
  "alloc_ok s (fresh s) \<Longrightarrow>
   ack_packet dest src ack seq s = Some (Ret (fresh s)
     (put_bare s \<lparr>fr_dest = dest, fr_src = src, fr_ack = ack, fr_seq = seq, fr_data = []\<rparr>))"
  by (simp add: ack_packet_run put_bare_def)

lemma set_ptrs_block [simp]: "blocks (set_ptrs b xs s) b = Some (Ptrs xs)"
  by (simp add: set_ptrs_def)

lemma put_frags_alloc_ok [simp]: "alloc_ok (put_frags s fs) = alloc_ok s"
  by (induction fs arbitrary: s) simp_all

lemma load_set_ptrs: "load_ptrs b (set_ptrs b xs s) = Some (Ret xs (set_ptrs b xs s))"
  by (simp add: load_ptrs_def)

lemma store_set_ptrs:
  "i + length ys \<le> length xs \<Longrightarrow>
   store_ptrs b i ys (set_ptrs b xs s) = Some (Ret () (set_ptrs b (overlay xs i ys) s))"
  by (auto simp: store_ptrs_def set_ptrs_def)

lemma free_set_ptrs:
  "b \<noteq> NULL \<Longrightarrow> blocks s b = None \<Longrightarrow> c_free b (set_ptrs b xs s) = Some (Ret () s)"
  by (simp add: c_free_def set_ptrs_def fun_upd_idem)

lemma finish_set_ptrs:
  "b \<noteq> NULL \<Longrightarrow> blocks s b = None \<Longrightarrow> n = length xs \<Longrightarrow> n \<le> length cb \<Longrightarrow>
   finish_packet_array cb b n (set_ptrs b xs s) = Some (Ret (0, overlay cb 0 xs) s)"
  by (simp add: finish_packet_array_def load_set_ptrs free_set_ptrs)

lemma malloc_ptrs_set:
  "alloc_ok s (fresh s) \<Longrightarrow>
   malloc_ptrs n s = Some (Ret (fresh s) (set_ptrs (fresh s) (map (junk s (fresh s)) [0..<n]) (skip_addr s)))"
  by (simp add: malloc_ptrs_run set_ptrs_def skip_addr_def)

lemma realloc_set_ptrs:
  assumes "alloc_ok s (fresh s)" and "blocks s b = None" and "b < fresh s"
  shows "\<exists>js. length js = 2 \<and> realloc_ptrs b (length xs + 2) (set_ptrs b xs s)
     = Some (Ret (fresh s) (set_ptrs (fresh s) (xs @ js) (skip_addr s)))"
  using assms
  by (intro exI [of _ "map (junk s (fresh s)) [length xs..<length xs + 2]"])
    (simp add: realloc_ptrs_def set_ptrs_def skip_addr_def fun_upd_idem Let_def)

definition frag_state :: "'z cmem_scheme \<Rightarrow> frame list \<Rightarrow> 'z cmem_scheme" where
  "frag_state s fs = put_frags (skip_addr s) fs"

definition burst_state :: "'z cmem_scheme \<Rightarrow> frame list \<Rightarrow> frame \<Rightarrow> frame \<Rightarrow> 'z cmem_scheme" where
  "burst_state s fs b e = put_bare (put_bare (skip_addr (frag_state s fs)) b) e"

lemma overlay_shift:
  "length js = 2 \<Longrightarrow>
   overlay (overlay (overlay (xs @ js) 1 xs) 0 [b]) (length xs + 1) [e] = b # xs @ [e]"
  by (cases js; cases "tl js"; cases xs) (auto simp: overlay_def numeral_2_eq_2)

lemma fill_from_start:
  assumes "alloc_never_fails s" and "mem_ok s"
  shows "fill_loop (length (chunks 8 data)) 0 (fresh s) data (length data) dest src ack off
      (set_ptrs (fresh s) (map (junk s (fresh s)) [0..<length (chunks 8 data)]) (skip_addr s))
    = Some (Ret () (set_ptrs (fresh s) (frag_ptrs (Suc (fresh s)) (length (chunks 8 data)))
        (frag_state s (number_frames dest src ack off (chunks 8 data)))))"
proof -
  let ?n = "length (chunks 8 data)"
  let ?ys = "map (junk s (fresh s)) [0..<?n]"
  let ?s = "set_ptrs (fresh s) ?ys (skip_addr s)"
  have "mem_ok ?s" using assms(2) by (auto simp: mem_ok_def set_ptrs_def skip_addr_def)
  moreover have "alloc_never_fails ?s" using assms(1) by (simp add: alloc_never_fails_def)
  moreover have "?n = 0 \<or> 0 < ?n" by auto
  ultimately show ?thesis
    using fill_loop_run [of ?s "fresh s" ?ys 0 data dest src ack off]
    by (simp add: frag_state_def put_frags_set_ptrs)
qed

lemma blocks_frag_state:
  "mem_ok s \<Longrightarrow> blocks (frag_state s fs) (fresh s) = None"
  using keeps_block [OF put_frags_keeps, of "fresh s" "skip_addr s" fs]
  by (simp add: frag_state_def)

lemma data_to_packet_array_plain:
  assumes "alloc_never_fails s" and "mem_ok s" and "length (chunks 8 data) \<le> length cb"
  shows "data_to_packet_array cb data (int (length data)) dest src ack False s
    = Some (Ret (0, overlay cb 0 (frag_ptrs (Suc (fresh s)) (length (chunks 8 data))))
        (frag_state s (number_frames dest src ack 0 (chunks 8 data))))"
  using assms mem_ok_fresh_pos [OF assms(2)]
  by (simp add: data_to_packet_array_def ceil_packets_nonneg [THEN leD] ceil_packets_chunks Let_def
      malloc_ptrs_set fill_from_start finish_set_ptrs blocks_frag_state)

lemma data_to_packet_array_framed:
  assumes "alloc_never_fails s" and "mem_ok s" and "length (chunks 8 data) + 2 \<le> length cb"
    and "fs = number_frames dest src ack 1 (chunks 8 data)" and "n = length fs"
  shows "data_to_packet_array cb data (int (length data)) dest src ack True s
    = Some (Ret (0, overlay cb 0 ([fresh s + 2 * n + 2] @ frag_ptrs (Suc (fresh s)) n @ [fresh s + 2 * n + 3]))
        (burst_state s fs (begin_frame dest src ack) (end_frame dest src ack)))"
proof -
  let ?F = "frag_state s fs"
  let ?a = "fresh s + 2 * n + 1"
  let ?xs = "frag_ptrs (Suc (fresh s)) n"
  have n: "length (chunks 8 data) = n" using assms(4,5) by simp
  have fr: "fresh ?F = ?a" using assms(5) by (simp add: frag_state_def)
  have mF: "mem_ok ?F" unfolding frag_state_def
    by (intro put_frags_mem_ok skip_addr_mem_ok assms(2))
  have ok: "alloc_ok ?F a" for a using assms(1) by (simp add: frag_state_def)
  obtain js where js: "length js = 2"
    and re: "realloc_ptrs (fresh s) (n + 2) (set_ptrs (fresh s) ?xs ?F)
      = Some (Ret ?a (set_ptrs ?a (?xs @ js) (skip_addr ?F)))"
    using realloc_set_ptrs [of ?F "fresh s" ?xs] ok blocks_frag_state [OF assms(2), of fs] fr by auto
  have none: "blocks (burst_state s fs b e) ?a = None" for b e
    using fr mF mem_ok_fresh [OF mF] by (simp add: burst_state_def put_bare_def)
  have hs: "begin_frame dest src ack = \<lparr>fr_dest = dest, fr_src = src, fr_ack = ack, fr_seq = 0, fr_data = []\<rparr>"
    "end_frame dest src ack = \<lparr>fr_dest = dest, fr_src = src, fr_ack = ack, fr_seq = 255, fr_data = []\<rparr>"
    by (simp_all add: begin_frame_def end_frame_def data_frame_def)
  have len: "length (overlay (?xs @ js) 1 ?xs) = n + 2"
    "length (overlay (overlay (?xs @ js) 1 ?xs) 0 [p]) = n + 2" for p
    using js by simp_all
  have fill: "fill_loop n 0 (fresh s) data (length data) dest src ack 1
      (set_ptrs (fresh s) (map (junk s (fresh s)) [0..<n]) (skip_addr s))
    = Some (Ret () (set_ptrs (fresh s) ?xs ?F))"
    using fill_from_start [OF assms(1,2), of data dest src ack 1] n assms(4) by simp
  show ?thesis
    using assms(1,3) n mem_ok_fresh_pos [OF assms(2)] js none fr ok
    by (simp add: data_to_packet_array_def ceil_packets_nonneg [THEN leD] ceil_packets_chunks Let_def
        malloc_ptrs_set fill re load_set_ptrs store_set_ptrs len ack_packet_put_bare put_bare_set_ptrs
        hs [symmetric] UINT8_MAX_def burst_state_def [symmetric] finish_set_ptrs overlay_shift [of js ?xs, simplified length_frag_ptrs]
        del: One_nat_def) (simp add: add.commute)
qed

section \<open>Facts about the result\<close>

lemma put_frags_owned:
  assumes "mem_ok s" and "list_all (\<lambda>f. frame_ok f \<and> fr_data f \<noteq> []) fs"
  shows "(\<Union>p \<in> set (frag_ptrs (fresh s) (length fs)). owned (put_frags s fs) p)
     = {fresh s..<fresh s + 2 * length fs}"
  using assms
proof (induction fs arbitrary: s)
  case Nil
  then show ?case by simp
next
  case (Cons f fs)
  have m: "mem_ok (put_frag s f)" using Cons.prems(1) by (rule put_frag_mem_ok)
  have fr: "fresh (put_frag s f) = fresh s + 2" by (simp add: put_frag_def)
  have "blocks (put_frags (put_frag s f) fs) (Suc (fresh s)) = Some (Pkt (packet_of f (fresh s)))"
    using keeps_block [OF put_frags_keeps, of "Suc (fresh s)" "put_frag s f" fs]
    by (simp add: put_frag_def)
  moreover have "(of_nat (length (fr_data f)) :: u8) \<noteq> 0"
    using Cons.prems(2) by (simp add: frame_ok_def flip: unat_eq_0_iff)
  ultimately have "owned (put_frags (put_frag s f) fs) (Suc (fresh s)) = {fresh s, Suc (fresh s)}"
    by (auto simp: owned_def payload_of_def)
  moreover have "{fresh s, Suc (fresh s)} \<union> {fresh s + 2..<fresh s + 2 + 2 * length fs}
      = {fresh s..<fresh s + 2 * length (f # fs)}" by auto
  ultimately show ?case using Cons.IH [OF m] Cons.prems(2) fr by simp
qed

lemma number_frames_good:
  assumes "\<And>c. c \<in> set cs \<Longrightarrow> 0 < length c \<and> length c \<le> 8"
  shows "list_all (\<lambda>f. frame_ok f \<and> fr_data f \<noteq> []) (number_frames dest src ack i cs)"
  using assms
proof (induction cs arbitrary: i)
  case (Cons c cs)
  have "length c < 256" "c \<noteq> []" using Cons.prems [of c] by auto
  moreover note Cons.IH [of "Suc i"]
  ultimately show ?case using Cons.prems by (simp add: data_frame_def frame_ok_def)
qed simp

lemma number_chunks_good:
  "list_all (\<lambda>f. frame_ok f \<and> fr_data f \<noteq> []) (number_frames dest src ack i (chunks 8 data))"
  using chunks_lengths [of _ 8 data] by (rule number_frames_good)

lemma number_chunks_ok: "list_all frame_ok (number_frames dest src ack i (chunks 8 data))"
  using number_chunks_good by (rule list.pred_mono_strong) simp

text \<open>What holds of a state in which the packets \<open>ps\<close> were built from \<open>s\<close>.\<close>

definition built :: "'z cmem_scheme \<Rightarrow> nat list \<Rightarrow> frame list \<Rightarrow> 'z cmem_scheme \<Rightarrow> bool" where
  "built s ps fs t \<longleftrightarrow>
     map (packet_view t) ps = map Some fs \<and> keeps {} s t \<and> mem_ok t \<and> distinct ps \<and>
     (\<forall>p \<in> set ps. fresh s \<le> p) \<and>
     dom (blocks t) = dom (blocks s) \<union> (\<Union>p \<in> set ps. owned t p)"

lemma built_frag_state:
  assumes "mem_ok s"
  shows "built s (frag_ptrs (Suc (fresh s)) (length (chunks 8 data)))
     (number_frames dest src ack i (chunks 8 data))
     (frag_state s (number_frames dest src ack i (chunks 8 data)))"
proof -
  let ?fs = "number_frames dest src ack i (chunks 8 data)"
  have m: "mem_ok (skip_addr s)" using assms by (rule skip_addr_mem_ok)
  have "keeps {} s (frag_state s ?fs)"
    unfolding frag_state_def by (rule keeps_trans [OF skip_addr_keeps put_frags_keeps]) simp
  then show ?thesis
    using put_frags_views [OF m number_chunks_ok] put_frags_owned [OF m number_chunks_good]
      put_frags_dom [of "skip_addr s" ?fs] put_frags_mem_ok [OF m, of ?fs]
      set_frag_ptrs [of _ "Suc (fresh s)"]
    by (fastforce simp: built_def frag_state_def distinct_frag_ptrs)
qed

lemma built_put_bare:
  assumes b: "built s ps fs t" and f: "fr_data f = []"
  shows "built s (fresh t # ps) (f # fs) (put_bare t f)" and "built s (ps @ [fresh t]) (fs @ [f]) (put_bare t f)"
proof -
  have m: "mem_ok t" and k: "keeps {} s t" and v: "map (packet_view t) ps = map Some fs"
    using b by (simp_all add: built_def)
  have lt: "p < fresh t" if p: "p \<in> set ps" for p
  proof -
    from p v obtain f where "packet_view t p = Some f" by (metis image_iff list.set_map)
    then show ?thesis using mem_ok_Some_less [OF m] by (auto elim!: packet_viewE)
  qed
  have v': "map (packet_view (put_bare t f)) ps = map Some fs"
    by (rule views_keeps [OF v put_bare_keeps m]) simp
  have o: "owned (put_bare t f) p = owned t p" if "p \<in> set ps" for p
    by (rule owned_keeps [OF put_bare_keeps lt [OF that]])
  have o': "owned (put_bare t f) (fresh t) = {fresh t}"
    using f by (simp add: owned_def payload_of_def put_bare_def)
  have facts: "keeps {} s (put_bare t f)" "mem_ok (put_bare t f)" "fresh s \<le> fresh t"
    "packet_view (put_bare t f) (fresh t) = Some f"
    using keeps_trans [OF k put_bare_keeps] put_bare_mem_ok [OF m] keeps_fresh_le [OF k]
      put_bare_view [OF f] by simp_all
  show "built s (fresh t # ps) (f # fs) (put_bare t f)"
    using b v' facts lt o o' by (auto simp: built_def put_bare_dom)
  show "built s (ps @ [fresh t]) (fs @ [f]) (put_bare t f)"
    using b v' facts lt o o' by (auto simp: built_def put_bare_dom)
qed

lemma built_skip_addr: "built s ps fs t \<Longrightarrow> built s ps fs (skip_addr t)"
  using views_keeps [OF _ skip_addr_keeps] keeps_trans [OF _ skip_addr_keeps] skip_addr_mem_ok
  by (fastforce simp: built_def owned_def payload_of_def)

section \<open>Reassembly on the heap\<close>

lemma gather_loop_run:
  assumes "mem_ok t" and "alloc_never_fails t" and "blocks t d = Some (Bytes bb)" and "length bb = 2048"
    and "map (packet_view t) (drop i ps) = map Some fs" and "\<And>f. f \<in> set fs \<Longrightarrow> length (fr_data f) \<le> 8"
    and "\<And>p. p \<in> set ps \<Longrightarrow> d \<notin> owned t p"
    and "filled + length (concat (map fr_data fs)) \<le> length data"
  shows "\<exists>u bb'. gather_loop (length fs) i ps d data filled t
       = Some (Ret (overlay data filled (concat (map fr_data fs))) u) \<and>
     keeps {d} t u \<and> blocks u = (blocks t)(d \<mapsto> Bytes bb') \<and> length bb' = 2048 \<and> mem_ok u"
  using assms
proof (induction fs arbitrary: i t bb data filled)
  case Nil
  then show ?case
    by (intro exI [of _ t] exI [of _ bb]) (auto simp: fun_upd_idem)
next
  case (Cons f fs)
  have i: "i < length ps" using Cons.prems(5) by (cases "i < length ps") auto
  then have dr: "drop i ps = ps ! i # drop (Suc i) ps" by (simp add: Cons_nth_drop_Suc)
  have v: "packet_view t (ps ! i) = Some f" and vs: "map (packet_view t) (drop (Suc i) ps) = map Some fs"
    using Cons.prems(5) by (simp_all add: dr)
  obtain k where k: "blocks t (ps ! i) = Some (Pkt k)"
    and r: "read_bytes (payload k) (unat (payload_length k)) t = Some (Ret (fr_data f) t)"
    and l: "length (fr_data f) = unat (payload_length k)"
    using v by (rule packet_viewE)
  have own: "d \<notin> owned t (ps ! i)" using Cons.prems(7) i by simp
  define bb1 where "bb1 = overlay bb 0 (description_text k (fr_data f) @ [0])"
  define t1 where "t1 = t\<lparr>blocks := (blocks t)(d \<mapsto> Bytes bb1), fresh := Suc (fresh t)\<rparr>"
  have l8: "length (fr_data f) \<le> payload_length_max" using Cons.prems(6) [of f] by simp
  have run: "packet_description (ps ! i) d t = Some (Ret () t1)"
    using Cons.prems(2,4) by (simp add: t1_def bb1_def
        packet_description_run [OF v Cons.prems(1) _ Cons.prems(3) k l8])
  have kp: "keeps {d} t t1" by (simp add: keeps_def t1_def)
  have d: "d \<noteq> NULL \<and> d < fresh t" using mem_ok_Some_less [OF Cons.prems(1,3)] by simp
  then have m1: "mem_ok t1" using Cons.prems(1) by (auto simp: mem_ok_def t1_def)
  have a1: "alloc_never_fails t1" using Cons.prems(2) by (simp add: t1_def)
  have k1: "blocks t1 (ps ! i) = Some (Pkt k)" using k own by (simp add: t1_def owned_def)
  have r1: "read_bytes (payload k) (unat (payload_length k)) t1 = Some (Ret (fr_data f) t1)"
    by (rule read_bytes_cong [OF _ r])
      (use own k in \<open>auto simp: t1_def owned_def payload_of_def split: if_splits\<close>)
  have o1: "d \<notin> owned t1 p" if "p \<in> set ps" for p
    using Cons.prems(7) [OF that] by (auto simp: owned_def payload_of_def t1_def)
  have vs1: "map (packet_view t1) (drop (Suc i) ps) = map Some fs"
    by (rule views_keeps [OF vs kp Cons.prems(1)]) (use Cons.prems(7) in \<open>auto dest: in_set_dropD\<close>)
  have b1: "blocks t1 d = Some (Bytes bb1)" by (simp add: t1_def)
  have lb: "length bb1 = 2048"
    using Cons.prems(4) length_description [of k "fr_data f"] l8 by (simp add: bb1_def)
  have fits: "filled + length (fr_data f) \<le> length data" using Cons.prems(8) by simp
  let ?data = "overlay data filled (fr_data f)"
  have "filled + length (fr_data f) + length (concat (map fr_data fs)) \<le> length ?data"
    using Cons.prems(8) fits by simp
  with Cons.IH [OF m1 a1 b1 lb vs1 _ o1] Cons.prems(6)
  obtain u bb' where u: "gather_loop (length fs) (Suc i) ps d ?data (filled + length (fr_data f)) t1
       = Some (Ret (overlay ?data (filled + length (fr_data f)) (concat (map fr_data fs))) u)"
    "keeps {d} t1 u" "blocks u = (blocks t1)(d \<mapsto> Bytes bb')" "mem_ok u"
    "length bb' = 2048"
    by fastforce
  have "keeps {d} t u" using keeps_trans [OF kp u(2)] by simp
  moreover have "blocks u = (blocks t)(d \<mapsto> Bytes bb')" using u(3) by (simp add: t1_def)
  ultimately show ?case
    using u(1,4,5) i run k1 r1 l Cons.prems(8)
    by (intro exI [of _ u] exI [of _ bb'])
      (simp add: load_packet_run overlay_overlay_adjacent buf_write_fits [OF fits])
qed

lemma packet_array_to_data_run:
  assumes "mem_ok s" and "alloc_never_fails s" and "map (packet_view s) ps = map Some fs"
    and "\<And>f. f \<in> set fs \<Longrightarrow> length (fr_data f) \<le> 8"
    and "length (concat (map fr_data fs)) \<le> length data"
  shows "\<exists>u bb. packet_array_to_data ps data (int (length ps)) s
       = Some (Ret (0, concat (map fr_data fs) @ drop (length (concat (map fr_data fs))) data) u) \<and>
     keeps {} s u \<and> mem_ok u \<and> blocks u = (blocks s)(fresh s \<mapsto> Bytes bb) \<and> length bb = 2048"
proof -
  define bb where "bb = junk_bytes (junk s (fresh s)) 2048"
  define t where "t = s\<lparr>blocks := (blocks s)(fresh s \<mapsto> Bytes bb), fresh := Suc (fresh s)\<rparr>"
  have run: "malloc_bytes 2048 s = Some (Ret (fresh s) t)"
    using assms(2) by (simp add: malloc_bytes_run t_def bb_def)
  have kp: "keeps {} s t" by (simp add: keeps_def t_def)
  have m: "mem_ok t" using assms(1) by (auto simp: mem_ok_def t_def)
  have a: "alloc_never_fails t" using assms(2) by (simp add: t_def)
  have vs: "map (packet_view t) (drop 0 ps) = map Some fs"
    using views_keeps [OF assms(3) kp assms(1)] by simp
  have len: "length ps = length fs" using assms(3) by (metis length_map)
  have o: "fresh s \<notin> owned t p" if "p \<in> set ps" for p
  proof -
    from that assms(3) obtain f where v: "packet_view s p = Some f" by (metis image_iff list.set_map)
    then obtain k where k: "blocks s p = Some (Pkt k)"
      and "read_bytes (payload k) (unat (payload_length k)) s = Some (Ret (fr_data f) s)"
      by (rule packet_viewE)
    then have "blocks s (payload k) \<noteq> None" if "payload_length k \<noteq> 0"
      using that by (auto simp: read_bytes_Ret_iff unat_eq_0_iff)
    then have "payload k < fresh s" if "payload_length k \<noteq> 0"
      using that mem_ok_Some_less [OF assms(1)] by blast
    moreover have "p < fresh s" using mem_ok_Some_less [OF assms(1) k] by simp
    moreover have "blocks t p = Some (Pkt k)" using calculation(2) k by (simp add: t_def)
    ultimately show ?thesis by (auto simp: owned_def payload_of_def)
  qed
  have d: "blocks t (fresh s) = Some (Bytes bb)" "length bb = 2048" by (simp_all add: t_def bb_def)
  obtain u bb' where "gather_loop (length fs) 0 ps (fresh s) data 0 t
       = Some (Ret (overlay data 0 (concat (map fr_data fs))) u)" and k: "keeps {fresh s} t u"
    and b: "blocks u = (blocks t)(fresh s \<mapsto> Bytes bb')" and mu: "mem_ok u" and "length bb' = 2048"
    using gather_loop_run [OF m a d vs assms(4) o, where filled = 0 and data = data] assms(5) by auto
  moreover have "keeps {} s u" using keeps_trans [OF kp k] by simp
  ultimately show ?thesis
    using run len by (intro exI [of _ u] exI [of _ bb'])
      (simp add: packet_array_to_data_def t_def overlay_def)
qed

lemma chunks_nth:
  "0 < n \<Longrightarrow> j < length (chunks n xs) \<Longrightarrow> chunks n xs ! j = take n (drop (n * j) xs)"
proof (induction n xs arbitrary: j rule: chunks.induct)
  case (1 n xs)
  then have ne: "xs \<noteq> []" by auto
  with 1 show ?case by (cases j) (auto simp: chunks_step add.commute)
qed

lemma length_packetise: "length (packetise dest src ack hs data) = length (chunks 8 data) + (if hs then 2 else 0)"
  by (simp add: packetise_def)

lemma concat_packetise: "concat (map fr_data (packetise dest src ack hs data)) = data"
  by (simp add: packetise_def begin_frame_def end_frame_def data_frame_def concat_chunks)

lemma packetise_small: "f \<in> set (packetise dest src ack hs data) \<Longrightarrow> length (fr_data f) \<le> 8"
proof -
  assume f: "f \<in> set (packetise dest src ack hs data)"
  have "length (fr_data g) \<le> 8" if g: "g \<in> set (number_frames dest src ack i (chunks 8 data))" for g i
  proof -
    from g have "fr_data g \<in> set (chunks 8 data)"
      using number_frames_data [of dest src ack i "chunks 8 data"] by (metis image_eqI list.set_map)
    then show ?thesis by (rule chunks_lengths [THEN conjunct2])
  qed
  moreover have "length (fr_data (begin_frame dest src ack)) \<le> 8" "length (fr_data (end_frame dest src ack)) \<le> 8"
    by (simp_all add: begin_frame_def end_frame_def data_frame_def)
  ultimately show ?thesis using f by (auto simp: packetise_def split: if_splits)
qed

lemma data_to_packet_array_built:
  assumes "alloc_never_fails s" and "mem_ok s"
    and "length (packetise dest src ack hs data) \<le> length cb"
  shows "\<exists>ps t. data_to_packet_array cb data (int (length data)) dest src ack hs s
       = Some (Ret (0, ps @ drop (length ps) cb) t) \<and>
     built s ps (packetise dest src ack hs data) t \<and> alloc_never_fails t"
proof -
  let ?n = "length (chunks 8 data)"
  have kn: "built s ps fs t \<Longrightarrow> alloc_never_fails t" for ps fs t
    using keeps_never_fails assms(1) by (auto simp: built_def)
  show ?thesis
  proof (cases hs)
    case False
    have "built s (frag_ptrs (Suc (fresh s)) ?n) (packetise dest src ack hs data)
        (frag_state s (number_frames dest src ack 0 (chunks 8 data)))"
      using built_frag_state [OF assms(2)] False by (simp add: packetise_def)
    with kn show ?thesis
      using False assms(3) data_to_packet_array_plain [OF assms(1,2), of data cb dest src ack]
      by (auto simp: length_packetise overlay_def intro!: exI [of _ "frag_ptrs (Suc (fresh s)) ?n"])
  next
    case True
    let ?fs = "number_frames dest src ack 1 (chunks 8 data)"
    let ?F = "skip_addr (frag_state s ?fs)"
    let ?b = "begin_frame dest src ack" and ?e = "end_frame dest src ack"
    let ?ps = "[fresh s + 2 * ?n + 2] @ frag_ptrs (Suc (fresh s)) ?n @ [fresh s + 2 * ?n + 3]"
    let ?t = "burst_state s ?fs ?b ?e"
    have F: "built s (frag_ptrs (Suc (fresh s)) ?n) ?fs ?F"
      by (rule built_skip_addr [OF built_frag_state [OF assms(2)]])
    have fr: "fresh ?F = fresh s + 2 * ?n + 2" by (simp add: frag_state_def)
    have d: "fr_data ?b = []" "fr_data ?e = []" by (simp_all add: begin_frame_def end_frame_def data_frame_def)
    have e: "fresh (put_bare ?F ?b) = fresh s + 2 * ?n + 3" using fr by simp
    have bt: "built s ?ps (packetise dest src ack hs data) ?t"
      using built_put_bare(2) [OF built_put_bare(1) [OF F d(1)] d(2), unfolded e fr] True
      by (simp add: packetise_def burst_state_def)
    have "length (chunks 8 data) + 2 \<le> length cb" using assms(3) True by (simp add: length_packetise)
    then have "data_to_packet_array cb data (int (length data)) dest src ack True s
        = Some (Ret (0, overlay cb 0 ?ps) ?t)"
      by (intro data_to_packet_array_framed [OF assms(1,2)]) simp_all
    with True have "data_to_packet_array cb data (int (length data)) dest src ack hs s
        = Some (Ret (0, overlay cb 0 ?ps) ?t)" by simp
    moreover have "overlay cb 0 ?ps = ?ps @ drop (length ?ps) cb" unfolding overlay_def by simp
    ultimately show ?thesis using bt kn [OF bt] by (intro exI [of _ ?ps] exI [of _ ?t]) simp
  qed
qed

lemma built_nth_view:
  "built s ps fs t \<Longrightarrow> j < length fs \<Longrightarrow> packet_view t (ps ! j) = Some (fs ! j)"
  unfolding built_def by (metis length_map nth_map)

lemma built_length: "built s ps fs t \<Longrightarrow> length ps = length fs"
  unfolding built_def by (metis length_map)

section \<open>Properties\<close>

text \<open>C24: \<open>data_to_packet_array\<close> returns 0 and fills the caller's array with pointers to new, distinct
  packets: packet \<open>j\<close> carries the bytes from \<open>8 * j\<close> on, at most eight, under the sequence number \<open>j\<close>
  (one more when framed, modulo 256); when framed a BEGIN packet precedes and an END packet follows
  them. No existing object changes, and what is newly live is exactly the packets and their payloads:
  the working array is released on both paths.\<close>

theorem data_to_packet_array_correct:
  assumes "alloc_never_fails s" and "mem_ok s" and "n = (length data + 7) div 8"
    and "off = (if hs then 1 else 0)" and "n + 2 * off \<le> length cb"
  shows "\<exists>ps t. data_to_packet_array cb data (int (length data)) dest src ack hs s
       = Some (Ret (0, ps @ drop (length ps) cb) t) \<and>
     length ps = n + 2 * off \<and> distinct ps \<and> keeps {} s t \<and> mem_ok t \<and>
     (\<forall>j < n. packet_view t (ps ! (j + off)) = Some \<lparr>fr_dest = dest, fr_src = src, fr_ack = ack,
        fr_seq = of_nat (j + off), fr_data = take 8 (drop (8 * j) data)\<rparr>) \<and>
     (hs \<longrightarrow> packet_view t (ps ! 0) = Some \<lparr>fr_dest = dest, fr_src = src, fr_ack = ack,
        fr_seq = 0, fr_data = []\<rparr> \<and>
       packet_view t (ps ! (n + 1)) = Some \<lparr>fr_dest = dest, fr_src = src, fr_ack = ack,
        fr_seq = 255, fr_data = []\<rparr>) \<and>
     dom (blocks t) = dom (blocks s) \<union> (\<Union>p \<in> set ps. owned t p)"
proof -
  have n: "length (chunks 8 data) = n" using assms(3) by (simp add: length_chunks)
  let ?fs = "packetise dest src ack hs data"
  have lf: "length ?fs = n + 2 * off" using n assms(4) by (simp add: length_packetise)
  obtain ps t where run: "data_to_packet_array cb data (int (length data)) dest src ack hs s
       = Some (Ret (0, ps @ drop (length ps) cb) t)" and b: "built s ps ?fs t"
    using data_to_packet_array_built [OF assms(1,2), of dest src ack hs data cb] lf assms(5) by auto
  have v: "packet_view t (ps ! j) = Some (?fs ! j)" if "j < n + 2 * off" for j
    using built_nth_view [OF b] lf that by simp
  have "?fs ! (j + off) = data_frame dest src ack (j + off) (take 8 (drop (8 * j) data))" if "j < n" for j
    using that n assms(4)
    by (simp add: packetise_def number_frames_nth chunks_nth nth_append add.commute)
  moreover have "hs \<Longrightarrow> ?fs ! 0 = data_frame dest src ack 0 [] \<and> ?fs ! (n + 1) = data_frame dest src ack 255 []"
    using n by (simp add: packetise_def begin_frame_def end_frame_def nth_append)
  ultimately have "(\<forall>j < n. packet_view t (ps ! (j + off))
        = Some (data_frame dest src ack (j + off) (take 8 (drop (8 * j) data)))) \<and>
     (hs \<longrightarrow> packet_view t (ps ! 0) = Some (data_frame dest src ack 0 []) \<and>
       packet_view t (ps ! (n + 1)) = Some (data_frame dest src ack 255 []))"
    using v assms(4) by simp
  with run b built_length [OF b] lf show ?thesis
    by (intro exI [of _ ps] exI [of _ t]) (simp add: built_def data_frame_def)
qed

theorem data_to_packet_array_correct_witness:
  "\<exists>ps t. data_to_packet_array (replicate 4 0) [1, 2, 3, 4, 5, 6, 7, 8, 9] 9 0xFF00 0x00FF 5 True demo_mem
       = Some (Ret (0, ps) t) \<and> length ps = 4 \<and>
     packet_view t (ps ! 2) = Some \<lparr>fr_dest = 0xFF00, fr_src = 0x00FF, fr_ack = 5, fr_seq = 2, fr_data = [9]\<rparr>"
proof -
  let ?d = "[1, 2, 3, 4, 5, 6, 7, 8, 9] :: u8 list"
  obtain ps t where "data_to_packet_array (replicate 4 0) ?d (int (length ?d)) 0xFF00 0x00FF 5 True demo_mem
       = Some (Ret (0, ps @ drop (length ps) (replicate 4 0)) t)" and "length ps = 2 + 2 * 1"
    and "\<forall>j < 2. packet_view t (ps ! (j + 1)) = Some \<lparr>fr_dest = 0xFF00, fr_src = 0x00FF, fr_ack = 5,
        fr_seq = of_nat (j + 1), fr_data = take 8 (drop (8 * j) ?d)\<rparr>"
    using data_to_packet_array_correct [OF demo_mem_facts(2,1), of 2 ?d 1 True "replicate 4 0" "0xFF00" "0x00FF" 5]
    by auto
  then show ?thesis
    by (intro exI [of _ ps] exI [of _ t]) (simp add: numeral_2_eq_2)
qed

text \<open>C14: Fragmenting and reassembling is the identity: the packets \<open>data_to_packet_array\<close> builds,
  framed or not, reassemble with \<open>packet_array_to_data\<close> to the original bytes, and the bytes of the
  output array behind them are untouched.\<close>

theorem fragment_reassemble_roundtrip:
  assumes "alloc_never_fails s" and "mem_ok s" and "length data \<le> length out"
    and "(length data + 7) div 8 + 2 \<le> length cb"
  shows "\<exists>ps t u. data_to_packet_array cb data (int (length data)) dest src ack hs s
       = Some (Ret (0, ps @ drop (length ps) cb) t) \<and>
     packet_array_to_data ps out (int (length ps)) t
       = Some (Ret (0, data @ drop (length data) out) u) \<and> keeps {} s u"
proof -
  let ?fs = "packetise dest src ack hs data"
  have "length ?fs \<le> length cb"
    using assms(4) by (simp add: length_packetise length_chunks add.commute [of 7])
  then obtain ps t where run: "data_to_packet_array cb data (int (length data)) dest src ack hs s
       = Some (Ret (0, ps @ drop (length ps) cb) t)" and b: "built s ps ?fs t" and a: "alloc_never_fails t"
    using data_to_packet_array_built [OF assms(1,2)] by blast
  have "\<exists>u bb. packet_array_to_data ps out (int (length ps)) t
       = Some (Ret (0, concat (map fr_data ?fs) @ drop (length (concat (map fr_data ?fs))) out) u) \<and>
     keeps {} t u \<and> mem_ok u \<and> blocks u = (blocks t)(fresh t \<mapsto> Bytes bb) \<and> length bb = 2048"
    using b a packetise_small assms(3)
    by (intro packet_array_to_data_run) (auto simp: built_def concat_packetise)
  then obtain u where "packet_array_to_data ps out (int (length ps)) t
       = Some (Ret (0, data @ drop (length data) out) u)" and k: "keeps {} t u"
    by (auto simp: concat_packetise)
  moreover have "keeps {} s u" using b keeps_trans [OF _ k] by (simp add: built_def)
  ultimately show ?thesis using run by blast
qed

theorem fragment_reassemble_roundtrip_witness:
  "\<exists>ps t u. data_to_packet_array (replicate 4 0) [1, 2, 3, 4, 5, 6, 7, 8, 9] 9 0xFF00 0x00FF 5 True demo_mem
       = Some (Ret (0, ps @ drop (length ps) (replicate 4 0)) t) \<and>
     packet_array_to_data ps (replicate 9 0) (int (length ps)) t
       = Some (Ret (0, [1, 2, 3, 4, 5, 6, 7, 8, 9]) u)"
  using fragment_reassemble_roundtrip [OF demo_mem_facts(2,1), of "[1, 2, 3, 4, 5, 6, 7, 8, 9]"
      "replicate 9 0" "replicate 4 0" "0xFF00" "0x00FF" 5 True] by auto

text \<open>\<open>packet_array_to_data\<close> concatenates the payloads of any array of packets within the
  payload limit and returns 0. It consumes nothing, whatever its comment says: every packet is still
  live and unchanged, and each call leaves one more live object behind, its 2048-byte description
  buffer.\<close>

theorem packet_array_to_data_leaks:
  assumes "mem_ok s" and "alloc_never_fails s" and "map (packet_view s) ps = map Some fs"
    and "\<forall>f \<in> set fs. length (fr_data f) \<le> payload_length_max"
    and "length (concat (map fr_data fs)) \<le> length out"
  shows "\<exists>u p bb. packet_array_to_data ps out (int (length ps)) s
       = Some (Ret (0, concat (map fr_data fs) @ drop (length (concat (map fr_data fs))) out) u) \<and>
     map (packet_view u) ps = map Some fs \<and>
     blocks s p = None \<and> blocks u = (blocks s)(p \<mapsto> Bytes bb) \<and> length bb = 2048"
proof -
  obtain u bb where run: "packet_array_to_data ps out (int (length ps)) s
       = Some (Ret (0, concat (map fr_data fs) @ drop (length (concat (map fr_data fs))) out) u)"
    and k: "keeps {} s u" and b: "blocks u = (blocks s)(fresh s \<mapsto> Bytes bb)" and l: "length bb = 2048"
    using packet_array_to_data_run [OF assms(1,2,3), of out] assms(4,5) by auto
  have "map (packet_view u) ps = map Some fs" by (rule views_keeps [OF assms(3) k assms(1)]) simp
  then show ?thesis
    using run b l assms(1) by (intro exI [of _ u] exI [of _ "fresh s"] exI [of _ bb]) simp
qed

theorem packet_array_to_data_leaks_witness:
  "\<exists>u p bb. packet_array_to_data [1, 1] (replicate 6 0) 2 demo_mem
       = Some (Ret (0, [0x72, 0x61, 0x6D, 0x72, 0x61, 0x6D]) u) \<and>
     blocks demo_mem p = None \<and> blocks u = (blocks demo_mem)(p \<mapsto> Bytes bb) \<and> length bb = 2048"
  using packet_array_to_data_leaks [OF demo_mem_facts(1,2), of "[1, 1]" "[demo_frame, demo_frame]"
      "replicate 6 0"] demo_mem_facts(3) by (simp add: demo_frame_def) blast

text \<open>The edges of \<open>data_to_packet_array\<close>: when the first allocation fails it reports -1 with the
  heap and the caller's array as they were; a length of at most -8 is undefined (a negative double is
  converted to \<open>size_t\<close>); otherwise a length of at most 0 gives no data packet.\<close>

theorem data_to_packet_array_edges:
  assumes "mem_ok s"
  shows "(\<not> alloc_ok s (fresh s) \<and> -8 < data_len \<longrightarrow>
       (\<exists>t. data_to_packet_array cb data data_len dest src ack hs s = Some (Ret (-1, cb) t) \<and>
            blocks t = blocks s)) \<and>
     (data_len \<le> -8 \<longrightarrow>
       data_to_packet_array cb data data_len dest src ack hs s = Some (Fault Bad_Conversion)) \<and>
     (alloc_ok s (fresh s) \<and> -8 < data_len \<and> data_len \<le> 0 \<longrightarrow>
       (\<exists>t. data_to_packet_array cb data data_len dest src ack False s = Some (Ret (0, cb) t) \<and>
            blocks t = blocks s))"
proof -
  have neg: "ceil_packets data_len < 0 \<longleftrightarrow> data_len \<le> -8"
    by (simp add: ceil_packets_def pos_imp_zdiv_pos_iff) linarith
  have zero: "ceil_packets data_len = 0" if "-8 < data_len" "data_len \<le> 0"
    using that by (simp add: ceil_packets_def div_pos_pos_trivial)
  have p: "fresh s \<noteq> 0" using mem_ok_fresh_pos [OF assms] by simp
  have none: "blocks (skip_addr s) (fresh s) = None" using assms by simp
  have fails: "\<exists>t. data_to_packet_array cb data data_len dest src ack hs s = Some (Ret (-1, cb) t) \<and>
      blocks t = blocks s" if "\<not> alloc_ok s (fresh s)" "-8 < data_len"
    using that neg by (simp add: data_to_packet_array_def Let_def malloc_ptrs_def alloc_fails_run)
  have undef: "data_to_packet_array cb data data_len dest src ack hs s = Some (Fault Bad_Conversion)"
    if "data_len \<le> -8"
    using that neg by (simp add: data_to_packet_array_def)
  have empty: "\<exists>t. data_to_packet_array cb data data_len dest src ack False s = Some (Ret (0, cb) t) \<and>
      blocks t = blocks s" if "alloc_ok s (fresh s)" "-8 < data_len" "data_len \<le> 0"
    using that zero p none
    by (simp add: data_to_packet_array_def Let_def malloc_ptrs_set finish_set_ptrs)
  show ?thesis using fails undef empty by blast
qed

theorem data_to_packet_array_edges_witness:
  "data_to_packet_array [7] [1] (-8) 1 2 3 True demo_mem = Some (Fault Bad_Conversion)"
  using data_to_packet_array_edges [OF demo_mem_facts(1), of "-8" "[7]" "[1]" 1 2 3 True] by simp

end
