(* ===== verification/Rx_Session.thy ===== *)
theory Rx_Session
  imports Rx_Handler Network_Data
begin

text \<open>
  The session machine of \<open>Rx_Handler\<close> against whole sequences of received frames: an interface for
  receivers that ignore foreign frames and repetitions, the burst protocol over a channel that
  repeats and interleaves, and the invariants that hold whatever is received.
\<close>

section \<open>Running a receiver\<close>

fun run :: "('st \<Rightarrow> 'f \<Rightarrow> 'r \<times> 'st \<times> 'e option) \<Rightarrow> 'st \<Rightarrow> 'f list \<Rightarrow> 'st \<times> 'e list" where
  "run step S [] = (S, [])"
| "run step S (f # fs) = (case step S f of (r, S', e) \<Rightarrow>
     case run step S' fs of (T, es) \<Rightarrow> (T, (case e of None \<Rightarrow> es | Some x \<Rightarrow> x # es)))"

lemma run_append:
  "run step S (fs @ gs) = (case run step S fs of (T, es) \<Rightarrow>
     case run step T gs of (U, ds) \<Rightarrow> (U, es @ ds))"
  by (induction fs arbitrary: S) (auto split: prod.splits option.splits)

text \<open>
  A receiver for a channel that may repeat a frame until it is acknowledged and carries other
  stations' frames: what is not its own changes nothing, and a frame that has just been received is
  without effect the second time.
\<close>

locale idempotent_receiver =
  fixes step :: "'st \<Rightarrow> 'f \<Rightarrow> 'r \<times> 'st \<times> 'e option" and ours :: "'st \<Rightarrow> 'f \<Rightarrow> bool"
  assumes foreign: "\<not> ours S f \<Longrightarrow> step S f = (r, S', e) \<Longrightarrow> S' = S \<and> e = None"
    and ours_step: "step S f = (r, S', e) \<Longrightarrow> ours S' g = ours S g"
    and again: "step S f = (r, S', e) \<Longrightarrow> \<exists>r'. step S' f = (r', S', None)"
begin

lemma run_filter: "run step S (filter (ours S) gs) = run step S gs"
proof (induction gs arbitrary: S)
  case Nil
  then show ?case by simp
next
  case (Cons g gs)
  obtain r S' e where st: "step S g = (r, S', e)" by (cases "step S g") auto
  have "ours S' = ours S" using ours_step [OF st] by blast
  then show ?case
    using Cons.IH [of S'] st foreign [OF _ st] by (auto split: prod.splits option.splits)
qed

lemma run_twice: "run step S (g # g # gs) = run step S (g # gs)"
proof -
  obtain r S' e where st: "step S g = (r, S', e)" by (cases "step S g") auto
  with again [OF st] show ?thesis by (auto split: prod.splits option.splits)
qed

lemma run_cons_cong:
  assumes "\<And>S. run step S fs = run step S gs"
  shows "run step S (f # fs) = run step S (f # gs)"
  using assms by (auto split: prod.splits)

lemma run_remdups_adj: "run step S (remdups_adj gs) = run step S gs"
proof (induction gs arbitrary: S rule: remdups_adj.induct)
  case (3 x y xs)
  show ?case
  proof (cases "x = y")
    case True
    then show ?thesis using 3(1) by (simp only: remdups_adj.simps refl if_True run_twice)
  next
    case False
    then show ?thesis
      using run_cons_cong [of "remdups_adj (y # xs)" "y # xs"] 3(2) by (simp del: run.simps)
  qed
qed simp_all

lemma run_channel:
  "remdups_adj (filter (ours S) gs) = remdups_adj fs \<Longrightarrow> run step S gs = run step S fs"
  by (metis run_filter run_remdups_adj)

end

lemma session_step_foreign: "\<not> concerns S f \<Longrightarrow> session_step S f = (PACKET_REJECTED, S, None)"
  by (simp add: session_step_def)

lemma session_step_addrs:
  "session_step S f = (r, S', e) \<Longrightarrow> s_host S' = s_host S \<and> s_remote S' = s_remote S"
  by (auto simp: session_step_def split: if_splits prod.splits)

lemma session_step_last:
  "session_step S f = (r, S', e) \<Longrightarrow> concerns S f \<Longrightarrow> s_last S' = fr_ids f"
  by (auto simp: session_step_def split: if_splits prod.splits)

lemma session_step_again:
  assumes "session_step S f = (r, S', e)"
  shows "\<exists>r'. session_step S' f = (r', S', None)"
proof (cases "concerns S f")
  case True
  then have "concerns S' f" using session_step_addrs [OF assms] by (simp add: concerns_def)
  then show ?thesis using session_step_last [OF assms True] by (simp add: session_step_def)
next
  case False
  then show ?thesis using assms by (simp add: session_step_foreign)
qed

interpretation lora_receiver: idempotent_receiver session_step concerns
proof
  fix S f r S' e
  assume st: "session_step S f = (r, S', e)"
  show "concerns S' g = concerns S g" for g
    using session_step_addrs [OF st] by (simp add: concerns_def)
  show "\<exists>r'. session_step S' f = (r', S', None)" using st by (rule session_step_again)
  show "S' = S \<and> e = None" if "\<not> concerns S f" using st session_step_foreign [OF that] by simp
qed

section \<open>A burst\<close>

text \<open>The capture after the first \<open>i\<close> data frames of a burst; the array is full at 254.\<close>

definition capturing :: "session \<Rightarrow> u8 \<Rightarrow> frame list \<Rightarrow> nat \<Rightarrow> session" where
  "capturing S ack fs i = S\<lparr>s_capture := Some (ack, take 254 fs), s_last := (ack, of_nat i)\<rparr>"

lemma capturing_step:
  assumes "length fs = i" and "c \<noteq> []"
  shows "\<exists>r. session_step (capturing S ack fs i) (data_frame (s_host S) (s_remote S) ack (Suc i) c)
     = (r, capturing S ack (fs @ [data_frame (s_host S) (s_remote S) ack (Suc i) c]) (Suc i), None)"
proof -
  have "unat (of_nat (Suc i) :: u8) = Suc i" if "i < 254"
    using that by (simp add: unat_of_nat_u8 del: of_nat_Suc)
  then show ?thesis
    using assms by (auto simp: session_step_def capturing_def concerns_def data_frame_def fr_ids_def
        capture_step.simps frame_type_def)
qed

lemma run_capturing:
  assumes "[] \<notin> set cs" and "length fs = i"
  shows "run session_step (capturing S ack fs i) (number_frames (s_host S) (s_remote S) ack (Suc i) cs)
     = (capturing S ack (fs @ number_frames (s_host S) (s_remote S) ack (Suc i) cs) (i + length cs), [])"
  using assms
proof (induction cs arbitrary: fs i)
  case Nil
  then show ?case by simp
next
  case (Cons c cs)
  let ?f = "data_frame (s_host S) (s_remote S) ack (Suc i) c"
  obtain r where "session_step (capturing S ack fs i) ?f
      = (r, capturing S ack (fs @ [?f]) (Suc i), None)"
    using capturing_step Cons.prems by force
  then show ?case using Cons.IH [of "fs @ [?f]" "Suc i"] Cons.prems by simp
qed

lemma channel_run:
  "remdups_adj (filter (concerns S) gs) = fs \<Longrightarrow> run session_step S gs = run session_step S fs"
  using lora_receiver.run_remdups_adj lora_receiver.run_filter by metis

lemma begin_step:
  assumes "s_capture S = None" and "s_last S \<noteq> (ack, 0)"
  shows "session_step S (begin_frame (s_host S) (s_remote S) ack)
     = (CAPTURE_BEGIN, capturing S ack [] 0, None)"
  using assms
  by (auto simp: session_step_def begin_frame_def data_frame_def concerns_def fr_ids_def
      capture_step.simps frame_type_def capturing_def)

lemma end_step:
  "session_step (capturing S ack fs n) (end_frame (s_host S) (s_remote S) ack) =
     (if of_nat n = (255 :: u8) then (PACKET_REDUNDANT, capturing S ack fs n, None)
      else (CAPTURE_END, S\<lparr>s_capture := None, s_last := (ack, 255)\<rparr>, Some (Deliver (take 254 fs))))"
  by (auto simp: session_step_def end_frame_def data_frame_def concerns_def fr_ids_def
      capture_step.simps frame_type_def capturing_def)

lemma chunks_no_Nil: "[] \<notin> set (chunks 8 data)"
  using chunks_lengths [of "[]" 8 data] by auto

lemma run_burst:
  assumes "s_capture S = None" and "s_last S \<noteq> (ack, 0)"
    and "fs = number_frames (s_host S) (s_remote S) ack 1 (chunks 8 data)"
    and "n = length (chunks 8 data)"
  shows "run session_step S (packetise (s_host S) (s_remote S) ack True data) =
     (if of_nat n = (255 :: u8) then (capturing S ack fs n, [])
      else (S\<lparr>s_capture := None, s_last := (ack, 255)\<rparr>, [Deliver (take 254 fs)]))"
proof -
  have "run session_step (capturing S ack [] 0) fs = (capturing S ack fs n, [])"
    using run_capturing [OF chunks_no_Nil, of "[]" 0] assms(3,4) by simp
  then show ?thesis
    using begin_step [OF assms(1,2)] end_step [of S ack fs n]
    by (simp add: packetise_def assms(3) [symmetric] run_append del: One_nat_def)
qed

lemma of_nat_eq_255: "of_nat n = (255 :: u8) \<longleftrightarrow> n mod 256 = 255"
  by (simp add: word_unat_eq_iff unsigned_of_nat take_bit_eq_mod)

lemma take_number_frames:
  "take k (number_frames dest src ack i cs) = number_frames dest src ack i (take k cs)"
  by (induction cs arbitrary: k i) (auto simp: take_Cons split: nat.splits)

lemma concat_take_chunks: "concat (take k (chunks 8 xs)) = take (8 * k) xs"
proof (induction k arbitrary: xs)
  case (Suc k)
  show ?case
  proof (cases "xs = []")
    case False
    then show ?thesis using Suc [of "drop 8 xs"] take_add [of 8 "8 * k" xs] by (simp add: chunks_step)
  qed simp
qed simp

section \<open>Invariants of every session\<close>

text \<open>What can have happened to a receiver: any frames, in any order.\<close>

inductive session_trace :: "session \<Rightarrow> session \<Rightarrow> event list \<Rightarrow> bool" for S0 where
  start: "session_trace S0 S0 []"
| quiet: "session_trace S0 S es \<Longrightarrow> session_step S f = (r, S', None) \<Longrightarrow> session_trace S0 S' es"
| event: "session_trace S0 S es \<Longrightarrow> session_step S f = (r, S', Some e) \<Longrightarrow>
    session_trace S0 S' (es @ [e])"

lemma run_trace: "session_trace S0 S es \<Longrightarrow> session_trace S0 (fst (run session_step S fs)) (es @ snd (run session_step S fs))"
proof (induction fs arbitrary: S es)
  case Nil
  then show ?case by simp
next
  case (Cons f fs)
  obtain r S' e where st: "session_step S f = (r, S', e)" by (cases "session_step S f") auto
  show ?case
  proof (cases e)
    case None
    with Cons.IH [OF quiet [OF Cons.prems]] st show ?thesis by (auto split: prod.splits)
  next
    case (Some x)
    with Cons.IH [OF event [OF Cons.prems st [unfolded Some]]] st show ?thesis
      by (auto split: prod.splits)
  qed
qed

definition in_sequence :: "session \<Rightarrow> u8 \<Rightarrow> frame list \<Rightarrow> bool" where
  "in_sequence S a fs \<longleftrightarrow> length fs \<le> 254 \<and>
     (\<forall>i < length fs. concerns S (fs ! i) \<and> fr_ack (fs ! i) = a \<and>
        unat (fr_seq (fs ! i)) = i + 1 \<and> fr_data (fs ! i) \<noteq> [])"

lemma in_sequence_snoc:
  "in_sequence S a fs \<Longrightarrow> length fs < 254 \<Longrightarrow> concerns S f \<Longrightarrow> fr_ack f = a \<Longrightarrow>
   unat (fr_seq f) = length fs + 1 \<Longrightarrow> fr_data f \<noteq> [] \<Longrightarrow> in_sequence S a (fs @ [f])"
  by (auto simp: in_sequence_def nth_append less_Suc_eq)

lemma in_sequence_cong:
  "s_host S = s_host T \<Longrightarrow> s_remote S = s_remote T \<Longrightarrow> in_sequence S a fs = in_sequence T a fs"
  by (simp add: in_sequence_def concerns_def)

text \<open>How a step moves the capture.\<close>

lemma session_step_cases:
  assumes "session_step S f = (r, S', e)"
  obtains (same) "s_capture S' = s_capture S" "e = None \<or> concerns S f \<and> fr_data f \<noteq> [] \<and> e = Some (Command f)"
  | (opened) "concerns S f" "s_capture S = None" "s_capture S' = Some (fr_ack f, [])" "e = None"
      "fr_data f = []"
  | (grown) fs where "concerns S f" "s_capture S = Some (fr_ack f, fs)"
      "s_capture S' = Some (fr_ack f, fs @ [f])" "length fs < 254"
      "unat (fr_seq f) = length fs + 1" "fr_data f \<noteq> []" "e = None"
  | (closed) a fs where "s_capture S = Some (a, fs)" "s_capture S' = None" "e = Some (Deliver fs)"
      "concerns S f" "fr_data f = []"
proof (cases "concerns S f \<and> fr_ids f \<noteq> s_last S")
  case False
  with assms that(1) show ?thesis by (auto simp: session_step_def split: if_splits)
next
  case True
  then obtain c where c: "capture_step (s_capture S) f = (r, c, e)" and S': "s_capture S' = c"
    using assms by (auto simp: session_step_def split: prod.splits)
  show ?thesis
  proof (cases "frame_type f = PACKET_DATA")
    case data: True
    show ?thesis
    proof (cases e)
      case None
      have st: "capture_step (s_capture S) f = (r, c, None)" using c None by simp
      show ?thesis
        using capture_step_quiet_data [OF data st] True data None S' that(1,3)
        by (auto simp: frame_type_data split: option.splits if_splits)
    next
      case (Some x)
      then show ?thesis
        using c True data S' that(1)
        by (auto simp: capture_step.simps frame_type_data split: option.splits if_splits)
    qed
  next
    case False
    then have "fr_data f = []" by (simp add: frame_type_data)
    then show ?thesis
      using c True S' that(1,2,4) False
      by (cases "frame_type f"; cases "s_capture S") (auto simp: capture_step.simps)
  qed
qed

lemma session_trace_addrs:
  "session_trace S0 S es \<Longrightarrow> s_host S = s_host S0 \<and> s_remote S = s_remote S0"
  by (induction rule: session_trace.induct) (auto dest: session_step_addrs)

definition trace_ok :: "session \<Rightarrow> event list \<Rightarrow> bool" where
  "trace_ok S es \<longleftrightarrow>
     (case s_capture S of None \<Rightarrow> True | Some (a, fs) \<Rightarrow> in_sequence S a fs) \<and>
     (\<forall>e \<in> set es. case e of
        Deliver fs \<Rightarrow> (\<exists>a. in_sequence S a fs)
      | Command f \<Rightarrow> concerns S f \<and> fr_data f \<noteq> [])"

lemma trace_ok_step:
  assumes ok: "trace_ok S es" and st: "session_step S f = (r, S', e)"
  shows "trace_ok S' (es @ (case e of None \<Rightarrow> [] | Some x \<Rightarrow> [x]))"
proof -
  have sq: "in_sequence S' = in_sequence S" and cc: "concerns S' = concerns S"
    using session_step_addrs [OF st] by (auto simp: in_sequence_def concerns_def fun_eq_iff)
  have old: "\<forall>x \<in> set es. case x of Deliver fs \<Rightarrow> (\<exists>a. in_sequence S a fs)
      | Command g \<Rightarrow> concerns S g \<and> fr_data g \<noteq> []" using ok by (simp add: trace_ok_def)
  from st show ?thesis
  proof (cases rule: session_step_cases)
    case same
    with ok show ?thesis unfolding trace_ok_def sq cc by auto
  next
    case opened
    with old show ?thesis unfolding trace_ok_def sq cc by (simp add: in_sequence_def)
  next
    case (grown fs)
    with ok old show ?thesis unfolding trace_ok_def sq cc by (auto intro: in_sequence_snoc)
  next
    case (closed a fs)
    with ok old show ?thesis unfolding trace_ok_def sq cc by auto
  qed
qed

lemma trace_ok: "session_trace S0 S es \<Longrightarrow> s_capture S0 = None \<Longrightarrow> trace_ok S es"
proof (induction rule: session_trace.induct)
  case start
  then show ?case by (simp add: trace_ok_def)
next
  case (quiet S es f r S')
  then show ?case using trace_ok_step [OF quiet.IH quiet.hyps(2)] by simp
next
  case (event S es f r S' e)
  then show ?case using trace_ok_step [OF event.IH event.hyps(2)] by simp
qed

lemma run_captures_received:
  assumes "case s_capture S of None \<Rightarrow> True | Some (a, fs) \<Rightarrow> set fs \<subseteq> A"
    and "set (filter (concerns S) gs) \<subseteq> A" and "Deliver fs \<in> set (snd (run session_step S gs))"
  shows "set fs \<subseteq> A"
  using assms
proof (induction gs arbitrary: S)
  case Nil
  then show ?case by simp
next
  case (Cons g gs)
  obtain r S' e where st: "session_step S g = (r, S', e)" by (cases "session_step S g") auto
  have cc: "concerns S' = concerns S" using session_step_addrs [OF st] by (auto simp: concerns_def)
  have sub: "set (filter (concerns S') gs) \<subseteq> A" using Cons.prems(2) by (auto simp: cc split: if_splits)
  have ev: "e = Some (Deliver fs) \<or> Deliver fs \<in> set (snd (run session_step S' gs))"
    using Cons.prems(3) st by (auto split: prod.splits option.splits)
  from st show ?case
  proof (cases rule: session_step_cases)
    case same
    with Cons.prems(1) ev show ?thesis by (intro Cons.IH [OF _ sub]) auto
  next
    case opened
    with ev show ?thesis by (intro Cons.IH [OF _ sub]) auto
  next
    case (grown ks)
    then have "g \<in> A" using Cons.prems(2) by simp
    with grown Cons.prems(1) ev show ?thesis by (intro Cons.IH [OF _ sub]) auto
  next
    case (closed a ks)
    with ev Cons.prems(1) Cons.IH [OF _ sub] show ?thesis by auto
  qed
qed

lemma packetise_data:
  assumes "f \<in> set (packetise dest src ack True data)" and "fr_data f \<noteq> []"
  shows "\<exists>j < length (chunks 8 data). f = data_frame dest src ack (Suc j) (chunks 8 data ! j)"
proof -
  have "f \<in> set (number_frames dest src ack 1 (chunks 8 data))"
    using assms by (auto simp: packetise_def begin_frame_def end_frame_def data_frame_def)
  then obtain j where "j < length (chunks 8 data)" "f = number_frames dest src ack 1 (chunks 8 data) ! j"
    by (auto simp: in_set_conv_nth)
  then show ?thesis by (auto simp: number_frames_nth plus_1_eq_Suc simp del: One_nat_def)
qed

lemma in_sequence_of_burst:
  assumes s: "in_sequence S a fs" and A: "set fs \<subseteq> set (packetise dest src ack True data)"
    and n: "length (chunks 8 data) \<le> 254"
  shows "fs = take (length fs) (number_frames dest src ack 1 (chunks 8 data))"
proof -
  have nth: "i < length (chunks 8 data) \<and> fs ! i = number_frames dest src ack 1 (chunks 8 data) ! i"
    if i: "i < length fs" for i
  proof -
    have q: "unat (fr_seq (fs ! i)) = i + 1" "fr_data (fs ! i) \<noteq> []"
      using s i by (simp_all add: in_sequence_def)
    then obtain j where j: "j < length (chunks 8 data)"
      "fs ! i = data_frame dest src ack (Suc j) (chunks 8 data ! j)"
      using packetise_data [of "fs ! i"] A nth_mem [OF i] by blast
    then have "unat (fr_seq (fs ! i)) = Suc j"
      using n by (simp add: data_frame_def unat_of_nat_u8 del: of_nat_Suc)
    with q j show ?thesis by (simp add: number_frames_nth plus_1_eq_Suc del: One_nat_def)
  qed
  then have "length fs \<le> length (chunks 8 data)"
    by (metis less_irrefl not_le)
  with nth show ?thesis by (intro nth_equalityI) simp_all
qed

lemma number_frames_hd:
  "cs \<noteq> [] \<Longrightarrow> hd (number_frames dest src ack i cs) = data_frame dest src ack i (hd cs)"
  by (cases cs) simp_all

lemma number_frames_distinct_adj: "distinct_adj (number_frames dest src ack i cs)"
proof (induction cs arbitrary: i)
  case (Cons c cs)
  have "data_frame dest src ack i c \<noteq> data_frame dest src ack (Suc i) d" for d
    by (simp add: data_frame_def)
  then show ?case
    using Cons.IH [of "Suc i"] by (cases cs) (auto simp: distinct_adj_Cons)
qed simp

lemma packetise_channel:
  "remdups_adj (filter (concerns S) (packetise (s_host S) (s_remote S) ack True data))
     = packetise (s_host S) (s_remote S) ack True data"
proof -
  let ?h = "s_host S" and ?r = "s_remote S"
  let ?ns = "number_frames ?h ?r ack 1 (chunks 8 data)"
  have mem: "fr_data f \<noteq> [] \<and> concerns S f" if "f \<in> set ?ns" for f
    using that chunks_no_Nil [of data]
    by (auto simp: in_set_conv_nth number_frames_nth data_frame_def concerns_def simp del: One_nat_def)
  have ne: "begin_frame ?h ?r ack \<noteq> end_frame ?h ?r ack" "fr_data (begin_frame ?h ?r ack) = []"
    "fr_data (end_frame ?h ?r ack) = []"
    by (simp_all add: begin_frame_def end_frame_def data_frame_def)
  have "?ns \<noteq> [] \<Longrightarrow> begin_frame ?h ?r ack \<noteq> hd ?ns \<and> last ?ns \<noteq> end_frame ?h ?r ack"
    using mem [of "hd ?ns"] mem [of "last ?ns"] ne by (metis hd_in_set last_in_set)
  then have "distinct_adj (packetise ?h ?r ack True data)"
    using number_frames_distinct_adj [of ?h ?r ack 1 "chunks 8 data"] ne(1)
    by (cases "?ns = []") (simp_all add: packetise_def distinct_adj_Cons distinct_adj_append_iff del: One_nat_def)
  moreover have "filter (concerns S) (packetise ?h ?r ack True data) = packetise ?h ?r ack True data"
    using mem by (auto simp: packetise_def begin_frame_def end_frame_def data_frame_def concerns_def
        simp del: One_nat_def)
  ultimately show ?thesis by (simp add: distinct_adj_altdef)
qed

text \<open>A heard burst is delivered.\<close>

lemma channel_delivers:
  assumes "s_capture S = None" and "s_last S \<noteq> (ack, 0)" and "length data \<le> 254 * 8"
    and "remdups_adj (filter (concerns S) gs) = packetise (s_host S) (s_remote S) ack True data"
  shows "\<exists>T fs. run session_step S gs = (T, [Deliver fs]) \<and> s_capture T = None \<and>
     s_last T = (ack, 255) \<and> concat (map fr_data fs) = data"
proof -
  let ?cs = "chunks 8 data"
  have n: "length ?cs \<le> 254" using assms(3) by (simp add: length_chunks)
  then have "of_nat (length ?cs) \<noteq> (255 :: u8)" by (simp add: of_nat_eq_255)
  then have "run session_step S (packetise (s_host S) (s_remote S) ack True data)
      = (S\<lparr>s_capture := None, s_last := (ack, 255)\<rparr>,
         [Deliver (number_frames (s_host S) (s_remote S) ack 1 ?cs)])"
    using run_burst [OF assms(1,2) refl refl] n by (simp add: take_number_frames del: One_nat_def)
  moreover have "concat (map fr_data (number_frames (s_host S) (s_remote S) ack 1 ?cs)) = data"
    by (simp add: concat_chunks del: One_nat_def)
  moreover have "run session_step S gs = run session_step S (packetise (s_host S) (s_remote S) ack True data)"
    using assms(4) by (rule channel_run)
  ultimately show ?thesis by simp
qed

section \<open>What a session makes of a burst\<close>

text \<open>Immediate repetitions and other stations' traffic are invisible.\<close>

lemma session_retransmissions:
  "run session_step S gs = run session_step S (remdups_adj (filter (concerns S) gs))"
  by (simp only: lora_receiver.run_remdups_adj lora_receiver.run_filter)

definition demo_burst :: "frame list" where
  "demo_burst = (let b = begin_frame 2 1 7; f = data_frame 2 1 7 1 [104, 105]; e = end_frame 2 1 7;
     noise = data_frame 9 1 7 1 [33] in [b, b, noise, f, f, noise, f, e, e])"

lemma demo_burst_heard:
  "remdups_adj (filter (concerns (new_session 2 1)) demo_burst)
     = packetise (s_host (new_session 2 1)) (s_remote (new_session 2 1)) 7 True [104, 105]"
  by (simp add: demo_burst_def Let_def new_session_def concerns_def begin_frame_def end_frame_def
      data_frame_def packetise_def chunks_step)

text \<open>Data packets after it, under another ack id than zero, are commands, one each.\<close>

lemma run_commands:
  assumes "s_capture S = None" and "\<And>c. c \<in> set cs \<Longrightarrow> concerns S c \<and> fr_data c \<noteq> [] \<and> fr_ack c \<noteq> 0"
    and "distinct_adj (s_last S # map fr_ids cs)"
  shows "run session_step S cs = (S\<lparr>s_last := last (s_last S # map fr_ids cs)\<rparr>, map Command cs)"
  using assms
proof (induction cs arbitrary: S)
  case (Cons c cs)
  let ?T = "S\<lparr>s_last := fr_ids c\<rparr>"
  have c: "concerns S c" "fr_data c \<noteq> []" "fr_ack c \<noteq> 0" "s_last S \<noteq> fr_ids c"
    using Cons.prems(2) [of c] Cons.prems(3) by simp_all
  then have "frame_type c = PACKET_DATA" by (simp add: frame_type_data)
  then have step: "session_step S c = (COMMAND_PACKET, ?T, Some (Command c))"
    using c c(4) [symmetric] Cons.prems(1) by (simp add: session_step_def capture_step.simps)
  have "run session_step ?T cs = (?T\<lparr>s_last := last (s_last ?T # map fr_ids cs)\<rparr>, map Command cs)"
  proof (rule Cons.IH)
    show "s_capture ?T = None" using Cons.prems(1) by simp
    show "concerns ?T d \<and> fr_data d \<noteq> [] \<and> fr_ack d \<noteq> 0" if "d \<in> set cs" for d
      using Cons.prems(2) [of d] that by (simp add: concerns_def)
    show "distinct_adj (s_last ?T # map fr_ids cs)" using Cons.prems(3) by simp
  qed
  then show ?case using step by simp
qed simp

lemma burst_then_commands:
  assumes S: "s_capture S = None" "s_last S \<noteq> (ack, 0)" and len: "length data \<le> 254 * 8"
    and heard: "remdups_adj (filter (concerns S) gs) = packetise (s_host S) (s_remote S) ack True data @ cs"
    and cs: "\<And>c. c \<in> set cs \<Longrightarrow> fr_data c \<noteq> [] \<and> fr_ack c \<noteq> 0" "distinct_adj ((ack, 255) # map fr_ids cs)"
  shows "\<exists>T fs. run session_step S gs = (T, Deliver fs # map Command cs) \<and> s_capture T = None \<and>
     s_host T = s_host S \<and> s_remote T = s_remote S \<and> s_last T = last ((ack, 255) # map fr_ids cs) \<and>
     concat (map fr_data fs) = data"
proof -
  let ?ps = "packetise (s_host S) (s_remote S) ack True data"
  obtain U fs where U: "run session_step S ?ps = (U, [Deliver fs])" "s_capture U = None" "s_last U = (ack, 255)"
    "concat (map fr_data fs) = data" using channel_delivers [OF S len packetise_channel] by blast
  have ad: "s_host U = s_host S" "s_remote U = s_remote S"
    using session_trace_addrs [OF run_trace [OF start, of S ?ps]] U(1) by simp_all
  have "c \<in> set (filter (concerns S) gs)" if "c \<in> set cs" for c
    using that arg_cong [OF heard, of set] by auto
  then have "concerns U c \<and> fr_data c \<noteq> [] \<and> fr_ack c \<noteq> 0" if "c \<in> set cs" for c
    using cs(1) ad that by (simp add: concerns_def)
  then have "run session_step U cs = (U\<lparr>s_last := last ((ack, 255) # map fr_ids cs)\<rparr>, map Command cs)"
    using run_commands [OF U(2)] cs(2) U(3) by simp
  moreover have "run session_step S gs = run session_step S (?ps @ cs)" by (rule channel_run [OF heard])
  ultimately show ?thesis using U ad by (simp add: run_append)
qed

text \<open>Beyond 254 data packets the burst is cut off; at 255 modulo 256 it does not end.\<close>

lemma session_overlong:
  assumes "s_capture S = None" and "s_last S \<noteq> (ack, 0)" and "254 * 8 < length data"
    and "remdups_adj (filter (concerns S) gs) = packetise (s_host S) (s_remote S) ack True data"
  shows "if ((length data + 7) div 8) mod 256 = 255
    then \<exists>T a fs. run session_step S gs = (T, []) \<and> s_capture T = Some (a, fs) \<and> length fs = 254
    else \<exists>T fs. run session_step S gs = (T, [Deliver fs]) \<and> s_capture T = None \<and> s_host T = s_host S \<and>
      s_remote T = s_remote S \<and> s_last T = (ack, 255) \<and> concat (map fr_data fs) = take 2032 data"
proof -
  let ?cs = "chunks 8 data"
  have n: "length ?cs = (length data + 7) div 8" by (simp add: length_chunks)
  have "concat (map fr_data (take 254 (number_frames (s_host S) (s_remote S) ack 1 ?cs))) = take 2032 data"
    using concat_take_chunks [of 254 data] by (simp add: take_number_frames del: One_nat_def)
  then show ?thesis
    unfolding channel_run [OF assms(4)]
    using run_burst [OF assms(1,2) refl refl, of data] assms(3)
    by (simp add: of_nat_eq_255 n capturing_def del: One_nat_def)
qed

text \<open>Frames of one burst in any number and order: a prefix of the data.\<close>

lemma session_delivery_prefix:
  assumes "s_capture S = None" and "length data \<le> 254 * 8"
    and "set (filter (concerns S) gs) \<subseteq> set (packetise (s_host S) (s_remote S) ack True data)"
    and "Deliver fs \<in> set (snd (run session_step S gs))"
  shows "concat (map fr_data fs) = take (8 * length fs) data"
proof -
  let ?A = "set (packetise (s_host S) (s_remote S) ack True data)"
  have ok: "trace_ok (fst (run session_step S gs)) (snd (run session_step S gs))"
    using trace_ok [OF run_trace [OF start]] assms(1) by fastforce
  then obtain a where "in_sequence (fst (run session_step S gs)) a fs"
    using assms(4) by (fastforce simp: trace_ok_def)
  moreover have "set fs \<subseteq> ?A"
    using run_captures_received [where A = ?A and S = S and gs = gs and fs = fs] assms(1,3,4) by fastforce
  ultimately have "fs = take (length fs) (number_frames (s_host S) (s_remote S) ack 1 (chunks 8 data))"
    using assms(2) by (intro in_sequence_of_burst) (simp_all add: length_chunks)
  then have "map fr_data fs = take (length fs) (chunks 8 data)"
    by (metis number_frames_data take_map)
  then show ?thesis by (simp add: concat_take_chunks)
qed

section \<open>A burst without its BEGIN\<close>

text \<open>An idle receiver takes a data frame for a command, unless its ack id is the zero that an idle
  handler has as capture id.\<close>

definition idle_note :: "session \<Rightarrow> u8 \<times> u8 \<Rightarrow> session" where
  "idle_note S ids = S\<lparr>s_last := ids\<rparr>"

lemma idle_data_step:
  assumes "s_capture S = None" and "c \<noteq> []" and "s_last S \<noteq> (ack, of_nat i)"
  shows "\<exists>r. session_step S (data_frame (s_host S) (s_remote S) ack i c) =
     (r, idle_note S (ack, of_nat i),
      if ack = 0 then None else Some (Command (data_frame (s_host S) (s_remote S) ack i c)))"
  using assms
  by (auto simp: session_step_def concerns_def data_frame_def fr_ids_def capture_step.simps
      frame_type_def idle_note_def)

lemma idle_note_sel [simp]:
  "s_host (idle_note S ids) = s_host S" "s_remote (idle_note S ids) = s_remote S"
  "s_capture (idle_note S ids) = s_capture S" "s_last (idle_note S ids) = ids"
  "idle_note (idle_note S ids) jds = idle_note S jds"
  by (simp_all add: idle_note_def)

lemma run_idle:
  assumes "s_capture S = None" and "[] \<notin> set cs" and "s_last S \<noteq> (ack, of_nat i)"
  shows "\<exists>ids. run session_step S (number_frames (s_host S) (s_remote S) ack i cs) =
     (idle_note S ids, if ack = 0 then [] else map Command (number_frames (s_host S) (s_remote S) ack i cs))"
  using assms
proof (induction cs arbitrary: S i)
  case Nil
  have "S = idle_note S (s_last S)" by (simp add: idle_note_def)
  then show ?case by (metis list.map_disc_iff number_frames.simps(1) run.simps(1))
next
  case (Cons c cs)
  let ?f = "data_frame (s_host S) (s_remote S) ack i c"
  let ?T = "idle_note S (ack, of_nat i)"
  obtain r where st: "session_step S ?f = (r, ?T, if ack = 0 then None else Some (Command ?f))"
    using idle_data_step [of S c ack i] Cons.prems by force
  obtain ids where "run session_step ?T (number_frames (s_host S) (s_remote S) ack (Suc i) cs) =
      (idle_note S ids, if ack = 0 then [] else map Command (number_frames (s_host S) (s_remote S) ack (Suc i) cs))"
    using Cons.IH [of ?T "Suc i"] Cons.prems by auto
  with st show ?case by (intro exI [of _ ids]) simp
qed

lemma idle_end_step:
  assumes "s_capture S = None"
  shows "\<exists>r ids. session_step S (end_frame (s_host S) (s_remote S) ack) = (r, idle_note S ids, None)"
proof (cases "s_last S = (ack, 255)")
  case True
  then have "session_step S (end_frame (s_host S) (s_remote S) ack) = (PACKET_REDUNDANT, idle_note S (s_last S), None)"
    by (simp add: session_step_def end_frame_def concerns_def data_frame_def fr_ids_def idle_note_def)
  then show ?thesis by blast
next
  case False
  then have "session_step S (end_frame (s_host S) (s_remote S) ack) = (CAPTURE_NOT_ON, idle_note S (ack, 255), None)"
    using assms by (simp add: session_step_def end_frame_def concerns_def data_frame_def fr_ids_def
        capture_step.simps frame_type_def idle_note_def)
  then show ?thesis by blast
qed

definition burst_shape :: "u16 \<Rightarrow> u16 \<Rightarrow> frame list \<Rightarrow> bool" where
  "burst_shape host remote fs \<longleftrightarrow> length fs \<le> 254 \<and> map (unat \<circ> fr_seq) fs = [1..<length fs + 1] \<and>
     (\<forall>f \<in> set fs. fr_dest f = host \<and> fr_src f = remote \<and> fr_data f \<noteq> [] \<and>
        (\<forall>g \<in> set fs. fr_ack g = fr_ack f))"

lemma in_sequence_shape: "in_sequence S a fs \<Longrightarrow> burst_shape (s_host S) (s_remote S) fs"
proof -
  assume s: "in_sequence S a fs"
  have "concerns S f \<and> fr_ack f = a \<and> fr_data f \<noteq> []" if f: "f \<in> set fs" for f
  proof -
    obtain i where "i < length fs" "f = fs ! i" using f by (auto simp: in_set_conv_nth)
    with s show ?thesis by (simp add: in_sequence_def)
  qed
  moreover have "map (unat \<circ> fr_seq) fs = [1..<length fs + 1]"
    using s by (intro nth_equalityI) (simp_all add: in_sequence_def del: upt_Suc)
  ultimately show ?thesis using s by (simp add: burst_shape_def in_sequence_def concerns_def)
qed

section \<open>Lost bursts and all sessions\<close>

lemma session_missed_begin:
  assumes "s_capture S = None" and "ack \<noteq> 0" and "s_last S \<noteq> (ack, 1)"
    and "remdups_adj (filter (concerns S) gs) = tl (packetise (s_host S) (s_remote S) ack True data)"
  shows "\<exists>T fs. run session_step S gs = (T, map Command fs) \<and> s_capture T = None \<and>
     map fr_data fs = chunks 8 data"
proof -
  let ?fs = "number_frames (s_host S) (s_remote S) ack 1 (chunks 8 data)"
  obtain ids where "run session_step S ?fs = (idle_note S ids, map Command ?fs)"
    using run_idle [OF assms(1) chunks_no_Nil, of ack 1 data] assms(2,3) by (auto simp del: One_nat_def)
  moreover obtain r jds where "session_step (idle_note S ids) (end_frame (s_host S) (s_remote S) ack)
      = (r, idle_note S jds, None)"
    using idle_end_step [of "idle_note S ids" ack] assms(1) by auto
  ultimately have "run session_step S (?fs @ [end_frame (s_host S) (s_remote S) ack])
      = (idle_note S jds, map Command ?fs)"
    by (simp add: run_append)
  moreover have "tl (packetise (s_host S) (s_remote S) ack True data)
      = ?fs @ [end_frame (s_host S) (s_remote S) ack]"
    by (simp add: packetise_def)
  ultimately have "run session_step S gs = (idle_note S jds, map Command ?fs)"
    using channel_run [OF assms(4)] by simp
  moreover have "map fr_data ?fs = chunks 8 data" by simp
  ultimately show ?thesis using assms(1) by (metis idle_note_sel(3))
qed

lemma session_ack_zero:
  assumes "S = new_session host remote"
    and "remdups_adj (filter (concerns S) gs) = packetise host remote 0 True data"
  shows "snd (run session_step S gs) = [] \<and> s_capture (fst (run session_step S gs)) = None"
proof -
  let ?fs = "number_frames (s_host S) (s_remote S) 0 1 (chunks 8 data)"
  have S: "s_host S = host" "s_remote S = remote" "s_capture S = None" "s_last S = (0, 0)"
    using assms(1) by (simp_all add: new_session_def)
  have bg: "session_step S (begin_frame host remote 0) = (PACKET_REDUNDANT, S, None)"
    using S by (simp add: session_step_def begin_frame_def data_frame_def concerns_def fr_ids_def)
  obtain ids where fs: "run session_step S ?fs = (idle_note S ids, [])"
    using run_idle [OF S(3) chunks_no_Nil, of 0 1 data] S(4) by (auto simp del: One_nat_def)
  obtain r jds where en: "session_step (idle_note S ids) (end_frame host remote 0)
      = (r, idle_note S jds, None)"
    using idle_end_step [of "idle_note S ids" 0] S by auto
  have "run session_step S (packetise host remote 0 True data) = (idle_note S jds, [])"
    using bg fs en S(1,2) by (simp add: packetise_def run_append del: One_nat_def)
  then show ?thesis using channel_run [OF assms(2)] S(3) by simp
qed

lemma session_shapes:
  assumes "s_capture S = None" and "run session_step S gs = (T, es)"
  shows "s_capture T = Some (a, fs) \<Longrightarrow> burst_shape (s_host S) (s_remote S) fs \<and> (\<forall>f \<in> set fs. fr_ack f = a)"
    and "Deliver fs \<in> set es \<Longrightarrow> burst_shape (s_host S) (s_remote S) fs"
    and "Command f \<in> set es \<Longrightarrow> fr_dest f = s_host S \<and> fr_src f = s_remote S \<and> fr_data f \<noteq> []"
proof -
  have tr: "session_trace S T es" using run_trace [OF start, of S gs] assms(2) by simp
  have ok: "trace_ok T es" using trace_ok [OF tr assms(1)] .
  have ad: "s_host T = s_host S" "s_remote T = s_remote S" using session_trace_addrs [OF tr] by simp_all
  show "burst_shape (s_host S) (s_remote S) fs \<and> (\<forall>f \<in> set fs. fr_ack f = a)" if "s_capture T = Some (a, fs)"
  proof -
    have q: "in_sequence T a fs" using ok that by (simp add: trace_ok_def)
    then have "\<forall>f \<in> set fs. fr_ack f = a" by (auto simp: in_sequence_def in_set_conv_nth)
    then show ?thesis using in_sequence_shape [OF q] ad by simp
  qed
  show "burst_shape (s_host S) (s_remote S) fs" if "Deliver fs \<in> set es"
    using ok that in_sequence_shape [of T _ fs] ad by (fastforce simp: trace_ok_def)
  show "fr_dest f = s_host S \<and> fr_src f = s_remote S \<and> fr_data f \<noteq> []" if "Command f \<in> set es"
    using ok that by (fastforce simp: trace_ok_def concerns_def ad)
qed

lemma session_commands_heard:
  "run session_step S gs = (T, es) \<Longrightarrow> Command f \<in> set es \<Longrightarrow> f \<in> set gs"
proof (induction gs arbitrary: S es)
  case (Cons g gs)
  obtain r S' e where st: "session_step S g = (r, S', e)" by (cases "session_step S g") auto
  obtain ds where ds: "run session_step S' gs = (T, ds)" "es = (case e of None \<Rightarrow> ds | Some x \<Rightarrow> x # ds)"
    using Cons.prems(1) st by (auto split: prod.splits option.splits)
  have "e = Some (Command f) \<or> Command f \<in> set ds" using Cons.prems(2) ds(2) by (auto split: option.splits)
  moreover have "e = Some (Command f) \<Longrightarrow> f = g" using st by (cases rule: session_step_cases) auto
  ultimately show ?case using Cons.IH [OF ds(1)] by auto
qed simp

end
