(* ===== verification/Rx_Loop.thy ===== *)
theory Rx_Loop
  imports Peer Rx_Session
begin

text \<open>
  \<open>start_rx_loop\<close> of \<open>src/sx127x_rx_utils.c\<close>: wait for a reception, parse it, acknowledge it, hand it to
  the session handler, for ever. The loop is a partial function over one iteration, which either
  leaves the loop with an error or goes on with the handler's context. On the scripted peer, which here
  plays the sender (each acknowledgement brings its next frame), an iteration is one step of the
  abstract session.
\<close>

unbundle bit_operations_syntax

section \<open>The code\<close>

text \<open>Acknowledging the packet in \<open>rx_p\<close>; the acknowledgement packet is not freed.\<close>

definition send_ack :: "nat \<Rightarrow> ('w, 'z, sx127x_err_t) mcmd" where
  "send_ack rx_p =
     andThen (load_packet rx_p) (\<lambda>k.
     andThen (ack_packet (src_address k) (dest_address k) (ack_id k) (sequence_number k)) (\<lambda>a.
     sx_1278_send_packet a False))"

type_synonym ('w, 'z) rx_ctx = "('w, 'z) machine_scheme rx_handler_ctx"

text \<open>\<open>Inl ret\<close> leaves the loop with \<open>ret\<close>, \<open>Inr ctx\<close> goes round again.\<close>

definition rx_iteration ::
  "('w, 'z) rx_ctx \<Rightarrow> nat \<Rightarrow> ('w, 'z, sx127x_err_t + ('w, 'z) rx_ctx) mcmd" where
  "rx_iteration handler rx_p =
     andThen sx1278_clear_irq (\<lambda>ret.
     if ret \<noteq> SX_OK then andThen (log_err RX_UTILS_TAG ''couldnt clear irq'') (\<lambda>_. give (Inl ret))
     else
       andThen (sx1278_switch_mode (MODE_LORA OR MODE_RX_CONTINUOUS)) (\<lambda>ret.
       if ret \<noteq> SX_OK then
         andThen (log_err RX_UTILS_TAG ''error occured while switching mode'') (\<lambda>_. give (Inl ret))
       else
         andThen (poll_for_irq_flag_no_timeout 1 (push_bit 6 1) False) (\<lambda>ret.
         if ret \<noteq> SX_OK then
           andThen (log_err RX_UTILS_TAG ''failed poll for packet received flag. '') (\<lambda>_. give (Inr handler))
         else
           andThen (read_last_packet rx_p) (\<lambda>ret.
           if ret \<noteq> SX_OK then
             andThen (log_err RX_UTILS_TAG ''error occured while reading the last packet'') (\<lambda>_.
             give (Inr handler))
           else
             andThen (send_ack rx_p) (\<lambda>ret.
             if ret \<noteq> SX_OK then
               andThen (log_err RX_UTILS_TAG ''error occured while sending the ack packet'') (\<lambda>_. give (Inl ret))
             else
               andThen (rx_packet_handler handler rx_p) (\<lambda>(_, handler'). give (Inr handler')))))))"

lemma case_sum_apply_mono [partial_function_mono]:
  assumes "\<And>x. mono_option (\<lambda>f. m f x s)" and "\<And>y. mono_option (\<lambda>f. n f y s)"
  shows "mono_option (\<lambda>f. (case r of Inl x \<Rightarrow> m f x | Inr y \<Rightarrow> n f y) s)"
  using assms by (cases r) simp_all

partial_function (option) rx_loop ::
  "('w, 'z) rx_ctx \<Rightarrow> nat \<Rightarrow> ('w, 'z, sx127x_err_t \<times> ('w, 'z) rx_ctx) mcmd" where
  "rx_loop handler rx_p s =
     andThen (rx_iteration handler rx_p) (\<lambda>r. case r of
       Inl ret \<Rightarrow> give (ret, handler)
     | Inr handler' \<Rightarrow> rx_loop handler' rx_p) s"

definition start_rx_loop :: "('w, 'z) rx_ctx \<Rightarrow> ('w, 'z, sx127x_err_t \<times> ('w, 'z) rx_ctx) mcmd" where
  "start_rx_loop handler =
     andThen malloc_packet (\<lambda>rx_p.
     andThen (store_packet rx_p (\<lambda>k. k\<lparr>payload := NULL\<rparr>)) (\<lambda>_.
     andThen (malloc_bytes 2048) (\<lambda>p_desc.
     andThen
       (andThen (sx1278_switch_mode (MODE_LORA OR MODE_RX_CONTINUOUS)) (\<lambda>ret.
        if ret \<noteq> SX_OK then
          andThen (log_err RX_UTILS_TAG ''error occured while switching mode'') (\<lambda>_. give (ret, handler))
        else rx_loop handler rx_p)) (\<lambda>r.
     andThen (free_packet rx_p) (\<lambda>_.
     andThen (c_free p_desc) (\<lambda>_.
     give r))))))"

text \<open>The first \<open>n\<close> rounds of the loop: where it then is, or how it was left before.\<close>

primrec rx_rounds ::
  "nat \<Rightarrow> ('w, 'z) rx_ctx \<Rightarrow> nat \<Rightarrow> ('w, 'z, sx127x_err_t \<times> ('w, 'z) rx_ctx + ('w, 'z) rx_ctx) mcmd" where
  "rx_rounds 0 handler rx_p = give (Inr handler)"
| "rx_rounds (Suc n) handler rx_p =
     andThen (rx_iteration handler rx_p) (\<lambda>r. case r of
       Inl ret \<Rightarrow> give (Inl (ret, handler))
     | Inr handler' \<Rightarrow> rx_rounds n handler' rx_p)"

lemma rx_loop_rounds:
  "rx_rounds n h rx s = Some (Ret (Inr h') t) \<Longrightarrow> rx_loop h rx s = rx_loop h' rx t"
proof (induction n arbitrary: h s)
  case (Suc n)
  then obtain h1 t1 where "rx_iteration h rx s = Some (Ret (Inr h1) t1)" "rx_rounds n h1 rx t1 = Some (Ret (Inr h') t)"
    by (auto simp: andThen_def split: option.splits outcome.splits sum.splits)
  then show ?case using Suc.IH [of h1 t1] by (subst rx_loop.simps) simp
qed simp

section \<open>One iteration on the peer\<close>

lemma ack_frame_view:
  assumes "blocks s p = Some (Pkt k)" and "packet_view s p = Some g"
  shows "\<lparr>fr_dest = src_address k, fr_src = dest_address k, fr_ack = ack_id k, fr_seq = sequence_number k,
     fr_data = []\<rparr> = ack_of g"
  using packet_view_sel [OF assms(2,1)] by (simp add: ack_of_def)

lemma peer_send_ack:
  assumes p: "at_peer s" and v: "packet_view s rx = Some g"
  shows "\<exists>u. send_ack rx s = Some (Ret SX_OK u) \<and> at_peer u \<and> keeps {} s (s\<lparr>blocks := blocks u, fresh := fresh u\<rparr>) \<and>
     blocks s \<subseteq>\<^sub>m blocks u \<and>
     u = s\<lparr>blocks := blocks u, fresh := fresh u, world := (world s)\<lparr>air := air (world s) @ [wire (ack_of g)]\<rparr>,
       tx_buffer := tx_buffer u\<rparr>"
proof -
  have h: "on_peer s" "mem_ok s" "alloc_never_fails s" using p by (simp_all add: at_peer_def)
  obtain k where k: "blocks s rx = Some (Pkt k)" using v by (rule packet_viewE)
  let ?s1 = "s\<lparr>blocks := (blocks s)(fresh s \<mapsto> Pkt (packet_of (ack_of g) NULL)), fresh := Suc (fresh s)\<rparr>"
  have ack: "ack_packet (src_address k) (dest_address k) (ack_id k) (sequence_number k) s
      = Some (Ret (fresh s) ?s1)"
    using ack_packet_run [of s] h(3) ack_frame_view [OF k v] by simp
  have at1: "at_peer ?s1" using p by (auto simp: at_peer_def on_air_def mem_ok_def alloc_never_fails_def)
  have v1: "packet_view ?s1 (fresh s) = Some (ack_of g)"
    by (rule packet_view_packet_of [where q = NULL]) (simp_all add: frame_ok_def ack_of_def)
  have "length (fr_data (ack_of g)) \<le> 8" by (simp add: ack_of_def)
  from peer_send_packet [OF at1 v1 this, of False] ack
  have run: "send_ack rx s = Some (Ret SX_OK (?s1\<lparr>fresh := fresh ?s1 + 2,
      world := (world ?s1)\<lparr>air := air (world ?s1) @ [wire (ack_of g)]\<rparr>,
      tx_buffer := overlay (tx_buffer ?s1) 0 (wire (ack_of g))\<rparr>))" (is "_ = Some (Ret SX_OK ?u)")
    by (simp add: send_ack_def load_packet_run [OF k])
  moreover have "at_peer ?u" using at1
    by (auto simp: at_peer_def on_air_def mem_ok_def alloc_never_fails_def ack_of_def)
  moreover have "blocks s \<subseteq>\<^sub>m blocks ?u" using h(2) by (auto simp: map_le_def)
  ultimately show ?thesis by (intro exI [of _ ?u]) (auto simp: keeps_def)
qed

lemma peer_poll_no_timeout:
  assumes "on_peer s" and "answer (world s) \<noteq> None"
  shows "poll_for_irq_flag_no_timeout interval (push_bit 6 1) False s = Some (Ret SX_OK s)"
  using assms no_timeout_loop_cases [OF peer_irq [OF assms(1)], of interval "push_bit 6 1" False 0]
  by (auto simp: poll_for_irq_flag_no_timeout_def irq_cleanup_def)

lemma peer_receive_and_ack:
  assumes p: "at_peer s" and a: "answer (world s) = Some g" and l: "length (wire g) \<le> 255"
    and k: "blocks s rx = Some (Pkt k)"
  shows "\<exists>v u. read_last_packet rx s = Some (Ret SX_OK v) \<and> send_ack rx v = Some (Ret SX_OK u) \<and>
     at_peer u \<and> heap_keeps {rx} s u \<and> packet_view u rx = Some g \<and> machine.more u = machine.more s \<and>
     world u = (world s)\<lparr>air := air (world s) @ [wire (ack_of g)]\<rparr> \<and>
     blocks u rx = Some (Pkt (packet_of g (if fr_data g = [] then NULL else fresh s)))"
proof -
  have h: "on_peer s" "mem_ok s" using p by (simp_all add: at_peer_def)
  let ?v = "parsed s rx g"
  have read: "read_last_packet rx s = Some (Ret SX_OK ?v)" by (rule peer_read_last_packet [OF p a l k])
  have kv: "keeps {rx} s ?v" by (rule parsed_keeps [OF h(2) k])
  have mv: "mem_ok ?v" by (rule parsed_mem_ok [OF h(2) k])
  have pv: "at_peer ?v" using p mv keeps_never_fails [OF kv]
    by (auto simp: at_peer_def on_air_def parsed_def)
  have vv: "packet_view ?v rx = Some g" by (rule parsed_view [OF h(2) k]) (use l in \<open>simp add: frame_ok_def\<close>)
  obtain u where u: "send_ack rx ?v = Some (Ret SX_OK u)" "at_peer u"
    "keeps {} ?v (?v\<lparr>blocks := blocks u, fresh := fresh u\<rparr>)" "blocks ?v \<subseteq>\<^sub>m blocks u"
    "u = ?v\<lparr>blocks := blocks u, fresh := fresh u, world := (world ?v)\<lparr>air := air (world ?v) @ [wire (ack_of g)]\<rparr>,
       tx_buffer := tx_buffer u\<rparr>"
    using peer_send_ack [OF pv vv] by blast
  have more: "machine.more u = machine.more s" "world u = (world s)\<lparr>air := air (world s) @ [wire (ack_of g)]\<rparr>"
    "alloc_ok u = alloc_ok s"
    by (subst u(5), simp add: parsed_def)+
  have "heap_keeps {} ?v u" using u(3) by (subst u(5)) (auto simp: keeps_def heap_keeps_def)
  then have hk: "heap_keeps {rx} s u"
    using heap_keeps_trans [OF keeps_heap [OF kv]] by simp
  obtain kg where kg: "blocks ?v rx = Some (Pkt kg)" using vv by (rule packet_viewE)
  have hv: "heap_keeps {} ?v u" by fact
  then have vu: "packet_view u rx = Some g" by (rule packet_view_heap_keeps [OF vv _ mv]) simp
  have "rx < fresh ?v" using mem_ok_Some_less [OF mv kg] by simp
  then have "blocks u rx = blocks ?v rx" using heap_keeps_block [OF hv] by simp
  then have "blocks u rx = Some (Pkt (packet_of g (if fr_data g = [] then NULL else fresh s)))"
    by (simp add: parsed_def)
  then show ?thesis using read u(1,2) hk more vu by blast
qed

text \<open>An iteration with a frame to receive: it is parsed and acknowledged before the handler sees it.\<close>

lemma peer_rx_iteration:
  assumes p: "at_peer s" and a: "answer (world s) = Some g" and l: "length (wire g) \<le> 255"
    and k: "blocks s rx = Some (Pkt k)"
  shows "\<exists>u. rx_iteration h rx s = andThen (rx_packet_handler h rx) (\<lambda>(_, h'). give (Inr h')) u \<and>
     at_peer u \<and> heap_keeps {rx} s u \<and> packet_view u rx = Some g \<and> machine.more u = machine.more s \<and>
     world u = (world s)\<lparr>air := air (world s) @ [wire (ack_of g)]\<rparr>"
proof -
  have h: "on_peer s" using p by (simp add: at_peer_def)
  have "poll_for_irq_flag_no_timeout 1 64 False s = Some (Ret SX_OK s)"
    using peer_poll_no_timeout [OF h, of 1] a by simp
  moreover obtain v u where "read_last_packet rx s = Some (Ret SX_OK v)" "send_ack rx v = Some (Ret SX_OK u)"
    "at_peer u" "heap_keeps {rx} s u" "packet_view u rx = Some g" "machine.more u = machine.more s"
    "world u = (world s)\<lparr>air := air (world s) @ [wire (ack_of g)]\<rparr>"
    using peer_receive_and_ack [OF p a l k] by metis
  ultimately show ?thesis
    by (intro exI [of _ u])
      (simp add: rx_iteration_def sx1278_clear_irq_def sx1278_switch_mode_def Let_def peer_write [OF h])
qed

section \<open>The callbacks of the application\<close>

text \<open>
  What the receiver relies on: a callback returns, leaves the platform alone, changes on the heap only
  the packets it is given (and what it allocates), and takes the \<open>view\<close> of the part of the state that
  belongs to the application where \<open>app\<close> takes it. The command callback may be absent.
\<close>

locale capture_client =
  fixes on_command :: "(nat \<Rightarrow> ((peer_world, 'z) machine_scheme, unit) cmd) option"
    and on_end :: "nat list \<Rightarrow> nat \<Rightarrow> ((peer_world, 'z) machine_scheme, unit) cmd"
    and view :: "(peer_world, 'z) machine_scheme \<Rightarrow> 'o" and app :: "event \<Rightarrow> 'o \<Rightarrow> 'o"
  assumes view_law: "machine.more s = machine.more t \<Longrightarrow> view s = view t"
    and command_law: "on_command = Some h \<Longrightarrow> at_peer t \<Longrightarrow> packet_view t c = Some f \<Longrightarrow>
      length (fr_data f) \<le> 8 \<Longrightarrow> fr_data f \<noteq> [] \<Longrightarrow>
      \<exists>u. h c t = Some (Ret () u) \<and> at_peer u \<and> world u = world t \<and> heap_keeps (owned t c) t u \<and>
        view u = app (Command f) (view t)"
    and end_law: "at_peer t \<Longrightarrow> holds X (take n arr) t fs \<Longrightarrow> n = length fs \<Longrightarrow> n \<le> length arr \<Longrightarrow>
      n \<le> PACKET_CAPTURE_MAX_COUNT \<Longrightarrow> (\<And>f. f \<in> set fs \<Longrightarrow> length (fr_data f) \<le> 8) \<Longrightarrow>
      \<exists>u. on_end arr n t = Some (Ret () u) \<and> at_peer u \<and> world u = world t \<and>
        heap_keeps (\<Union>p \<in> set (take n arr). owned t p) t u \<and>
        view u = app (Deliver fs) (view t)"
begin

fun told :: "event option \<Rightarrow> 'o \<Rightarrow> 'o" where
  "told None m = m"
| "told (Some e) m = app e m"

definition rx_state ::
  "nat \<Rightarrow> (peer_world, 'z) rx_ctx \<Rightarrow> session \<Rightarrow> (peer_world, 'z) machine_scheme \<Rightarrow> bool" where
  "rx_state rx h S s \<longleftrightarrow> at_peer s \<and> (\<exists>k. blocks s rx = Some (Pkt k)) \<and> rx_rel {rx} h s S \<and>
     command_packet_handler h = on_command \<and> capture_end_handler h = Some on_end \<and>
     (\<forall>a fs f. s_capture S = Some (a, fs) \<longrightarrow> f \<in> set fs \<longrightarrow> length (fr_data f) \<le> 8)"

lemma session_step_small:
  assumes "session_step S g = (ret, S', e)" and "length (fr_data g) \<le> 8"
    and "\<forall>a fs f. s_capture S = Some (a, fs) \<longrightarrow> f \<in> set fs \<longrightarrow> length (fr_data f) \<le> 8"
  shows "(\<forall>a fs f. s_capture S' = Some (a, fs) \<longrightarrow> f \<in> set fs \<longrightarrow> length (fr_data f) \<le> 8) \<and>
     (\<forall>fs f. e = Some (Deliver fs) \<longrightarrow> f \<in> set fs \<longrightarrow> length (fr_data f) \<le> 8) \<and>
     (\<forall>f. e = Some (Command f) \<longrightarrow> f = g \<and> fr_data g \<noteq> [])"
proof -
  have "frame_type g = PACKET_DATA \<Longrightarrow> fr_data g \<noteq> []" by (simp add: frame_type_data)
  with assms show ?thesis
    by (cases "s_capture S"; cases "frame_type g")
      (auto simp: session_step_def capture_step.simps split: if_splits prod.splits)
qed

text \<open>The handler's part of an iteration.\<close>

lemma rx_state_holds:
  assumes "rx_state rx h S u"
  shows "at_peer u" and "mem_ok u" and "rx_rel {rx} h u S" and "command_packet_handler h = on_command"
    and "capture_end_handler h = Some on_end"
    and "\<forall>a fs f. s_capture S = Some (a, fs) \<longrightarrow> f \<in> set fs \<longrightarrow> length (fr_data f) \<le> 8"
    and "alloc_never_fails u"
  using assms by (simp_all add: rx_state_def at_peer_def)

text \<open>One call of the handler, by the event of the session: nothing, a command, a capture handed over.\<close>

lemma handler_quiet_step:
  assumes st: "rx_state rx h S u" and v: "packet_view u rx = Some g" and l: "length (fr_data g) \<le> 8"
    and ss: "session_step S g = (ret, S', None)"
  shows "\<exists>h' t. rx_packet_handler h rx u = Some (Ret (ret, h') t) \<and> rx_state rx h' S' t \<and>
     world t = world u \<and> view t = view u \<and> blocks t rx = blocks u rx"
proof -
  note h = rx_state_holds [OF st] and small = session_step_small [OF ss l rx_state_holds(6) [OF st]]
  have X: "rx < fresh u" "{rx} \<subseteq> {..<fresh u}" using packet_view_less [OF v h(2)] by simp_all
  obtain kr where kr: "blocks u rx = Some (Pkt kr)" using v by (rule packet_viewE)
  from rx_handler_quiet [OF h(3) v h(2,7) X(2)] ss obtain h' t
    where t: "rx_packet_handler h rx u = Some (Ret (ret, h') t)" "rx_rel {rx} h' t S'" "same_handlers h h'"
      "keeps {} u t" "mem_ok t" by (auto simp: quiet_call_def)
  obtain b n where tb: "t = u\<lparr>blocks := b, fresh := n\<rparr>" using t(4) unfolding keeps_def by blast
  have at: "at_peer t" using h(1) t(5) by (simp add: tb at_peer_def on_air_def alloc_never_fails_def)
  have b: "blocks t rx = Some (Pkt kr)" using keeps_block [OF t(4) X(1)] kr by simp
  then have "rx_state rx h' S' t" using at t(2,3) h(4,5) small by (simp add: rx_state_def same_handlers_def)
  moreover have "view t = view u" by (rule view_law) (simp add: tb)
  ultimately show ?thesis using t(1) b kr by (intro exI [of _ h'] exI [of _ t]) (simp add: tb)
qed

lemma handler_command_step:
  assumes st: "rx_state rx h S u" and v: "packet_view u rx = Some g" and l: "length (fr_data g) \<le> 8"
    and ss: "session_step S g = (ret, S', Some (Command f))" and cb: "on_command = Some cb"
  shows "\<exists>h' t. rx_packet_handler h rx u = Some (Ret (ret, h') t) \<and> rx_state rx h' S' t \<and>
     world t = world u \<and> view t = app (Command f) (view u) \<and> blocks t rx = blocks u rx"
proof -
  note h = rx_state_holds [OF st] and small = session_step_small [OF ss l rx_state_holds(6) [OF st]]
  note hc = rx_handler_command [OF h(3) v h(2,7) ss]
  have X: "rx < fresh u" using packet_view_less [OF v h(2)] by simp
  obtain kr where kr: "blocks u rx = Some (Pkt kr)" using v by (rule packet_viewE)
  have ok: "frame_ok g" using v by (rule packet_view_frame_ok)
  have cp: "at_peer (copied u g)" using h(1) copied_mem_ok [OF h(2)]
    by (simp add: at_peer_def on_air_def copied_def alloc_never_fails_def)
  have "length (fr_data f) \<le> 8" "fr_data f \<noteq> []" using hc l small by auto
  with command_law [OF cb cp, of "fresh u" f] hc obtain t
    where t: "cb (fresh u) (copied u g) = Some (Ret () t)" "at_peer t" "world t = world (copied u g)"
      "heap_keeps {fresh u, Suc (fresh u)} (copied u g) t" "view t = app (Command f) (view (copied u g))" by auto
  have hk: "heap_keeps {} u t" by (rule heap_keeps_trans [OF keeps_heap [OF copied_keeps] t(4)]) simp
  have "S' = S\<lparr>s_last := fr_ids g\<rparr>"
    using ss by (auto simp: session_step_def capture_step.simps
        split: if_splits prod.splits packet_types.splits option.splits)
  then have "rx_rel {rx} (noted h g) t S'" using rx_rel_frame [OF rx_rel_noted [OF h(3)] hk h(2)] by simp
  moreover have b: "blocks t rx = Some (Pkt kr)" using heap_keeps_block [OF hk X] kr by simp
  ultimately have "rx_state rx (noted h g) S' t" using t(2) h(4,5) small by (simp add: rx_state_def)
  moreover have "rx_packet_handler h rx u = Some (Ret (ret, noted h g) t)" using hc t(1) cb h(4) by simp
  moreover have "view (copied u g) = view u" by (rule view_law) (simp add: copied_def)
  ultimately show ?thesis using t(3,5) b kr
    by (intro exI [of _ "noted h g"] exI [of _ t]) (simp add: copied_def)
qed

lemma handler_deliver_step:
  assumes st: "rx_state rx h S u" and v: "packet_view u rx = Some g" and l: "length (fr_data g) \<le> 8"
    and ss: "session_step S g = (ret, S', Some (Deliver fs))"
  shows "\<exists>h' t. rx_packet_handler h rx u = Some (Ret (ret, h') t) \<and> rx_state rx h' S' t \<and>
     world t = world u \<and> view t = app (Deliver fs) (view u) \<and> blocks t rx = blocks u rx"
proof -
  note h = rx_state_holds [OF st] and small = session_step_small [OF ss l rx_state_holds(6) [OF st]]
  note hd = rx_handler_deliver [OF h(3) v h(2,7) ss]
  have X: "rx < fresh u" using packet_view_less [OF v h(2)] by simp
  obtain kr where kr: "blocks u rx = Some (Pkt kr)" using v by (rule packet_viewE)
  let ?arr = "captured_packet_arr h" and ?r = "rx_handler_reset (noted h g)"
  obtain a where cap: "s_capture S = Some (a, fs)"
    using ss by (auto simp: session_step_def capture_step.simps
        split: if_splits prod.splits packet_types.splits option.splits)
  have n: "length fs \<le> PACKET_CAPTURE_MAX_COUNT" using h(3) cap by (simp add: rx_rel_def)
  have fsl: "\<And>f. f \<in> set fs \<Longrightarrow> length (fr_data f) \<le> 8" using small by blast
  from end_law [OF h(1) _ refl _ n fsl, of "{rx}" ?arr] hd obtain t
    where t: "on_end ?arr (length fs) u = Some (Ret () t)" "at_peer t" "world t = world u"
      "heap_keeps (\<Union>p \<in> set (take (length fs) ?arr). owned u p) u t" "view t = app (Deliver fs) (view u)" by blast
  have "rx \<notin> (\<Union>p \<in> set (take (length fs) ?arr). owned u p)" using hd by (auto simp: holds_def)
  then have b: "blocks t rx = Some (Pkt kr)" using heap_keeps_block [OF t(4) X] kr by simp
  moreover have "rx_rel {rx} ?r t S'" using hd by blast
  ultimately have "rx_state rx ?r S' t" using t(2) h(4,5) small by (simp add: rx_state_def rx_handler_reset_def)
  moreover have "rx_packet_handler h rx u = Some (Ret (ret, ?r) t)" using hd t(1) h(5) by simp
  ultimately show ?thesis using t(3,5) b kr by auto
qed

lemma handler_step:
  assumes st: "rx_state rx h S u" and v: "packet_view u rx = Some g" and l: "length (fr_data g) \<le> 8"
    and ss: "session_step S g = (ret, S', e)" and c: "(\<exists>f. e = Some (Command f)) \<longrightarrow> on_command \<noteq> None"
  shows "\<exists>h' t. rx_packet_handler h rx u = Some (Ret (ret, h') t) \<and> rx_state rx h' S' t \<and>
     world t = world u \<and> view t = told e (view u) \<and> blocks t rx = blocks u rx"
proof (cases e)
  case None
  then show ?thesis using handler_quiet_step [OF st v l] ss by simp
next
  case (Some ev)
  then show ?thesis
    using handler_command_step [OF st v l] handler_deliver_step [OF st v l] ss c by (cases ev) auto
qed

lemma rx_state_received:
  assumes "rx_state rx h S s" and "at_peer u" and "heap_keeps {rx} s u" and "packet_view u rx = Some g"
  shows "rx_state rx h S u"
proof -
  have m: "mem_ok s" and r: "rx_rel {rx} h s S" using assms(1) by (simp_all add: rx_state_def at_peer_def)
  have "rx_rel {rx} h u S" by (rule rx_rel_frame [OF r assms(3) m subset_refl])
  moreover have "\<exists>k. blocks u rx = Some (Pkt k)" using assms(4) by (auto elim: packet_viewE)
  ultimately show ?thesis using assms(1,2) by (simp add: rx_state_def)
qed

lemma iteration_step:
  assumes st: "rx_state rx h S s" and a: "answer (world s) = Some g" and l: "length (fr_data g) \<le> 8"
    and ss: "session_step S g = (ret, S', e)" and c: "(\<exists>f. e = Some (Command f)) \<longrightarrow> on_command \<noteq> None"
  shows "\<exists>h' t. rx_iteration h rx s = Some (Ret (Inr h') t) \<and> rx_state rx h' S' t \<and>
     world t = (world s)\<lparr>air := air (world s) @ [wire (ack_of g)]\<rparr> \<and>
     view t = told e (view s)"
proof -
  obtain k where p: "at_peer s" and k: "blocks s rx = Some (Pkt k)" using st by (auto simp: rx_state_def)
  have "length (wire g) \<le> 255" using l by simp
  from peer_rx_iteration [OF p a this k, of h] obtain u
    where u: "rx_iteration h rx s = andThen (rx_packet_handler h rx) (\<lambda>(_, h'). give (Inr h')) u"
      "at_peer u" "heap_keeps {rx} s u" "packet_view u rx = Some g" "machine.more u = machine.more s"
      "world u = (world s)\<lparr>air := air (world s) @ [wire (ack_of g)]\<rparr>" by blast
  from handler_step [OF rx_state_received [OF st u(2-4)] u(4) l ss c] obtain h' t
    where "rx_packet_handler h rx u = Some (Ret (ret, h') t)" "rx_state rx h' S' t" "world t = world u"
      "view t = told e (view u)" by blast
  moreover have "view u = view s" by (rule view_law [OF u(5)])
  ultimately show ?thesis using u by (intro exI [of _ h'] exI [of _ t]) simp
qed

lemma answer_head:
  "air w \<noteq> [] \<Longrightarrow> drop (length (air w) - 1) (script w) = Some g # rs \<Longrightarrow> answer w = Some g"
  by (metis (no_types, lifting) answer_def drop_all hd_drop_conv_nth list.distinct(1) list.sel(1)
      Suc_diff_1 length_greater_0_conv linorder_not_le not_less_eq_eq)

lemma loop_run:
  assumes "rx_state rx h S s" and "air (world s) \<noteq> []"
    and "drop (length (air (world s)) - 1) (script (world s)) = map Some gs @ rs"
    and "\<And>g. g \<in> set gs \<Longrightarrow> length (fr_data g) \<le> 8"
    and "(\<exists>f. Command f \<in> set (snd (run session_step S gs))) \<longrightarrow> on_command \<noteq> None"
  shows "\<exists>h' t. rx_rounds (length gs) h rx s = Some (Ret (Inr h') t) \<and>
     rx_state rx h' (fst (run session_step S gs)) t \<and>
     world t = (world s)\<lparr>air := air (world s) @ map (wire \<circ> ack_of) gs\<rparr> \<and>
     view t = fold app (snd (run session_step S gs)) (view s)"
  using assms
proof (induction gs arbitrary: h S s)
  case Nil
  then show ?case by auto
next
  case (Cons g gs)
  obtain ret S' e where ss: "session_step S g = (ret, S', e)" by (metis prod_cases3)
  obtain S2 es where rn: "run session_step S' gs = (S2, es)" by force
  have evs: "run session_step S (g # gs) = (S2, (case e of None \<Rightarrow> es | Some ev \<Rightarrow> ev # es))"
    using ss rn by (auto split: option.splits)
  have a: "answer (world s) = Some g" using Cons.prems(2,3) by (intro answer_head) auto
  have c: "(\<exists>f. e = Some (Command f)) \<longrightarrow> on_command \<noteq> None" using Cons.prems(5) evs by auto
  have l: "length (fr_data g) \<le> 8" using Cons.prems(4) by simp
  from iteration_step [OF Cons.prems(1) a l ss c] obtain h1 t1
    where t1: "rx_iteration h rx s = Some (Ret (Inr h1) t1)" "rx_state rx h1 S' t1"
     "world t1 = (world s)\<lparr>air := air (world s) @ [wire (ack_of g)]\<rparr>"
     "view t1 = told e (view s)" by auto
  have "length (air (world t1)) - 1 = Suc (length (air (world s)) - 1)"
    using Cons.prems(2) t1(3) by (cases "air (world s)") simp_all
  then have "drop (length (air (world t1)) - 1) (script (world t1)) = map Some gs @ rs"
    using Cons.prems(3) t1(3) by (metis (no_types) append_Cons drop_Suc list.sel(3) list.simps(9)
        air_world.select_convs(2) air_world.surjective air_world.update_convs(1) tl_drop)
  then have "\<exists>h' t. rx_rounds (length gs) h1 rx t1 = Some (Ret (Inr h') t) \<and> rx_state rx h' (fst (run session_step S' gs)) t \<and>
     world t = (world t1)\<lparr>air := air (world t1) @ map (wire \<circ> ack_of) gs\<rparr> \<and>
     view t = fold app (snd (run session_step S' gs)) (view t1)"
    using Cons.prems(4,5) evs rn t1(3) by (intro Cons.IH [OF t1(2)]) (auto split: option.splits)
  then obtain h' t where t: "rx_rounds (length gs) h1 rx t1 = Some (Ret (Inr h') t)" "rx_state rx h' S2 t"
     "world t = (world t1)\<lparr>air := air (world t1) @ map (wire \<circ> ack_of) gs\<rparr>"
     "view t = fold app es (view t1)" using rn by auto
  have "rx_rounds (length (g # gs)) h rx s = Some (Ret (Inr h') t)" using t(1) t1(1) by simp
  then show ?case
    using t t1(3,4) evs by (intro exI [of _ h'] exI [of _ t]) (auto simp: comp_def split: option.splits)
qed

end

section \<open>Waiting for ever\<close>

lemma peer_silence_never_ends:
  fixes s :: "(peer_world, 'z) machine_scheme"
  assumes "poll_for_irq_flag_no_timeout_loop interval msk cleanup irq s = Some y"
  shows "on_peer s \<longrightarrow> msk = 64 \<longrightarrow> answer (world s) \<noteq> None"
proof (rule poll_for_irq_flag_no_timeout_loop.raw_induct [OF _ assms, where P = "\<lambda>interval msk cleanup irq s y.
    on_peer s \<longrightarrow> msk = 64 \<longrightarrow> answer (world s) \<noteq> None"], intro impI notI)
  fix f :: "u64 \<Rightarrow> u8 \<Rightarrow> bool \<Rightarrow> u8 \<Rightarrow> (peer_world, 'z) machine_scheme \<Rightarrow> _"
    and interval msk cleanup irq and s :: "(peer_world, 'z) machine_scheme" and y
  assume IH: "\<And>interval msk cleanup irq s y. f interval msk cleanup irq s = Some y \<Longrightarrow>
      on_peer s \<longrightarrow> msk = 64 \<longrightarrow> answer (world s) \<noteq> None"
    and body: "andThen (sx1278_read_irq irq) (\<lambda>(ret, irq').
     if ret \<noteq> SX_OK then
       andThen (log_err UTILS_TAG ''couldnt read irq register'') (\<lambda>_.
       andThen (irq_cleanup cleanup) (\<lambda>_. give ret))
     else if irq' AND msk \<noteq> 0 then
       andThen (irq_cleanup cleanup) (\<lambda>_. give SX_OK)
     else
       andThen (delay_ms interval) (\<lambda>_. f interval msk cleanup irq')) s = Some y"
    and h: "on_peer s" "msk = 64" "answer (world s) = None"
  let ?t = "s\<lparr>world := (world s)\<lparr>ticks := ticks (world s) + 10000000\<rparr>\<rparr>"
  have "f interval msk cleanup 8 ?t = Some y"
    using body h by (simp add: sx1278_read_irq_def peer_irq peer_delay_ms)
  from IH [OF this] h have "answer (world ?t) \<noteq> None" by simp
  moreover have "answer (world ?t) = answer (world s)" by (simp add: answer_def)
  ultimately show False using h(3) by simp
qed

lemma peer_silence:
  assumes "on_peer s" and "answer (world s) = None"
  shows "poll_for_irq_flag_no_timeout interval 64 False s = None"
  using peer_silence_never_ends [of interval 64 False 0 s] assms
  by (cases "poll_for_irq_flag_no_timeout_loop interval 64 False 0 s") (auto simp: poll_for_irq_flag_no_timeout_def)

lemma rx_loop_silence:
  assumes "on_peer s" and "answer (world s) = None"
  shows "rx_loop h rx s = None"
proof -
  have "rx_iteration h rx s = None"
    using peer_silence [OF assms, of 1]
    by (simp add: rx_iteration_def sx1278_clear_irq_def sx1278_switch_mode_def Let_def peer_write [OF assms(1)])
  then show ?thesis by (subst rx_loop.simps) simp
qed

section \<open>The callbacks of the tests\<close>

text \<open>\<open>noop_command_callback\<close> and \<open>noop_end_callback\<close> of \<open>tests/test_rx_packet_handler.c\<close>, which count
  their calls.\<close>

record 'w callback_test = "'w machine" +
  command_callback_fired :: nat
  end_callback_fired :: nat

definition noop_command_callback :: "nat \<Rightarrow> (('w, 'z) callback_test_scheme, unit) cmd" where
  "noop_command_callback rx_p =
     andThen (modify (\<lambda>s. s\<lparr>command_callback_fired := command_callback_fired s + 1\<rparr>)) (\<lambda>_. free_packet rx_p)"

definition noop_end_callback :: "nat list \<Rightarrow> nat \<Rightarrow> (('w, 'z) callback_test_scheme, unit) cmd" where
  "noop_end_callback p_arr n = modify (\<lambda>s. s\<lparr>end_callback_fired := end_callback_fired s + 1\<rparr>)"

fun count_event :: "event \<Rightarrow> nat \<times> nat \<Rightarrow> nat \<times> nat" where
  "count_event (Command f) (c, e) = (c + 1, e)"
| "count_event (Deliver fs) (c, e) = (c, e + 1)"

definition counts :: "('w, 'z) callback_test_scheme \<Rightarrow> nat \<times> nat" where
  "counts s = (command_callback_fired s, end_callback_fired s)"

lemma noop_command_law:
  fixes t :: "(peer_world, 'z) callback_test_scheme"
  assumes p: "at_peer t" and v: "packet_view t c = Some f" and d: "fr_data f \<noteq> []"
  shows "\<exists>u. noop_command_callback c t = Some (Ret () u) \<and> at_peer u \<and> world u = world t \<and>
    heap_keeps (owned t c) t u \<and> counts u = count_event (Command f) (counts t)"
proof -
  have m: "mem_ok t" using p by (simp add: at_peer_def)
  obtain k where k: "blocks t c = Some (Pkt k)"
    "read_bytes (payload k) (unat (payload_length k)) t = Some (Ret (fr_data f) t)"
    "length (fr_data f) = unat (payload_length k)" using v by (rule packet_viewE)
  have n0: "payload_length k \<noteq> 0" using k(3) d payload_length_0_iff by blast
  then obtain bs where b: "blocks t (payload k) = Some (Bytes bs)"
    using k(2) by (auto simp: read_bytes_Ret_iff unat_eq_0_iff)
  have o: "owned t c = {c, payload k}" using k(1) n0 by (auto simp: owned_def payload_of_def)
  let ?t = "t\<lparr>command_callback_fired := command_callback_fired t + 1\<rparr>"
  let ?u = "?t\<lparr>blocks := (blocks ?t)(payload k := None, c := None)\<rparr>"
  have "free_packet c ?t = Some (Ret () ?u)"
    by (rule free_packet_run) (use k(1) b m in \<open>auto simp: mem_ok_def\<close>)
  moreover have "at_peer ?u" using p by (auto simp: at_peer_def on_air_def mem_ok_def alloc_never_fails_def)
  ultimately show ?thesis
    by (intro exI [of _ ?u]) (auto simp: noop_command_callback_def heap_keeps_def o counts_def)
qed

interpretation noop_callbacks: capture_client "Some noop_command_callback" noop_end_callback
  "counts :: (peer_world, 'z) callback_test_scheme \<Rightarrow> nat \<times> nat" count_event
proof
  show "counts s = counts t" if "machine.more s = machine.more t"
    for s t :: "(peer_world, 'z) callback_test_scheme"
    using that by (cases s; cases t) (simp add: counts_def)
next
  fix h :: "nat \<Rightarrow> ((peer_world, 'z) callback_test_scheme, unit) cmd" and c f
    and t :: "(peer_world, 'z) callback_test_scheme"
  assume "Some noop_command_callback = Some h" "at_peer t" "packet_view t c = Some f" "fr_data f \<noteq> []"
  then show "\<exists>u. h c t = Some (Ret () u) \<and> at_peer u \<and> world u = world t \<and> heap_keeps (owned t c) t u \<and>
      counts u = count_event (Command f) (counts t)"
    using noop_command_law [of t c f] by simp
next
  fix t :: "(peer_world, 'z) callback_test_scheme" and n arr fs
  assume "at_peer t"
  then show "\<exists>u. noop_end_callback arr n t = Some (Ret () u) \<and> at_peer u \<and> world u = world t \<and>
      heap_keeps (\<Union>p \<in> set (take n arr). owned t p) t u \<and> counts u = count_event (Deliver fs) (counts t)"
    by (auto simp: noop_end_callback_def at_peer_def on_air_def mem_ok_def alloc_never_fails_def heap_keeps_def
        counts_def)
qed

section \<open>Properties\<close>

text \<open>C6: The receive loop serves the session. Fed with frames one after the other (each
  acknowledgement brings the next), the loop goes round once per frame: it acknowledges every frame it
  hears, whoever it is for, with the addresses swapped, in order and before the handler sees it. It is
  then in a state that is related to the session after those frames, the application has been told
  exactly the session's events, and as the air is silent from there on the loop never returns.\<close>

theorem rx_loop_serves_session:
  assumes "capture_client cmd on_end view app" and "at_peer s" and "blocks s rx = Some (Pkt k)"
    and "rx_rel {rx} h s S" and "s_capture S = None"
    and "command_packet_handler h = cmd" and "capture_end_handler h = Some on_end"
    and "air (world s) \<noteq> []" and "drop (length (air (world s)) - 1) (script (world s)) = map Some gs"
    and "\<And>g. g \<in> set gs \<Longrightarrow> length (fr_data g) \<le> payload_length_max"
    and "run session_step S gs = (S', es)" and "(\<exists>f. Command f \<in> set es) \<longrightarrow> cmd \<noteq> None"
  shows "\<exists>h' t. rx_rounds (length gs) h rx s = Some (Ret (Inr h') t) \<and> rx_rel {rx} h' t S' \<and>
    air (world t) = air (world s) @ map (wire \<circ> ack_of) gs \<and>
    view t = fold app es (view s) \<and> rx_loop h rx s = None"
proof -
  note c = assms(1)
  have st: "capture_client.rx_state cmd on_end rx h S s"
    using assms(2-7) by (auto simp: capture_client.rx_state_def [OF c])
  have "drop (length (air (world s)) - 1) (script (world s)) = map Some gs @ []" using assms(9) by simp
  from capture_client.loop_run [OF c st assms(8) this] assms(10-12) obtain h' t
    where t: "rx_rounds (length gs) h rx s = Some (Ret (Inr h') t)" "capture_client.rx_state cmd on_end rx h' S' t"
      "world t = (world s)\<lparr>air := air (world s) @ map (wire \<circ> ack_of) gs\<rparr>"
      "view t = fold app es (view s)" by auto
  have "length (script (world s)) < length (air (world s)) + length gs"
    using arg_cong [OF assms(9), of length] assms(8) by (cases "air (world s)") auto
  then have "answer (world t) = None" using t(3) by (simp add: answer_def)
  moreover have "on_peer t" "rx_rel {rx} h' t S'" using t(2) by (auto simp: capture_client.rx_state_def [OF c] at_peer_def)
  ultimately show ?thesis
    using t rx_loop_silence [of t h' rx] rx_loop_rounds [OF t(1)]
    by (intro exI [of _ h'] exI [of _ t]) simp
qed

text \<open>A receiver with an unset \<open>rx_p\<close> at 3.\<close>

definition test_receiver :: "frame list \<Rightarrow> peer_world callback_test" where
  "test_receiver gs = \<lparr>blocks = [3 \<mapsto> Pkt (junk_packet (\<lambda>_. 0))], fresh = 5, alloc_ok = (\<lambda>_. True),
     junk = (\<lambda>_ _. 0), world = \<lparr>air = [[]], script = map Some gs, ticks = 0\<rparr>, sx127x_spi_port = peer_port,
     sx127x_logger = zero_logger, sx127x_timer_ctx = peer_timer, lora_bandwidth_hz = 125000,
     spreading_factor = 12, rx_buffer = replicate 255 0, tx_buffer = replicate 255 0,
     command_callback_fired = 0, end_callback_fired = 0\<rparr>"

lemma test_receiver_facts:
  "at_peer (test_receiver gs)" "blocks (test_receiver gs) 3 = Some (Pkt (junk_packet (\<lambda>_. 0)))"
  "world (test_receiver gs) = \<lparr>air = [[]], script = map Some gs, ticks = 0\<rparr>" "counts (test_receiver gs) = (0, 0)"
  by (simp_all add: test_receiver_def at_peer_def on_air_def mem_ok_def alloc_never_fails_def counts_def)

theorem rx_loop_serves_session_witness:
  "\<exists>h t. rx_rounds 9 (rx_handler_init (Some noop_command_callback) (Some noop_end_callback) 2 1) 3
       (test_receiver demo_burst) = Some (Ret (Inr h) t) \<and> counts t = (0, 1) \<and> length (air (world t)) = 10"
proof -
  let ?h = "rx_handler_init (Some noop_command_callback) (Some noop_end_callback) 2 1"
    and ?s = "test_receiver demo_burst"
  obtain T fs where r: "run session_step (new_session 2 1) demo_burst = (T, [Deliver fs])"
    using channel_delivers [OF _ _ _ demo_burst_heard] by (auto simp: new_session_def)
  have small: "\<And>g. g \<in> set demo_burst \<Longrightarrow> length (fr_data g) \<le> payload_length_max"
    by (auto simp: demo_burst_def Let_def begin_frame_def end_frame_def data_frame_def)
  have n: "length demo_burst = 9" by (simp add: demo_burst_def Let_def)
  have hs: "command_packet_handler ?h = Some noop_command_callback"
    "capture_end_handler ?h = Some noop_end_callback" by (simp_all add: rx_handler_init_def)
  have feed: "air (world ?s) \<noteq> []"
    "drop (length (air (world ?s)) - 1) (script (world ?s)) = map Some demo_burst"
    by (simp_all add: test_receiver_facts)
  have new: "s_capture (new_session 2 1) = None" by (simp add: new_session_def)
  obtain h t where "rx_rounds (length demo_burst) ?h 3 ?s = Some (Ret (Inr h) t)"
    "air (world t) = air (world ?s) @ map (wire \<circ> ack_of) demo_burst"
    "counts t = fold count_event [Deliver fs] (counts ?s)"
    using rx_loop_serves_session [OF noop_callbacks.capture_client_axioms test_receiver_facts(1,2)
        rx_rel_init new hs feed small r] by auto
  then show ?thesis using n
    by (intro exI [of _ h] exI [of _ t]) (simp add: test_receiver_facts)
qed

end
