(* ===== verification/Rx_Protocol.thy ===== *)
theory Rx_Protocol
  imports Rx_Loop
begin

text \<open>
  What the receiving program does with a burst: the properties of sessions of \<open>Rx_Session\<close> carried over to
  the receive loop and the handler of the code, on the scripted peer, for every pair of callbacks with the contract
  \<open>capture_client\<close>. The statements speak of the handler's context struct, of the acknowledgements on the air and of
  what the callbacks did (\<open>view\<close>, which each call of a callback changes by \<open>app\<close>).
\<close>

section \<open>The receiver and what it hears\<close>

text \<open>A receiver that is between two captures, as its context struct shows it; \<open>ids\<close> are the ids of the last
  packet it took.\<close>

definition idle_receiver ::
  "(nat \<Rightarrow> ((peer_world, 'z) machine_scheme, unit) cmd) option
    \<Rightarrow> (nat list \<Rightarrow> nat \<Rightarrow> ((peer_world, 'z) machine_scheme, unit) cmd) \<Rightarrow> u16 \<Rightarrow> u16 \<Rightarrow> u8 \<times> u8
    \<Rightarrow> nat \<Rightarrow> (peer_world, 'z) rx_ctx \<Rightarrow> (peer_world, 'z) machine_scheme \<Rightarrow> bool" where
  "idle_receiver cmd on_end host remote ids rx h s \<longleftrightarrow>
     at_peer s \<and> (\<exists>k. blocks s rx = Some (Pkt k)) \<and> configured h \<and>
     host_addr h = host \<and> remote_src_addr h = remote \<and>
     command_packet_handler h = cmd \<and> capture_end_handler h = Some on_end \<and>
     \<not> capture h \<and> capture_ack_id h = 0 \<and> captured_n h = 0 \<and>
     length (captured_packet_arr h) = PACKET_CAPTURE_MAX_COUNT \<and>
     (last_received_ack_id h, last_received_seq_number h) = ids"

text \<open>The frames that arrive, one after each acknowledgement, and then nothing more.\<close>

definition hears :: "frame list \<Rightarrow> (peer_world, 'z) machine_scheme \<Rightarrow> bool" where
  "hears gs s \<longleftrightarrow> air (world s) \<noteq> [] \<and>
     drop (length (air (world s)) - 1) (script (world s)) = map Some gs \<and>
     (\<forall>g \<in> set gs. length (fr_data g) \<le> payload_length_max)"

definition from_pair :: "u16 \<Rightarrow> u16 \<Rightarrow> frame \<Rightarrow> bool" where
  "from_pair host remote f \<longleftrightarrow> fr_dest f = host \<and> fr_src f = remote"

definition idle_session :: "u16 \<Rightarrow> u16 \<Rightarrow> u8 \<times> u8 \<Rightarrow> session" where
  "idle_session host remote ids = \<lparr>s_host = host, s_remote = remote, s_capture = None, s_last = ids\<rparr>"

lemma idle_session_sel [simp]:
  "s_host (idle_session host remote ids) = host" "s_remote (idle_session host remote ids) = remote"
  "s_capture (idle_session host remote ids) = None" "s_last (idle_session host remote ids) = ids"
  "concerns (idle_session host remote ids) = from_pair host remote"
  by (auto simp: idle_session_def concerns_def from_pair_def fun_eq_iff)

lemma idle_receiver_init:
  "at_peer s \<Longrightarrow> blocks s rx = Some (Pkt k) \<Longrightarrow>
   idle_receiver cmd on_end host remote (0, 0) rx (rx_handler_init cmd (Some on_end) host remote) s"
  by (simp add: idle_receiver_def rx_handler_init_def zeroed_ctx_def)

lemma idle_rx_state:
  assumes "capture_client cmd on_end view app" and "idle_receiver cmd on_end host remote ids rx h s"
  shows "capture_client.rx_state cmd on_end rx h (idle_session host remote ids) s"
  using assms(2) by (simp add: capture_client.rx_state_def [OF assms(1)] idle_receiver_def rx_rel_def)

lemma rx_state_idle:
  assumes "capture_client cmd on_end view app" and "capture_client.rx_state cmd on_end rx h T t"
    and "s_capture T = None"
  shows "idle_receiver cmd on_end (s_host T) (s_remote T) (s_last T) rx h t"
  using assms(2,3) by (simp add: capture_client.rx_state_def [OF assms(1)] idle_receiver_def rx_rel_def)

lemma rx_state_capturing:
  assumes "capture_client cmd on_end view app" and "capture_client.rx_state cmd on_end rx h T t"
    and "s_capture T = Some (a, fs)"
  shows "capture h \<and> capture_ack_id h = a \<and> captured_n h = length fs \<and> length fs \<le> PACKET_CAPTURE_MAX_COUNT \<and>
    map (packet_view t) (take (length fs) (captured_packet_arr h)) = map Some fs"
  using assms(2,3) by (simp add: capture_client.rx_state_def [OF assms(1)] rx_rel_def holds_def)

text \<open>The rounds of the loop on what it hears: one for each frame, with its acknowledgement.\<close>

lemma heard_run:
  assumes c: "capture_client cmd on_end view app" and i: "idle_receiver cmd on_end host remote ids rx h s"
    and g: "hears gs s" and r: "run session_step (idle_session host remote ids) gs = (T, es)"
    and cb: "(\<exists>f. Command f \<in> set es) \<longrightarrow> cmd \<noteq> None"
  shows "\<exists>h' t. rx_rounds (length gs) h rx s = Some (Ret (Inr h') t) \<and> capture_client.rx_state cmd on_end rx h' T t \<and>
    air (world t) = air (world s) @ map (wire \<circ> ack_of) gs \<and> view t = fold app es (view s)"
proof -
  have a: "air (world s) \<noteq> []" and d: "drop (length (air (world s)) - 1) (script (world s)) = map Some gs @ []"
    and l: "\<And>g. g \<in> set gs \<Longrightarrow> length (fr_data g) \<le> 8" using g by (simp_all add: hears_def)
  from capture_client.loop_run [OF c idle_rx_state [OF c i] a d l] cb obtain h' t
    where "rx_rounds (length gs) h rx s = Some (Ret (Inr h') t)" "capture_client.rx_state cmd on_end rx h' T t"
      "world t = (world s)\<lparr>air := air (world s) @ map (wire \<circ> ack_of) gs\<rparr>" "view t = fold app es (view s)"
    unfolding r by auto
  then show ?thesis by (intro exI [of _ h'] exI [of _ t]) simp
qed

section \<open>A receiver for the witnesses\<close>

text \<open>The callbacks of the tests, host 2 and peer 1.\<close>

abbreviation test_handler :: "(peer_world, \<lparr>command_callback_fired :: nat, end_callback_fired :: nat\<rparr>) rx_ctx" where
  "test_handler \<equiv> rx_handler_init (Some noop_command_callback) (Some noop_end_callback) 2 1"

lemma test_idle: "idle_receiver (Some noop_command_callback) noop_end_callback 2 1 (0, 0) 3 test_handler (test_receiver gs)"
  using idle_receiver_init [OF test_receiver_facts(1,2)] .

lemma test_hears: "(\<And>g. g \<in> set gs \<Longrightarrow> length (fr_data g) \<le> 8) \<Longrightarrow> hears gs (test_receiver gs)"
  by (simp add: hears_def test_receiver_facts)

section \<open>Properties\<close>

text \<open>C5: Retransmissions and other stations' traffic are invisible. Let two copies of an idle receiver hear, one of them
  any traffic, the other the same without the frames that are not from its peer to it and without
  immediate repetitions. Both acknowledge all they hear, their callbacks are called in the same way, with the same
  packets in the same order, and their contexts agree at the end, down to the frames captured so far.\<close>

theorem retransmissions_invisible:
  assumes "capture_client (Some on_command) on_end view app"
    and "idle_receiver (Some on_command) on_end host remote ids rx h s" and "hears gs s"
    and "idle_receiver (Some on_command) on_end host remote ids rx h s'"
    and "hears (remdups_adj (filter (from_pair host remote) gs)) s'"
  shows "\<exists>k t k' t' es. rx_rounds (length gs) h rx s = Some (Ret (Inr k) t) \<and>
    rx_rounds (length (remdups_adj (filter (from_pair host remote) gs))) h rx s' = Some (Ret (Inr k') t') \<and>
    air (world t) = air (world s) @ map (wire \<circ> ack_of) gs \<and>
    air (world t') = air (world s') @ map (wire \<circ> ack_of) (remdups_adj (filter (from_pair host remote) gs)) \<and>
    view t = fold app es (view s) \<and> view t' = fold app es (view s') \<and>
    (capture k, capture_ack_id k, captured_n k, last_received_ack_id k, last_received_seq_number k)
      = (capture k', capture_ack_id k', captured_n k', last_received_ack_id k', last_received_seq_number k') \<and>
    map (packet_view t) (take (captured_n k) (captured_packet_arr k))
      = map (packet_view t') (take (captured_n k') (captured_packet_arr k'))"
proof -
  let ?S = "idle_session host remote ids" and ?gs = "remdups_adj (filter (from_pair host remote) gs)"
  note c = assms(1)
  obtain T es where r: "run session_step ?S gs = (T, es)" by force
  then have r': "run session_step ?S ?gs = (T, es)" using session_retransmissions [of ?S gs] by simp
  from heard_run [OF c assms(2,3) r] obtain k t
    where k: "rx_rounds (length gs) h rx s = Some (Ret (Inr k) t)" "capture_client.rx_state (Some on_command) on_end rx k T t"
      "air (world t) = air (world s) @ map (wire \<circ> ack_of) gs" "view t = fold app es (view s)" by auto
  from heard_run [OF c assms(4,5) r'] obtain k' t'
    where k': "rx_rounds (length ?gs) h rx s' = Some (Ret (Inr k') t')"
      "capture_client.rx_state (Some on_command) on_end rx k' T t'"
      "air (world t') = air (world s') @ map (wire \<circ> ack_of) ?gs" "view t' = fold app es (view s')" by auto
  have "rx_rel {rx} k t T" "rx_rel {rx} k' t' T"
    using k(2) k'(2) by (simp_all add: capture_client.rx_state_def [OF c])
  then have "(capture k, capture_ack_id k, captured_n k, last_received_ack_id k, last_received_seq_number k)
      = (capture k', capture_ack_id k', captured_n k', last_received_ack_id k', last_received_seq_number k') \<and>
    map (packet_view t) (take (captured_n k) (captured_packet_arr k))
      = map (packet_view t') (take (captured_n k') (captured_packet_arr k'))"
    by (cases "s_capture T") (auto simp: rx_rel_def holds_def)
  then show ?thesis using k(1,3,4) k'(1,3,4) by blast
qed

text \<open>A burst, repeated and among other traffic, with a command after it that is also repeated.\<close>

definition demo_command :: frame where
  "demo_command = data_frame 2 1 9 4 [1]"

definition demo_traffic :: "frame list" where
  "demo_traffic = demo_burst @ [demo_command, data_frame 9 1 9 4 [1], demo_command]"

lemma demo_traffic_facts:
  "length demo_traffic = 12" "\<And>g. g \<in> set demo_traffic \<Longrightarrow> length (fr_data g) \<le> 8"
  "remdups_adj (filter (from_pair 2 1) demo_traffic) = packetise 2 1 7 True [104, 105] @ [demo_command]"
  by (auto simp: demo_traffic_def demo_command_def demo_burst_def Let_def from_pair_def begin_frame_def
      end_frame_def data_frame_def packetise_def chunks_step)

theorem retransmissions_invisible_witness:
  "\<exists>k t k' t' es. rx_rounds 12 test_handler 3 (test_receiver demo_traffic) = Some (Ret (Inr k) t) \<and>
    rx_rounds 4 test_handler 3 (test_receiver (remdups_adj (filter (from_pair 2 1) demo_traffic))) = Some (Ret (Inr k') t') \<and>
    counts t = fold count_event es (0, 0) \<and> counts t' = fold count_event es (0, 0)"
proof -
  have n: "length (remdups_adj (filter (from_pair 2 1) demo_traffic)) = 4"
    unfolding demo_traffic_facts(3) by (simp add: length_packetise length_chunks)
  have "hears (remdups_adj (filter (from_pair 2 1) demo_traffic))
      (test_receiver (remdups_adj (filter (from_pair 2 1) demo_traffic)))"
    by (rule test_hears) (use demo_traffic_facts(2) in auto)
  from retransmissions_invisible [OF noop_callbacks.capture_client_axioms test_idle
      test_hears [OF demo_traffic_facts(2)] test_idle this]
  show ?thesis unfolding demo_traffic_facts(1) n test_receiver_facts(4) by blast
qed

text \<open>C19: Exactly once. Let an idle receiver hear every frame of a burst of at most 2032 bytes at least once and in
  order, and after it any number of data packets under other ack ids (commands), all of them among repetitions and
  the frames of other stations. Then the end callback is called once, with packets whose payloads concatenate to
  exactly the data the sender cut up; after that the command callback is called once for each command, in order,
  whatever was repeated; every frame heard was acknowledged; and the receiver is idle again.\<close>

theorem burst_delivered_once:
  assumes "capture_client cmd on_end view app" and "idle_receiver cmd on_end host remote ids rx h s"
    and "hears gs s" and "ids \<noteq> (ack, 0)" and "length data \<le> 254 * payload_length_max"
    and "remdups_adj (filter (from_pair host remote) gs) = packetise host remote ack True data @ cs"
    and "\<And>c. c \<in> set cs \<Longrightarrow> fr_data c \<noteq> [] \<and> fr_ack c \<noteq> 0"
    and "distinct_adj ((ack, 255) # map fr_ids cs)" and "cs \<noteq> [] \<longrightarrow> cmd \<noteq> None"
  shows "\<exists>h' t fs. rx_rounds (length gs) h rx s = Some (Ret (Inr h') t) \<and>
    air (world t) = air (world s) @ map (wire \<circ> ack_of) gs \<and>
    view t = fold app (Deliver fs # map Command cs) (view s) \<and> concat (map fr_data fs) = data \<and>
    idle_receiver cmd on_end host remote (last ((ack, 255) # map fr_ids cs)) rx h' t"
proof -
  note c = assms(1)
  let ?S = "idle_session host remote ids"
  have "length data \<le> 254 * 8" "s_last ?S \<noteq> (ack, 0)" using assms(4,5) by simp_all
  from burst_then_commands [OF _ this(2,1) _ assms(7,8)] assms(6) obtain T fs
    where T: "run session_step ?S gs = (T, Deliver fs # map Command cs)" "s_capture T = None"
      "s_host T = host" "s_remote T = remote" "s_last T = last ((ack, 255) # map fr_ids cs)"
      "concat (map fr_data fs) = data" by force
  have "(\<exists>f. Command f \<in> set (Deliver fs # map Command cs)) \<longrightarrow> cmd \<noteq> None" using assms(9) by auto
  from heard_run [OF c assms(2,3) T(1) this] obtain h' t
    where t: "rx_rounds (length gs) h rx s = Some (Ret (Inr h') t)" "capture_client.rx_state cmd on_end rx h' T t"
      "air (world t) = air (world s) @ map (wire \<circ> ack_of) gs"
      "view t = fold app (Deliver fs # map Command cs) (view s)" by blast
  from rx_state_idle [OF c t(2) T(2)] T(3-5) show ?thesis using t(1,3,4) T(6) by metis
qed

theorem burst_delivered_once_witness:
  "\<exists>h t. rx_rounds 12 test_handler 3 (test_receiver demo_traffic) = Some (Ret (Inr h) t) \<and> counts t = (1, 1)"
proof -
  have "distinct_adj ((7, 255) # map fr_ids [demo_command])"
    "\<And>c. c \<in> set [demo_command] \<Longrightarrow> fr_data c \<noteq> [] \<and> fr_ack c \<noteq> 0"
    by (auto simp: demo_command_def data_frame_def fr_ids_def)
  from burst_delivered_once [OF noop_callbacks.capture_client_axioms test_idle test_hears [OF demo_traffic_facts(2)]
      _ _ demo_traffic_facts(3) this(2,1)]
  show ?thesis unfolding demo_traffic_facts(1) test_receiver_facts(4) by auto
qed

text \<open>C20: No reordering, loss or repetition can corrupt a burst. Let all that an idle receiver hears from its peer
  be frames of one burst of at most 2032 bytes, in any number and any order. Then it acknowledges all of it, and whatever
  its end callback is given is a prefix of the data; whatever its command callback is given is a data packet of the
  burst.\<close>

theorem delivery_is_prefix:
  assumes "capture_client (Some on_command) on_end view app"
    and "idle_receiver (Some on_command) on_end host remote ids rx h s" and "hears gs s"
    and "length data \<le> 254 * payload_length_max"
    and "set (filter (from_pair host remote) gs) \<subseteq> set (packetise host remote ack True data)"
  shows "\<exists>h' t es. rx_rounds (length gs) h rx s = Some (Ret (Inr h') t) \<and>
    air (world t) = air (world s) @ map (wire \<circ> ack_of) gs \<and> view t = fold app es (view s) \<and>
    (\<forall>fs. Deliver fs \<in> set es \<longrightarrow> concat (map fr_data fs) = take (8 * length fs) data) \<and>
    (\<forall>f. Command f \<in> set es \<longrightarrow> f \<in> set (packetise host remote ack True data) \<and> fr_data f \<noteq> [])"
proof -
  let ?S = "idle_session host remote ids"
  obtain T es where r: "run session_step ?S gs = (T, es)" by force
  from heard_run [OF assms(1-3) r] obtain h' t
    where t: "rx_rounds (length gs) h rx s = Some (Ret (Inr h') t)" "air (world t) = air (world s) @ map (wire \<circ> ack_of) gs"
      "view t = fold app es (view s)" by auto
  have "concat (map fr_data fs) = take (8 * length fs) data" if "Deliver fs \<in> set es" for fs
    using session_delivery_prefix [of ?S data gs ack fs] assms(4,5) r that by simp
  moreover have "f \<in> set gs" if "Command f \<in> set es" for f
    using session_commands_heard [OF r that] .
  then have "f \<in> set (packetise host remote ack True data) \<and> fr_data f \<noteq> []" if "Command f \<in> set es" for f
    using session_shapes(3) [OF _ r that] assms(5) that by (auto simp: from_pair_def)
  ultimately show ?thesis using t by blast
qed

text \<open>BEGIN, the second data packet, the first, END: only the first is delivered.\<close>

theorem delivery_is_prefix_witness:
  "\<exists>h t es. rx_rounds 4 test_handler 3 (test_receiver [begin_frame 2 1 7, data_frame 2 1 7 2 [3], data_frame 2 1 7 1
      [1, 1, 1, 1, 1, 1, 1, 1], end_frame 2 1 7]) = Some (Ret (Inr h) t) \<and>
    counts t = fold count_event es (0, 0) \<and>
    (\<forall>fs. Deliver fs \<in> set es \<longrightarrow> concat (map fr_data fs) = take (8 * length fs) [1, 1, 1, 1, 1, 1, 1, 1, 3])"
proof -
  let ?gs = "[begin_frame 2 1 7, data_frame 2 1 7 2 [3], data_frame 2 1 7 1 [1, 1, 1, 1, 1, 1, 1, 1], end_frame 2 1 7]"
  have "g \<in> set ?gs \<Longrightarrow> length (fr_data g) \<le> 8" for g
    by (auto simp: begin_frame_def end_frame_def data_frame_def)
  then have h: "hears ?gs (test_receiver ?gs)" by (rule test_hears)
  have "set (filter (from_pair 2 1) ?gs) \<subseteq> set (packetise 2 1 7 True [1, 1, 1, 1, 1, 1, 1, 1, 3])"
    by (auto simp: packetise_def chunks_step numeral_2_eq_2)
  moreover have "length [1, 1, 1, 1, 1, 1, 1, 1, 3 :: u8] \<le> 254 * payload_length_max" by simp
  moreover have n: "length ?gs = 4" by simp
  ultimately show ?thesis
    using delivery_is_prefix [OF noop_callbacks.capture_client_axioms test_idle h] unfolding test_receiver_facts(4) n
    by blast
qed



text \<open>C36: Beyond 254 data packets a burst is acknowledged packet by packet and cut off silently: the end callback
  is given the first 2032 bytes only. When the number of data packets is 255 modulo 256 the last one has the ids of
  END, END is taken for a repetition, no callback is called, and the capture stays open with 254 packets in it.\<close>

theorem burst_beyond_capacity:
  assumes "capture_client cmd on_end view app" and "idle_receiver cmd on_end host remote ids rx h s"
    and "hears gs s" and "ids \<noteq> (ack, 0)" and "254 * payload_length_max < length data"
    and "remdups_adj (filter (from_pair host remote) gs) = packetise host remote ack True data"
  shows "\<exists>h' t. rx_rounds (length gs) h rx s = Some (Ret (Inr h') t) \<and>
    air (world t) = air (world s) @ map (wire \<circ> ack_of) gs \<and>
    (if ((length data + 7) div 8) mod 256 = 255 then view t = view s \<and> capture h' \<and> captured_n h' = 254
     else idle_receiver cmd on_end host remote (ack, 255) rx h' t \<and>
       (\<exists>fs. view t = app (Deliver fs) (view s) \<and> concat (map fr_data fs) = take 2032 data))"
proof -
  note c = assms(1)
  let ?S = "idle_session host remote ids" and ?q = "((length data + 7) div 8) mod 256 = 255"
  have "254 * 8 < length data" "s_last ?S \<noteq> (ack, 0)" using assms(4,5) by simp_all
  note o = session_overlong [OF _ this(2,1)]
  show ?thesis
  proof (cases ?q)
    case True
    then obtain T a fs where T: "run session_step ?S gs = (T, [])" "s_capture T = Some (a, fs)" "length fs = 254"
      using o [of gs] assms(6) by auto
    from heard_run [OF c assms(2,3) T(1)] obtain h' t
      where "rx_rounds (length gs) h rx s = Some (Ret (Inr h') t)" "capture_client.rx_state cmd on_end rx h' T t"
        "air (world t) = air (world s) @ map (wire \<circ> ack_of) gs" "view t = view s" by auto
    then show ?thesis using rx_state_capturing [OF c _ T(2)] T(3) True by auto
  next
    case False
    then obtain T fs where T: "run session_step ?S gs = (T, [Deliver fs])" "s_capture T = None" "s_host T = host"
      "s_remote T = remote" "s_last T = (ack, 255)" "concat (map fr_data fs) = take 2032 data"
      using o [of gs] assms(6) by auto
    from heard_run [OF c assms(2,3) T(1)] obtain h' t
      where t: "rx_rounds (length gs) h rx s = Some (Ret (Inr h') t)" "capture_client.rx_state cmd on_end rx h' T t"
        "air (world t) = air (world s) @ map (wire \<circ> ack_of) gs" "view t = app (Deliver fs) (view s)" by auto
    from rx_state_idle [OF c t(2) T(2)] T(3-6) t(1,3,4) False show ?thesis
      by (intro exI [of _ h'] exI [of _ t]) auto
  qed
qed

lemma packetise_heard:
  "remdups_adj (filter (from_pair host remote) (packetise host remote ack True data)) = packetise host remote ack True data"
  using packetise_channel [of "idle_session host remote (0, 0)" ack data] by simp

text \<open>255 data packets.\<close>

theorem burst_beyond_capacity_witness:
  "\<exists>h t. rx_rounds 257 test_handler 3 (test_receiver (packetise 2 1 7 True (replicate 2040 0))) = Some (Ret (Inr h) t) \<and>
     counts t = (0, 0) \<and> capture h \<and> captured_n h = 254"
proof -
  let ?gs = "packetise 2 1 7 True (replicate 2040 (0 :: u8))"
  have n: "length ?gs = 257" by (simp add: length_packetise length_chunks)
  have h: "hears ?gs (test_receiver ?gs)" by (rule test_hears) (rule packetise_small)
  from burst_beyond_capacity [OF noop_callbacks.capture_client_axioms test_idle h _ _ packetise_heard]
  show ?thesis unfolding n test_receiver_facts(4) by auto
qed

text \<open>C13: A receiver that misses BEGIN captures nothing and passes the whole burst to its command callback, one call
  for each data packet, in order; it acknowledges every frame and is idle at the end.\<close>

theorem missed_begin_becomes_commands:
  assumes "capture_client (Some on_command) on_end view app"
    and "idle_receiver (Some on_command) on_end host remote ids rx h s" and "hears gs s"
    and "ack \<noteq> 0" and "ids \<noteq> (ack, 1)"
    and "remdups_adj (filter (from_pair host remote) gs) = tl (packetise host remote ack True data)"
  shows "\<exists>h' t fs ids'. rx_rounds (length gs) h rx s = Some (Ret (Inr h') t) \<and>
    air (world t) = air (world s) @ map (wire \<circ> ack_of) gs \<and>
    view t = fold app (map Command fs) (view s) \<and> map fr_data fs = chunks 8 data \<and>
    idle_receiver (Some on_command) on_end host remote ids' rx h' t"
proof -
  note c = assms(1)
  let ?S = "idle_session host remote ids"
  obtain T fs where T: "run session_step ?S gs = (T, map Command fs)" "s_capture T = None" "map fr_data fs = chunks 8 data"
    using session_missed_begin [of ?S ack gs data] assms(4-6) by auto
  have ad: "s_host T = host" "s_remote T = remote"
    using session_trace_addrs [OF run_trace [OF session_trace.start, of ?S gs]] T(1) by simp_all
  from heard_run [OF c assms(2,3) T(1)] obtain h' t
    where t: "rx_rounds (length gs) h rx s = Some (Ret (Inr h') t)" "capture_client.rx_state (Some on_command) on_end rx h' T t"
      "air (world t) = air (world s) @ map (wire \<circ> ack_of) gs" "view t = fold app (map Command fs) (view s)" by auto
  from rx_state_idle [OF c t(2) T(2)] t(1,3,4) T(3) ad show ?thesis by metis
qed

theorem missed_begin_becomes_commands_witness:
  "\<exists>h t. rx_rounds 2 test_handler 3 (test_receiver [data_frame 2 1 7 1 [104, 105], end_frame 2 1 7])
     = Some (Ret (Inr h) t) \<and> counts t = (1, 0)"
proof -
  let ?gs = "[data_frame 2 1 7 1 [104, 105], end_frame 2 1 7]"
  have "g \<in> set ?gs \<Longrightarrow> length (fr_data g) \<le> 8" for g by (auto simp: end_frame_def data_frame_def)
  then have h: "hears ?gs (test_receiver ?gs)" by (rule test_hears)
  have n: "length ?gs = 2" by simp
  have heard: "remdups_adj (filter (from_pair 2 1) ?gs) = tl (packetise 2 1 7 True [104, 105])"
    by (simp add: from_pair_def end_frame_def data_frame_def packetise_def chunks_step)
  from missed_begin_becomes_commands [OF noop_callbacks.capture_client_axioms test_idle h _ _ heard] obtain k t fs
    where t: "rx_rounds 2 test_handler 3 (test_receiver ?gs) = Some (Ret (Inr k) t)"
      "counts t = fold count_event (map Command fs) (0, 0)" "map fr_data fs = chunks 8 [104, 105]"
    unfolding n test_receiver_facts(4) by auto
  have "length fs = 1" using arg_cong [OF t(3), of length] by (simp add: chunks_step)
  then obtain f where "fs = [f]" by (auto simp: length_Suc_conv)
  then show ?thesis using t(1,2) by (intro exI [of _ k] exI [of _ t]) simp
qed

text \<open>C37: A burst under ack id 0 is lost on a fresh receiver, although every packet of it is received and
  acknowledged: BEGIN has the ids that the zeroed context remembers as the last ones and is taken for a
  repetition, and the data packets after it are rejected. No callback is called, and the receiver is idle at the end.\<close>

theorem ack_zero_burst_lost:
  assumes "capture_client cmd on_end view app" and "at_peer s" and "blocks s rx = Some (Pkt k)" and "hears gs s"
    and "remdups_adj (filter (from_pair host remote) gs) = packetise host remote 0 True data"
  shows "\<exists>h' t ids'. rx_rounds (length gs) (rx_handler_init cmd (Some on_end) host remote) rx s = Some (Ret (Inr h') t) \<and>
    air (world t) = air (world s) @ map (wire \<circ> ack_of) gs \<and> view t = view s \<and>
    idle_receiver cmd on_end host remote ids' rx h' t"
proof -
  note c = assms(1) and i = idle_receiver_init [OF assms(2,3), of cmd on_end host remote]
  have S: "idle_session host remote (0, 0) = new_session host remote"
    by (simp add: idle_session_def new_session_def)
  obtain T where T: "run session_step (idle_session host remote (0, 0)) gs = (T, [])" "s_capture T = None"
    using session_ack_zero [OF S, of gs data] assms(5)
    by (cases "run session_step (idle_session host remote (0, 0)) gs") simp
  have ad: "s_host T = host" "s_remote T = remote"
    using session_trace_addrs [OF run_trace [OF session_trace.start, of "idle_session host remote (0, 0)" gs]] T(1)
    by simp_all
  from heard_run [OF c i assms(4) T(1)] obtain h' t
    where t: "rx_rounds (length gs) (rx_handler_init cmd (Some on_end) host remote) rx s = Some (Ret (Inr h') t)"
      "capture_client.rx_state cmd on_end rx h' T t" "air (world t) = air (world s) @ map (wire \<circ> ack_of) gs"
      "view t = view s" by auto
  from rx_state_idle [OF c t(2) T(2)] t(1,3,4) ad show ?thesis by metis
qed

theorem ack_zero_burst_lost_witness:
  "\<exists>h t. rx_rounds 3 test_handler 3 (test_receiver (packetise 2 1 0 True [104, 105])) = Some (Ret (Inr h) t) \<and>
     counts t = (0, 0) \<and> \<not> capture h"
proof -
  let ?gs = "packetise 2 1 0 True [104, 105]"
  have n: "length ?gs = 3" by (simp add: length_packetise length_chunks)
  have h: "hears ?gs (test_receiver ?gs)" by (rule test_hears) (rule packetise_small)
  from ack_zero_burst_lost [OF noop_callbacks.capture_client_axioms test_receiver_facts(1,2) h packetise_heard]
  show ?thesis unfolding n test_receiver_facts(4) idle_receiver_def by blast
qed

end
