(* ===== verification/Burst_Link.thy ===== *)
theory Burst_Link
  imports Rx_Protocol
begin

text \<open>
  Both ends of a burst: \<open>data_to_packet_array\<close> and \<open>send_burst\<close> on the sender, the receive loop and
  the session handler on the receiver. First the abstract burst of stop-and-wait transmissions (its
  transmissions, removed repetitions, are the packets in order), then which bursts can be
  acknowledged at all, then the two ends put together.
\<close>


lemma packetise_distinct_adj: "distinct_adj (packetise dest src ack True data)"
  using packetise_channel [of "new_session dest src" ack data] distinct_adj_remdups_adj
  by (metis new_session_def session.select_convs(1,2))

lemma stop_and_wait_pos: "0 < n \<Longrightarrow> 0 < snd (stop_and_wait ok rs n)"
  by (cases n; induction ok rs n rule: stop_and_wait.induct) (auto split: prod.splits)

lemma remdups_adj_repeated:
  "0 < k \<Longrightarrow> (xs \<noteq> [] \<longrightarrow> hd xs \<noteq> f) \<Longrightarrow> remdups_adj (replicate k f @ xs) = f # remdups_adj xs"
proof (induction k)
  case (Suc k)
  then show ?case by (cases k; cases xs) simp_all
qed simp

lemma burst_spec_hd:
  "burst_spec fs rs = (ret, xs) \<Longrightarrow> xs \<noteq> [] \<Longrightarrow> fs \<noteq> [] \<and> hd xs = fst (hd fs)"
proof (cases fs)
  case (Cons p fs')
  obtain k r where "stop_and_wait (acknowledges (fst p) (snd p)) rs 4 = (r, k)" "0 < k"
    using stop_and_wait_pos [of 4 "acknowledges (fst p) (snd p)" rs] by (metis prod.collapse zero_less_numeral)
  then show ?thesis if "burst_spec fs rs = (ret, xs)"
    using that Cons by (cases p; cases k) (auto split: if_splits prod.splits)
qed simp

text \<open>The transmissions of a burst are its frames in order, each repeated; all of them on success.\<close>

lemma burst_spec_frames:
  "distinct_adj fs \<Longrightarrow> length fs \<le> length tys \<Longrightarrow> burst_spec (zip fs tys) rs = (ret, xs) \<Longrightarrow>
   (\<exists>k. remdups_adj xs = take k fs) \<and> (ret = SX_OK \<longrightarrow> remdups_adj xs = fs) \<and> ret \<in> {SX_OK, SX_TIMEOUT}"
proof (induction fs arbitrary: tys rs ret xs)
  case (Cons f fs)
  obtain ty tys' where ty: "tys = ty # tys'" using Cons.prems(2) by (cases tys) auto
  obtain r k where sw: "stop_and_wait (acknowledges f ty) rs 4 = (r, k)" by force
  have k: "0 < k" using stop_and_wait_pos [of 4 "acknowledges f ty" rs] sw by simp
  show ?case
  proof (cases "r = SX_OK")
    case False
    then have "r = SX_TIMEOUT" using stop_and_wait_timeout [of "acknowledges f ty" rs 4] sw by simp
    then have "ret = SX_TIMEOUT" "xs = replicate k f" using Cons.prems(3) ty sw by simp_all
    then show ?thesis using remdups_adj_repeated [OF k, of "[]" f] by (auto intro: exI [of _ 1])
  next
    case True
    obtain ys where ys: "burst_spec (zip fs tys') (drop k rs) = (ret, ys)" "xs = replicate k f @ ys"
      using Cons.prems(3) ty sw True by (auto split: prod.splits)
    have d: "distinct_adj fs" "fs \<noteq> [] \<Longrightarrow> hd fs \<noteq> f"
      using Cons.prems(1) by (auto simp: distinct_adj_Cons)
    have "ys \<noteq> [] \<longrightarrow> hd ys \<noteq> f"
      using burst_spec_hd [OF ys(1)] d(2) by (cases fs; cases tys') auto
    then have "remdups_adj xs = f # remdups_adj ys" using remdups_adj_repeated [OF k] ys(2) by simp
    moreover obtain j where "remdups_adj ys = take j fs" "ret = SX_OK \<longrightarrow> remdups_adj ys = fs" "ret \<in> {SX_OK, SX_TIMEOUT}"
      using Cons.IH [OF d(1) _ ys(1)] Cons.prems(2) ty by auto
    ultimately show ?thesis by (auto intro: exI [of _ "Suc j"])
  qed
qed auto

text \<open>When it succeeds, every frame was acknowledged with its type; the right acknowledgements succeed.\<close>

lemma burst_spec_OK_acked:
  "burst_spec fs rs = (SX_OK, xs) \<Longrightarrow> (f, ty) \<in> set fs \<Longrightarrow> \<exists>g. Some g \<in> set rs \<and> acknowledges f ty g"
proof (induction fs arbitrary: rs xs)
  case (Cons p fs)
  obtain f' ty' where p: "p = (f', ty')" by force
  obtain k where sw: "stop_and_wait (acknowledges f' ty') rs 4 = (SX_OK, k)"
    and b: "\<exists>ys. burst_spec fs (drop k rs) = (SX_OK, ys)"
    using Cons.prems(1) p by (auto split: prod.splits if_splits)
  obtain g where g: "0 < k" "k \<le> length rs" "rs ! (k - 1) = Some g" "acknowledges f' ty' g"
    using stop_and_wait_first [OF sw] by blast
  have "k - 1 < length rs" using g(1,2) by linarith
  then have "Some g \<in> set rs" using nth_mem [of "k - 1" rs] g(3) by metis
  moreover have "set (drop k rs) \<subseteq> set rs" by (rule set_drop_subset)
  moreover obtain ys where "burst_spec fs (drop k rs) = (SX_OK, ys)" using b by blast
  note Cons.IH [OF this]
  ultimately show ?case using Cons.prems(2) p g(4) by (auto 0 3)
qed simp

lemma burst_spec_acked:
  "(\<And>f ty. (f, ty) \<in> set (zip fs tys) \<Longrightarrow> acknowledges f ty (ack_of f)) \<Longrightarrow> length fs \<le> length tys \<Longrightarrow>
   burst_spec (zip fs tys) (map (Some \<circ> ack_of) fs @ rs) = (SX_OK, fs)"
proof (induction fs arbitrary: tys)
  case (Cons f fs)
  obtain ty tys' where ty: "tys = ty # tys'" using Cons.prems(2) by (cases tys) auto
  have "burst_spec (zip fs tys') (map (Some \<circ> ack_of) fs @ rs) = (SX_OK, fs)"
    by (rule Cons.IH) (use Cons.prems ty in auto)
  moreover have "acknowledges f ty (ack_of f)" using Cons.prems(1) ty by simp
  ultimately show ?case using ty by (simp add: eval_nat_numeral comp_def)
qed simp


section \<open>Which bursts can be acknowledged\<close>

lemma expected_nth: "i < n \<Longrightarrow> expected 0 n ! i = burst_ack_type i (int n)"
  by (simp add: expected_def)

lemma frame_type_ack:
  "frame_type (ack_of f) = (if fr_seq f = 0 then PACKET_BEGIN else if fr_seq f = 255 then PACKET_END else PACKET_ACK)"
  by (simp add: frame_type_def ack_of_def)

lemma acknowledges_empty:
  "acknowledges f ty g \<Longrightarrow> fr_data g = [] \<Longrightarrow> frame_type (ack_of f) = ty"
  by (auto simp: acknowledges_def frame_type_def ack_of_def)

lemma u8_of_nat_eq: "(of_nat i :: u8) = 0 \<longleftrightarrow> i mod 256 = 0" "(of_nat i :: u8) = 255 \<longleftrightarrow> i mod 256 = 255"
proof -
  have u: "unat (of_nat i :: u8) = i mod 256" by (simp add: unat_of_nat)
  show "(of_nat i :: u8) = 0 \<longleftrightarrow> i mod 256 = 0" using u by (simp add: unat_eq_0_iff [symmetric] del: unat_eq_0_iff)
  have "unat (255 :: u8) = 255" by simp
  then show "(of_nat i :: u8) = 255 \<longleftrightarrow> i mod 256 = 255" using u by (metis word_unat_eq_iff)
qed

lemma packetise_seq:
  assumes "i < length (packetise dest src ack hs data)"
  shows "fr_seq (packetise dest src ack hs data ! i) =
    (if hs \<and> i = Suc (length (chunks 8 data)) then 255 else of_nat i)"
proof (cases hs)
  case True
  then show ?thesis
    using assms by (cases i) (auto simp: packetise_def nth_append number_frames_nth begin_frame_def
        end_frame_def data_frame_def simp del: One_nat_def)
next
  case False
  then have "i < length (chunks 8 data)" using assms by (simp add: length_packetise)
  then show ?thesis using False by (simp add: packetise_def number_frames_nth data_frame_def)
qed

definition acknowledgeable :: "bool \<Rightarrow> nat \<Rightarrow> bool" where
  "acknowledgeable hs n \<longleftrightarrow> (if hs then n \<le> 254 else n \<le> 1 \<or> n = 256)"

lemma all_types_iff:
  fixes data :: "u8 list" and dest src :: u16 and ack :: u8
  defines "fs \<equiv> \<lambda>hs. packetise dest src ack hs data" and "n \<equiv> length (chunks 8 data)"
  shows "(\<forall>i < length (fs hs). frame_type (ack_of (fs hs ! i)) = burst_ack_type i (int (length (fs hs))))
    \<longleftrightarrow> acknowledgeable hs n"
proof (cases hs)
  case True
  let ?P = "\<lambda>i. frame_type (ack_of (fs True ! i)) = burst_ack_type i (int (length (fs True)))"
  have l: "length (fs True) = n + 2" by (simp add: fs_def n_def length_packetise)
  have s: "fr_seq (fs True ! i) = (if i = Suc n then 255 else of_nat i)" if "i < n + 2" for i
    using packetise_seq [of i dest src ack True data] that by (simp add: fs_def n_def length_packetise)
  have P: "?P i \<longleftrightarrow> i = 0 \<or> i = Suc n \<or> i mod 256 \<noteq> 0 \<and> i mod 256 \<noteq> 255" if "i < n + 2" for i
    using that s [OF that] l by (auto simp: frame_type_ack burst_ack_type_def u8_of_nat_eq)
  show ?thesis
  proof
    assume a: "\<forall>i < length (fs hs). frame_type (ack_of (fs hs ! i)) = burst_ack_type i (int (length (fs hs)))"
    have "\<not> 255 \<le> n"
    proof
      assume "255 \<le> n"
      then have "?P 255" using a l True by simp
      then show False using P [of 255] \<open>255 \<le> n\<close> by simp
    qed
    then show "acknowledgeable hs n" using True by (simp add: acknowledgeable_def)
  next
    assume "acknowledgeable hs n"
    then have "n \<le> 254" using True by (simp add: acknowledgeable_def)
    then have "?P i" if "i < n + 2" for i using P [OF that] that by (cases "i = Suc n") auto
    then show "\<forall>i < length (fs hs). frame_type (ack_of (fs hs ! i)) = burst_ack_type i (int (length (fs hs)))"
      using l True by simp
  qed
next
  case False
  let ?P = "\<lambda>i. frame_type (ack_of (fs False ! i)) = burst_ack_type i (int (length (fs False)))"
  have l: "length (fs False) = n" by (simp add: fs_def n_def length_packetise)
  have s: "fr_seq (fs False ! i) = of_nat i" if "i < n" for i
    using packetise_seq [of i dest src ack False data] that by (simp add: fs_def n_def length_packetise)
  have P: "?P i \<longleftrightarrow> i = 0 \<or> (if Suc i = n then i mod 256 = 255 else i mod 256 \<noteq> 0 \<and> i mod 256 \<noteq> 255)"
    if "i < n" for i
    using that s [OF that] l by (auto simp: frame_type_ack burst_ack_type_def u8_of_nat_eq)
  show ?thesis
  proof
    assume "\<forall>i < length (fs hs). frame_type (ack_of (fs hs ! i)) = burst_ack_type i (int (length (fs hs)))"
    then have a: "\<And>i. i < n \<Longrightarrow> ?P i" using l False by simp
    have "n = 256" if "1 < n"
    proof -
      have "(n - 1) mod 256 = 255" using a [of "n - 1"] P [of "n - 1"] that by auto
      then have "255 \<le> n - 1" by (metis mod_less_eq_dividend)
      moreover have "\<not> 256 < n" using a [of 255] P [of 255] by auto
      ultimately show "n = 256" by linarith
    qed
    then show "acknowledgeable hs n" using False by (cases "1 < n") (simp_all add: acknowledgeable_def)
  next
    assume "acknowledgeable hs n"
    then have "n \<le> 1 \<or> n = 256" using False by (simp add: acknowledgeable_def)
    then have "?P i" if "i < n" for i using P [OF that] that by auto
    then show "\<forall>i < length (fs hs). frame_type (ack_of (fs hs ! i)) = burst_ack_type i (int (length (fs hs)))"
      using l False by simp
  qed
qed


lemma burst_spec_packetise:
  assumes "length data \<le> 2032"
  shows "burst_spec (zip (packetise dest src ack True data) (expected 0 (length (packetise dest src ack True data))))
    (map Some (map ack_of (packetise dest src ack True data))) = (SX_OK, packetise dest src ack True data)"
proof -
  let ?fs = "packetise dest src ack True data"
  have "acknowledgeable True (length (chunks 8 data))" using assms by (simp add: acknowledgeable_def length_chunks)
  then have ok: "\<forall>i < length ?fs. frame_type (ack_of (?fs ! i)) = burst_ack_type i (int (length ?fs))"
    unfolding all_types_iff .
  have "burst_spec (zip ?fs (expected 0 (length ?fs))) (map (Some \<circ> ack_of) ?fs @ []) = (SX_OK, ?fs)"
    using ok by (intro burst_spec_acked) (auto simp: in_set_zip expected_nth ack_of_acknowledges expected_def)
  then show ?thesis by (simp add: comp_def)
qed

section \<open>Runs\<close>

text \<open>The machine with the answers \<open>rs\<close> from the \<open>n\<close>-th transmission on.\<close>

definition fed :: "nat \<Rightarrow> frame option list \<Rightarrow> (peer_world, 'z) machine_scheme \<Rightarrow> (peer_world, 'z) machine_scheme" where
  "fed n rs s = s\<lparr>world := (world s)\<lparr>script := replicate n None @ rs\<rparr>\<rparr>"

lemma packet_view_blocks:
  assumes "blocks t = blocks s"
  shows "packet_view t p = packet_view s p"
proof (cases "packet_view s p")
  case None
  then show ?thesis using packet_view_cong [of t p _ s] assms by (cases "packet_view t p") auto
next
  case (Some f)
  from packet_view_cong [OF this, of t] assms show ?thesis using Some by simp
qed

lemma fed_facts [simp]:
  "at_peer (fed n rs s) = at_peer s" "air (world (fed n rs s)) = air (world s)"
  "ticks (world (fed n rs s)) = ticks (world s)" "script (world (fed n rs s)) = replicate n None @ rs"
  "blocks (fed n rs s) = blocks s" "packet_view (fed n rs s) = packet_view s"
  by (auto simp: fed_def at_peer_def on_air_def mem_ok_def alloc_never_fails_def fun_eq_iff intro: packet_view_blocks)

lemma fed_rx_rel: "rx_rel X h s S \<Longrightarrow> mem_ok s \<Longrightarrow> rx_rel X h (fed n rs s) S"
  by (rule rx_rel_frame [where A = "{}"]) (auto simp: fed_def heap_keeps_def)

lemma send_burst_run:
  assumes "at_peer s" and "map (packet_view s) ps = map Some fs" and "distinct ps"
    and "\<And>f. f \<in> set fs \<Longrightarrow> length (fr_data f) \<le> 8"
    and "\<And>g. Some g \<in> set rs \<Longrightarrow> length (fr_data g) \<le> 8"
    and "ticks (world s) + 40000000 * length ps < 2 ^ 63"
    and "burst_spec (zip fs (expected 0 (length ps))) rs = (ret, xs)"
  shows "\<exists>u. send_burst ps (int (length ps)) (fed (length (air (world s))) rs s) = Some (Ret ret u) \<and>
     air (world u) = air (world s) @ map wire xs"
proof -
  let ?s = "fed (length (air (world s))) rs s"
  have p: "at_peer ?s" and v: "map (packet_view ?s) ps = map Some fs" using assms(1,2) by simp_all
  have "\<And>g. Some g \<in> set (script (world ?s)) \<Longrightarrow> length (fr_data g) \<le> 8" using assms(5) by fastforce
  from burst_loop_run [OF p drop_0 v assms(3,4) this] assms(6,7) show ?thesis
    by (fastforce simp: send_burst_def)
qed

lemma length_expected [simp]: "length (expected i n) = n - i"
  by (simp add: expected_def)

lemma views_length: "map (packet_view s) ps = map Some fs \<Longrightarrow> length ps = length fs"
  by (metis length_map)

section \<open>From the sender to the receiver\<close>

lemma fed_id: "script (world t) = replicate n None @ rs \<Longrightarrow> fed n rs t = t"
  by (simp add: fed_def)

lemma built_at_peer:
  assumes "at_peer s" and "built s ps fs t" and "alloc_never_fails t"
  shows "at_peer t \<and> world t = world s"
proof -
  have "t = s\<lparr>blocks := blocks t, fresh := fresh t\<rparr>" and m: "mem_ok t"
    using assms(2) by (simp_all add: built_def keeps_def)
  then obtain b n where "t = s\<lparr>blocks := b, fresh := n\<rparr>" by blast
  then show ?thesis using assms(1,3) m by (simp add: at_peer_def on_air_def)
qed

text \<open>A sender that has built its packets sends them.\<close>

lemma packets_sent:
  assumes p: "at_peer s" and cb: "length cb = length (packetise dest src ack hs data)"
    and rs: "\<And>g. Some g \<in> set rs \<Longrightarrow> length (fr_data g) \<le> 8"
    and tm: "ticks (world s) + 40000000 * length cb < 2 ^ 63"
    and b: "burst_spec (zip (packetise dest src ack hs data) (expected 0 (length cb))) rs = (ret, xs)"
  shows "\<exists>ps t u. data_to_packet_array cb data (int (length data)) dest src ack hs
      (fed (length (air (world s))) rs s) = Some (Ret (0, ps) t) \<and>
    send_burst ps (int (length ps)) t = Some (Ret ret u) \<and> air (world u) = air (world s) @ map wire xs"
proof -
  let ?fs = "packetise dest src ack hs data" and ?s = "fed (length (air (world s))) rs s"
  have p': "at_peer ?s" using p by simp
  then have m: "alloc_never_fails ?s" "mem_ok ?s" by (simp_all only: at_peer_def)
  have "length ?fs \<le> length cb" using cb by simp
  from data_to_packet_array_built [OF m this] obtain ps t
    where d: "data_to_packet_array cb data (int (length data)) dest src ack hs ?s
        = Some (Ret (0, ps @ drop (length ps) cb) t)"
      and bt: "built ?s ps ?fs t" and al: "alloc_never_fails t" by blast
  have l: "length ps = length cb" using built_length [OF bt] cb by simp
  have t: "at_peer t" "world t = world ?s" using built_at_peer [OF p' bt al] by simp_all
  have v: "map (packet_view t) ps = map Some ?fs" "distinct ps" using bt by (simp_all add: built_def)
  have same: "fed (length (air (world t))) rs t = t" by (rule fed_id) (simp add: t(2))
  have "ticks (world t) + 40000000 * length ps < 2 ^ 63" using tm l t(2) by simp
  from send_burst_run [OF t(1) v packetise_small rs this] b l same t(2) d show ?thesis by fastforce
qed

lemma run_prefix:
  assumes "s_capture S = None" and "s_last S \<noteq> (ack, 0)"
    and "j < length (packetise (s_host S) (s_remote S) ack True data)"
  shows "snd (run session_step S (take j (packetise (s_host S) (s_remote S) ack True data))) = []"
proof -
  let ?ns = "number_frames (s_host S) (s_remote S) ack 1 (chunks 8 data)"
  let ?as = "begin_frame (s_host S) (s_remote S) ack # ?ns"
  have "snd (run session_step S ?as) = []"
    using begin_step [OF assms(1,2)] run_capturing [OF chunks_no_Nil, of "[]" 0] by simp
  moreover have "run session_step S ?as = run session_step S (take j ?as @ drop j ?as)" by simp
  ultimately have "snd (run session_step S (take j ?as)) = []"
    unfolding run_append by (auto split: prod.splits)
  moreover have "take j (packetise (s_host S) (s_remote S) ack True data) = take j ?as"
    using assms(3) by (simp add: packetise_def take_Cons' del: One_nat_def)
  ultimately show ?thesis by simp
qed

lemma length_burst: "length data \<le> 2032 \<Longrightarrow> length (packetise dest src ack True data) \<le> 256"
  by (simp add: length_packetise length_chunks)

section \<open>Properties\<close>

text \<open>C21: Which bursts can be sent. There are acknowledgements (empty packets) with which \<open>send_burst\<close>
  returns \<open>SX_OK\<close> for the packets of \<open>data_to_packet_array\<close> if and only if there are at most 254 data
  packets between the handshakes; without handshakes, if and only if there is at most one packet or
  there are exactly 256. For all other lengths no answer of a receiver is accepted.\<close>

theorem send_burst_acknowledged_iff:
  assumes "at_peer s" and "map (packet_view s) ps = map Some (packetise dest src ack hs data)" and "distinct ps"
    and "ticks (world s) + 40000000 * length ps < 2 ^ 63"
  shows "(\<exists>rs u. (\<forall>g. Some g \<in> set rs \<longrightarrow> fr_data g = []) \<and>
      send_burst ps (int (length ps)) (fed (length (air (world s))) rs s) = Some (Ret SX_OK u))
    \<longleftrightarrow> (if hs then length data \<le> 2032 else length data \<le> 8 \<or> 2040 < length data \<and> length data \<le> 2048)"
proof -
  let ?fs = "packetise dest src ack hs data" and ?n = "length (chunks 8 data)"
  let ?tys = "expected 0 (length ps)"
  have l: "length ps = length ?fs" by (rule views_length [OF assms(2)])
  have n: "acknowledgeable hs ?n \<longleftrightarrow>
    (if hs then length data \<le> 2032 else length data \<le> 8 \<or> 2040 < length data \<and> length data \<le> 2048)"
    by (simp add: acknowledgeable_def length_chunks) linarith
  let ?ok = "\<lambda>i. frame_type (ack_of (?fs ! i)) = burst_ack_type i (int (length ?fs))"
  have in_zip: "(f, ty) \<in> set (zip ?fs ?tys) \<longleftrightarrow> (\<exists>i < length ?fs. f = ?fs ! i \<and> ty = burst_ack_type i (int (length ?fs)))"
    for f ty using l by (auto simp: in_set_zip expected_nth)
  have "(\<exists>rs u. (\<forall>g. Some g \<in> set rs \<longrightarrow> fr_data g = []) \<and>
      send_burst ps (int (length ps)) (fed (length (air (world s))) rs s) = Some (Ret SX_OK u))
    \<longleftrightarrow> (\<forall>i < length ?fs. ?ok i)"
  proof
    assume "\<exists>rs u. (\<forall>g. Some g \<in> set rs \<longrightarrow> fr_data g = []) \<and>
      send_burst ps (int (length ps)) (fed (length (air (world s))) rs s) = Some (Ret SX_OK u)"
    then obtain rs u where r: "\<forall>g. Some g \<in> set rs \<longrightarrow> fr_data g = []"
      "send_burst ps (int (length ps)) (fed (length (air (world s))) rs s) = Some (Ret SX_OK u)" by blast
    obtain ret xs where b: "burst_spec (zip ?fs ?tys) rs = (ret, xs)" by force
    with send_burst_run [OF assms(1-3) packetise_small _ assms(4) b] r have "ret = SX_OK" by auto
    then have a: "\<exists>g. Some g \<in> set rs \<and> acknowledges (?fs ! i) (burst_ack_type i (int (length ?fs))) g"
      if "i < length ?fs" for i
      using burst_spec_OK_acked [of "zip ?fs ?tys" rs xs] b in_zip that by blast
    show "\<forall>i < length ?fs. ?ok i" using a r(1) acknowledges_empty by blast
  next
    assume "\<forall>i < length ?fs. ?ok i"
    then have "burst_spec (zip ?fs ?tys) (map (Some \<circ> ack_of) ?fs @ []) = (SX_OK, ?fs)"
      by (intro burst_spec_acked) (auto simp: in_zip ack_of_acknowledges l [symmetric])
    then have "burst_spec (zip ?fs ?tys) (map (Some \<circ> ack_of) ?fs) = (SX_OK, ?fs)" by simp
    from send_burst_run [OF assms(1-3) _ _ assms(4) this] packetise_small show "\<exists>rs u. (\<forall>g. Some g \<in> set rs \<longrightarrow> fr_data g = []) \<and>
      send_burst ps (int (length ps)) (fed (length (air (world s))) rs s) = Some (Ret SX_OK u)"
      by (intro exI [of _ "map (Some \<circ> ack_of) ?fs"]) (fastforce simp: ack_of_def)
  qed
  then show ?thesis unfolding all_types_iff n .
qed

text \<open>One byte more than fits.\<close>

theorem send_burst_acknowledged_iff_witness:
  "\<exists>ps t. data_to_packet_array (replicate 257 0) (replicate 2033 0) 2033 2 1 7 True (peer_machine []) = Some (Ret (0, ps) t) \<and>
     \<not> (\<exists>rs u. (\<forall>g. Some g \<in> set rs \<longrightarrow> fr_data g = []) \<and>
        send_burst ps (int (length ps)) (fed (length (air (world t))) rs t) = Some (Ret SX_OK u))"
proof -
  let ?s = "peer_machine []" and ?d = "replicate 2033 (0 :: u8)"
  have s: "at_peer ?s" by simp
  then have m: "alloc_never_fails ?s" "mem_ok ?s" by (simp_all only: at_peer_def)
  have n: "length (packetise 2 1 7 True ?d) = 257" by (simp add: length_packetise length_chunks)
  have "length (packetise 2 1 7 True ?d) \<le> length (replicate 257 (0 :: nat))" unfolding n by simp
  from data_to_packet_array_built [OF m this] obtain ps t
    where d: "data_to_packet_array (replicate 257 0) ?d 2033 2 1 7 True ?s
        = Some (Ret (0, ps @ drop (length ps) (replicate 257 0)) t)"
      and b: "built ?s ps (packetise 2 1 7 True ?d) t" and a: "alloc_never_fails t" by auto
  have l: "length ps = 257" using built_length [OF b] n by simp
  have p: "at_peer t" "world t = world ?s" using built_at_peer [OF s b a] by simp_all
  have v: "map (packet_view t) ps = map Some (packetise 2 1 7 True ?d)" "distinct ps"
    using b by (simp_all add: built_def)
  have "ticks (world t) + 40000000 * length ps < 2 ^ 63" using p(2) l by simp
  from send_burst_acknowledged_iff [OF p(1) v this]
  have "\<not> (\<exists>rs u. (\<forall>g. Some g \<in> set rs \<longrightarrow> fr_data g = []) \<and>
        send_burst ps (int (length ps)) (fed (length (air (world t))) rs t) = Some (Ret SX_OK u))" by simp
  then show ?thesis using d l by auto
qed

text \<open>What a receiver of the pair makes of it when it hears transmissions of a burst up to some point.\<close>

lemma receiver_hears_prefix:
  assumes c: "capture_client cmd on_end view app" and i: "idle_receiver cmd on_end host remote ids rx h r"
    and g: "hears gs r" and ids: "ids \<noteq> (ack, 0)" and len: "length data \<le> 254 * 8"
    and heard: "remdups_adj (filter (from_pair host remote) gs) = take j (packetise host remote ack True data)"
  shows "\<exists>h' v. rx_rounds (length gs) h rx r = Some (Ret (Inr h') v) \<and>
    air (world v) = air (world r) @ map (wire \<circ> ack_of) gs \<and>
    (j < length (packetise host remote ack True data) \<and> view v = view r \<or>
     (\<exists>fs. view v = app (Deliver fs) (view r) \<and> concat (map fr_data fs) = data))"
proof -
  let ?S = "idle_session host remote ids"
  note sel = idle_session_sel
  show ?thesis
  proof (cases "j < length (packetise host remote ack True data)")
    case True
    have "run session_step ?S gs = run session_step ?S (take j (packetise host remote ack True data))"
      by (rule channel_run) (use heard in simp)
    then have "snd (run session_step ?S gs) = []" using run_prefix [of ?S ack j data] True ids by simp
    then obtain T where "run session_step ?S gs = (T, [])" by (metis prod.collapse)
    from heard_run [OF c i g this] True show ?thesis by fastforce
  next
    case False
    then obtain T fs where T: "run session_step ?S gs = (T, [Deliver fs])" "concat (map fr_data fs) = data"
      using channel_delivers [of ?S ack data gs] heard ids len by auto
    from heard_run [OF c i g T(1)] T(2) show ?thesis by fastforce
  qed
qed

text \<open>C4: All or nothing, at most once. The sender builds the packets of \<open>data\<close> and sends the burst; the answers it
  gets may be lost or wrong or data packets, as long as each carries at most eight payload bytes. It returns, and has
  transmitted a prefix of the packets, each repeated. Let an idle receiver of the pair run its receive loop on what
  was transmitted up to any point, with any repetitions and any traffic of other stations in between. It serves
  and acknowledges all of it, and its end callback is called once, with exactly the data, or no callback is
  called; and it is called when \<open>send_burst\<close> has returned \<open>SX_OK\<close> and every packet was heard.\<close>

theorem burst_transfer:
  assumes "at_peer s" and "length cb = length (packetise dest src ack True data)"
    and "length data \<le> 254 * payload_length_max"
    and "\<forall>g. Some g \<in> set rs \<longrightarrow> length (fr_data g) \<le> payload_length_max"
    and "ticks (world s) < 2 ^ 62" and "capture_client cmd on_end view app" and "ids \<noteq> (ack, 0)"
  shows "\<exists>ps t ret u xs.
    data_to_packet_array cb data (int (length data)) dest src ack True (fed (length (air (world s))) rs s)
      = Some (Ret (0, ps) t) \<and>
    send_burst ps (int (length ps)) t = Some (Ret ret u) \<and>
    air (world u) = air (world s) @ map wire xs \<and>
    (\<exists>k. remdups_adj xs = take k (packetise dest src ack True data)) \<and>
    (\<forall>gs j rx h r. idle_receiver cmd on_end dest src ids rx h r \<and> hears gs r \<and>
      remdups_adj (filter (from_pair dest src) gs) = take j (remdups_adj xs) \<longrightarrow>
      (\<exists>h' v. rx_rounds (length gs) h rx r = Some (Ret (Inr h') v) \<and>
        air (world v) = air (world r) @ map (wire \<circ> ack_of) gs \<and>
        (\<not> (ret = SX_OK \<and> length (remdups_adj xs) \<le> j) \<and> view v = view r \<or>
         (\<exists>fs. view v = app (Deliver fs) (view r) \<and> concat (map fr_data fs) = data))))"
proof -
  let ?fs = "packetise dest src ack True data"
  have len: "length data \<le> 254 * 8" and rs: "\<And>g. Some g \<in> set rs \<Longrightarrow> length (fr_data g) \<le> 8"
    using assms(3,4) by simp_all
  obtain ret xs where b: "burst_spec (zip ?fs (expected 0 (length cb))) rs = (ret, xs)" by force
  have "ticks (world s) + 40000000 * length cb < 2 ^ 63"
    using assms(2,5) length_burst [of data dest src ack] len by simp
  from packets_sent [OF assms(1,2) rs this b] obtain ps t u
    where run: "data_to_packet_array cb data (int (length data)) dest src ack True
      (fed (length (air (world s))) rs s) = Some (Ret (0, ps) t)"
      "send_burst ps (int (length ps)) t = Some (Ret ret u)" "air (world u) = air (world s) @ map wire xs"
    by blast
  have "length ?fs \<le> length (expected 0 (length cb))" using assms(2) by simp
  from burst_spec_frames [OF packetise_distinct_adj this b] obtain k
    where k: "remdups_adj xs = take k ?fs" "ret = SX_OK \<longrightarrow> remdups_adj xs = ?fs" by blast
  have "\<exists>h' v. rx_rounds (length gs) h rx r = Some (Ret (Inr h') v) \<and>
        air (world v) = air (world r) @ map (wire \<circ> ack_of) gs \<and>
        (\<not> (ret = SX_OK \<and> length (remdups_adj xs) \<le> j) \<and> view v = view r \<or>
         (\<exists>fs. view v = app (Deliver fs) (view r) \<and> concat (map fr_data fs) = data))"
    if i: "idle_receiver cmd on_end dest src ids rx h r" and g: "hears gs r"
      and heard: "remdups_adj (filter (from_pair dest src) gs) = take j (remdups_adj xs)" for gs j rx h r
  proof -
    have "remdups_adj (filter (from_pair dest src) gs) = take (min j k) ?fs" using heard k(1) by simp
    from receiver_hears_prefix [OF assms(6) i g assms(7) len this] obtain h' v
      where "rx_rounds (length gs) h rx r = Some (Ret (Inr h') v)"
        "air (world v) = air (world r) @ map (wire \<circ> ack_of) gs"
        "min j k < length ?fs \<and> view v = view r \<or>
         (\<exists>fs. view v = app (Deliver fs) (view r) \<and> concat (map fr_data fs) = data)" by blast
    moreover have "\<not> (ret = SX_OK \<and> length (remdups_adj xs) \<le> j)" if "min j k < length ?fs"
      using that k by (auto simp: min_def split: if_splits)
    ultimately show ?thesis by blast
  qed
  then show ?thesis using run k(1) by blast
qed

text \<open>The first answer is lost, the second is a data packet; the receiver hears all that was transmitted.\<close>

theorem burst_transfer_witness:
  "\<exists>ps t ret u xs h v. data_to_packet_array [0, 0, 0] [104, 105] 2 2 1 7 True
       (fed 0 [None, Some demo_command] (peer_machine [])) = Some (Ret (0, ps) t) \<and>
    send_burst ps (int (length ps)) t = Some (Ret ret u) \<and> air (world u) = map wire xs \<and>
    rx_rounds (length xs) test_handler 3 (test_receiver xs) = Some (Ret (Inr h) v) \<and>
    (counts v = (0, 0) \<or> counts v = (0, 1))"
proof -
  have n: "length [0, 0, 0 :: nat] = length (packetise 2 1 7 True [104, 105])"
    by (simp add: length_packetise length_chunks)
  have rs: "\<forall>g. Some g \<in> set [None, Some demo_command] \<longrightarrow> length (fr_data g) \<le> payload_length_max"
    by (simp add: demo_command_def data_frame_def)
  have l: "length [104, 105 :: u8] \<le> 254 * payload_length_max" and tk: "ticks (world (peer_machine [])) < 2 ^ 62"
    and ids: "(0, 0) \<noteq> (7 :: u8, 0 :: u8)" by simp_all
  have a: "air (world (peer_machine [])) = []" by simp
  obtain ps t ret u xs k where
    r: "data_to_packet_array [0, 0, 0] [104, 105] (int (length [104, 105 :: u8])) 2 1 7 True
        (fed (length ([] :: u8 list list)) [None, Some demo_command] (peer_machine [])) = Some (Ret (0, ps) t)"
      "send_burst ps (int (length ps)) t = Some (Ret ret u)" "air (world u) = [] @ map wire xs"
    and k: "remdups_adj xs = take k (packetise 2 1 7 True [104, 105])"
    and d: "\<forall>gs j rx h (r :: peer_world callback_test). idle_receiver (Some noop_command_callback) noop_end_callback 2 1 (0, 0) rx h r \<and> hears gs r \<and>
      remdups_adj (filter (from_pair 2 1) gs) = take j (remdups_adj xs) \<longrightarrow>
      (\<exists>h' v. rx_rounds (length gs) h rx r = Some (Ret (Inr h') v) \<and>
        air (world v) = air (world r) @ map (wire \<circ> ack_of) gs \<and>
        (\<not> (ret = SX_OK \<and> length (remdups_adj xs) \<le> j) \<and> counts v = counts r \<or>
         (\<exists>fs. counts v = count_event (Deliver fs) (counts r) \<and> concat (map fr_data fs) = [104, 105])))"
    using burst_transfer [OF peer_machine_facts(1) n l rs tk noop_callbacks.capture_client_axioms ids, unfolded a]
    by blast
  have "set xs \<subseteq> set (packetise 2 1 7 True [104, 105])"
    using arg_cong [OF k, of set] set_take_subset [of k "packetise 2 1 7 True [104, 105]"] by simp
  then have xs: "\<And>f. f \<in> set xs \<Longrightarrow> f \<in> set (packetise 2 1 7 True [104, 105])" by blast
  have "from_pair 2 1 f" if "f \<in> set (packetise 2 1 7 True [104, 105])" for f
    using that by (auto simp: from_pair_def packetise_def begin_frame_def end_frame_def data_frame_def chunks_step)
  then have "filter (from_pair 2 1) xs = xs" using xs by (intro filter_True) blast
  then have "remdups_adj (filter (from_pair 2 1) xs) = take (length xs) (remdups_adj xs)"
    by (simp add: remdups_adj_length)
  moreover have "hears xs (test_receiver xs)" by (rule test_hears) (rule packetise_small [OF xs])
  ultimately obtain h v where "rx_rounds (length xs) test_handler 3 (test_receiver xs) = Some (Ret (Inr h) v)"
    "counts v = counts (test_receiver xs) \<or> (\<exists>fs. counts v = count_event (Deliver fs) (counts (test_receiver xs)))"
    using d test_idle by blast
  then show ?thesis using r by (auto simp: test_receiver_facts(4))
qed


text \<open>C2: The two programs work together. There are a run of the sender and a run of the receiver such
  that each hears exactly what the other transmits, and in it \<open>send_burst\<close> returns \<open>SX_OK\<close> and
  the application of the receiver is given the packets of exactly the data that was sent, once,
  for every array of at most 2032 bytes and every ack id but zero.\<close>

theorem burst_link:
  assumes "at_peer s" and "length cb = length (packetise dest src ack True data)"
    and "length data \<le> 254 * payload_length_max" and "ticks (world s) < 2 ^ 62"
    and "capture_client cmd on_end view app" and "at_peer r" and "blocks r rx = Some (Pkt k)"
    and "air (world r) \<noteq> []" and "ack \<noteq> 0"
    and "view (fed (length (air (world r)) - 1) (map Some (packetise dest src ack True data)) r) = m"
  shows "\<exists>ps t u xs acks h v fs.
    data_to_packet_array cb data (int (length data)) dest src ack True
      (fed (length (air (world s))) (map Some acks) s) = Some (Ret (0, ps) t) \<and>
    send_burst ps (int (length ps)) t = Some (Ret SX_OK u) \<and>
    air (world u) = air (world s) @ map wire xs \<and>
    rx_rounds (length xs) (rx_handler_init cmd (Some on_end) dest src) rx
      (fed (length (air (world r)) - 1) (map Some xs) r) = Some (Ret (Inr h) v) \<and>
    air (world v) = air (world r) @ map wire acks \<and>
    view v = app (Deliver fs) m \<and> concat (map fr_data fs) = data"
proof -
  let ?fs = "packetise dest src ack True data" and ?h = "rx_handler_init cmd (Some on_end) dest src"
  let ?S = "new_session dest src" and ?r = "fed (length (air (world r)) - 1) (map Some (packetise dest src ack True data)) r"
  let ?tys = "expected 0 (length cb)"
  note c = assms(5)
  have len: "length data \<le> 254 * 8" using assms(3) by simp
  have S: "s_capture ?S = None" "s_last ?S \<noteq> (ack, 0)" "s_host ?S = dest" "s_remote ?S = src"
    using assms(9) by (simp_all add: new_session_def)
  have b: "burst_spec (zip ?fs ?tys) (map Some (map ack_of ?fs)) = (SX_OK, ?fs)"
    unfolding assms(2) using burst_spec_packetise len by simp
  have "ticks (world s) + 40000000 * length cb < 2 ^ 63"
    using assms(2,4) length_burst [of data dest src ack] len by simp
  from packets_sent [OF assms(1,2) _ this b] obtain ps t u
    where send: "data_to_packet_array cb data (int (length data)) dest src ack True
        (fed (length (air (world s))) (map Some (map ack_of ?fs)) s) = Some (Ret (0, ps) t)"
      "send_burst ps (int (length ps)) t = Some (Ret SX_OK u)" "air (world u) = air (world s) @ map wire ?fs"
    by (force simp: ack_of_def)
  obtain T fs where d: "run session_step ?S ?fs = (T, [Deliver fs])" "concat (map fr_data fs) = data"
    using channel_delivers [OF S(1,2) len, of ?fs] packetise_channel [of ?S ack data] S(3,4) by auto
  have "rx_rel {rx} ?h ?r ?S" by (rule rx_rel_init)
  then have st: "capture_client.rx_state cmd on_end rx ?h ?S ?r"
    using assms(6,7) S(1) by (simp add: capture_client.rx_state_def [OF c] rx_handler_init_def)
  have "drop (length (air (world ?r)) - 1) (script (world ?r)) = map Some ?fs @ []" by simp
  from capture_client.loop_run [OF c st _ this] packetise_small [of _ dest src ack True data] d(1) assms(8)
  obtain h v where rec: "rx_rounds (length ?fs) ?h rx ?r = Some (Ret (Inr h) v)"
    "air (world v) = air (world ?r) @ map (wire \<circ> ack_of) ?fs" "view v = app (Deliver fs) (view ?r)"
    by fastforce
  show ?thesis
    using send rec d(2) assms(10)
    by (intro exI [of _ ps] exI [of _ t] exI [of _ u] exI [of _ ?fs] exI [of _ "map ack_of ?fs"] exI [of _ h]
        exI [of _ v] exI [of _ fs]) simp
qed

theorem burst_link_witness:
  "\<exists>ps t u xs acks h v.
    data_to_packet_array [0, 0, 0] [104, 105] 2 2 1 7 True (fed 0 (map Some acks) (peer_machine [])) = Some (Ret (0, ps) t) \<and>
    send_burst ps (int (length ps)) t = Some (Ret SX_OK u) \<and> air (world u) = map wire xs \<and>
    rx_rounds (length xs) (rx_handler_init (Some noop_command_callback) (Some noop_end_callback) 2 1) 3
      (fed 0 (map Some xs) (test_receiver [])) = Some (Ret (Inr h) v) \<and>
    air (world v) = [] # map wire acks \<and> counts v = (0, 1)"
proof -
  have n: "length [0, 0, 0 :: nat] = length (packetise 2 1 7 True [104, 105])"
    by (simp add: length_packetise length_chunks)
  have c: "counts (fed 0 (map Some (packetise 2 1 7 True [104, 105])) (test_receiver [])) = (0, 0)"
    by (simp add: fed_def counts_def test_receiver_def)
  show ?thesis
    using burst_link [OF peer_machine_facts(1) [of "[]"] n _ _ noop_callbacks.capture_client_axioms
        test_receiver_facts(1,2) [of "[]"], where m = "(0, 0)"] c
    by (simp add: test_receiver_facts) blast
qed

end
