(* ===== verification/Burst_Example.thy ===== *)
theory Burst_Example
  imports Burst_Link
begin

text \<open>
  The application \<open>src/examples/esp32c3_6/burst\<close>: a sender task that cuts a text into packets and sends
  the burst, a receiver task that acknowledges what it hears and prints the text when the burst is
  complete. The state is that of the library and the console; the messages of \<open>ESP_LOG\<close> are left
  out. The scheduler of FreeRTOS is not modelled: a task is its body, and \<open>app_task\<close> returns the one
  task it creates.
\<close>

unbundle bit_operations_syntax

section \<open>The code\<close>

record 'w burst_app = "'w machine" +
  console :: "u8 list"

type_synonym ('w, 'z, 'a) acmd = "(('w, 'z) burst_app_scheme, 'a) cmd"

definition c_printf :: "u8 list \<Rightarrow> ('w, 'z, unit) acmd" where
  "c_printf bs = modify (\<lambda>s. s\<lparr>console := console s @ bs\<rparr>)"

definition newline :: "u8 list" where
  "newline = str_bytes [CHR 0x0A]"

definition SENDER_ADDR :: u16 where "SENDER_ADDR = 1"
definition RECEIVER_ADDR :: u16 where "RECEIVER_ADDR = 2"
definition ACK_ID :: u8 where "ACK_ID = 1"

definition burst_data :: "u8 list" where
  "burst_data = str_bytes ''hello burst test''"

text \<open>\<open>p_buf\<close> is a heap array; its entries are passed to the library as values and written back.\<close>

definition sender_task :: "('w, 'z, unit) acmd" where
  "sender_task =
     (let data_len = length burst_data;
          npackets = (data_len + payload_length_max - 1) div payload_length_max;
          total = npackets + 2 in
      andThen (malloc_ptrs total) (\<lambda>p_buf.
      if p_buf = NULL then give ()
      else
        andThen (load_ptrs p_buf) (\<lambda>ps.
        andThen (data_to_packet_array ps burst_data (int data_len) RECEIVER_ADDR SENDER_ADDR ACK_ID True)
          (\<lambda>(ret, ps').
        andThen (store_ptrs p_buf 0 ps') (\<lambda>_.
        if ret \<noteq> 0 then c_free p_buf
        else
          andThen (load_ptrs p_buf) (\<lambda>ps.
          andThen (send_burst ps (int total)) (\<lambda>ret.
          if ret \<noteq> SX_OK then c_free p_buf
          else
            andThen (c_free p_buf) (\<lambda>_.
            c_printf (str_bytes ''burst sent'' @ newline)))))))))"

fun total_length :: "nat \<Rightarrow> nat \<Rightarrow> nat list \<Rightarrow> nat \<Rightarrow> ('w, 'z, nat) acmd" where
  "total_length 0 i p_arr total_len = give total_len"
| "total_length (Suc r) i p_arr total_len =
     (if length p_arr \<le> i then crash Out_Of_Bounds
      else
        andThen (load_packet (p_arr ! i)) (\<lambda>k.
        total_length r (Suc i) p_arr (total_len + unat (payload_length k))))"

definition on_burst_complete :: "nat list \<Rightarrow> nat \<Rightarrow> ('w, 'z, unit) acmd" where
  "on_burst_complete p_arr n =
     andThen (total_length n 0 p_arr 0) (\<lambda>total_len.
     andThen (malloc_bytes (total_len + 1)) (\<lambda>buf.
     if buf = NULL then give ()
     else
       andThen (read_bytes buf (total_len + 1)) (\<lambda>contents.
       andThen (packet_array_to_data p_arr contents (int n)) (\<lambda>(_, data).
       andThen (write_bytes buf 0 data) (\<lambda>_.
       andThen (write_bytes buf total_len [0]) (\<lambda>_.
       andThen (read_bytes buf (total_len + 1)) (\<lambda>text.
       andThen (c_printf (str_bytes ''burst complete: '' @ c_string text @ newline)) (\<lambda>_.
       c_free buf))))))))"

type_synonym ('w, 'z) app_ctx = "('w, 'z) burst_app_scheme rx_handler_ctx"

text \<open>One round of \<open>rx_task\<close>; the flag says that the burst has ended.\<close>

definition rx_task_round :: "('w, 'z) rx_ctx \<Rightarrow> nat \<Rightarrow> ('w, 'z, ('w, 'z) rx_ctx \<times> bool) mcmd" where
  "rx_task_round handler rx_p =
     andThen sx1278_clear_irq (\<lambda>_.
     andThen (sx1278_switch_mode (MODE_LORA OR MODE_RX_CONTINUOUS)) (\<lambda>_.
     andThen (poll_for_irq_flag_no_timeout 1 (push_bit 6 1) False) (\<lambda>ret.
     if ret \<noteq> SX_OK then give (handler, False)
     else
       andThen (read_last_packet rx_p) (\<lambda>ret.
       if ret \<noteq> SX_OK then give (handler, False)
       else
         andThen (send_ack rx_p) (\<lambda>_.
         andThen (rx_packet_handler handler rx_p) (\<lambda>(result, handler').
         give (handler', result = CAPTURE_END)))))))"

partial_function (option) rx_task_loop ::
  "('w, 'z) rx_ctx \<Rightarrow> nat \<Rightarrow> ('w, 'z, ('w, 'z) rx_ctx) mcmd" where
  "rx_task_loop handler rx_p s =
     andThen (rx_task_round handler rx_p) (\<lambda>(handler', finished).
     if finished then give handler' else rx_task_loop handler' rx_p) s"

definition rx_task :: "('w, 'z) rx_ctx \<Rightarrow> ('w, 'z, ('w, 'z) rx_ctx) mcmd" where
  "rx_task handler =
     andThen malloc_packet (\<lambda>rx_p.
     andThen (store_packet rx_p (\<lambda>k. k\<lparr>payload := NULL\<rparr>)) (\<lambda>_.
     andThen (sx1278_switch_mode (MODE_LORA OR MODE_RX_CONTINUOUS)) (\<lambda>_.
     andThen (rx_task_loop handler rx_p) (\<lambda>handler'.
     andThen (free_packet rx_p) (\<lambda>_.
     give handler')))))"

text \<open>The handler that \<open>run_receiver\<close> passes to the receiver task: no command callback.\<close>

definition run_receiver :: "('w, 'z) app_ctx" where
  "run_receiver = rx_handler_init None (Some on_burst_complete) RECEIVER_ADDR SENDER_ADDR"

section \<open>The receiver task on the peer\<close>

lemma session_step_end:
  "session_step S g = (ret, S', e) \<Longrightarrow> ret = CAPTURE_END \<longleftrightarrow> (\<exists>fs. e = Some (Deliver fs))"
  by (cases "s_capture S"; cases "frame_type g")
    (auto simp: session_step_def capture_step.simps split: if_splits prod.splits)

context capture_client
begin

lemma task_round:
  assumes st: "rx_state rx h S s" and a: "answer (world s) = Some g" and l: "length (fr_data g) \<le> 8"
    and ss: "session_step S g = (ret, S', e)" and c: "(\<exists>f. e = Some (Command f)) \<longrightarrow> on_command \<noteq> None"
  shows "\<exists>h' t. rx_task_round h rx s = Some (Ret (h', \<exists>fs. e = Some (Deliver fs)) t) \<and> rx_state rx h' S' t \<and>
     world t = (world s)\<lparr>air := air (world s) @ [wire (ack_of g)]\<rparr> \<and> view t = told e (view s) \<and>
     blocks t rx = Some (Pkt (packet_of g (if fr_data g = [] then NULL else fresh s)))"
proof -
  obtain k where p: "at_peer s" and k: "blocks s rx = Some (Pkt k)" using st by (auto simp: rx_state_def)
  then have op: "on_peer s" by (simp add: at_peer_def)
  have "length (wire g) \<le> 255" using l by simp
  from peer_receive_and_ack [OF p a this k] obtain v u
    where u: "read_last_packet rx s = Some (Ret SX_OK v)" "send_ack rx v = Some (Ret SX_OK u)" "at_peer u"
      "heap_keeps {rx} s u" "packet_view u rx = Some g" "machine.more u = machine.more s"
      "world u = (world s)\<lparr>air := air (world s) @ [wire (ack_of g)]\<rparr>"
      "blocks u rx = Some (Pkt (packet_of g (if fr_data g = [] then NULL else fresh s)))" by metis
  from handler_step [OF rx_state_received [OF st u(3-5)] u(5) l ss c] obtain h' t
    where t: "rx_packet_handler h rx u = Some (Ret (ret, h') t)" "rx_state rx h' S' t" "world t = world u"
      "view t = told e (view u)" "blocks t rx = blocks u rx" by blast
  have "poll_for_irq_flag_no_timeout 1 64 False s = Some (Ret SX_OK s)"
    using peer_poll_no_timeout [OF op, of 1] a by simp
  then have "rx_task_round h rx s = Some (Ret (h', ret = CAPTURE_END) t)"
    using u(1,2) t(1)
    by (simp add: rx_task_round_def sx1278_clear_irq_def sx1278_switch_mode_def Let_def peer_write [OF op])
  moreover have "view u = view s" by (rule view_law [OF u(6)])
  ultimately show ?thesis using t u(7,8) session_step_end [OF ss] by (intro exI [of _ h'] exI [of _ t]) simp
qed

text \<open>Frames that do not end a capture keep the task going; the one that does ends it.\<close>

lemma task_goes_on:
  assumes "rx_state rx h S s" and "air (world s) \<noteq> []"
    and "drop (length (air (world s)) - 1) (script (world s)) = map Some gs @ rs"
    and "\<And>g. g \<in> set gs \<Longrightarrow> length (fr_data g) \<le> 8"
    and "snd (run session_step S gs) = []"
  shows "\<exists>h' t. rx_task_loop h rx s = rx_task_loop h' rx t \<and>
     rx_state rx h' (fst (run session_step S gs)) t \<and>
     world t = (world s)\<lparr>air := air (world s) @ map (wire \<circ> ack_of) gs\<rparr> \<and> view t = view s"
  using assms
proof (induction gs arbitrary: h S s)
  case Nil
  then show ?case by auto
next
  case (Cons g gs)
  obtain ret S' e where ss: "session_step S g = (ret, S', e)" by (metis prod_cases3)
  obtain S2 es where rn: "run session_step S' gs = (S2, es)" by force
  have e: "e = None" "es = []" using Cons.prems(5) ss rn by (auto split: option.splits)
  have a: "answer (world s) = Some g" using Cons.prems(2,3) by (intro answer_head) auto
  have l: "length (fr_data g) \<le> 8" using Cons.prems(4) by simp
  from task_round [OF Cons.prems(1) a l ss] e obtain h1 t1
    where t1: "rx_task_round h rx s = Some (Ret (h1, False) t1)" "rx_state rx h1 S' t1"
     "world t1 = (world s)\<lparr>air := air (world s) @ [wire (ack_of g)]\<rparr>" "view t1 = view s" by auto
  have "length (air (world t1)) - 1 = Suc (length (air (world s)) - 1)"
    using Cons.prems(2) t1(3) by (cases "air (world s)") simp_all
  then have "drop (length (air (world t1)) - 1) (script (world t1)) = map Some gs @ rs"
    using Cons.prems(3) t1(3) by (metis (no_types) append_Cons drop_Suc list.sel(3) list.simps(9)
        air_world.select_convs(2) air_world.surjective air_world.update_convs(1) tl_drop)
  then have "\<exists>h' t. rx_task_loop h1 rx t1 = rx_task_loop h' rx t \<and> rx_state rx h' (fst (run session_step S' gs)) t \<and>
     world t = (world t1)\<lparr>air := air (world t1) @ map (wire \<circ> ack_of) gs\<rparr> \<and> view t = view t1"
    using Cons.prems(4) e(2) rn t1(3) by (intro Cons.IH [OF t1(2)]) auto
  then obtain h' t where t: "rx_task_loop h1 rx t1 = rx_task_loop h' rx t" "rx_state rx h' S2 t"
     "world t = (world t1)\<lparr>air := air (world t1) @ map (wire \<circ> ack_of) gs\<rparr>" "view t = view t1" using rn by auto
  have "rx_task_loop h rx s = rx_task_loop h1 rx t1" by (subst rx_task_loop.simps) (simp add: t1(1))
  then show ?case
    using t t1(3,4) ss rn by (intro exI [of _ h'] exI [of _ t]) (simp add: comp_def)
qed

end

section \<open>The capture callback\<close>

lemma total_length_run:
  "map (packet_view t) (take r (drop i ps)) = map Some fs \<Longrightarrow> i + r \<le> length ps \<Longrightarrow>
   total_length r i ps acc t = Some (Ret (acc + length (concat (map fr_data fs))) t)"
proof (induction r arbitrary: i acc fs)
  case (Suc r)
  then have i: "i < length ps" "\<not> length ps \<le> i" by simp_all
  then have dr: "take (Suc r) (drop i ps) = ps ! i # take r (drop (Suc i) ps)"
    by (simp add: Cons_nth_drop_Suc [symmetric])
  obtain f fs' where fs: "fs = f # fs'" "packet_view t (ps ! i) = Some f"
    "map (packet_view t) (take r (drop (Suc i) ps)) = map Some fs'"
    using Suc.prems(1) dr by (cases fs) auto
  obtain k where k: "blocks t (ps ! i) = Some (Pkt k)" "length (fr_data f) = unat (payload_length k)"
    using fs(2) by (rule packet_viewE)
  show ?case using Suc.IH [OF fs(3)] Suc.prems(2) i k fs(1) by (simp add: load_packet_run)
qed simp

lemma gather_loop_prefix:
  "i + r \<le> length ps \<Longrightarrow> gather_loop r i (ps @ rest) d data filled = gather_loop r i ps d data filled"
  by (induction r arbitrary: i data filled) (simp_all add: nth_append)

lemma packet_array_to_data_prefix:
  "packet_array_to_data (ps @ rest) data (int (length ps)) = packet_array_to_data ps data (int (length ps))"
  by (simp add: packet_array_to_data_def gather_loop_prefix)

definition completed :: "u8 list \<Rightarrow> u8 list" where
  "completed bs = str_bytes ''burst complete: '' @ c_string bs @ newline"

lemma on_burst_complete_run:
  fixes t :: "('w, 'z) burst_app_scheme"
  assumes m: "mem_ok t" and a: "alloc_never_fails t"
    and v: "map (packet_view t) (take n arr) = map Some fs" and n: "n = length fs" "n \<le> length arr"
    and small: "\<And>f. f \<in> set fs \<Longrightarrow> length (fr_data f) \<le> 8"
  shows "\<exists>b n'. on_burst_complete arr n t = Some (Ret ()
       (t\<lparr>blocks := b, fresh := n', console := console t @ completed (concat (map fr_data fs))\<rparr>)) \<and>
     heap_keeps {} t (t\<lparr>blocks := b, fresh := n'\<rparr>) \<and> mem_ok (t\<lparr>blocks := b, fresh := n'\<rparr>)"
proof -
  let ?bs = "concat (map fr_data fs)"
  let ?L = "length ?bs" and ?ps = "take n arr" and ?b = "fresh t"
  let ?j = "junk_bytes (junk t ?b) (?L + 1)"
  let ?t1 = "t\<lparr>blocks := (blocks t)(?b \<mapsto> Bytes ?j), fresh := Suc ?b\<rparr>"
  have k1: "keeps {} t ?t1" by (simp add: keeps_def)
  have m1: "mem_ok ?t1" using m by (auto simp: mem_ok_def)
  have a1: "alloc_never_fails ?t1" using a by simp
  have v1: "map (packet_view ?t1) ?ps = map Some fs" by (rule views_keeps [OF v k1 m]) simp
  have arr: "arr = ?ps @ drop n arr" "int n = int (length ?ps)" using n(2) by simp_all
  have "?L \<le> length ?j" by simp
  from packet_array_to_data_run [OF m1 a1 v1 small this] obtain u bb
    where "packet_array_to_data ?ps ?j (int (length ?ps)) ?t1 = Some (Ret (0, ?bs @ drop ?L ?j) u)"
      and u: "keeps {} ?t1 u" "mem_ok u" "blocks u = (blocks ?t1)(Suc ?b \<mapsto> Bytes bb)" by auto
  then have run: "packet_array_to_data arr ?j (int n) ?t1 = Some (Ret (0, ?bs @ drop ?L ?j) u)"
    by (subst arr(1), subst arr(2), subst packet_array_to_data_prefix)
  have ub: "u = ?t1\<lparr>blocks := (blocks ?t1)(Suc ?b \<mapsto> Bytes bb), fresh := fresh u\<rparr>" "Suc ?b \<le> fresh u"
    using u unfolding keeps_def by (metis, simp)
  have b: "blocks u ?b = Some (Bytes ?j)" "?b \<noteq> NULL" using u(3) mem_ok_fresh_pos [OF m] by simp_all
  have total: "total_length n 0 arr 0 t = Some (Ret ?L t)"
    using total_length_run [of t n 0 arr fs 0] v n by simp
  have dl: "length (drop ?L ?j) = 1" by simp
  obtain x where x: "drop ?L ?j = [x]" using dl unfolding One_nat_def length_Suc_conv by auto
  have ct: "c_string (?bs @ [0]) = c_string ?bs" using c_string_terminated [of ?bs "[]"] by simp
  let ?blk = "(blocks t)(Suc ?b \<mapsto> Bytes bb)"
  have fin: "(blocks u)(?b := None) = ?blk"
    using u(3) m by (auto simp: fun_eq_iff)
  let ?u1 = "u\<lparr>blocks := (blocks u)(?b \<mapsto> Bytes (?bs @ [x]))\<rparr>"
  let ?u2 = "u\<lparr>blocks := (blocks u)(?b \<mapsto> Bytes (?bs @ [0]))\<rparr>"
  have w1: "write_bytes ?b 0 (?bs @ drop ?L ?j) u = Some (Ret () ?u1)"
    using b(1) x by (subst write_bytes_run [OF b(1)]) (simp_all add: overlay_def)
  have w2: "write_bytes ?b ?L [0] ?u1 = Some (Ret () ?u2)"
    by (subst write_bytes_run [of _ _ "?bs @ [x]"]) (simp_all add: overlay_def)
  have r2: "read_bytes ?b (?L + 1) ?u2 = Some (Ret (?bs @ [0]) ?u2)"
    by (subst read_bytes_run [of _ _ "?bs @ [0]"]) simp_all
  have "on_burst_complete arr n t = Some (Ret () (u\<lparr>blocks := ?blk,
      console := console u @ completed ?bs\<rparr>))"
    using total run w1 w2 r2 b(2) fin a
    by (simp add: on_burst_complete_def malloc_bytes_run read_bytes_run [of _ _ ?j] c_printf_def c_free_run
        completed_def ct del: One_nat_def)
  moreover have "u\<lparr>blocks := ?blk, console := console u @ completed ?bs\<rparr>
      = t\<lparr>blocks := ?blk, fresh := fresh u, console := console t @ completed ?bs\<rparr>"
    by (subst (1 2) ub(1)) simp
  moreover have "heap_keeps {} t (t\<lparr>blocks := ?blk, fresh := fresh u\<rparr>)" using ub(2) by (auto simp: heap_keeps_def)
  moreover have "mem_ok (t\<lparr>blocks := ?blk, fresh := fresh u\<rparr>)" using m u(2,3) ub(2) by (auto simp: mem_ok_def)
  ultimately show ?thesis by (intro exI [of _ ?blk] exI [of _ "fresh u"]) simp
qed

text \<open>What the application shows for an event.\<close>

fun shown :: "event \<Rightarrow> u8 list \<Rightarrow> u8 list" where
  "shown (Command f) c = c"
| "shown (Deliver fs) c = c @ completed (concat (map fr_data fs))"

interpretation burst_client: capture_client None on_burst_complete
  "console :: (peer_world, 'z) burst_app_scheme \<Rightarrow> u8 list" shown
proof
  show "console s = console t" if "machine.more s = machine.more t"
    for s t :: "(peer_world, 'z) burst_app_scheme"
    using that by (cases s; cases t) simp
next
  fix t :: "(peer_world, 'z) burst_app_scheme" and X n arr fs
  assume p: "at_peer t" and h: "holds X (take n arr) t fs" and n: "n = length fs" "n \<le> length arr"
    and "\<And>f. f \<in> set fs \<Longrightarrow> length (fr_data f) \<le> 8"
  then have "\<And>f. f \<in> set fs \<Longrightarrow> length (fr_data f) \<le> 8" by simp
  moreover have m: "mem_ok t" "alloc_never_fails t" using p by (simp_all add: at_peer_def)
  moreover have "map (packet_view t) (take n arr) = map Some fs" using h by (simp add: holds_def)
  ultimately obtain b n' where r: "on_burst_complete arr n t = Some (Ret ()
       (t\<lparr>blocks := b, fresh := n', console := console t @ completed (concat (map fr_data fs))\<rparr>))"
     "heap_keeps {} t (t\<lparr>blocks := b, fresh := n'\<rparr>)" "mem_ok (t\<lparr>blocks := b, fresh := n'\<rparr>)"
    using on_burst_complete_run [of t n arr fs] n by blast
  let ?u = "t\<lparr>blocks := b, fresh := n', console := console t @ completed (concat (map fr_data fs))\<rparr>"
  have "at_peer ?u" using p r(3) by (simp add: at_peer_def on_air_def mem_ok_def alloc_never_fails_def)
  moreover have "heap_keeps (\<Union>p \<in> set (take n arr). owned t p) t ?u"
    using r(2) by (simp add: heap_keeps_def)
  ultimately show "\<exists>u. on_burst_complete arr n t = Some (Ret () u) \<and> at_peer u \<and> world u = world t \<and>
      heap_keeps (\<Union>p \<in> set (take n arr). owned t p) t u \<and> console u = shown (Deliver fs) (console t)"
    using r(1) by (intro exI [of _ ?u]) simp
qed simp

section \<open>The receiver task\<close>

lemma free_received:
  assumes "at_peer t" and "blocks t rx = Some (Pkt (packet_of g NULL))"
  shows "free_packet rx t = Some (Ret () (t\<lparr>blocks := (blocks t)(rx := None)\<rparr>))"
proof -
  have m: "mem_ok t" using assms(1) by (simp add: at_peer_def)
  have "(blocks t)(NULL := None, rx := None) = (blocks t)(rx := None)" using m by (simp add: fun_upd_idem)
  then show ?thesis using free_packet_run [OF assms(2) m] by (simp add: packet_of_def)
qed

text \<open>What the receiver's session makes of the burst: nothing before the end of the capture, then the data.\<close>

lemma burst_heard:
  assumes ack: "ack \<noteq> 0" and len: "length data \<le> 2032"
    and burst: "remdups_adj (filter (concerns (new_session RECEIVER_ADDR SENDER_ADDR)) gs)
        @ [end_frame RECEIVER_ADDR SENDER_ADDR ack] = packetise RECEIVER_ADDR SENDER_ADDR ack True data"
  shows "\<exists>S1 ret T fs. run session_step (new_session RECEIVER_ADDR SENDER_ADDR) gs = (S1, []) \<and>
     session_step S1 (end_frame RECEIVER_ADDR SENDER_ADDR ack) = (ret, T, Some (Deliver fs)) \<and>
     concat (map fr_data fs) = data"
proof -
  let ?S = "new_session RECEIVER_ADDR SENDER_ADDR" and ?e = "end_frame RECEIVER_ADDR SENDER_ADDR ack"
  let ?as = "packetise RECEIVER_ADDR SENDER_ADDR ack True data"
  have S: "s_capture ?S = None" "s_last ?S \<noteq> (ack, 0)" using ack by simp_all
  have as: "?as = butlast ?as @ [?e]" "remdups_adj (filter (concerns ?S) gs) = butlast ?as"
    using burst by (metis append_butlast_last_id append_is_Nil_conv last_snoc not_Cons_self2, metis butlast_snoc burst)
  have pre: "run session_step ?S gs = run session_step ?S (butlast ?as)" by (rule channel_run [OF as(2)])
  have "butlast ?as = take (length ?as - 1) ?as" by (rule butlast_conv_take)
  moreover have "length ?as - 1 < length (packetise (s_host ?S) (s_remote ?S) ack True data)"
    by (simp add: length_packetise)
  ultimately have quiet: "snd (run session_step ?S gs) = []"
    using run_prefix [OF S, of "length ?as - 1" data] pre by simp
  have heard: "remdups_adj (filter (concerns ?S) ?as) = packetise (s_host ?S) (s_remote ?S) ack True data"
    using packetise_channel [of ?S ack data] by simp
  obtain T fs where d: "run session_step ?S ?as = (T, [Deliver fs])" "concat (map fr_data fs) = data"
    using channel_delivers [OF S _ heard] len by auto
  obtain S1 where S1: "run session_step ?S gs = (S1, [])" using quiet by (cases "run session_step ?S gs") simp
  have "run session_step ?S (butlast ?as @ [?e]) = (T, [Deliver fs])" using d(1) as(1) by simp
  then have "run session_step S1 [?e] = (T, [Deliver fs])"
    unfolding run_append pre [symmetric] S1 by (simp split: prod.splits option.splits)
  then obtain ret where step: "session_step S1 ?e = (ret, T, Some (Deliver fs))"
    by (auto split: prod.splits option.splits)
  then show ?thesis using S1 d(2) by blast
qed

lemma rx_task_run:
  fixes s :: "(peer_world, 'z) burst_app_scheme"
  assumes p: "at_peer s" and air: "air (world s) \<noteq> []"
    and hear: "drop (length (air (world s)) - 1) (script (world s)) = map Some (gs @ [end_frame RECEIVER_ADDR SENDER_ADDR ack]) @ rs"
    and small: "\<And>g. g \<in> set gs \<Longrightarrow> length (fr_data g) \<le> 8"
    and ack: "ack \<noteq> 0" and len: "length data \<le> 2032"
    and burst: "remdups_adj (filter (concerns (new_session RECEIVER_ADDR SENDER_ADDR)) gs)
        @ [end_frame RECEIVER_ADDR SENDER_ADDR ack] = packetise RECEIVER_ADDR SENDER_ADDR ack True data"
  shows "\<exists>h t. rx_task run_receiver s = Some (Ret h t) \<and>
     console t = console s @ completed data \<and>
     air (world t) = air (world s) @ map (wire \<circ> ack_of) (gs @ [end_frame RECEIVER_ADDR SENDER_ADDR ack])"
proof -
  let ?S = "new_session RECEIVER_ADDR SENDER_ADDR" and ?e = "end_frame RECEIVER_ADDR SENDER_ADDR ack"
  obtain S1 ret T fs where S1: "run session_step ?S gs = (S1, [])"
    and step: "session_step S1 ?e = (ret, T, Some (Deliver fs))" and d: "concat (map fr_data fs) = data"
    using burst_heard [OF ack len burst] by blast
  have quiet: "snd (run session_step ?S gs) = []" using S1 by simp
  have S: "s_capture ?S = None" by simp
  let ?rx = "fresh s"
  let ?k = "junk_packet (junk s ?rx)"
  let ?s1 = "s\<lparr>blocks := (blocks s)(?rx \<mapsto> Pkt (?k\<lparr>payload := NULL\<rparr>)), fresh := Suc ?rx\<rparr>"
  have m: "mem_ok s" "alloc_never_fails s" using p by (simp_all add: at_peer_def)
  have p1: "at_peer ?s1" using p by (auto simp: at_peer_def on_air_def mem_ok_def alloc_never_fails_def)
  have st: "burst_client.rx_state ?rx run_receiver ?S ?s1"
    using p1 rx_rel_init S by (simp add: burst_client.rx_state_def run_receiver_def rx_handler_init_def)
  from burst_client.task_goes_on [OF st _ _ small quiet, of "Some ?e # rs"] air hear S1 obtain h t
    where t: "rx_task_loop run_receiver ?rx ?s1 = rx_task_loop h ?rx t" "burst_client.rx_state ?rx h S1 t"
      "world t = (world s)\<lparr>air := air (world s) @ map (wire \<circ> ack_of) gs\<rparr>" "console t = console s"
    by auto
  have "length (air (world t)) - 1 = length gs + (length (air (world s)) - 1)"
    using t(3) air by (cases "air (world s)") simp_all
  then have "drop (length (air (world t)) - 1) (script (world t))
      = drop (length gs) (drop (length (air (world s)) - 1) (script (world s)))"
    using t(3) by (simp add: drop_drop)
  then have "drop (length (air (world t)) - 1) (script (world t)) = Some ?e # rs" unfolding hear by simp
  then have a: "answer (world t) = Some ?e" using air t(3) by (intro burst_client.answer_head) simp_all
  have el: "fr_data ?e = []" by (simp add: end_frame_def data_frame_def)
  from burst_client.task_round [OF t(2) a _ step] el obtain h' u
    where u: "rx_task_round h ?rx t = Some (Ret (h', True) u)" "burst_client.rx_state ?rx h' T u"
      "world u = (world t)\<lparr>air := air (world t) @ [wire (ack_of ?e)]\<rparr>"
      "console u = shown (Deliver fs) (console t)" "blocks u ?rx = Some (Pkt (packet_of ?e NULL))" by auto
  have "rx_task_loop h ?rx t = Some (Ret h' u)" by (subst rx_task_loop.simps) (simp add: u(1))
  moreover have "on_peer ?s1" using p1 by (simp add: at_peer_def)
  moreover have "at_peer u" using u(2) by (simp add: burst_client.rx_state_def)
  note free_received [OF this u(5)]
  ultimately have "rx_task run_receiver s = Some (Ret h' (u\<lparr>blocks := (blocks u)(?rx := None)\<rparr>))"
    using m t(1)
    by (simp add: rx_task_def malloc_packet_run store_packet_run sx1278_switch_mode_def peer_write)
  then show ?thesis using u(3,4) t(3,4) d by simp
qed

section \<open>The sender task\<close>

lemma ptrs_not_owned:
  assumes "packet_view t p = Some f" and "blocks t b = Some (Ptrs xs)"
  shows "b \<notin> owned t p"
proof -
  obtain k where "blocks t p = Some (Pkt k)"
    "read_bytes (payload k) (unat (payload_length k)) t = Some (Ret (fr_data f) t)"
    using assms(1) by (rule packet_viewE)
  then show ?thesis
    using assms(2) by (auto simp: owned_def payload_of_def read_bytes_Ret_iff unat_eq_0_iff)
qed

definition sent_message :: "sx127x_err_t \<Rightarrow> u8 list" where
  "sent_message ret = (if ret = SX_OK then str_bytes ''burst sent'' @ newline else [])"

lemma burst_data_length: "length burst_data = 16"
  by (simp add: burst_data_def str_bytes_def)

lemma not_among_packets:
  assumes "map (packet_view s) ps = map Some fs" and "blocks s b = Some (Ptrs qs)"
  shows "b \<notin> set ps"
proof
  assume "b \<in> set ps"
  then obtain f where "packet_view s b = Some f" using views_Some [OF assms(1)] by blast
  then show False using assms(2) by (auto elim: packet_viewE)
qed

text \<open>\<open>packets\<close> after the data has been divided: the array holds the packets of the burst.\<close>

lemma sender_prepares:
  fixes s :: "(peer_world, 'z) burst_app_scheme"
  assumes p: "at_peer s" and b: "blocks s b = Some (Ptrs ps0)" "length ps0 = 4"
  shows "\<exists>ps t t1. data_to_packet_array ps0 burst_data 16 RECEIVER_ADDR SENDER_ADDR ACK_ID True s
        = Some (Ret (0, ps @ drop (length ps) ps0) t) \<and>
     store_ptrs b 0 ps t = Some (Ret () t1) \<and> length ps = 4 \<and> distinct ps \<and> at_peer t1 \<and>
     map (packet_view t1) ps = map Some (packetise RECEIVER_ADDR SENDER_ADDR ACK_ID True burst_data) \<and>
     world t1 = world s \<and> machine.more t1 = machine.more s \<and> blocks t1 b = Some (Ptrs ps) \<and> b < fresh t1"
proof -
  let ?fs = "packetise RECEIVER_ADDR SENDER_ADDR ACK_ID True burst_data"
  have lf: "length ?fs = 4" by (simp add: length_packetise length_chunks burst_data_length)
  have m: "mem_ok s" "alloc_never_fails s" using p by (simp_all only: at_peer_def)
  have "length ?fs \<le> length ps0" using lf b(2) by simp
  from data_to_packet_array_built [OF m(2,1) this] obtain ps t
    where d: "data_to_packet_array ps0 burst_data 16 RECEIVER_ADDR SENDER_ADDR ACK_ID True s
        = Some (Ret (0, ps @ drop (length ps) ps0) t)"
      and bt: "built s ps ?fs t" and al: "alloc_never_fails t" by (auto simp: burst_data_length)
  have lp: "length ps = 4" using built_length [OF bt] lf by simp
  have t: "at_peer t" "world t = world s" using built_at_peer [OF p bt al] by simp_all
  have tk: "keeps {} s t" "mem_ok t" and vt: "map (packet_view t) ps = map Some ?fs" "distinct ps"
    using bt by (simp_all add: built_def)
  obtain bl n where tb: "t = s\<lparr>blocks := bl, fresh := n\<rparr>" using tk(1) unfolding keeps_def by blast
  have bb: "blocks t b = Some (Ptrs ps0)"
    using keeps_block [OF tk(1), of b] b(1) mem_ok_Some_less [OF m(1) b(1)] by simp
  define t1 where "t1 = t\<lparr>blocks := (blocks t)(b \<mapsto> Ptrs ps)\<rparr>"
  have store: "store_ptrs b 0 ps t = Some (Ret () t1)"
    using lp b(2) by (subst store_ptrs_run [OF bb]) (simp_all add: t1_def overlay_def)
  have b0: "b \<noteq> 0" "b < fresh t" using mem_ok_Some_less [OF tk(2) bb] by simp_all
  have q: "at_peer t1" using t(1) b0 by (auto simp: t1_def at_peer_def on_air_def mem_ok_def alloc_never_fails_def)
  have v1: "map (packet_view t1) ps = map Some ?fs"
  proof (rule views_heap_keeps [OF vt(1) _ tk(2), of "{b}"])
    show "heap_keeps {b} t t1" by (simp add: heap_keeps_def t1_def)
    fix p
    assume "p \<in> set ps"
    then obtain f where "packet_view t p = Some f" using views_Some [OF vt(1)] by blast
    then show "owned t p \<inter> {b} = {}" using ptrs_not_owned [OF _ bb] by simp
  qed
  show ?thesis using d store lp vt(2) q v1 t(2) b0
    by (intro exI [of _ ps] exI [of _ t] exI [of _ t1]) (simp add: t1_def tb)
qed

lemma sender_task_run:
  fixes s :: "(peer_world, 'z) burst_app_scheme"
  assumes p: "at_peer s" and tm: "ticks (world s) < 2 ^ 62"
    and rs: "\<And>g. Some g \<in> set rs \<Longrightarrow> fr_data g = []"
    and b: "burst_spec (zip (packetise RECEIVER_ADDR SENDER_ADDR ACK_ID True burst_data) (expected 0 4)) rs = (ret, xs)"
  shows "\<exists>t. sender_task (fed (length (air (world s))) rs s) = Some (Ret () t) \<and>
     console t = console s @ sent_message ret \<and> air (world t) = air (world s) @ map wire xs"
proof -
  let ?s = "fed (length (air (world s))) rs s"
  let ?b = "fresh ?s"
  let ?ps0 = "map (junk ?s ?b) [0..<4]"
  define s1 where "s1 = ?s\<lparr>blocks := (blocks ?s)(?b \<mapsto> Ptrs ?ps0), fresh := Suc ?b\<rparr>"
  have p0: "at_peer ?s" using p by simp
  then have m0: "mem_ok ?s" "alloc_never_fails ?s" by (simp_all only: at_peer_def)
  have s1: "world s1 = world ?s" "machine.more s1 = machine.more s" "blocks s1 ?b = Some (Ptrs ?ps0)"
    by (simp_all add: s1_def fed_def)
  have p1: "at_peer s1" using p0 by (auto simp: s1_def at_peer_def on_air_def mem_ok_def alloc_never_fails_def)
  have "length ?ps0 = 4" by simp
  from sender_prepares [OF p1 s1(3) this] obtain ps t t1
    where d: "data_to_packet_array ?ps0 burst_data 16 RECEIVER_ADDR SENDER_ADDR ACK_ID True s1
        = Some (Ret (0, ps @ drop (length ps) ?ps0) t)" "store_ptrs ?b 0 ps t = Some (Ret () t1)"
      and lp: "length ps = 4" and q: "at_peer t1" "distinct ps"
        "map (packet_view t1) ps = map Some (packetise RECEIVER_ADDR SENDER_ADDR ACK_ID True burst_data)"
      and w1: "world t1 = world ?s" "machine.more t1 = machine.more s" "blocks t1 ?b = Some (Ptrs ps)" "?b < fresh t1"
    unfolding s1(1,2) by blast
  have sm: "\<And>g. Some g \<in> set (script (world t1)) \<Longrightarrow> length (fr_data g) \<le> 8" using rs w1(1) by fastforce
  have "ticks (world t1) + 40000000 * length ps < 2 ^ 63" using tm w1(1) lp by simp
  from burst_loop_run [OF q(1) drop_0 q(3,2) packetise_small sm this] b w1(1) lp obtain u
    where u: "send_burst ps 4 t1 = Some (Ret ret u)" "at_peer u" "air (world u) = air (world s) @ map wire xs"
      "machine.more u = machine.more s" "heap_keeps (set ps) t1 u"
    using w1(2) by (fastforce simp: send_burst_def)
  have ub: "blocks u ?b = Some (Ptrs ps)"
    using heap_keeps_block [OF u(5) w1(4)] not_among_packets [OF q(3) w1(3)] w1(3) by simp
  have con: "console u = console s" using u(4) by (cases u; cases s) simp
  have b0: "?b \<noteq> 0" using m0(1) by (auto simp: mem_ok_def)
  have "malloc_ptrs 4 ?s = Some (Ret ?b s1)" using m0(2) by (simp add: malloc_ptrs_run s1_def)
  then show ?thesis
    using d u(1,3) ub s1(3) w1(3) con lp b0
    by (simp add: sender_task_def Let_def burst_data_length load_ptrs_run c_free_run c_printf_def sent_message_def)
qed

section \<open>Properties\<close>

text \<open>A node of the example as it starts, on the peer.\<close>

definition burst_node :: "frame list \<Rightarrow> peer_world burst_app" where
  "burst_node gs = \<lparr>blocks = Map.empty, fresh = 1, alloc_ok = (\<lambda>_. True), junk = (\<lambda>_ _. 0),
     world = \<lparr>air = [[]], script = map Some gs, ticks = 0\<rparr>, sx127x_spi_port = peer_port,
     sx127x_logger = zero_logger, sx127x_timer_ctx = peer_timer, lora_bandwidth_hz = 125000,
     spreading_factor = 12, rx_buffer = replicate 255 0, tx_buffer = replicate 255 0, console = []\<rparr>"

lemma burst_node_facts [simp]:
  "at_peer (burst_node gs)" "world (burst_node gs) = \<lparr>air = [[]], script = map Some gs, ticks = 0\<rparr>"
  "console (burst_node gs) = []"
  by (simp_all add: burst_node_def at_peer_def on_air_def mem_ok_def alloc_never_fails_def)

text \<open>C9: The receiver task prints the burst. It listens to any traffic: the frames of one burst, each
  repeated, and those of other stations. When the END packet comes it has acknowledged every frame it
  heard, prints the received text up to its first zero byte, once, and ends.\<close>

theorem rx_task_prints_burst:
  fixes s :: "(peer_world, 'z) burst_app_scheme"
  assumes "at_peer s" and "air (world s) \<noteq> []" and "e = end_frame RECEIVER_ADDR SENDER_ADDR ack"
    and "drop (length (air (world s)) - 1) (script (world s)) = map Some (gs @ [e]) @ rs"
    and "\<And>g. g \<in> set gs \<Longrightarrow> length (fr_data g) \<le> payload_length_max"
    and "ack \<noteq> 0" and "length data \<le> 254 * payload_length_max"
    and "remdups_adj (filter (concerns (new_session RECEIVER_ADDR SENDER_ADDR)) gs) @ [e]
      = packetise RECEIVER_ADDR SENDER_ADDR ack True data"
  shows "\<exists>h t. rx_task run_receiver s = Some (Ret h t) \<and>
     console t = console s @ str_bytes ''burst complete: '' @ c_string data @ newline \<and>
     air (world t) = air (world s) @ map (wire \<circ> ack_of) (gs @ [e])"
proof -
  have "length data \<le> 2032" and s: "\<And>g. g \<in> set gs \<Longrightarrow> length (fr_data g) \<le> 8"
    using assms(5,7) by simp_all
  from rx_task_run [OF assms(1,2) assms(4) [unfolded assms(3)] s assms(6) this(1) assms(8) [unfolded assms(3)]]
  show ?thesis by (simp add: completed_def assms(3))
qed

text \<open>Another station's frame, and BEGIN and the data packet twice each.\<close>

theorem rx_task_prints_burst_witness:
  "\<exists>h t. rx_task run_receiver (burst_node [data_frame 9 1 7 3 [5], begin_frame 2 1 7, begin_frame 2 1 7,
      data_frame 2 1 7 1 [104, 105], data_frame 2 1 7 1 [104, 105], end_frame 2 1 7]) = Some (Ret h t) \<and>
    console t = str_bytes ''burst complete: hi'' @ newline \<and> length (air (world t)) = 7"
proof -
  let ?gs = "[data_frame 9 1 7 3 [5], begin_frame 2 1 7, begin_frame 2 1 7,
      data_frame 2 1 7 1 [104, 105], data_frame 2 1 7 1 [104, 105]]"
  let ?e = "end_frame RECEIVER_ADDR SENDER_ADDR 7"
  have a: "RECEIVER_ADDR = 2" "SENDER_ADDR = 1" by (simp_all add: RECEIVER_ADDR_def SENDER_ADDR_def)
  have feed: "drop (length (air (world (burst_node (?gs @ [?e])))) - 1) (script (world (burst_node (?gs @ [?e]))))
      = map Some (?gs @ [?e]) @ []" by simp
  have small: "\<And>g. g \<in> set ?gs \<Longrightarrow> length (fr_data g) \<le> payload_length_max"
    by (auto simp: begin_frame_def data_frame_def)
  have burst: "remdups_adj (filter (concerns (new_session RECEIVER_ADDR SENDER_ADDR)) ?gs) @ [?e]
      = packetise RECEIVER_ADDR SENDER_ADDR 7 True [104, 105]"
    by (simp add: a concerns_def begin_frame_def end_frame_def data_frame_def packetise_def chunks_step)
  have "c_string [104, 105] = str_bytes ''hi''" by (simp add: c_string_def str_bytes_def)
  moreover obtain h t where "rx_task run_receiver (burst_node (?gs @ [?e])) = Some (Ret h t)"
    "console t = str_bytes ''burst complete: '' @ c_string [104, 105] @ newline"
    "air (world t) = [[]] @ map (wire \<circ> ack_of) (?gs @ [?e])"
    using rx_task_prints_burst [OF burst_node_facts(1) _ refl feed small _ _ burst] by auto
  ultimately show ?thesis using a by (intro exI [of _ h] exI [of _ t]) (simp add: str_bytes_def)
qed

text \<open>C28: A burst whose BEGIN was lost stops the receiver. When the first frame the receiver task hears
  is a data packet of the sender, it has acknowledged it and then calls the command callback, which the
  example leaves null.\<close>

theorem rx_task_without_begin_crashes:
  fixes s :: "(peer_world, 'z) burst_app_scheme"
  assumes "at_peer s" and "answer (world s) = Some g"
    and "g = data_frame RECEIVER_ADDR SENDER_ADDR ack i c" and "c \<noteq> []" and "length c \<le> payload_length_max"
    and "ack \<noteq> 0"
  shows "rx_task run_receiver s = Some (Fault Null_Call)"
proof -
  let ?rx = "fresh s"
  let ?s1 = "s\<lparr>blocks := (blocks s)(?rx \<mapsto> Pkt ((junk_packet (junk s ?rx))\<lparr>payload := NULL\<rparr>)), fresh := Suc ?rx\<rparr>"
  have m: "mem_ok s" "alloc_never_fails s" and op: "on_peer ?s1" using assms(1) by (simp_all add: at_peer_def)
  have p1: "at_peer ?s1" using assms(1) by (auto simp: at_peer_def on_air_def mem_ok_def alloc_never_fails_def)
  have a: "answer (world ?s1) = Some g" and l: "length (wire g) \<le> 255"
    using assms(2,3,5) by (simp_all add: data_frame_def)
  have "blocks ?s1 ?rx = Some (Pkt ((junk_packet (junk s ?rx))\<lparr>payload := NULL\<rparr>))" by simp
  from peer_receive_and_ack [OF p1 a l this] obtain v u
    where u: "read_last_packet ?rx ?s1 = Some (Ret SX_OK v)" "send_ack ?rx v = Some (Ret SX_OK u)" "at_peer u"
      "packet_view u ?rx = Some g" by metis
  let ?S = "new_session RECEIVER_ADDR SENDER_ADDR"
  have rel: "rx_rel {?rx} run_receiver u ?S" unfolding run_receiver_def by (rule rx_rel_init)
  obtain r where step: "session_step ?S g = (r, ?S\<lparr>s_last := fr_ids g\<rparr>, Some (Command g))"
    using assms(3,4,6)
    by (auto simp: session_step_def concerns_def data_frame_def fr_ids_def capture_step.simps frame_type_def)
  have mu: "mem_ok u" "alloc_never_fails u" using u(3) by (simp_all add: at_peer_def)
  have "command_packet_handler (run_receiver :: (peer_world, 'z) app_ctx) = None"
    by (simp add: run_receiver_def rx_handler_init_def)
  with rx_handler_command [OF rel u(4) mu step]
  have crash: "rx_packet_handler run_receiver ?rx u = Some (Fault Null_Call)" by simp
  have "poll_for_irq_flag_no_timeout 1 64 False ?s1 = Some (Ret SX_OK ?s1)"
    using peer_poll_no_timeout [OF op, of 1] a by simp
  then have "rx_task_round run_receiver ?rx ?s1 = Some (Fault Null_Call)"
    using u(1,2) crash
    by (simp add: rx_task_round_def sx1278_clear_irq_def sx1278_switch_mode_def Let_def peer_write [OF op])
  then have "rx_task_loop run_receiver ?rx ?s1 = Some (Fault Null_Call)" by (subst rx_task_loop.simps) simp
  then show ?thesis
    using m op by (simp add: rx_task_def malloc_packet_run store_packet_run sx1278_switch_mode_def peer_write)
qed

theorem rx_task_without_begin_crashes_witness:
  "rx_task run_receiver (burst_node [data_frame 2 1 7 1 [104, 105]]) = Some (Fault Null_Call)"
proof -
  have "answer (world (burst_node [data_frame 2 1 7 1 [104, 105]])) = Some (data_frame 2 1 7 1 [104, 105])"
    by (simp add: answer_def)
  moreover have "data_frame 2 1 7 1 [104, 105] = data_frame RECEIVER_ADDR SENDER_ADDR 7 1 [104, 105]"
    by (simp add: RECEIVER_ADDR_def SENDER_ADDR_def)
  ultimately show ?thesis using rx_task_without_begin_crashes [OF burst_node_facts(1)] by simp
qed

text \<open>The frames of the example's burst, and each task on the peer that hears exactly the other one.\<close>

abbreviation burst_frames :: "frame list" where
  "burst_frames \<equiv> packetise RECEIVER_ADDR SENDER_ADDR ACK_ID True burst_data"

lemma burst_sender_run:
  fixes s :: "(peer_world, 'z) burst_app_scheme"
  assumes "at_peer s" and "ticks (world s) < 2 ^ 62"
  shows "\<exists>t. sender_task (fed (length (air (world s))) (map Some (map ack_of burst_frames)) s) = Some (Ret () t) \<and>
    air (world t) = air (world s) @ map wire burst_frames \<and> console t = console s @ str_bytes ''burst sent'' @ newline"
proof -
  have lf: "length burst_frames = 4" by (simp add: length_packetise length_chunks burst_data_length)
  have "burst_spec (zip burst_frames (expected 0 (length burst_frames))) (map Some (map ack_of burst_frames))
      = (SX_OK, burst_frames)"
    by (rule burst_spec_packetise) (simp add: burst_data_length)
  then have "burst_spec (zip burst_frames (expected 0 4)) (map Some (map ack_of burst_frames)) = (SX_OK, burst_frames)"
    by (simp only: lf)
  from sender_task_run [OF assms _ this] show ?thesis by (force simp: ack_of_def sent_message_def)
qed

lemma burst_receiver_run:
  fixes r :: "(peer_world, 'z) burst_app_scheme"
  assumes "at_peer r" and "air (world r) \<noteq> []"
    and "drop (length (air (world r)) - 1) (script (world r)) = map Some burst_frames"
  shows "\<exists>h u. rx_task run_receiver r = Some (Ret h u) \<and>
    air (world u) = air (world r) @ map wire (map ack_of burst_frames) \<and>
    console u = console r @ str_bytes ''burst complete: hello burst test'' @ newline"
proof -
  let ?fs = burst_frames
  let ?e = "end_frame RECEIVER_ADDR SENDER_ADDR ACK_ID" and ?S = "new_session RECEIVER_ADDR SENDER_ADDR"
  have sp: "?fs = butlast ?fs @ [?e]" by (simp add: packetise_def)
  have "concerns ?S f" if "f \<in> set ?fs" for f
    using that by (auto simp: packetise_def begin_frame_def end_frame_def data_frame_def concerns_def
        in_set_conv_nth number_frames_nth)
  then have "filter (concerns ?S) (butlast ?fs) = butlast ?fs" by (metis filter_True in_set_butlastD)
  moreover have "distinct_adj (butlast ?fs)"
    using packetise_distinct_adj [of RECEIVER_ADDR SENDER_ADDR ACK_ID burst_data] sp by (metis distinct_adj_appendD1)
  ultimately have heard: "remdups_adj (filter (concerns ?S) (butlast ?fs)) @ [?e] = ?fs"
    using sp by (simp add: distinct_adj_altdef)
  have feed: "drop (length (air (world r)) - 1) (script (world r)) = map Some (butlast ?fs @ [?e]) @ []"
    using sp assms(3) by simp
  have small: "\<And>g. g \<in> set (butlast ?fs) \<Longrightarrow> length (fr_data g) \<le> 8"
    using packetise_small in_set_butlastD by metis
  have "ACK_ID \<noteq> 0" "length burst_data \<le> 2032" by (simp_all add: ACK_ID_def burst_data_length)
  from rx_task_run [OF assms(1,2) feed small this heard] obtain h u
    where u: "rx_task run_receiver r = Some (Ret h u)" "console u = console r @ completed burst_data"
      "air (world u) = air (world r) @ map (wire \<circ> ack_of) ?fs"
    unfolding sp [symmetric] by blast
  moreover have "completed burst_data = str_bytes ''burst complete: hello burst test'' @ newline"
    by (simp add: completed_def burst_data_def c_string_def str_bytes_def)
  ultimately show ?thesis by (intro exI [of _ h] exI [of _ u]) simp
qed

text \<open>The example works. There is a run of the sender task and a run of the receiver task in
  which each hears exactly what the other transmits; both end, the sender prints
  ``burst sent'' and the receiver ``burst complete: hello burst test''.\<close>

theorem burst_example_works:
  fixes s r :: "(peer_world, 'z) burst_app_scheme"
  assumes "at_peer s" and "ticks (world s) < 2 ^ 62" and "at_peer r" and "air (world r) \<noteq> []"
  shows "\<exists>xs acks t h u.
    sender_task (fed (length (air (world s))) (map Some acks) s) = Some (Ret () t) \<and>
    air (world t) = air (world s) @ map wire xs \<and>
    console t = console s @ str_bytes ''burst sent'' @ newline \<and>
    rx_task run_receiver (fed (length (air (world r)) - 1) (map Some xs) r) = Some (Ret h u) \<and>
    air (world u) = air (world r) @ map wire acks \<and>
    console u = console r @ str_bytes ''burst complete: hello burst test'' @ newline"
proof -
  let ?r = "fed (length (air (world r)) - 1) (map Some burst_frames) r"
  have "console ?r = console r" by (simp add: fed_def)
  moreover have "at_peer ?r" "air (world ?r) \<noteq> []" "air (world ?r) = air (world r)"
    "drop (length (air (world ?r)) - 1) (script (world ?r)) = map Some burst_frames"
    using assms(3,4) by simp_all
  ultimately show ?thesis using burst_receiver_run [of ?r] burst_sender_run [OF assms(1,2)] by metis
qed

theorem burst_example_works_witness:
  "\<exists>xs acks t h u.
    sender_task (fed 1 (map Some acks) (burst_node [])) = Some (Ret () t) \<and>
    air (world t) = [] # map wire xs \<and> console t = str_bytes ''burst sent'' @ newline \<and>
    rx_task run_receiver (fed 0 (map Some xs) (burst_node [])) = Some (Ret h u) \<and>
    air (world u) = [] # map wire acks \<and>
    console u = str_bytes ''burst complete: hello burst test'' @ newline"
  using burst_example_works [of "burst_node []" "burst_node []"] by simp

end
