(* ===== verification/Esp_Port.thy ===== *)
theory Esp_Port
  imports Burst_Example Config
begin

text \<open>
  The platform side of \<open>src/examples/esp32c3_6/burst\<close>: the register callbacks on top of the SPI master
  driver of ESP-IDF, and \<open>app_task\<close>, which connects them to the library and starts a task. The
  functions of ESP-IDF and FreeRTOS are the fields of a record, a parameter of the definitions, on
  the outside world; what is assumed of them is \<open>esp_contract\<close>. The DMA buffers live in the world, a
  buffer's contents are kept as values beside its address. A negative length, which the library never
  passes, is taken as one that no buffer can be allocated for.
\<close>

unbundle bit_operations_syntax

section \<open>ESP-IDF\<close>

type_synonym esp_err_t = int

definition ESP_OK :: esp_err_t where "ESP_OK = 0"
definition ESP_ERR_NO_MEM :: esp_err_t where "ESP_ERR_NO_MEM = 0x101"

text \<open>A transaction: its length in bits, the bytes to send, whether chip select stays active after it and
  whether there is a receive buffer.\<close>

record spi_transaction_t =
  trans_length :: nat
  trans_tx :: "u8 list"
  keep_cs :: bool
  has_rx :: bool

record spi_bus_config_t =
  mosi_io_num :: int
  miso_io_num :: int
  sclk_io_num :: int
  quadwp_io_num :: int
  quadhd_io_num :: int

record spi_device_interface_config_t =
  clock_speed_hz :: nat
  spi_mode :: nat
  spics_io_num :: int
  queue_size :: nat

record 'w esp_idf =
  spi_bus_initialize :: "spi_bus_config_t \<Rightarrow> 'w \<Rightarrow> esp_err_t \<times> 'w"
  spi_bus_add_device :: "spi_device_interface_config_t \<Rightarrow> 'w \<Rightarrow> (esp_err_t \<times> nat) \<times> 'w"
  spi_device_acquire_bus :: "nat \<Rightarrow> 'w \<Rightarrow> esp_err_t \<times> 'w"
  spi_device_release_bus :: "nat \<Rightarrow> 'w \<Rightarrow> 'w"
  spi_device_transmit :: "nat \<Rightarrow> spi_transaction_t \<Rightarrow> 'w \<Rightarrow> (esp_err_t \<times> u8 list) \<times> 'w"
  heap_caps_malloc :: "nat \<Rightarrow> 'w \<Rightarrow> nat \<times> 'w"
  heap_free :: "nat \<Rightarrow> 'w \<Rightarrow> 'w"
  esp_timer_get_time :: "'w \<Rightarrow> i64 \<times> 'w"
  vTaskDelay :: "u32 \<Rightarrow> 'w \<Rightarrow> 'w"
  pdMS_TO_TICKS :: "u64 \<Rightarrow> u32"

section \<open>SPI transactions\<close>

definition free_if :: "'w esp_idf \<Rightarrow> nat \<Rightarrow> 'w \<Rightarrow> 'w" where
  "free_if idf p w = (if p \<noteq> NULL then heap_free idf p w else w)"

text \<open>\<open>len\<close> as the \<open>size_t\<close> of the allocation.\<close>

definition dma_size :: "int \<Rightarrow> nat" where
  "dma_size len = unat (word_of_int len :: u64)"

definition esp_spi_write :: "'w esp_idf \<Rightarrow> nat \<Rightarrow> u8 \<Rightarrow> u8 list \<Rightarrow> int \<Rightarrow> 'w \<Rightarrow> esp_err_t \<times> 'w" where
  "esp_spi_write idf spi addr data len w0 =
     (let (ret, w1) = spi_device_acquire_bus idf spi w0 in
      if ret \<noteq> ESP_OK then (ret, w1)
      else
        let cleanup = (\<lambda>ret cmd data_dma w.
              (ret, spi_device_release_bus idf spi (free_if idf data_dma (free_if idf cmd w))));
            (data_dma, w2) = heap_caps_malloc idf (dma_size len) w1 in
        if data_dma = NULL then cleanup ESP_ERR_NO_MEM NULL data_dma w2
        else if len \<le> 0 then (ESP_OK, w2)
        else
          let (cmd, w3) = heap_caps_malloc idf 1 w2 in
          if cmd = NULL then cleanup ESP_ERR_NO_MEM cmd data_dma w3
          else
            let t0 = \<lparr>trans_length = 8, trans_tx = [addr OR 0b10000000], keep_cs = True, has_rx = False\<rparr>;
                t1 = \<lparr>trans_length = nat len * 8, trans_tx = take (nat len) data, keep_cs = False, has_rx = False\<rparr>;
                ((ret, _), w4) = spi_device_transmit idf spi t0 w3 in
            if ret \<noteq> ESP_OK then cleanup ret cmd data_dma w4
            else
              let ((ret, _), w5) = spi_device_transmit idf spi t1 w4 in
              cleanup ret cmd data_dma w5)"

text \<open>The result is the code and what is copied to the caller's buffer.\<close>

definition esp_spi_read :: "'w esp_idf \<Rightarrow> nat \<Rightarrow> u8 \<Rightarrow> int \<Rightarrow> 'w \<Rightarrow> (esp_err_t \<times> u8 list) \<times> 'w" where
  "esp_spi_read idf spi addr len w0 =
     (if len \<le> 0 then ((ESP_OK, []), w0)
      else
        let cleanup = (\<lambda>ret bs ret_data_dma dummy cmd w.
              ((ret, bs), spi_device_release_bus idf spi
                 (free_if idf cmd (free_if idf dummy (free_if idf ret_data_dma w)))));
            (dummy, w1) = heap_caps_malloc idf (dma_size len) w0 in
        if dummy = NULL then cleanup ESP_ERR_NO_MEM [] NULL dummy NULL w1
        else
          let (cmd, w2) = heap_caps_malloc idf 1 w1 in
          if cmd = NULL then cleanup ESP_ERR_NO_MEM [] NULL dummy cmd w2
          else
            let (_, w3) = spi_device_acquire_bus idf spi w2;
                t0 = \<lparr>trans_length = 8, trans_tx = [addr AND 0b01111111], keep_cs = True, has_rx = False\<rparr>;
                ((ret, _), w4) = spi_device_transmit idf spi t0 w3 in
            if ret \<noteq> ESP_OK then cleanup ret [] NULL dummy cmd w4
            else
              let (ret_data_dma, w5) = heap_caps_malloc idf (dma_size len) w4 in
              if ret_data_dma = NULL then cleanup ESP_ERR_NO_MEM [] ret_data_dma dummy cmd w5
              else
                let t1 = \<lparr>trans_length = nat len * 8, trans_tx = replicate (nat len) 0, keep_cs = False, has_rx = True\<rparr>;
                    ((ret, rx), w6) = spi_device_transmit idf spi t1 w5 in
                cleanup ret (if ret \<noteq> ESP_OK then [] else take (nat len) rx) ret_data_dma dummy cmd w6)"

section \<open>The callbacks of the library\<close>

definition lora_spi_write :: "'w esp_idf \<Rightarrow> 'w spi_register_writer_t" where
  "lora_spi_write idf handle reg data len w =
     (let (ret, w') = esp_spi_write idf handle reg data len w in
      (if ret = ESP_OK then SX_OK else SX_INVALID_STATE, w'))"

definition lora_spi_read :: "'w esp_idf \<Rightarrow> 'w spi_register_reader_t" where
  "lora_spi_read idf handle reg len w =
     (let ((ret, bs), w') = esp_spi_read idf handle reg len w in
      ((if ret = ESP_OK then SX_OK else SX_INVALID_STATE, bs), w'))"

definition get_time_us :: "'w esp_idf \<Rightarrow> 'w sx127x_timer_t" where
  "get_time_us idf = esp_timer_get_time idf"

definition esp_delay_ms :: "'w esp_idf \<Rightarrow> 'w sx127x_task_delayer_ms_t" where
  "esp_delay_ms idf ms = vTaskDelay idf (pdMS_TO_TICKS idf ms)"

text \<open>\<open>spi_init\<close>; the pins come from the build configuration. \<open>ESP_ERROR_CHECK\<close> aborts the program.\<close>

record lora_pins =
  CONFIG_LORA_PIN_NSS :: int
  CONFIG_LORA_PIN_SCK :: int
  CONFIG_LORA_PIN_MISO :: int
  CONFIG_LORA_PIN_MOSI :: int

definition spi_init :: "'w esp_idf \<Rightarrow> lora_pins \<Rightarrow> ('w, nat) cmd" where
  "spi_init idf pins w0 =
     (let bus = \<lparr>mosi_io_num = CONFIG_LORA_PIN_MOSI pins, miso_io_num = CONFIG_LORA_PIN_MISO pins,
            sclk_io_num = CONFIG_LORA_PIN_SCK pins, quadwp_io_num = -1, quadhd_io_num = -1\<rparr>;
          dev = \<lparr>clock_speed_hz = 1000000, spi_mode = 0, spics_io_num = CONFIG_LORA_PIN_NSS pins, queue_size = 1\<rparr>;
          (e1, w1) = spi_bus_initialize idf bus w0 in
      if e1 \<noteq> ESP_OK then Some (Fault Aborted)
      else
        let ((e2, spi_handle), w2) = spi_bus_add_device idf dev w1 in
        if e2 \<noteq> ESP_OK then Some (Fault Aborted) else Some (Ret spi_handle w2))"

section \<open>The application task\<close>

datatype burst_role = Sender | Receiver

fun err_digit :: "sx127x_err_t \<Rightarrow> string" where
  "err_digit SX_OK = ''0''"
| "err_digit SX_TIMEOUT = ''1''"
| "err_digit SX_INVALID_STATE = ''2''"
| "err_digit SX_INVALID_ARGUMENT = ''3''"
| "err_digit SX_INVALID_CRC = ''4''"
| "err_digit SX_UNIT_UNITIALIZED = ''5''"
| "err_digit SX_INVALID_RESPONSE = ''6''"
| "err_digit SX_NO_MEM = ''7''"

definition lora_port :: "'w esp_idf \<Rightarrow> nat \<Rightarrow> 'w spi_port_t" where
  "lora_port idf handle = snd (spi_port_init (Some (lora_spi_write idf)) (Some (lora_spi_read idf)) handle)"

definition lora_timer :: "'w esp_idf \<Rightarrow> 'w sx127x_timer_ctx_t" where
  "lora_timer idf = sx127x_timer_init (Some (get_time_us idf)) (Some (esp_delay_ms idf))"

text \<open>The result is the task that was created, if any; \<open>role\<close> is the build option.\<close>

definition app_task :: "'w esp_idf \<Rightarrow> lora_pins \<Rightarrow> burst_role \<Rightarrow> ('w, 'z, burst_role option) acmd" where
  "app_task idf pins role =
     andThen (on_world (spi_init idf pins)) (\<lambda>spi_handle.
     andThen (on_world (modify (vTaskDelay idf (pdMS_TO_TICKS idf 100)))) (\<lambda>_.
     andThen (initialize_sx_1278 (lora_port idf spi_handle) zero_logger (lora_timer idf)) (\<lambda>init_ret.
     if init_ret \<noteq> SX_OK then
       andThen (c_printf (str_bytes (''init failed: '' @ err_digit init_ret) @ newline)) (\<lambda>_. give None)
     else
       andThen (c_printf (str_bytes ''sx1278 init ok'' @ newline)) (\<lambda>_. give (Some role)))))"

text \<open>\<open>app_main\<close> creates the task \<open>app\<close>, which creates the task of its role and ends: the bodies run one after the
  other.\<close>

definition run_sender :: "('w, 'z, unit) acmd" where
  "run_sender = sender_task"

definition app_main :: "'w esp_idf \<Rightarrow> lora_pins \<Rightarrow> burst_role \<Rightarrow> ('w, 'z, unit) acmd" where
  "app_main idf pins role =
     andThen (app_task idf pins role) (\<lambda>task. case task of
         None \<Rightarrow> give ()
       | Some Sender \<Rightarrow> run_sender
       | Some Receiver \<Rightarrow> andThen (rx_task run_receiver) (\<lambda>_. give ()))"

section \<open>The register bus\<close>

lemma esp_spi_read_bound: "esp_spi_read idf h reg len w = ((ret, bs), w') \<Longrightarrow> length bs \<le> nat len"
  by (auto simp: esp_spi_read_def Let_def split: if_splits prod.splits)

lemma lora_port_sel [simp]:
  "initialized (lora_port idf h)" "writer (lora_port idf h) = Some (lora_spi_write idf)"
  "reader (lora_port idf h) = Some (lora_spi_read idf)" "spi_handle (lora_port idf h) = h"
  "timer (lora_timer idf) = Some (get_time_us idf)" "delayer (lora_timer idf) = Some (esp_delay_ms idf)"
  by (simp_all add: lora_port_def spi_port_init_def lora_timer_def sx127x_timer_init_def)

interpretation lora_bus: register_bus "lora_port idf h" for idf :: "'w esp_idf" and h
proof unfold_locales
  fix f :: "'w spi_register_reader_t" and len reg h' ret bs w w'
  assume "reader (lora_port idf h) = Some f" "0 < len \<or> 0 \<le> len \<and> reg = 0" "f h' reg len w = ((ret, bs), w')"
  then show "int (length bs) \<le> len"
    using esp_spi_read_bound [of idf h' reg len w] by (auto simp: lora_spi_read_def split: prod.splits)
qed simp_all

section \<open>What is assumed of ESP-IDF\<close>

text \<open>Of the world: how often the bus is held, which DMA buffers are live, which transactions were
  handed over with what result. An acquisition counts when it succeeds, every release counts.\<close>

definition esp_contract ::
  "'w esp_idf \<Rightarrow> ('w \<Rightarrow> int) \<Rightarrow> ('w \<Rightarrow> nat set) \<Rightarrow> ('w \<Rightarrow> (spi_transaction_t \<times> esp_err_t) list) \<Rightarrow> bool" where
  "esp_contract idf held live sent \<longleftrightarrow>
     (\<forall>h w ret w'. spi_device_acquire_bus idf h w = (ret, w') \<longrightarrow>
        held w' = held w + of_bool (ret = ESP_OK) \<and> live w' = live w \<and> sent w' = sent w) \<and>
     (\<forall>h w. let w' = spi_device_release_bus idf h w in
        held w' = held w - 1 \<and> live w' = live w \<and> sent w' = sent w) \<and>
     (\<forall>h t w ret rx w'. spi_device_transmit idf h t w = ((ret, rx), w') \<longrightarrow>
        held w' = held w \<and> live w' = live w \<and> sent w' = sent w @ [(t, ret)]) \<and>
     (\<forall>n w p w'. heap_caps_malloc idf n w = (p, w') \<longrightarrow>
        held w' = held w \<and> sent w' = sent w \<and>
        (if p = NULL then live w' = live w else p \<notin> live w \<and> live w' = insert p (live w))) \<and>
     (\<forall>p w. p \<in> live w \<longrightarrow> (let w' = heap_free idf p w in
        held w' = held w \<and> sent w' = sent w \<and> live w' = live w - {p}))"

lemma contract_acquire:
  "esp_contract idf held live sent \<Longrightarrow> spi_device_acquire_bus idf h w = (ret, w') \<Longrightarrow>
   held w' = held w + of_bool (ret = ESP_OK) \<and> live w' = live w \<and> sent w' = sent w"
  by (simp add: esp_contract_def)

lemma contract_release:
  "esp_contract idf held live sent \<Longrightarrow> held (spi_device_release_bus idf h w) = held w - 1 \<and>
   live (spi_device_release_bus idf h w) = live w \<and> sent (spi_device_release_bus idf h w) = sent w"
  by (simp add: esp_contract_def Let_def)

lemma contract_transmit:
  "esp_contract idf held live sent \<Longrightarrow> spi_device_transmit idf h t w = ((ret, rx), w') \<Longrightarrow>
   held w' = held w \<and> live w' = live w \<and> sent w' = sent w @ [(t, ret)]"
  by (simp add: esp_contract_def)

lemma contract_malloc:
  "esp_contract idf held live sent \<Longrightarrow> heap_caps_malloc idf n w = (p, w') \<Longrightarrow>
   held w' = held w \<and> sent w' = sent w \<and>
   (if p = NULL then live w' = live w else p \<notin> live w \<and> live w' = insert p (live w))"
  by (simp add: esp_contract_def)

lemma contract_free_if:
  "esp_contract idf held live sent \<Longrightarrow> p = NULL \<or> p \<in> live w \<Longrightarrow>
   held (free_if idf p w) = held w \<and> sent (free_if idf p w) = sent w \<and>
   live (free_if idf p w) = (if p = NULL then live w else live w - {p})"
  by (auto simp: esp_contract_def Let_def free_if_def)

text \<open>The clean-up of buffers that are different and live.\<close>

lemma contract_cleanup:
  assumes "esp_contract idf held live sent" and "p = NULL \<or> p \<in> live w" and "q = NULL \<or> q \<in> live w"
    and "r = NULL \<or> r \<in> live w" and "p \<noteq> NULL \<Longrightarrow> p \<noteq> q \<and> p \<noteq> r" and "q \<noteq> NULL \<Longrightarrow> q \<noteq> r"
  shows "held (spi_device_release_bus idf h (free_if idf r (free_if idf q (free_if idf p w)))) = held w - 1 \<and>
    sent (spi_device_release_bus idf h (free_if idf r (free_if idf q (free_if idf p w)))) = sent w \<and>
    live (spi_device_release_bus idf h (free_if idf r (free_if idf q (free_if idf p w))))
      = live w - ({p, q, r} - {NULL})"
proof -
  note free = contract_free_if [OF assms(1)]
  let ?w1 = "free_if idf p w"
  let ?w2 = "free_if idf q ?w1"
  have 1: "held ?w1 = held w \<and> sent ?w1 = sent w \<and> live ?w1 = (if p = NULL then live w else live w - {p})"
    by (rule free [OF assms(2)])
  have "q = NULL \<or> q \<in> live ?w1" using 1 assms(3,5) by auto
  from free [OF this] have 2: "held ?w2 = held w \<and> sent ?w2 = sent w \<and>
      live ?w2 = (if q = NULL then live ?w1 else live ?w1 - {q})" using 1 by simp
  have "r = NULL \<or> r \<in> live ?w2" using 1 2 assms(4,5,6) by auto
  from free [OF this] 1 2 contract_release [OF assms(1)] show ?thesis by auto
qed

lemma free_if_NULL [simp]: "free_if idf NULL w = w"
  by (simp add: free_if_def)

section \<open>Properties\<close>

definition command_byte :: "u8 \<Rightarrow> spi_transaction_t" where
  "command_byte b = \<lparr>trans_length = 8, trans_tx = [b], keep_cs = True, has_rx = False\<rparr>"

text \<open>The two transactions of a write and its clean-up, from where both buffers are allocated.\<close>

lemma write_transactions:
  assumes c: "esp_contract idf held live sent"
    and run: "(let ((ret, _), w4) = spi_device_transmit idf h t0 w in
        if ret \<noteq> ESP_OK then (ret, spi_device_release_bus idf h (free_if idf p (free_if idf q w4)))
        else let ((ret, _), w5) = spi_device_transmit idf h t1 w4 in
          (ret, spi_device_release_bus idf h (free_if idf p (free_if idf q w5)))) = (ret, w')"
    and mem: "live w = insert q (insert p L)" "p \<notin> L" "q \<notin> L" "q \<noteq> p" "p \<noteq> NULL" "q \<noteq> NULL"
  shows "held w' = held w - 1 \<and> live w' = L \<and> (ret = ESP_OK \<longrightarrow> sent w' = sent w @ [(t0, ESP_OK), (t1, ESP_OK)])"
proof -
  obtain r4 x4 w4 where t0: "spi_device_transmit idf h t0 w = ((r4, x4), w4)" by (metis prod.exhaust)
  obtain r5 x5 w5 where t1: "spi_device_transmit idf h t1 w4 = ((r5, x5), w5)" by (metis prod.exhaust)
  note f4 = contract_transmit [OF c t0] and f5 = contract_transmit [OF c t1]
  have cl: "held (spi_device_release_bus idf h (free_if idf p (free_if idf q v))) = held v - 1 \<and>
    sent (spi_device_release_bus idf h (free_if idf p (free_if idf q v))) = sent v \<and>
    live (spi_device_release_bus idf h (free_if idf p (free_if idf q v))) = L" if "live v = live w" for v
    using contract_cleanup [OF c, of NULL v q p h] that mem by auto
  show ?thesis
    using run t0 t1 f4 f5 cl [of w4] cl [of w5] by (cases "r4 = ESP_OK") auto
qed

text \<open>The rest of a read, from where the two first buffers are allocated and the bus was asked for.\<close>

lemma read_transactions:
  assumes c: "esp_contract idf held live sent"
    and run: "(let ((ret, _), w4) = spi_device_transmit idf h t0 w in
        if ret \<noteq> ESP_OK then ((ret, []), spi_device_release_bus idf h (free_if idf q (free_if idf p (free_if idf NULL w4))))
        else let (b, w5) = heap_caps_malloc idf n w4 in
          if b = NULL
          then ((ESP_ERR_NO_MEM, []), spi_device_release_bus idf h (free_if idf q (free_if idf p (free_if idf b w5))))
          else let ((ret, rx), w6) = spi_device_transmit idf h t1 w5 in
            ((ret, if ret \<noteq> ESP_OK then [] else take k rx),
             spi_device_release_bus idf h (free_if idf q (free_if idf p (free_if idf b w6))))) = ((ret, bs), w')"
    and mem: "live w = insert q (insert p L)" "p \<notin> L" "q \<notin> L" "q \<noteq> p" "p \<noteq> NULL" "q \<noteq> NULL"
  shows "held w' = held w - 1 \<and> live w' = L \<and> (ret = ESP_OK \<longrightarrow> sent w' = sent w @ [(t0, ESP_OK), (t1, ESP_OK)])"
proof -
  obtain r4 x4 w4 where t0: "spi_device_transmit idf h t0 w = ((r4, x4), w4)" by (metis prod.exhaust)
  obtain b w5 where m5: "heap_caps_malloc idf n w4 = (b, w5)" by force
  obtain r6 x6 w6 where t1: "spi_device_transmit idf h t1 w5 = ((r6, x6), w6)" by (metis prod.exhaust)
  note f4 = contract_transmit [OF c t0] and f5 = contract_malloc [OF c m5] and f6 = contract_transmit [OF c t1]
  consider "r4 \<noteq> ESP_OK" | "r4 = ESP_OK" "b = NULL" | "r4 = ESP_OK" "b \<noteq> NULL" by blast
  then show ?thesis
  proof cases
    case 1
    then show ?thesis using run t0 f4 contract_cleanup [OF c, of NULL w4 p q h] mem by auto
  next
    case 2
    then show ?thesis
      using run t0 m5 f4 f5 contract_cleanup [OF c, of NULL w5 p q h] mem by (auto simp: ESP_OK_def ESP_ERR_NO_MEM_def)
  next
    case 3
    then show ?thesis using run t0 m5 t1 f4 f5 f6 contract_cleanup [OF c, of b w6 p q h] mem by auto
  qed
qed

text \<open>C29: A register write of at least one byte balances: whatever fails, the bus is released as often as
  it was acquired and every DMA buffer is freed; when it reports success, exactly the address with
  its top bit set and then the data were sent, with chip select held in between. A write of no bytes
  keeps the bus and a buffer.\<close>

theorem esp_spi_write_outcome:
  assumes "esp_contract idf held live sent" and "esp_spi_write idf spi addr data len w = (ret, w')"
    and "0 \<le> len"
  shows "(if 0 < len \<or> ret \<noteq> ESP_OK then held w' = held w \<and> live w' = live w
     else held w' = held w + 1 \<and> (\<exists>p. p \<notin> live w \<and> live w' = insert p (live w))) \<and>
    (0 < len \<and> ret = ESP_OK \<longrightarrow> sent w' = sent w @ [(command_byte (addr OR 0x80), ESP_OK),
       (\<lparr>trans_length = nat len * 8, trans_tx = take (nat len) data, keep_cs = False, has_rx = False\<rparr>, ESP_OK)])"
proof -
  note c = assms(1)
  obtain r1 w1 where 1: "spi_device_acquire_bus idf spi w = (r1, w1)" by force
  note f1 = contract_acquire [OF c 1]
  show ?thesis
  proof (cases "r1 = ESP_OK")
    case False
    then show ?thesis using assms(2) 1 f1 by (auto simp: esp_spi_write_def)
  next
    case r1: True
    obtain d w2 where 2: "heap_caps_malloc idf (dma_size len) w1 = (d, w2)" by force
    note f2 = contract_malloc [OF c 2]
    obtain m w3 where 3: "heap_caps_malloc idf 1 w2 = (m, w3)" by force
    note f3 = contract_malloc [OF c 3]
    have rel: "held (spi_device_release_bus idf spi v) = held v - 1" "live (spi_device_release_bus idf spi v) = live v"
      "sent (spi_device_release_bus idf spi v) = sent v" for v using contract_release [OF c] by simp_all
    consider "d = NULL" | "d \<noteq> NULL" "len = 0" | "d \<noteq> NULL" "0 < len" "m = NULL"
      | "d \<noteq> NULL" "0 < len" "m \<noteq> NULL" using assms(3) by linarith
    then show ?thesis
    proof cases
      case 4
      have d: "d \<notin> live w" "m \<notin> live w" "m \<noteq> d" "live w3 = insert m (insert d (live w))"
        using f1 f2 f3 4 by auto
      have "(let ((ret, _), w4) = spi_device_transmit idf spi (command_byte (addr OR 0x80)) w3 in
        if ret \<noteq> ESP_OK then (ret, spi_device_release_bus idf spi (free_if idf d (free_if idf m w4)))
        else let ((ret, _), w5) = spi_device_transmit idf spi \<lparr>trans_length = nat len * 8, trans_tx = take (nat len) data,
            keep_cs = False, has_rx = False\<rparr> w4 in
          (ret, spi_device_release_bus idf spi (free_if idf d (free_if idf m w5)))) = (ret, w')"
        using assms(2) 1 2 3 r1 4 by (simp add: esp_spi_write_def Let_def command_byte_def)
      from write_transactions [OF c this d(4,1,2,3)] 4 show ?thesis using f1 f2 f3 r1 by simp
    next
      case 3
      then have "ret = ESP_ERR_NO_MEM" "w' = spi_device_release_bus idf spi (free_if idf d w3)"
        using assms(2) 1 2 \<open>heap_caps_malloc idf 1 w2 = (m, w3)\<close> r1 by (simp_all add: esp_spi_write_def Let_def)
      then show ?thesis
        using contract_free_if [OF c, of d w3] f1 f2 f3 r1 3 rel
        by (auto simp: ESP_OK_def ESP_ERR_NO_MEM_def)
    qed (use assms(2) 1 2 r1 f1 f2 rel in \<open>auto simp: esp_spi_write_def Let_def ESP_OK_def ESP_ERR_NO_MEM_def\<close>)
  qed
qed

text \<open>C30: A register read of at least one byte frees every DMA buffer and, when it reports success, sent
  exactly the address with its top bit clear and then as many zeros as it reads. It releases the bus
  once whether or not it holds it: when an allocation fails before the acquisition, or the acquisition
  itself fails, a bus is released that was not acquired.\<close>

theorem esp_spi_read_outcome:
  assumes "esp_contract idf held live sent" and "esp_spi_read idf spi addr len w = ((ret, bs), w')" and "0 < len"
    and "heap_caps_malloc idf (dma_size len) w = (dummy, w1)" and "heap_caps_malloc idf 1 w1 = (cmd, w2)"
    and "spi_device_acquire_bus idf spi w2 = (acquired, w3)"
  shows "live w' = live w \<and>
    held w' = (if dummy \<noteq> NULL \<and> cmd \<noteq> NULL \<and> acquired = ESP_OK then held w else held w - 1) \<and>
    (ret = ESP_OK \<longrightarrow> sent w' = sent w @ [(command_byte (addr AND 0x7F), ESP_OK),
       (\<lparr>trans_length = nat len * 8, trans_tx = replicate (nat len) 0, keep_cs = False, has_rx = True\<rparr>, ESP_OK)])"
proof -
  note c = assms(1)
  note f1 = contract_malloc [OF c assms(4)] and f2 = contract_malloc [OF c assms(5)]
    and f3 = contract_acquire [OF c assms(6)]
  have len: "\<not> len \<le> 0" using assms(3) by simp
  note run = assms(2) [unfolded esp_spi_read_def Let_def if_not_P [OF len] assms(4) prod.case]
  consider "dummy = NULL" | "dummy \<noteq> NULL" "cmd = NULL" | "dummy \<noteq> NULL" "cmd \<noteq> NULL" by blast
  then show ?thesis
  proof cases
    case 1
    then show ?thesis
      using run f1 contract_release [OF c] by (auto simp: ESP_OK_def ESP_ERR_NO_MEM_def)
  next
    case 2
    then have "ret = ESP_ERR_NO_MEM" "w' = spi_device_release_bus idf spi (free_if idf dummy w2)"
      using run assms(5) by simp_all
    then show ?thesis
      using contract_free_if [OF c, of dummy w2] contract_release [OF c, of spi "free_if idf dummy w2"] f1 f2 2
      by (auto simp: ESP_OK_def ESP_ERR_NO_MEM_def)
  next
    case 3
    have d: "dummy \<notin> live w" "cmd \<notin> live w" "cmd \<noteq> dummy" "live w3 = insert cmd (insert dummy (live w))"
      using f1 f2 f3 3 by auto
    note run3 = run [unfolded if_not_P [OF 3(1)] assms(5) prod.case if_not_P [OF 3(2)] assms(6)]
    from read_transactions [unfolded Let_def, OF c run3 d(4,1,2,3)] 3 show ?thesis
      using f1 f2 f3 by (simp add: command_byte_def)
  qed
qed

section \<open>A platform that keeps the contract\<close>

text \<open>An SPI master that answers every byte with 0x12 and whose allocator has \<open>dma_left\<close> buffers.\<close>

record idf_world =
  bus_held :: int
  dma_next :: nat
  dma_freed :: "nat set"
  dma_left :: nat
  transactions :: "(spi_transaction_t \<times> esp_err_t) list"

definition dma_live :: "idf_world \<Rightarrow> nat set" where
  "dma_live w = {1..dma_next w} - dma_freed w"

definition test_idf :: "idf_world esp_idf" where
  "test_idf = \<lparr>spi_bus_initialize = (\<lambda>c w. (ESP_OK, w)), spi_bus_add_device = (\<lambda>c w. ((ESP_OK, 7), w)),
     spi_device_acquire_bus = (\<lambda>h w. (ESP_OK, w\<lparr>bus_held := bus_held w + 1\<rparr>)),
     spi_device_release_bus = (\<lambda>h w. w\<lparr>bus_held := bus_held w - 1\<rparr>),
     spi_device_transmit = (\<lambda>h t w. ((ESP_OK, replicate (trans_length t div 8) 0x12),
       w\<lparr>transactions := transactions w @ [(t, ESP_OK)]\<rparr>)),
     heap_caps_malloc = (\<lambda>n w. if dma_left w = 0 then (NULL, w) else (dma_next w + 1,
       w\<lparr>dma_next := dma_next w + 1, dma_freed := dma_freed w - {dma_next w + 1}, dma_left := dma_left w - 1\<rparr>)),
     heap_free = (\<lambda>p w. w\<lparr>dma_freed := insert p (dma_freed w)\<rparr>),
     esp_timer_get_time = (\<lambda>w. (0, w)), vTaskDelay = (\<lambda>n w. w), pdMS_TO_TICKS = (\<lambda>ms. ucast ms)\<rparr>"

lemma test_idf_contract: "esp_contract test_idf bus_held dma_live transactions"
  by (auto simp: esp_contract_def test_idf_def dma_live_def Let_def)

definition idf_start :: "nat \<Rightarrow> idf_world" where
  "idf_start n = \<lparr>bus_held = 0, dma_next = 0, dma_freed = {}, dma_left = n, transactions = []\<rparr>"

theorem esp_spi_write_outcome_witness:
  "\<exists>w'. esp_spi_write test_idf 7 0x0D [0x05] 1 (idf_start 9) = (ESP_OK, w') \<and> bus_held w' = 0 \<and> dma_live w' = {} \<and>
     map (trans_tx \<circ> fst) (transactions w') = [[0x8D], [0x05]]"
proof -
  obtain w' where w: "esp_spi_write test_idf 7 0x0D [0x05] 1 (idf_start 9) = (ESP_OK, w')"
    by (simp add: esp_spi_write_def test_idf_def Let_def idf_start_def)
  from esp_spi_write_outcome [OF test_idf_contract w] show ?thesis
    using w by (simp add: idf_start_def dma_live_def command_byte_def)
qed

text \<open>No memory for the second buffer: a bus that was never acquired is released.\<close>

theorem esp_spi_read_outcome_witness:
  "\<exists>w'. esp_spi_read test_idf 7 0x42 1 (idf_start 1) = ((ESP_ERR_NO_MEM, []), w') \<and> bus_held w' = -1 \<and>
     dma_live w' = {}"
proof -
  obtain w' where w: "esp_spi_read test_idf 7 0x42 1 (idf_start 1) = ((ESP_ERR_NO_MEM, []), w')"
    by (simp add: esp_spi_read_def test_idf_def Let_def idf_start_def)
  obtain w1 where 1: "heap_caps_malloc test_idf (dma_size 1) (idf_start 1) = (1, w1)"
    "heap_caps_malloc test_idf 1 w1 = (0, w1)"
    by (simp add: test_idf_def idf_start_def)
  obtain r w3 where 2: "spi_device_acquire_bus test_idf 7 w1 = (r, w3)" by force
  from esp_spi_read_outcome [OF test_idf_contract w _ 1 2] show ?thesis
    using w by (simp add: idf_start_def dma_live_def)
qed

section \<open>The application task\<close>

lemma spi_init_cases:
  obtains h w' where "spi_init idf pins w = Some (Ret h w')" | "spi_init idf pins w = Some (Fault Aborted)"
proof -
  have "(\<exists>h w'. spi_init idf pins w = Some (Ret h w')) \<or> spi_init idf pins w = Some (Fault Aborted)"
    by (simp add: spi_init_def Let_def split: prod.splits)
  then show ?thesis using that by blast
qed

lemma initialise_on_esp:
  fixes s :: "('w, 'z) burst_app_scheme"
  assumes "lora_bandwidth_hz s \<noteq> 0"
  obtains ret t where "initialize_sx_1278 (lora_port idf h) zero_logger (lora_timer idf) s = Some (Ret ret t)"
    "usable t" "console t = console s" "blocks t = blocks s"
proof -
  obtain ret t where t: "initialize_sx_1278 (lora_port idf h) zero_logger (lora_timer idf) s = Some (Ret ret t)"
    "usable t" "machine.more t = machine.more s" "blocks t = blocks s"
    using initialise_returns [of "lora_port idf h" zero_logger "lora_timer idf",
        OF lora_bus.register_bus_axioms logger_ok_init(2) _ _ assms] by auto
  moreover have "console t = console s" using t(3) by (cases t; cases s) simp
  ultimately show ?thesis using that by blast
qed

text \<open>C31: Start-up of the burst example. If the SPI bus cannot be set up the program aborts; otherwise
  \<open>app_task\<close> returns for every answer of the platform, leaves the library connected to it, prints one
  line, and creates the task of its role if and only if the initialisation of the chip succeeded.\<close>

theorem app_task_outcome:
  assumes "lora_bandwidth_hz s \<noteq> 0"
  shows "case spi_init idf pins (world s) of
      Some (Ret h w) \<Rightarrow> \<exists>ret t. app_task idf pins role s
          = Some (Ret (if ret = SX_OK then Some role else None) t) \<and>
        console t = console s @ (if ret = SX_OK then str_bytes ''sx1278 init ok''
          else str_bytes (''init failed: '' @ err_digit ret)) @ newline \<and>
        blocks t = blocks s \<and> usable t \<and>
        (\<exists>u. initialize_sx_1278 (lora_port idf h) zero_logger (lora_timer idf)
          (s\<lparr>world := vTaskDelay idf (pdMS_TO_TICKS idf 100) w\<rparr>) = Some (Ret ret u))
    | r \<Rightarrow> r = Some (Fault Aborted) \<and> app_task idf pins role s = Some (Fault Aborted)"
proof (cases rule: spi_init_cases [of idf pins "world s"])
  case (1 h w)
  have "lora_bandwidth_hz (s\<lparr>world := vTaskDelay idf (pdMS_TO_TICKS idf 100) w\<rparr>) \<noteq> 0" using assms by simp
  from initialise_on_esp [OF this, of idf h] obtain ret u
    where "initialize_sx_1278 (lora_port idf h) zero_logger (lora_timer idf)
        (s\<lparr>world := vTaskDelay idf (pdMS_TO_TICKS idf 100) w\<rparr>) = Some (Ret ret u)"
      "usable u" "console u = console s" "blocks u = blocks s" by auto
  then show ?thesis using 1
    by (cases "ret = SX_OK")
      (auto simp: app_task_def on_world_def c_printf_def usable_def intro!: exI [of _ ret])
next
  case 2
  then show ?thesis by (simp add: app_task_def on_world_def)
qed

theorem app_task_outcome_witness:
  "\<exists>t. app_task test_idf \<lparr>CONFIG_LORA_PIN_NSS = 5, CONFIG_LORA_PIN_SCK = 18, CONFIG_LORA_PIN_MISO = 19,
      CONFIG_LORA_PIN_MOSI = 23\<rparr> Sender (machine.extend (boot (idf_start 0)) \<lparr>console = []\<rparr>) = Some (Ret None t) \<and>
     console t = str_bytes ''init failed: 2'' @ newline"
proof -
  let ?pins = "\<lparr>CONFIG_LORA_PIN_NSS = 5, CONFIG_LORA_PIN_SCK = 18, CONFIG_LORA_PIN_MISO = 19, CONFIG_LORA_PIN_MOSI = 23\<rparr>"
  let ?s = "machine.extend (boot (idf_start 0)) \<lparr>console = []\<rparr> :: idf_world burst_app"
  have init: "spi_init test_idf ?pins (world ?s) = Some (Ret 7 (idf_start 0))"
    by (simp add: spi_init_def test_idf_def boot_def machine.defs)
  have "\<exists>u. initialize_sx_1278 (lora_port test_idf 7) zero_logger (lora_timer test_idf) (?s\<lparr>world := idf_start 0\<rparr>)
      = Some (Ret SX_INVALID_STATE u)"
    by (simp add: initialize_sx_1278_def spi_read1_def spi_read_def on_world_def spi_burst_read_reg_def
        lora_spi_read_def esp_spi_read_def test_idf_def idf_start_def Let_def buf_write_def ESP_OK_def
        ESP_ERR_NO_MEM_def boot_def machine.defs)
  then have "\<exists>u. initialize_sx_1278 (lora_port test_idf 7) zero_logger (lora_timer test_idf)
      (?s\<lparr>world := vTaskDelay test_idf (pdMS_TO_TICKS test_idf 100) (idf_start 0)\<rparr>) = Some (Ret SX_INVALID_STATE u)"
    by (simp add: test_idf_def)
  moreover have "lora_bandwidth_hz ?s \<noteq> 0" "console ?s = []" by (simp_all add: boot_def machine.defs)
  ultimately show ?thesis
    using app_task_outcome [of ?s test_idf ?pins Sender] init by auto
qed

end
