(* ===== verification/Wellformed.thy ===== *)
theory Wellformed
  imports Esp_Port
begin

text \<open>
  The invariant of the library's state: a sound heap, the two static buffers at their full size, a spreading
  factor that the chip has; and of the handler's context, an array of its full size and a count within it. The runs
  of the library's operations that return keep it, whatever the platform answers (a run that faults has no end
  state). Like the rules for calm commands (Machine) this is proved for a function by its structure.
\<close>

unbundle bit_operations_syntax

section \<open>The invariant\<close>

definition lib_wf :: "('w, 'z) machine_scheme \<Rightarrow> bool" where
  "lib_wf s \<longleftrightarrow> mem_ok s \<and> length (rx_buffer s) = 255 \<and> length (tx_buffer s) = 255 \<and>
     6 \<le> spreading_factor s \<and> spreading_factor s \<le> 12"

text \<open>\<open>keeps_wf P m\<close>: when \<open>m\<close> returns, the invariant still holds, and the result satisfies \<open>P\<close>.\<close>

definition keeps_wf :: "('a \<Rightarrow> bool) \<Rightarrow> ('w, 'z, 'a) mcmd \<Rightarrow> bool" where
  "keeps_wf P m \<longleftrightarrow> (\<forall>s a t. lib_wf s \<longrightarrow> m s = Some (Ret a t) \<longrightarrow> lib_wf t \<and> P a)"

abbreviation any :: "'a \<Rightarrow> bool" where
  "any \<equiv> \<lambda>_. True"

definition handler_wf :: "('w, 'z) machine_scheme rx_handler_ctx \<Rightarrow> bool" where
  "handler_wf h \<longleftrightarrow> length (captured_packet_arr h) = PACKET_CAPTURE_MAX_COUNT \<and>
     captured_n h \<le> PACKET_CAPTURE_MAX_COUNT \<and>
     (\<forall>f p. command_packet_handler h = Some f \<longrightarrow> keeps_wf any (f p)) \<and>
     (\<forall>f ps n. capture_end_handler h = Some f \<longrightarrow> keeps_wf any (f ps n))"

section \<open>Rules\<close>

lemma keeps_wfD: "keeps_wf P m \<Longrightarrow> lib_wf s \<Longrightarrow> m s = Some (Ret a t) \<Longrightarrow> lib_wf t \<and> P a"
  unfolding keeps_wf_def by blast

lemma keeps_wf_run:
  "andThen m k s = Some (Ret a t) \<Longrightarrow> lib_wf s \<Longrightarrow> keeps_wf P (andThen m k) \<Longrightarrow> lib_wf t \<and> P a"
  unfolding keeps_wf_def by blast

lemma keeps_wf_mono: "keeps_wf P m \<Longrightarrow> (\<And>a. P a \<Longrightarrow> Q a) \<Longrightarrow> keeps_wf Q m"
  unfolding keeps_wf_def by blast

lemma keeps_any: "keeps_wf P m \<Longrightarrow> keeps_wf any m"
  unfolding keeps_wf_def by blast

lemma keeps_bind:
  assumes "keeps_wf Q m" and "\<And>a. Q a \<Longrightarrow> keeps_wf P (k a)"
  shows "keeps_wf P (andThen m k)"
  using assms unfolding keeps_wf_def andThen_eq_Ret by blast

named_theorems keeps_rules "commands that keep the invariant"

lemma keeps_andThen [keeps_rules]: "keeps_wf any m \<Longrightarrow> (\<And>a. keeps_wf P (k a)) \<Longrightarrow> keeps_wf P (andThen m k)"
  by (rule keeps_bind)

lemma keeps_give [keeps_rules]: "P a \<Longrightarrow> keeps_wf P (give a)"
  by (simp add: keeps_wf_def)

lemma keeps_crash [keeps_rules]: "keeps_wf P (crash f)"
  by (simp add: keeps_wf_def)

lemma keeps_gets [keeps_rules]: "keeps_wf any (gets f)"
  by (simp add: keeps_wf_def)

lemma keeps_if [keeps_rules]: "(b \<Longrightarrow> keeps_wf P m) \<Longrightarrow> (\<not> b \<Longrightarrow> keeps_wf P n) \<Longrightarrow> keeps_wf P (if b then m else n)"
  by simp

lemma keeps_prod [keeps_rules]: "(\<And>a b. x = (a, b) \<Longrightarrow> keeps_wf P (f a b)) \<Longrightarrow> keeps_wf P (case x of (a, b) \<Rightarrow> f a b)"
  by (cases x) simp

lemma keeps_checked [keeps_rules]:
  "keeps_wf any m \<Longrightarrow> keeps_wf any h \<Longrightarrow> keeps_wf any k \<Longrightarrow> keeps_wf any (checked m h k)"
  unfolding checked_def by (intro keeps_rules) simp_all

lemma keeps_ok_or_return [keeps_rules]: "keeps_wf any m \<Longrightarrow> keeps_wf any k \<Longrightarrow> keeps_wf any (ok_or_return m k)"
  unfolding ok_or_return_def by (intro keeps_rules) simp_all

text \<open>Commands on the world and on the heap.\<close>

lemma lib_wf_update [simp]:
  "lib_wf (s\<lparr>world := w\<rparr>) = lib_wf s" "lib_wf (s\<lparr>lora_bandwidth_hz := b\<rparr>) = lib_wf s"
  "lib_wf (s\<lparr>sx127x_spi_port := p, sx127x_logger := l, sx127x_timer_ctx := tm\<rparr>) = lib_wf s"
  by (simp_all add: lib_wf_def mem_ok_def)

lemma keeps_world [keeps_rules]: "keeps_wf any (on_world m)"
  by (auto simp: keeps_wf_def on_world_def split: option.splits outcome.splits)

lemma keeps_access [keeps_rules]:
  "keeps_wf any (spi_write reg data len)" "keeps_wf any (spi_read reg buf len)" "keeps_wf any (spi_read1 reg old)"
  "keeps_wf any (log_err tag str)" "keeps_wf any (log_tag tag str level)" "keeps_wf any time_us"
  "keeps_wf any (delay_ms ms)" "keeps_wf any (sx1278_read_irq d)" "keeps_wf any sx1278_clear_irq"
  "keeps_wf any (sx1278_switch_mode m)" "keeps_wf any (sx_1278_get_op_mode d)" "keeps_wf any (irq_cleanup c)"
  "keeps_wf any (clear_and_log str)" "keeps_wf any calculate_channel_num"
  unfolding spi_write_def spi_read_def spi_read1_def log_err_def log_tag_def time_us_def delay_ms_def sx1278_read_irq_def
    sx1278_clear_irq_def sx1278_switch_mode_def sx_1278_get_op_mode_def irq_cleanup_def clear_and_log_def
    calculate_channel_num_def Let_def
  by (intro keeps_rules; simp)+

lemma lib_wf_heap:
  "lib_wf s \<Longrightarrow> blocks s p \<noteq> None \<Longrightarrow> lib_wf (s\<lparr>blocks := (blocks s)(p \<mapsto> b)\<rparr>)"
  "lib_wf s \<Longrightarrow> lib_wf (s\<lparr>blocks := (blocks s)(p := None)\<rparr>)"
  "lib_wf s \<Longrightarrow> lib_wf (s\<lparr>fresh := Suc (fresh s)\<rparr>)"
  "lib_wf s \<Longrightarrow> lib_wf (s\<lparr>blocks := (blocks s)(fresh s \<mapsto> b), fresh := Suc (fresh s)\<rparr>)"
  "lib_wf s \<Longrightarrow> lib_wf (s\<lparr>blocks := (blocks s)(p := None, fresh s \<mapsto> b), fresh := Suc (fresh s)\<rparr>)"
  by (auto simp: lib_wf_def mem_ok_def intro: gr0I)

lemma keeps_memory [keeps_rules]:
  "keeps_wf any (malloc_bytes n)" "keeps_wf any malloc_packet" "keeps_wf any (malloc_ptrs n)" "keeps_wf any (c_free p)"
  "keeps_wf any (load_packet p)" "keeps_wf any (store_packet p f)" "keeps_wf any (read_bytes p n)"
  "keeps_wf any (write_bytes p i xs)" "keeps_wf any (buf_read bs i n)" "keeps_wf any (buf_write bs i xs)"
  "keeps_wf any (load_ptrs p)" "keeps_wf any (store_ptrs p i ps)" "keeps_wf any (realloc_ptrs p n)"
  by (auto simp: keeps_wf_def malloc_bytes_def malloc_packet_def malloc_ptrs_def alloc_def Let_def c_free_def
      load_packet_def store_packet_def read_bytes_def write_bytes_def buf_read_def buf_write_def load_ptrs_def
      store_ptrs_def realloc_ptrs_def lib_wf_heap split: option.splits block.splits if_splits)

section \<open>Packets\<close>

lemma keeps_packet [keeps_rules]:
  "keeps_wf any (packet_description p buf)" "keeps_wf any (free_packet p)" "keeps_wf any (parse_packet raw p)"
  "keeps_wf any (packet_to_bytestream bs n p)" "keeps_wf any (copy_packet p)"
  "keeps_wf any (packet_constructor d sr a sq l pl)" "keeps_wf any (ack_packet d sr a sq)"
  unfolding packet_description_def free_packet_def parse_packet_def packet_to_bytestream_def copy_packet_def
    packet_constructor_def ack_packet_def Let_def
  by (intro keeps_rules; simp)+

lemma keeps_fill [keeps_rules]: "keeps_wf any (fill_loop r i buf data bl d sr a off)"
  by (induction r arbitrary: i bl) (simp_all add: Let_def keeps_rules)

lemma keeps_gather [keeps_rules]: "keeps_wf any (gather_loop r i ps desc data fl)"
  by (induction r arbitrary: i data fl) (simp_all add: keeps_rules)

lemma keeps_network [keeps_rules]:
  "keeps_wf any (data_to_packet_array cb data n d sr a hs)" "keeps_wf any (packet_array_to_data ps data m)"
  unfolding data_to_packet_array_def packet_array_to_data_def finish_packet_array_def Let_def
  by (intro keeps_rules; simp)+

section \<open>Configuration\<close>

lemma keeps_switch_channel [keeps_rules]: "keeps_wf any (sx_1278_switch_to_nth_channel n)"
  unfolding sx_1278_switch_to_nth_channel_def Let_def by (intro keeps_rules; simp)

lemma keeps_end_in_sleep [keeps_rules]: "keeps_wf any end_in_sleep"
  unfolding end_in_sleep_def by (intro keeps_rules; simp)

lemma keeps_spreading_var [keeps_rules]: "6 \<le> sf \<Longrightarrow> sf \<le> 12 \<Longrightarrow> keeps_wf any (set_spreading_factor_var sf)"
  by (auto simp: keeps_wf_def set_spreading_factor_var_def lib_wf_def mem_ok_def)

lemma keeps_spreading_factor [keeps_rules]: "keeps_wf any (sx_1278_set_spreading_factor sf)"
  unfolding sx_1278_set_spreading_factor_def Let_def by (intro keeps_rules; simp add: not_less)

lemma keeps_contexts [keeps_rules]:
  "keeps_wf any (modify (\<lambda>s. s\<lparr>sx127x_spi_port := p, sx127x_logger := l, sx127x_timer_ctx := tm\<rparr>))"
  "keeps_wf any (modify (\<lambda>s. s\<lparr>lora_bandwidth_hz := b\<rparr>))"
  by (simp_all add: keeps_wf_def)

lemma keeps_bandwidth [keeps_rules]: "keeps_wf any (sx1278_set_bandwidth bw cr e)"
  unfolding sx1278_set_bandwidth_def Let_def by (intro keeps_rules; simp)

lemma keeps_initialise [keeps_rules]: "keeps_wf any (initialize_sx_1278 p l tm)"
  unfolding initialize_sx_1278_def by (intro keeps_rules; simp)

section \<open>The driver\<close>

text \<open>The polling loops, by induction on the runs that end.\<close>

lemma keeps_poll_loop [keeps_rules]: "keeps_wf any (poll_loop start timeout_us interval msk cleanup irq)"
proof -
  have "\<forall>a t. lib_wf s \<longrightarrow> r = Ret a t \<longrightarrow> lib_wf t"
    if "poll_loop start timeout_us interval msk cleanup irq s = Some r" for s :: "('a, 'b) machine_scheme" and r
  proof (rule poll_loop.raw_induct [OF _ that, where P = "\<lambda>start timeout_us interval msk cleanup irq s r.
      \<forall>a t. lib_wf s \<longrightarrow> r = Ret a t \<longrightarrow> lib_wf t"], intro allI impI, goal_cases)
    case (1 f start timeout_us interval msk cleanup irq s r a t)
    have f: "keeps_wf any (f start timeout_us interval msk cleanup irq)" for irq
      using 1(1) by (fastforce simp: keeps_wf_def)
    have "lib_wf t \<and> any a"
      by (rule keeps_wf_run [OF 1(2) [unfolded 1(4)] 1(3)]) (intro keeps_rules f; simp)
    then show ?case by simp
  qed
  then show ?thesis by (auto simp: keeps_wf_def)
qed


lemma keeps_poll [keeps_rules]: "keeps_wf any (poll_for_irq_flag timeout_ms interval msk cleanup)"
  unfolding poll_for_irq_flag_def Let_def by (intro keeps_rules; simp)

lemma keeps_no_timeout_loop [keeps_rules]: "keeps_wf any (poll_for_irq_flag_no_timeout_loop interval msk cleanup irq)"
proof -
  have "\<forall>a t. lib_wf s \<longrightarrow> r = Ret a t \<longrightarrow> lib_wf t"
    if "poll_for_irq_flag_no_timeout_loop interval msk cleanup irq s = Some r" for s :: "('a, 'b) machine_scheme" and r
  proof (rule poll_for_irq_flag_no_timeout_loop.raw_induct [OF _ that, where P = "\<lambda>interval msk cleanup irq s r.
      \<forall>a t. lib_wf s \<longrightarrow> r = Ret a t \<longrightarrow> lib_wf t"], intro allI impI, goal_cases)
    case (1 f interval msk cleanup irq s r a t)
    have f: "keeps_wf any (f interval msk cleanup irq)" for irq using 1(1) by (fastforce simp: keeps_wf_def)
    have "lib_wf t \<and> any a" by (rule keeps_wf_run [OF 1(2) [unfolded 1(4)] 1(3)]) (intro keeps_rules f; simp)
    then show ?case by simp
  qed
  then show ?thesis by (auto simp: keeps_wf_def)
qed

lemma keeps_no_timeout [keeps_rules]: "keeps_wf any (poll_for_irq_flag_no_timeout interval msk cleanup)"
  unfolding poll_for_irq_flag_no_timeout_def by (rule keeps_rules)

lemma keeps_send_payload [keeps_rules]: "keeps_wf any (sx1278_send_payload buf len rx)"
  unfolding sx1278_send_payload_def Let_def by (intro keeps_rules; simp)

text \<open>What is read into a buffer does not change its size; nor does what is serialised into one.\<close>

lemma keeps_result: "keeps_wf any m \<Longrightarrow> (\<And>s a t. m s = Some (Ret a t) \<Longrightarrow> P a) \<Longrightarrow> keeps_wf P m"
  unfolding keeps_wf_def by blast

lemma keeps_spi_read: "keeps_wf (\<lambda>(_, b). length b = length buf) (spi_read reg buf len)"
proof (rule keeps_result [OF keeps_access(2)])
  show "spi_read reg buf len s = Some (Ret a t) \<Longrightarrow> case a of (_, b) \<Rightarrow> length b = length buf"
    for s :: "('a, 'b) machine_scheme" and a t
    by (auto simp: spi_read_def on_world_def spi_burst_read_reg_def buf_write_def
        split: option.splits outcome.splits prod.splits if_splits)
qed

lemma keeps_buf_write: "keeps_wf (\<lambda>b. length b = length bs) (buf_write bs i xs)"
  by (auto simp: keeps_wf_def buf_write_def)

lemma keeps_read_payload: "keeps_wf (\<lambda>(_, b, _). length b = length buf) (sx1278_read_last_payload buf len)"
  unfolding sx1278_read_last_payload_def Let_def
  by (intro keeps_rules keeps_bind [OF keeps_spi_read]; simp)

lemma keeps_to_bytestream: "keeps_wf (\<lambda>(_, b). length b = length bs) (packet_to_bytestream bs n p)"
  unfolding packet_to_bytestream_def Let_def
  by (intro keeps_rules keeps_bind [OF keeps_buf_write]; simp)

section \<open>Packets over the radio\<close>

lemma keeps_static:
  "keeps_wf (\<lambda>b. length b = 255) (gets rx_buffer)" "keeps_wf (\<lambda>b. length b = 255) (gets tx_buffer)"
  "length b = 255 \<Longrightarrow> keeps_wf any (modify (\<lambda>s. s\<lparr>rx_buffer := b\<rparr>))"
  "length b = 255 \<Longrightarrow> keeps_wf any (modify (\<lambda>s. s\<lparr>tx_buffer := b\<rparr>))"
  by (auto simp: keeps_wf_def lib_wf_def mem_ok_def)

lemma keeps_rx_cleanup [keeps_rules]: "keeps_wf any (rx_cleanup ret)"
  unfolding rx_cleanup_def by (intro keeps_rules keeps_static; simp)

lemma keeps_read_last_packet [keeps_rules]: "keeps_wf any (read_last_packet p)"
  unfolding read_last_packet_def
  by (rule keeps_bind [OF keeps_static(1)], rule keeps_bind [OF keeps_read_payload]) (intro keeps_rules keeps_static; simp)

lemma keeps_poll_and_read [keeps_rules]: "keeps_wf any (sx1278_poll_and_read_packet p timeout)"
  unfolding sx1278_poll_and_read_packet_def by (intro keeps_rules; simp)

lemma keeps_send_packet [keeps_rules]: "keeps_wf any (sx_1278_send_packet p rx)"
  unfolding sx_1278_send_packet_def
  by (intro keeps_rules keeps_bind [OF keeps_static(2)] keeps_bind [OF keeps_to_bytestream] keeps_static; simp)

lemma keeps_ack_loop [keeps_rules]: "keeps_wf any (ack_loop n p rx_p desc ty)"
proof (induction n)
  case (Suc n)
  show ?case unfolding ack_loop.simps by (intro keeps_rules Suc.IH; simp)
qed (simp add: keeps_rules del: give_apply)

lemma keeps_ensure_ack [keeps_rules]: "keeps_wf any (send_packet_ensure_ack p timeout ty)"
  unfolding send_packet_ensure_ack_def Let_def by (intro keeps_rules; simp)

lemma keeps_burst_loop [keeps_rules]: "keeps_wf any (burst_loop ps n i)"
proof (induction ps n i rule: burst_loop.induct)
  case (1 ps n i)
  show ?case by (subst burst_loop.simps) (intro keeps_rules 1; simp)
qed

lemma keeps_send_burst [keeps_rules]: "keeps_wf any (send_burst ps n)"
  unfolding send_burst_def by (rule keeps_rules)

lemma keeps_to_fsk [keeps_rules]: "keeps_wf any switch_to_fsk"
  unfolding switch_to_fsk_def by (intro keeps_rules; simp)

lemma keeps_rssi_loop [keeps_rules]: "keeps_wf any (rssi_loop tmp n i arr)"
proof (induction tmp n i arr rule: rssi_loop.induct)
  case (1 tmp n i arr)
  show ?case by (subst rssi_loop.simps) (intro keeps_rules 1; simp)
qed

lemma keeps_scan [keeps_rules]: "keeps_wf any (sx_1278_get_channel_rssis data len)"
  unfolding sx_1278_get_channel_rssis_def Let_def by (intro keeps_rules; simp)

section \<open>The receiver\<close>

lemma keeps_send_ack [keeps_rules]: "keeps_wf any (send_ack rx)"
  unfolding send_ack_def by (intro keeps_rules; simp)

lemma keeps_cases [keeps_rules]:
  "keeps_wf P b \<Longrightarrow> keeps_wf P d \<Longrightarrow> keeps_wf P e \<Longrightarrow> keeps_wf P a \<Longrightarrow>
   keeps_wf P (case ty of PACKET_BEGIN \<Rightarrow> b | PACKET_DATA \<Rightarrow> d | PACKET_END \<Rightarrow> e | PACKET_ACK \<Rightarrow> a)"
  "(x = None \<Longrightarrow> keeps_wf P m) \<Longrightarrow> (\<And>y. x = Some y \<Longrightarrow> keeps_wf P (n y)) \<Longrightarrow>
   keeps_wf P (case x of None \<Rightarrow> m | Some y \<Rightarrow> n y)"
  by (cases ty; simp) (cases x; simp)

lemma keeps_handler:
  assumes "handler_wf h"
  shows "keeps_wf (\<lambda>(_, h'). handler_wf h') (rx_packet_handler h p)"
  using assms unfolding rx_packet_handler_def Let_def
  by (intro keeps_rules; auto simp: handler_wf_def rx_handler_reset_def)

lemma keeps_sum [keeps_rules]:
  "(\<And>a. x = Inl a \<Longrightarrow> keeps_wf P (m a)) \<Longrightarrow> (\<And>b. x = Inr b \<Longrightarrow> keeps_wf P (n b)) \<Longrightarrow>
   keeps_wf P (case x of Inl a \<Rightarrow> m a | Inr b \<Rightarrow> n b)"
  by (cases x) simp_all

lemma keeps_iteration:
  assumes "handler_wf h"
  shows "keeps_wf (\<lambda>r. case r of Inl _ \<Rightarrow> True | Inr h' \<Rightarrow> handler_wf h') (rx_iteration h p)"
  unfolding rx_iteration_def
  by (intro keeps_bind [OF keeps_handler [OF assms]] keeps_rules; auto simp: assms)

lemma keeps_rx_loop:
  assumes "handler_wf h"
  shows "keeps_wf (\<lambda>(_, h'). handler_wf h') (rx_loop h p)"
proof -
  have "\<forall>a t. lib_wf s \<longrightarrow> handler_wf h \<longrightarrow> r = Ret a t \<longrightarrow> lib_wf t \<and> handler_wf (snd a)"
    if "rx_loop h p s = Some r" for s :: "('a, 'b) machine_scheme" and r
  proof (rule rx_loop.raw_induct [OF _ that, where P = "\<lambda>h p s r.
      \<forall>a t. lib_wf s \<longrightarrow> handler_wf h \<longrightarrow> r = Ret a t \<longrightarrow> lib_wf t \<and> handler_wf (snd a)"], intro allI impI, goal_cases)
    case (1 f h p s r a t)
    have f: "keeps_wf (\<lambda>a. handler_wf (snd a)) (f h p)" if "handler_wf h" for h p
      using 1(1) that by (fastforce simp: keeps_wf_def)
    show ?case
      by (rule keeps_wf_run [OF 1(2) [unfolded 1(5)] 1(3)])
        (rule keeps_bind [OF keeps_iteration [OF 1(4)]], intro keeps_rules f; simp add: 1(4))
  qed
  then show ?thesis using assms by (fastforce simp: keeps_wf_def)
qed

lemma keeps_start_rx_loop:
  assumes "handler_wf h"
  shows "keeps_wf (\<lambda>(_, h'). handler_wf h') (start_rx_loop h)"
proof -
  have loop: "keeps_wf (\<lambda>(_, h'). handler_wf h')
      (andThen (sx1278_switch_mode (MODE_LORA OR MODE_RX_CONTINUOUS)) (\<lambda>ret.
        if ret \<noteq> SX_OK then
          andThen (log_err RX_UTILS_TAG ''error occured while switching mode'') (\<lambda>_. give (ret, h))
        else rx_loop h p))" for p
    using assms by (intro keeps_rules keeps_rx_loop; simp)
  show ?thesis
    unfolding start_rx_loop_def by (intro keeps_bind [OF loop] keeps_rules; simp)
qed

section \<open>The application\<close>

lemma keeps_console [keeps_rules]: "keeps_wf any (c_printf bs)"
  by (simp add: keeps_wf_def c_printf_def lib_wf_def mem_ok_def)

lemma keeps_total_length [keeps_rules]: "keeps_wf any (total_length r i ps n)"
  by (induction r arbitrary: i n) (simp_all add: keeps_rules del: give_apply)

lemma keeps_on_burst_complete: "keeps_wf any (on_burst_complete ps n)"
  unfolding on_burst_complete_def by (intro keeps_rules; simp)

lemma keeps_sender_task: "keeps_wf any sender_task"
  unfolding sender_task_def Let_def by (intro keeps_rules; simp)

section \<open>The receiver of the burst example\<close>

lemma run_receiver_wf: "handler_wf (run_receiver :: ('w, 'z) app_ctx)"
  by (simp add: handler_wf_def run_receiver_def rx_handler_init_def zeroed_ctx_def keeps_on_burst_complete)

lemma receive_loop_keeps_wf: "keeps_wf (\<lambda>(_, h'). handler_wf h') (start_rx_loop (run_receiver :: ('w, 'z) app_ctx))"
  by (rule keeps_start_rx_loop [OF run_receiver_wf])

end
