(* ===== verification/Pingpong_Port.thy ===== *)
theory Pingpong_Port
  imports Esp_Port
begin

text \<open>
  The platform side of \<open>src/examples/esp32c3_6/pingpong\<close>: register callbacks, clock, delay and \<open>spi_init\<close>
  are static functions of that program's own \<open>main.c\<close>. Each is translated from there, over the same record of
  ESP-IDF functions (Esp_Port). They compute what their namesakes of the burst example compute, so the
  facts about those hold for both programs.
\<close>

unbundle bit_operations_syntax

section \<open>The code\<close>

definition free_if_pp :: "'w esp_idf \<Rightarrow> nat \<Rightarrow> 'w \<Rightarrow> 'w" where
  "free_if_pp idf p w = (if p \<noteq> NULL then heap_free idf p w else w)"

definition esp_spi_write_pp :: "'w esp_idf \<Rightarrow> nat \<Rightarrow> u8 \<Rightarrow> u8 list \<Rightarrow> int \<Rightarrow> 'w \<Rightarrow> esp_err_t \<times> 'w" where
  "esp_spi_write_pp idf spi addr data len w0 =
     (let (ret, w1) = spi_device_acquire_bus idf spi w0 in
      if ret \<noteq> ESP_OK then (ret, w1)
      else
        let cleanup = (\<lambda>ret cmd data_dma w.
              (ret, spi_device_release_bus idf spi (free_if_pp idf data_dma (free_if_pp idf cmd w))));
            (data_dma, w2) = heap_caps_malloc idf (dma_size len) w1 in
        if data_dma = NULL then cleanup ESP_ERR_NO_MEM NULL data_dma w2
        else if len \<le> 0 then (ESP_OK, w2)
        else
          let (cmd, w3) = heap_caps_malloc idf 1 w2 in
          if cmd = NULL then cleanup ESP_ERR_NO_MEM cmd data_dma w3
          else
            let t0 = \<lparr>trans_length = 8, trans_tx = [addr OR 0b10000000], keep_cs = True, has_rx = False\<rparr>;
                t1 = \<lparr>trans_length = nat len * 8, trans_tx = take (nat len) data, keep_cs = False, has_rx = False\<rparr>;
                ((ret, _), w4) = spi_device_transmit idf spi t0 w3 in
            if ret \<noteq> ESP_OK then cleanup ret cmd data_dma w4
            else
              let ((ret, _), w5) = spi_device_transmit idf spi t1 w4 in
              cleanup ret cmd data_dma w5)"

definition esp_spi_read_pp :: "'w esp_idf \<Rightarrow> nat \<Rightarrow> u8 \<Rightarrow> int \<Rightarrow> 'w \<Rightarrow> (esp_err_t \<times> u8 list) \<times> 'w" where
  "esp_spi_read_pp idf spi addr len w0 =
     (if len \<le> 0 then ((ESP_OK, []), w0)
      else
        let cleanup = (\<lambda>ret bs ret_data_dma dummy cmd w.
              ((ret, bs), spi_device_release_bus idf spi
                 (free_if_pp idf cmd (free_if_pp idf dummy (free_if_pp idf ret_data_dma w)))));
            (dummy, w1) = heap_caps_malloc idf (dma_size len) w0 in
        if dummy = NULL then cleanup ESP_ERR_NO_MEM [] NULL dummy NULL w1
        else
          let (cmd, w2) = heap_caps_malloc idf 1 w1 in
          if cmd = NULL then cleanup ESP_ERR_NO_MEM [] NULL dummy cmd w2
          else
            let (_, w3) = spi_device_acquire_bus idf spi w2;
                t0 = \<lparr>trans_length = 8, trans_tx = [addr AND 0b01111111], keep_cs = True, has_rx = False\<rparr>;
                ((ret, _), w4) = spi_device_transmit idf spi t0 w3 in
            if ret \<noteq> ESP_OK then cleanup ret [] NULL dummy cmd w4
            else
              let (ret_data_dma, w5) = heap_caps_malloc idf (dma_size len) w4 in
              if ret_data_dma = NULL then cleanup ESP_ERR_NO_MEM [] ret_data_dma dummy cmd w5
              else
                let t1 = \<lparr>trans_length = nat len * 8, trans_tx = replicate (nat len) 0, keep_cs = False, has_rx = True\<rparr>;
                    ((ret, rx), w6) = spi_device_transmit idf spi t1 w5 in
                cleanup ret (if ret \<noteq> ESP_OK then [] else take (nat len) rx) ret_data_dma dummy cmd w6)"

definition lora_spi_write_pp :: "'w esp_idf \<Rightarrow> 'w spi_register_writer_t" where
  "lora_spi_write_pp idf handle reg data len w =
     (let (ret, w') = esp_spi_write_pp idf handle reg data len w in
      (if ret = ESP_OK then SX_OK else SX_INVALID_STATE, w'))"

definition lora_spi_read_pp :: "'w esp_idf \<Rightarrow> 'w spi_register_reader_t" where
  "lora_spi_read_pp idf handle reg len w =
     (let ((ret, bs), w') = esp_spi_read_pp idf handle reg len w in
      ((if ret = ESP_OK then SX_OK else SX_INVALID_STATE, bs), w'))"

definition get_time_us_pp :: "'w esp_idf \<Rightarrow> 'w sx127x_timer_t" where
  "get_time_us_pp idf = esp_timer_get_time idf"

definition esp_delay_ms_pp :: "'w esp_idf \<Rightarrow> 'w sx127x_task_delayer_ms_t" where
  "esp_delay_ms_pp idf ms = vTaskDelay idf (pdMS_TO_TICKS idf ms)"

definition spi_init_pp :: "'w esp_idf \<Rightarrow> lora_pins \<Rightarrow> ('w, nat) cmd" where
  "spi_init_pp idf pins w0 =
     (let bus = \<lparr>mosi_io_num = CONFIG_LORA_PIN_MOSI pins, miso_io_num = CONFIG_LORA_PIN_MISO pins,
            sclk_io_num = CONFIG_LORA_PIN_SCK pins, quadwp_io_num = -1, quadhd_io_num = -1\<rparr>;
          dev = \<lparr>clock_speed_hz = 1000000, spi_mode = 0, spics_io_num = CONFIG_LORA_PIN_NSS pins, queue_size = 1\<rparr>;
          (e1, w1) = spi_bus_initialize idf bus w0 in
      if e1 \<noteq> ESP_OK then Some (Fault Aborted)
      else
        let ((e2, spi_handle), w2) = spi_bus_add_device idf dev w1 in
        if e2 \<noteq> ESP_OK then Some (Fault Aborted) else Some (Ret spi_handle w2))"

definition lora_port_pp :: "'w esp_idf \<Rightarrow> nat \<Rightarrow> 'w spi_port_t" where
  "lora_port_pp idf handle = snd (spi_port_init (Some (lora_spi_write_pp idf)) (Some (lora_spi_read_pp idf)) handle)"

definition lora_timer_pp :: "'w esp_idf \<Rightarrow> 'w sx127x_timer_ctx_t" where
  "lora_timer_pp idf = sx127x_timer_init (Some (get_time_us_pp idf)) (Some (esp_delay_ms_pp idf))"

section \<open>The platform layer of the two examples\<close>

text \<open>A change to one of the two copies that is not made to the other breaks this proof.\<close>

lemma pingpong_platform:
  "esp_spi_write_pp idf = esp_spi_write idf" "esp_spi_read_pp idf = esp_spi_read idf"
  "lora_spi_write_pp idf = lora_spi_write idf" "lora_spi_read_pp idf = lora_spi_read idf"
  "get_time_us_pp idf = get_time_us idf" "esp_delay_ms_pp idf = esp_delay_ms idf"
  "spi_init_pp idf pins = spi_init idf pins"
  "lora_port_pp idf h = lora_port idf h" "lora_timer_pp idf = lora_timer idf"
proof -
  have free: "free_if_pp idf = free_if idf" by (intro ext) (simp add: free_if_pp_def free_if_def)
  show w: "esp_spi_write_pp idf = esp_spi_write idf"
    by (intro ext) (simp only: esp_spi_write_pp_def esp_spi_write_def free)
  show r: "esp_spi_read_pp idf = esp_spi_read idf"
    by (intro ext) (simp only: esp_spi_read_pp_def esp_spi_read_def free)
  show lw: "lora_spi_write_pp idf = lora_spi_write idf"
    by (intro ext) (simp only: lora_spi_write_pp_def lora_spi_write_def w)
  show lr: "lora_spi_read_pp idf = lora_spi_read idf"
    by (intro ext) (simp only: lora_spi_read_pp_def lora_spi_read_def r)
  show t: "get_time_us_pp idf = get_time_us idf" by (simp only: get_time_us_pp_def get_time_us_def)
  show d: "esp_delay_ms_pp idf = esp_delay_ms idf"
    by (intro ext) (simp only: esp_delay_ms_pp_def esp_delay_ms_def)
  show "spi_init_pp idf pins = spi_init idf pins" by (intro ext) (simp only: spi_init_pp_def spi_init_def)
  show "lora_port_pp idf h = lora_port idf h" by (simp only: lora_port_pp_def lora_port_def lw lr)
  show "lora_timer_pp idf = lora_timer idf" by (simp only: lora_timer_pp_def lora_timer_def t d)
qed

end
