(* ===== verification/Pingpong.thy ===== *)
theory Pingpong
  imports Pingpong_Port
begin

text \<open>
  The application \<open>src/examples/esp32c3_6/pingpong\<close>: five rounds of ``ping'' and ``pong'' as raw payloads.
  The register callbacks and \<open>spi_init\<close> are in Pingpong_Port. The array \<open>buf\<close> on the stack is an
  argument, as its first content is arbitrary. On the scripted radio, with byte arrays as answers, both
  programs are described for every sequence of answers.
\<close>

unbundle bit_operations_syntax

section \<open>The code\<close>

definition PING_STR :: "u8 list" where "PING_STR = str_bytes ''ping''"
definition PONG_STR :: "u8 list" where "PONG_STR = str_bytes ''pong''"
definition ROUNDS :: nat where "ROUNDS = 5"

text \<open>\<open>len != strlen(str) || memcmp(buf, str, len) != 0\<close>\<close>

definition payload_differs :: "u8 list \<Rightarrow> nat \<Rightarrow> u8 list \<Rightarrow> bool" where
  "payload_differs buf len str \<longleftrightarrow> len \<noteq> length str \<or> take len buf \<noteq> str"

text \<open>The loops with the number of rounds that are left.\<close>

primrec ping_rounds :: "nat \<Rightarrow> u8 list \<Rightarrow> nat \<Rightarrow> ('w, 'z, unit) acmd" where
  "ping_rounds 0 buf len = c_printf (str_bytes ''test passed'' @ newline)"
| "ping_rounds (Suc r) buf len =
     andThen (sx1278_send_payload PING_STR (of_nat (length PING_STR)) True) (\<lambda>ret.
     if ret \<noteq> SX_OK then give ()
     else
       andThen (poll_for_irq_flag (word_of_int PHY_TIMEOUT_MSEC) 3 (push_bit 6 1) False) (\<lambda>ret.
       if ret \<noteq> SX_OK then give ()
       else
         andThen (sx1278_read_last_payload buf len) (\<lambda>(ret, buf', len').
         if ret \<noteq> SX_OK then give ()
         else if payload_differs buf' len' PONG_STR then give ()
         else ping_rounds r buf' len')))"

definition ping_sender :: "u8 list \<Rightarrow> nat \<Rightarrow> ('w, 'z, unit) acmd" where
  "ping_sender buf len = ping_rounds ROUNDS buf len"

primrec pong_rounds :: "nat \<Rightarrow> u8 list \<Rightarrow> nat \<Rightarrow> ('w, 'z, unit) acmd" where
  "pong_rounds 0 buf len = give ()"
| "pong_rounds (Suc r) buf len =
     andThen (poll_for_irq_flag (word_of_int (PHY_TIMEOUT_MSEC * 10)) 3 (push_bit 6 1) False) (\<lambda>ret.
     if ret \<noteq> SX_OK then give ()
     else
       andThen (sx1278_read_last_payload buf len) (\<lambda>(ret, buf', len').
       if ret \<noteq> SX_OK then give ()
       else if payload_differs buf' len' PING_STR then give ()
       else
         andThen (sx1278_send_payload PONG_STR (of_nat (length PONG_STR)) True) (\<lambda>ret.
         if ret \<noteq> SX_OK then give () else pong_rounds r buf' len')))"

definition pong_receiver :: "u8 list \<Rightarrow> nat \<Rightarrow> ('w, 'z, unit) acmd" where
  "pong_receiver buf len =
     andThen (sx1278_switch_mode (MODE_LORA OR MODE_RX_CONTINUOUS)) (\<lambda>ret.
     if ret \<noteq> SX_OK then give () else pong_rounds ROUNDS buf len)"

definition pingpong_main :: "'w esp_idf \<Rightarrow> lora_pins \<Rightarrow> burst_role \<Rightarrow> u8 list \<Rightarrow> nat \<Rightarrow> ('w, 'z, unit) acmd" where
  "pingpong_main idf pins role buf len =
     andThen (on_world (spi_init_pp idf pins)) (\<lambda>spi_handle.
     andThen (initialize_sx_1278 (lora_port_pp idf spi_handle) zero_logger (lora_timer_pp idf)) (\<lambda>ret.
     if ret \<noteq> SX_OK then c_printf (str_bytes ''init failed'' @ newline)
     else
       andThen (c_printf (str_bytes ''sx1278 init ok'' @ newline)) (\<lambda>_.
       case role of Sender \<Rightarrow> ping_sender buf len | Receiver \<Rightarrow> pong_receiver buf len)))"

section \<open>On the scripted radio\<close>

abbreviation (input) on_raw :: "(u8 list air_world, 'z) machine_scheme \<Rightarrow> bool" where
  "on_raw \<equiv> on_air (\<lambda>bs. bs)"

lemma strings [simp]: "length PING_STR = 4" "length PONG_STR = 4" "PING_STR \<noteq> []" "PONG_STR \<noteq> []"
  by (simp_all add: PING_STR_def PONG_STR_def str_bytes_def)

lemma raw_send:
  "on_raw s \<Longrightarrow> length bs = 4 \<Longrightarrow> sx1278_send_payload bs 4 rx s
     = Some (Ret SX_OK (s\<lparr>world := (world s)\<lparr>air := air (world s) @ [bs]\<rparr>\<rparr>))"
  using air_send_payload [of "\<lambda>bs. bs" s 4 bs rx] by simp

text \<open>A payload that fits is read; a longer one is written past the end of the buffer.\<close>

lemma raw_read:
  assumes p: "on_raw s" and a: "answer (world s) = Some r" and l: "length r \<le> 255"
  shows "sx1278_read_last_payload buf len s =
    (if length r \<le> length buf then Some (Ret (SX_OK, overlay buf 0 r, length r) s) else Some (Fault Out_Of_Bounds))"
proof (cases "length r \<le> length buf")
  case True
  then show ?thesis using air_read_last_payload [OF p a l] by simp
next
  case False
  have "unat (of_nat (length r) :: u8) = length r" using l by (subst unat_of_nat_u8) simp_all
  moreover have "r \<noteq> []" using False by auto
  then have "spi_read 0 buf (int (length r)) s = Some (Fault Out_Of_Bounds)"
    using p a False by (simp add: on_air_def spi_read_def on_world_def spi_burst_read_reg_def air_reader_def
        buf_write_def air_bytes.simps)
  ultimately show ?thesis
    using a l False
    by (simp add: sx1278_read_last_payload_def Let_def sx1278_switch_mode_def sx1278_clear_irq_def
        sx1278_read_irq_def air_write [OF p] air_read1 [OF p] air_irq [OF p] air_bytes.simps)
qed

lemma raw_poll:
  assumes p: "on_raw s" and t: "ticks (world s) + 40000000 < 2 ^ 63" and m: "0 < sint ms" "sint ms \<le> 30000"
  shows "\<exists>n \<le> 40000000. poll_for_irq_flag ms 3 (push_bit 6 1) False s = (case answer (world s) of
      None \<Rightarrow> Some (Ret SX_TIMEOUT (s\<lparr>world := (world s)\<lparr>ticks := ticks (world s) + n\<rparr>\<rparr>))
    | Some r \<Rightarrow> Some (Ret SX_OK s))"
proof -
  have ms: "\<not> ms \<le> 0" using m(1) by (auto simp: word_le_0_iff)
  have f: "fits_i64 (sint ms * 1000)" using m by (simp add: fits_i64_def)
  have "sint (of_nat (ticks (world s)) :: i64) = int (ticks (world s))" using t by (intro sint_ticks) simp
  then have poll: "poll_for_irq_flag ms 3 (push_bit 6 1) False s
      = poll_loop (int (ticks (world s))) (sint ms * 1000) 3 0x40 False 0 s"
    using ms f by (simp add: poll_for_irq_flag_def Let_def air_time_us [OF p])
  show ?thesis
  proof (cases "answer (world s)")
    case None
    have "sint ms * 1000 < int (ticks (world s) + 10000000 * 4) - int (ticks (world s))" using m(2) by simp
    from air_poll_loop_silent [OF p None _ order_refl this, of 3 0] t obtain n where "n \<le> 4"
      "poll_loop (int (ticks (world s))) (sint ms * 1000) 3 0x40 False 0 s
        = Some (Ret SX_TIMEOUT (s\<lparr>world := (world s)\<lparr>ticks := ticks (world s) + 10000000 * n\<rparr>\<rparr>))" by auto
    then show ?thesis using poll None by (intro exI [of _ "10000000 * n"]) simp
  next
    case (Some r)
    then show ?thesis
      using poll poll_loop_cases [OF air_irq [OF p]] by (intro exI [of _ 0]) (simp add: irq_cleanup_def)
  qed
qed

section \<open>Properties\<close>

text \<open>How many of the next \<open>n\<close> answers are exactly \<open>x\<close>, one after the other, and whether the answer after
  them is longer than the buffer.\<close>

definition matching :: "u8 list \<Rightarrow> nat \<Rightarrow> u8 list option list \<Rightarrow> nat" where
  "matching x n rs = length (takeWhile (\<lambda>a. a = Some x) (take n rs))"

definition overlong :: "nat \<Rightarrow> u8 list option list \<Rightarrow> bool" where
  "overlong k rs \<longleftrightarrow> k < length rs \<and> (case rs ! k of None \<Rightarrow> False | Some r \<Rightarrow> 64 < length r)"

lemma matching_simps [simp]:
  "matching x 0 rs = 0" "matching x n [] = 0"
  "matching x (Suc n) (a # rs) = (if a = Some x then Suc (matching x n rs) else 0)"
  by (simp_all add: matching_def)

lemma overlong_simps [simp]:
  "\<not> overlong k []" "overlong (Suc k) (a # rs) = overlong k rs"
  "overlong 0 (a # rs) = (case a of None \<Rightarrow> False | Some r \<Rightarrow> 64 < length r)"
  by (simp_all add: overlong_def)

lemma answer_after:
  "answer (w\<lparr>air := air w @ [x]\<rparr>) = (case drop (length (air w)) (script w) of [] \<Rightarrow> None | a # _ \<Rightarrow> a)"
proof (cases "drop (length (air w)) (script w)")
  case Nil
  then show ?thesis by (simp add: answer_def)
next
  case (Cons a rs)
  then have "length (air w) < length (script w)" "script w ! length (air w) = a"
    using hd_drop_conv_nth [of "length (air w)" "script w"] by (metis drop_eq_Nil linorder_not_le list.distinct(1), metis
      drop_eq_Nil linorder_not_le list.distinct(1) list.sel(1))
  then show ?thesis using Cons by (simp add: answer_def)
qed

lemma drop_after: "drop (length xs) ys = a # rs \<Longrightarrow> drop (length (xs @ [x])) ys = rs"
  by (metis drop_Suc length_append_singleton list.sel(3) tl_drop)

lemma same_payload: "length x \<le> length buf \<Longrightarrow> payload_differs (overlay buf 0 r) (length r) x \<longleftrightarrow> r \<noteq> x"
  by (auto simp: payload_differs_def overlay_def)

lemma ping_rounds_run:
  fixes s :: "(u8 list air_world, 'z) burst_app_scheme"
  assumes "on_raw s" and "ticks (world s) + 40000000 < 2 ^ 63" and "length buf = 64"
    and "\<And>r. Some r \<in> set (script (world s)) \<Longrightarrow> length r \<le> 255"
    and "drop (length (air (world s))) (script (world s)) = rs" and "k = matching PONG_STR n rs"
  shows "if k < n \<and> overlong k rs then ping_rounds n buf len s = Some (Fault Out_Of_Bounds)
    else \<exists>t. ping_rounds n buf len s = Some (Ret () t) \<and>
      air (world t) = air (world s) @ replicate (min n (Suc k)) PING_STR \<and>
      console t = console s @ (if k = n then str_bytes ''test passed'' @ newline else [])"
  using assms
proof (induction n arbitrary: s buf len rs k)
  case 0
  then show ?case by (simp add: c_printf_def)
next
  case (Suc n)
  let ?s = "s\<lparr>world := (world s)\<lparr>air := air (world s) @ [PING_STR]\<rparr>\<rparr>"
  have p: "on_raw ?s" "ticks (world ?s) + 40000000 < 2 ^ 63" using Suc.prems(1,2) by simp_all
  have send: "sx1278_send_payload PING_STR 4 True s = Some (Ret SX_OK ?s)"
    by (rule raw_send [OF Suc.prems(1)]) simp
  have ms: "sint (word_of_int PHY_TIMEOUT_MSEC :: u64) = 3000" by (simp add: PHY_TIMEOUT_MSEC_def)
  have ans: "answer (world ?s) = (case rs of [] \<Rightarrow> None | a # _ \<Rightarrow> a)"
    using answer_after [of "world s" PING_STR] Suc.prems(5) by simp
  obtain m where poll: "poll_for_irq_flag (word_of_int PHY_TIMEOUT_MSEC) 3 64 False ?s
      = (case answer (world ?s) of
          None \<Rightarrow> Some (Ret SX_TIMEOUT (?s\<lparr>world := (world ?s)\<lparr>ticks := ticks (world ?s) + m\<rparr>\<rparr>))
        | Some r \<Rightarrow> Some (Ret SX_OK ?s))"
    using raw_poll [OF p, of "word_of_int PHY_TIMEOUT_MSEC"] ms by auto
  show ?case
  proof (cases "answer (world ?s)")
    case None
    then have "\<not> overlong 0 rs" "matching PONG_STR (Suc n) rs = 0"
      using ans by (cases rs; auto)+
    then show ?thesis using Suc.prems(6) send poll None by simp
  next
    case (Some r)
    then obtain rs' where rs: "rs = Some r # rs'" using ans by (cases rs) auto
    then have "Some r \<in> set (script (world s))" using Suc.prems(5) by (metis in_set_dropD list.set_intros(1))
    then have l: "length r \<le> 255" using Suc.prems(4) by blast
    note read = raw_read [OF p(1) Some l, of buf len]
    show ?thesis
    proof (cases "r = PONG_STR")
      case False
      then show ?thesis
        using Suc.prems(3,6) send poll Some rs read same_payload [of PONG_STR buf r] by auto
    next
      case True
      let ?buf = "overlay buf 0 r"
      have d: "drop (length (air (world ?s))) (script (world ?s)) = rs'"
        using drop_after [OF Suc.prems(5) [unfolded rs]] by simp
      have "if matching PONG_STR n rs' < n \<and> overlong (matching PONG_STR n rs') rs'
          then ping_rounds n ?buf (length r) ?s = Some (Fault Out_Of_Bounds)
        else \<exists>t. ping_rounds n ?buf (length r) ?s = Some (Ret () t) \<and>
          air (world t) = air (world ?s) @ replicate (min n (Suc (matching PONG_STR n rs'))) PING_STR \<and>
          console t = console ?s @ (if matching PONG_STR n rs' = n then str_bytes ''test passed'' @ newline else [])"
        using Suc.prems(3,4) True by (intro Suc.IH [OF p _ _ d refl]) simp_all
      moreover have "ping_rounds (Suc n) buf len s = ping_rounds n ?buf (length r) ?s"
        using Suc.prems(3) send poll Some read True same_payload [of PONG_STR buf r] by simp
      ultimately show ?thesis using Suc.prems(6) rs True by auto
    qed
  qed
qed


lemma answer_now:
  "air w \<noteq> [] \<Longrightarrow> answer w = (case drop (length (air w) - 1) (script w) of [] \<Rightarrow> None | a # _ \<Rightarrow> a)"
proof (cases "drop (length (air w) - 1) (script w)")
  case Nil
  then have "air w \<noteq> [] \<Longrightarrow> length (script w) < length (air w)" by (cases "air w") auto
  then show "air w \<noteq> [] \<Longrightarrow> ?thesis" using Nil by (simp add: answer_def)
next
  case (Cons a rs)
  then have "length (air w) - 1 < length (script w)" "script w ! (length (air w) - 1) = a"
    using hd_drop_conv_nth [of "length (air w) - 1" "script w"]
    by (metis drop_eq_Nil linorder_not_le list.distinct(1),
      metis drop_eq_Nil linorder_not_le list.distinct(1) list.sel(1))
  moreover from this have "air w \<noteq> [] \<Longrightarrow> length (air w) \<le> length (script w)" by (cases "air w") auto
  ultimately show "air w \<noteq> [] \<Longrightarrow> ?thesis" using Cons by (simp add: answer_def)
qed

lemma pong_rounds_run:
  fixes s :: "(u8 list air_world, 'z) burst_app_scheme"
  assumes "on_raw s" and "ticks (world s) + 40000000 < 2 ^ 63" and "length buf = 64"
    and "\<And>r. Some r \<in> set (script (world s)) \<Longrightarrow> length r \<le> 255" and "air (world s) \<noteq> []"
    and "drop (length (air (world s)) - 1) (script (world s)) = rs" and "k = matching PING_STR n rs"
  shows "if k < n \<and> overlong k rs then pong_rounds n buf len s = Some (Fault Out_Of_Bounds)
    else \<exists>t. pong_rounds n buf len s = Some (Ret () t) \<and>
      air (world t) = air (world s) @ replicate k PONG_STR"
  using assms
proof (induction n arbitrary: s buf len rs k)
  case 0
  then show ?case by simp
next
  case (Suc n)
  have ms: "sint (word_of_int (PHY_TIMEOUT_MSEC * 10) :: u64) = 30000" by (simp add: PHY_TIMEOUT_MSEC_def)
  have ans: "answer (world s) = (case rs of [] \<Rightarrow> None | a # _ \<Rightarrow> a)"
    using answer_now [OF Suc.prems(5)] Suc.prems(6) by simp
  obtain m where poll: "poll_for_irq_flag (word_of_int (PHY_TIMEOUT_MSEC * 10)) 3 64 False s
      = (case answer (world s) of
          None \<Rightarrow> Some (Ret SX_TIMEOUT (s\<lparr>world := (world s)\<lparr>ticks := ticks (world s) + m\<rparr>\<rparr>))
        | Some r \<Rightarrow> Some (Ret SX_OK s))"
    using raw_poll [OF Suc.prems(1,2), of "word_of_int (PHY_TIMEOUT_MSEC * 10)"] ms by auto
  show ?case
  proof (cases "answer (world s)")
    case None
    then have "\<not> overlong 0 rs" "matching PING_STR (Suc n) rs = 0"
      using ans by (cases rs; auto)+
    then show ?thesis using Suc.prems(7) poll None by simp
  next
    case (Some r)
    then obtain rs' where rs: "rs = Some r # rs'" using ans by (cases rs) auto
    then have "Some r \<in> set (script (world s))" using Suc.prems(6) by (metis in_set_dropD list.set_intros(1))
    then have l: "length r \<le> 255" using Suc.prems(4) by blast
    note read = raw_read [OF Suc.prems(1) Some l, of buf len]
    show ?thesis
    proof (cases "r = PING_STR")
      case False
      then show ?thesis
        using Suc.prems(3,7) poll Some rs read same_payload [of PING_STR buf r] by auto
    next
      case True
      let ?s = "s\<lparr>world := (world s)\<lparr>air := air (world s) @ [PONG_STR]\<rparr>\<rparr>"
      let ?buf = "overlay buf 0 r"
      have send: "sx1278_send_payload PONG_STR 4 True s = Some (Ret SX_OK ?s)"
        by (rule raw_send [OF Suc.prems(1)]) simp
      have "drop (length (air (world s))) (script (world s)) = tl rs"
        using Suc.prems(5,6) by (cases "air (world s)") (auto simp: drop_Suc tl_drop)
      then have d: "drop (length (air (world ?s)) - 1) (script (world ?s)) = rs'" using rs by simp
      have p: "on_raw ?s" "ticks (world ?s) + 40000000 < 2 ^ 63" using Suc.prems(1,2) by simp_all
      have "if matching PING_STR n rs' < n \<and> overlong (matching PING_STR n rs') rs'
          then pong_rounds n ?buf (length r) ?s = Some (Fault Out_Of_Bounds)
        else \<exists>t. pong_rounds n ?buf (length r) ?s = Some (Ret () t) \<and>
          air (world t) = air (world ?s) @ replicate (matching PING_STR n rs') PONG_STR"
        using Suc.prems(3,4) True by (intro Suc.IH [OF p _ _ _ d refl]) simp_all
      moreover have "pong_rounds (Suc n) buf len s = pong_rounds n ?buf (length r) ?s"
        using Suc.prems(3) send poll Some read True same_payload [of PING_STR buf r] by simp
      ultimately show ?thesis using Suc.prems(7) rs True by auto
    qed
  qed
qed

text \<open>Start-up of the ping-pong example. If the SPI bus cannot be set up the program aborts; otherwise the
  initialisation of the library returns for every answer of the platform. When it fails the program prints so
  and ends; when it succeeds the program prints so and plays its role from the state the initialisation left.\<close>

theorem pingpong_main_outcome:
  assumes "lora_bandwidth_hz s \<noteq> 0"
  shows "case spi_init_pp idf pins (world s) of
      Some (Ret h w) \<Rightarrow> \<exists>ret t. initialize_sx_1278 (lora_port_pp idf h) zero_logger (lora_timer_pp idf) (s\<lparr>world := w\<rparr>)
          = Some (Ret ret t) \<and> usable t \<and> blocks t = blocks s \<and> console t = console s \<and>
        pingpong_main idf pins role buf len s =
          (if ret \<noteq> SX_OK then Some (Ret () (t\<lparr>console := console t @ str_bytes ''init failed'' @ newline\<rparr>))
           else (case role of Sender \<Rightarrow> ping_sender buf len | Receiver \<Rightarrow> pong_receiver buf len)
             (t\<lparr>console := console t @ str_bytes ''sx1278 init ok'' @ newline\<rparr>))
    | r \<Rightarrow> r = Some (Fault Aborted) \<and> pingpong_main idf pins role buf len s = Some (Fault Aborted)"
proof (cases rule: spi_init_cases [of idf pins "world s"])
  case (1 h w)
  have "lora_bandwidth_hz (s\<lparr>world := w\<rparr>) \<noteq> 0" using assms by simp
  from initialise_on_esp [OF this, of idf h] obtain ret t
    where "initialize_sx_1278 (lora_port idf h) zero_logger (lora_timer idf) (s\<lparr>world := w\<rparr>) = Some (Ret ret t)"
      "usable t" "console t = console s" "blocks t = blocks s" by auto
  then show ?thesis using 1
    by (auto simp: pingpong_main_def pingpong_platform on_world_def c_printf_def intro!: exI [of _ ret] exI [of _ t] split: burst_role.splits)
next
  case 2
  then show ?thesis by (simp add: pingpong_main_def pingpong_platform on_world_def)
qed

text \<open>C35: The sender of the ping-pong example, for every sequence of answers to its pings (\<open>None\<close> is no
  answer): with \<open>k\<close> the number of answers, up to five, that are ``pong'', it has sent \<open>k + 1\<close> pings,
  at most five, and has printed ``test passed'' exactly when \<open>k\<close> is five; except that an answer of more than
  64 bytes after those is written past the end of its stack buffer.
\<close>
theorem ping_sender_outcome:
  fixes s :: "(u8 list air_world, 'z) burst_app_scheme"
  assumes "on_air (\<lambda>bs. bs) s" and "ticks (world s) + 40000000 < 2 ^ 63" and "length buf = 64"
    and "\<forall>r. Some r \<in> set (script (world s)) \<longrightarrow> length r \<le> 255"
    and "drop (length (air (world s))) (script (world s)) = rs" and "k = matching PONG_STR 5 rs"
  shows "if k < 5 \<and> overlong k rs then ping_sender buf len s = Some (Fault Out_Of_Bounds)
    else \<exists>t. ping_sender buf len s = Some (Ret () t) \<and>
      air (world t) = air (world s) @ replicate (min 5 (Suc k)) PING_STR \<and>
      console t = console s @ (if k = 5 then str_bytes ''test passed'' @ newline else [])"
  unfolding ping_sender_def ROUNDS_def
  by (rule ping_rounds_run [OF assms(1-3) _ assms(5,6)]) (use assms(4) in blast)

definition raw_machine :: "u8 list list \<Rightarrow> u8 list option list \<Rightarrow> u8 list air_world burst_app" where
  "raw_machine sent replies = machine.extend ((boot \<lparr>air = sent, script = replies, ticks = 0\<rparr>)
     \<lparr>sx127x_spi_port := air_port (\<lambda>bs. bs), sx127x_timer_ctx := air_timer\<rparr>) \<lparr>console = []\<rparr>"

lemma raw_machine_sel [simp]:
  "on_air (\<lambda>bs. bs) (raw_machine sent replies)" "console (raw_machine sent replies) = []"
  "world (raw_machine sent replies) = \<lparr>air = sent, script = replies, ticks = 0\<rparr>"
  by (simp_all add: raw_machine_def on_air_def machine.defs boot_def)

text \<open>Five pongs; and an answer of 65 bytes to the second ping.\<close>

lemma ping_sender_outcome_witness:
  "(\<exists>t. ping_sender (replicate 64 0) 0 (raw_machine [] (replicate 5 (Some PONG_STR))) = Some (Ret () t) \<and>
      air (world t) = replicate 5 PING_STR \<and> console t = str_bytes ''test passed'' @ newline) \<and>
   ping_sender (replicate 64 0) 0 (raw_machine [] [Some PONG_STR, Some (replicate 65 0)])
     = Some (Fault Out_Of_Bounds)"
proof -
  have "replicate 5 (Some PONG_STR) = [Some PONG_STR, Some PONG_STR, Some PONG_STR, Some PONG_STR, Some PONG_STR]"
    by (simp add: numeral_eq_Suc)
  moreover have "replicate 65 0 \<noteq> PONG_STR" by (auto dest: arg_cong [of _ _ length])
  then have "matching PONG_STR 5 [Some PONG_STR, Some PONG_STR, Some PONG_STR, Some PONG_STR, Some PONG_STR] = 5"
    "matching PONG_STR 5 [Some PONG_STR, Some (replicate 65 0)] = 1"
    by (simp_all add: matching_def)
  moreover have "overlong 1 [Some PONG_STR, Some (replicate 65 0)]" by (simp add: overlong_def)
  ultimately show ?thesis
    using ping_sender_outcome [of "raw_machine [] (replicate 5 (Some PONG_STR))" "replicate 64 0" _ 5 0]
      ping_sender_outcome [of "raw_machine [] [Some PONG_STR, Some (replicate 65 0)]" "replicate 64 0" _ 1 0]
    by (auto simp del: One_nat_def)
qed

text \<open>The receiver of the ping-pong example, for every sequence of payloads that arrive, the first one before it
  has answered anything: it answers each ``ping'' with one ``pong'', up to five, stops at the first payload that is
  something else or does not come, and writes past the end of its stack buffer when that payload has more than 64
  bytes.
\<close>
theorem pong_receiver_outcome:
  fixes s :: "(u8 list air_world, 'z) burst_app_scheme"
  assumes "on_air (\<lambda>bs. bs) s" and "ticks (world s) + 40000000 < 2 ^ 63" and "length buf = 64"
    and "\<forall>r. Some r \<in> set (script (world s)) \<longrightarrow> length r \<le> 255" and "air (world s) \<noteq> []"
    and "drop (length (air (world s)) - 1) (script (world s)) = rs" and "k = matching PING_STR 5 rs"
  shows "if k < 5 \<and> overlong k rs then pong_receiver buf len s = Some (Fault Out_Of_Bounds)
    else \<exists>t. pong_receiver buf len s = Some (Ret () t) \<and>
      air (world t) = air (world s) @ replicate k PONG_STR"
proof -
  have "pong_receiver buf len s = pong_rounds 5 buf len s"
    by (simp add: pong_receiver_def ROUNDS_def sx1278_switch_mode_def air_write [OF assms(1)])
  moreover have "if k < 5 \<and> overlong k rs then pong_rounds 5 buf len s = Some (Fault Out_Of_Bounds)
    else \<exists>t. pong_rounds 5 buf len s = Some (Ret () t) \<and>
      air (world t) = air (world s) @ replicate k PONG_STR"
    by (rule pong_rounds_run [OF assms(1-3) _ assms(5-7)]) (use assms(4) in blast)
  ultimately show ?thesis by simp
qed

lemma pong_receiver_outcome_witness:
  "\<exists>t. pong_receiver (replicate 64 0) 0 (raw_machine [[]] [Some PING_STR, Some PING_STR, None]) = Some (Ret () t) \<and>
      air (world t) = [[], PONG_STR, PONG_STR]"
proof -
  let ?rs = "[Some PING_STR, Some PING_STR, None]"
  have "2 = matching PING_STR 5 ?rs" and o: "\<not> overlong 2 ?rs" by (simp_all add: matching_def overlong_def)
  then have "if 2 < (5 :: nat) \<and> overlong 2 ?rs
    then pong_receiver (replicate 64 0) 0 (raw_machine [[]] ?rs) = Some (Fault Out_Of_Bounds)
    else \<exists>t. pong_receiver (replicate 64 0) 0 (raw_machine [[]] ?rs) = Some (Ret () t) \<and>
      air (world t) = air (world (raw_machine [[]] ?rs)) @ replicate 2 PONG_STR"
    by (intro pong_receiver_outcome) auto
  then show ?thesis using o by (simp add: numeral_2_eq_2 split: if_splits)
qed

lemma matching_replicate: "matching x n (map Some (replicate m x)) = min n m"
proof (induction n arbitrary: m)
  case (Suc n)
  then show ?case by (cases m) simp_all
qed simp

text \<open>Five rounds with the right answers.\<close>

lemma matching_all: "matching x n (replicate n (Some x)) = n"
  using matching_replicate [of x n n] by (simp only: map_replicate min.idem)

lemma five_pings:
  fixes s :: "(u8 list air_world, 'z) burst_app_scheme"
  assumes "on_air (\<lambda>bs. bs) s" and "ticks (world s) + 40000000 < 2 ^ 63" and "length buf = 64"
    and "air (world s) = []" and "script (world s) = replicate 5 (Some PONG_STR)"
  shows "\<exists>t. ping_sender buf len s = Some (Ret () t) \<and> air (world t) = replicate 5 PING_STR \<and>
    console t = console s @ str_bytes ''test passed'' @ newline"
proof -
  have "if 5 < (5 :: nat) \<and> overlong 5 (replicate 5 (Some PONG_STR))
    then ping_rounds 5 buf len s = Some (Fault Out_Of_Bounds)
    else \<exists>t. ping_rounds 5 buf len s = Some (Ret () t) \<and>
      air (world t) = air (world s) @ replicate (min 5 (Suc 5)) PING_STR \<and>
      console t = console s @ (if 5 = (5 :: nat) then str_bytes ''test passed'' @ newline else [])"
    by (rule ping_rounds_run [OF assms(1-3) _ _ matching_all [symmetric]]) (use assms(4,5) in auto)
  then show ?thesis
    unfolding ping_sender_def ROUNDS_def
    by (simp only: assms(4) append_Nil less_irrefl simp_thms if_False if_True min_absorb1 [OF order.strict_implies_order [OF lessI]])
qed

lemma five_pongs:
  fixes s :: "(u8 list air_world, 'z) burst_app_scheme"
  assumes "on_air (\<lambda>bs. bs) s" and "ticks (world s) + 40000000 < 2 ^ 63" and "length buf = 64"
    and "air (world s) = [before]" and "script (world s) = replicate 5 (Some PING_STR)"
  shows "\<exists>t. pong_receiver buf len s = Some (Ret () t) \<and> air (world t) = before # replicate 5 PONG_STR"
proof -
  have "if 5 < (5 :: nat) \<and> overlong 5 (replicate 5 (Some PING_STR))
    then pong_rounds 5 buf len s = Some (Fault Out_Of_Bounds)
    else \<exists>t. pong_rounds 5 buf len s = Some (Ret () t) \<and> air (world t) = air (world s) @ replicate 5 PONG_STR"
    by (rule pong_rounds_run [OF assms(1-3) _ _ _ matching_all [symmetric]]) (use assms(4,5) in auto)
  moreover have "pong_receiver buf len s = pong_rounds 5 buf len s"
    by (simp add: pong_receiver_def ROUNDS_def sx1278_switch_mode_def air_write [OF assms(1)])
  ultimately show ?thesis by (simp only: assms(4) append_Cons append_Nil less_irrefl simp_thms if_False)
qed

lemma not_overlong:
  assumes "\<And>x. Some x \<in> set rs \<Longrightarrow> length x \<le> 64"
  shows "\<not> overlong k rs"
proof
  assume o: "overlong k rs"
  then obtain x where "k < length rs" "rs ! k = Some x" "64 < length x"
    by (auto simp: overlong_def split: option.splits)
  then show False using assms [of x] nth_mem [of k rs] by simp
qed

text \<open>C11: Sender and receiver of the ping-pong example together. Whatever payloads of at most 64 bytes they receive, both
  programs end. What each transmits is then exactly what the other receives (the channel between them loses,
  adds and changes nothing) if and only if there were five rounds: five pings from the sender, five pongs from the
  receiver. And in that run the sender has printed ``test passed''.\<close>

theorem pingpong_link:
  fixes s r :: "(u8 list air_world, 'z) burst_app_scheme"
  assumes "on_air (\<lambda>bs. bs) s" and "on_air (\<lambda>bs. bs) r" and "air (world r) \<noteq> []"
    and "ticks (world s) + 40000000 < 2 ^ 63" and "ticks (world r) + 40000000 < 2 ^ 63"
    and "length buf = 64" and "length buf' = 64"
    and "\<forall>x. Some x \<in> set (script (world s)) \<union> set (script (world r)) \<longrightarrow> length x \<le> 64"
    and "drop (length (air (world s))) (script (world s)) = map Some pongs"
    and "drop (length (air (world r)) - 1) (script (world r)) = map Some pings"
  shows "\<exists>s' r'. ping_sender buf len s = Some (Ret () s') \<and> pong_receiver buf' len' r = Some (Ret () r') \<and>
    (air (world s') = air (world s) @ pings \<and> air (world r') = air (world r) @ pongs \<longleftrightarrow>
      pings = replicate 5 PING_STR \<and> pongs = replicate 5 PONG_STR) \<and>
    (pongs = replicate 5 PONG_STR \<longrightarrow> console s' = console s @ str_bytes ''test passed'' @ newline)"
proof -
  let ?k = "matching PONG_STR 5 (map Some pongs)" and ?j = "matching PING_STR 5 (map Some pings)"
  have l: "length x \<le> 64" if "Some x \<in> set (script (world s)) \<union> set (script (world r))" for x
    using assms(8) that by blast
  have sub: "set (map Some pongs) \<subseteq> set (script (world s))" "set (map Some pings) \<subseteq> set (script (world r))"
    using assms(9,10) by (metis set_drop_subset)+
  have o: "\<not> overlong ?k (map Some pongs)" "\<not> overlong ?j (map Some pings)"
    by (rule not_overlong, rule l, use sub in blast)+
  have "if ?k < 5 \<and> overlong ?k (map Some pongs) then ping_rounds 5 buf len s = Some (Fault Out_Of_Bounds)
    else \<exists>t. ping_rounds 5 buf len s = Some (Ret () t) \<and>
      air (world t) = air (world s) @ replicate (min 5 (Suc ?k)) PING_STR \<and>
      console t = console s @ (if ?k = 5 then str_bytes ''test passed'' @ newline else [])"
    by (rule ping_rounds_run [OF assms(1,4,6) _ assms(9) refl]) (use l in fastforce)
  then obtain s' where s': "ping_sender buf len s = Some (Ret () s')"
    "air (world s') = air (world s) @ replicate (min 5 (Suc ?k)) PING_STR"
    "console s' = console s @ (if ?k = 5 then str_bytes ''test passed'' @ newline else [])"
    using o(1) unfolding ping_sender_def ROUNDS_def by (simp only: simp_thms if_False) blast
  have "if ?j < 5 \<and> overlong ?j (map Some pings) then pong_rounds 5 buf' len' r = Some (Fault Out_Of_Bounds)
    else \<exists>t. pong_rounds 5 buf' len' r = Some (Ret () t) \<and> air (world t) = air (world r) @ replicate ?j PONG_STR"
    by (rule pong_rounds_run [OF assms(2,5,7) _ assms(3,10) refl]) (use l in fastforce)
  moreover have start: "pong_receiver buf' len' r = pong_rounds 5 buf' len' r"
    by (simp add: pong_receiver_def ROUNDS_def sx1278_switch_mode_def air_write [OF assms(2)])
  ultimately obtain r' where r': "pong_receiver buf' len' r = Some (Ret () r')"
    "air (world r') = air (world r) @ replicate ?j PONG_STR"
    using o(2) unfolding start by (simp only: simp_thms if_False) blast
  have "pings = replicate 5 PING_STR \<and> pongs = replicate 5 PONG_STR"
    if "pings = replicate (min 5 (Suc ?k)) PING_STR" "pongs = replicate ?j PONG_STR"
  proof -
    have "?k = min 5 ?j" by (subst that(2)) (rule matching_replicate)
    moreover have "?j = min 5 (min 5 (Suc ?k))" by (subst that(1)) (rule matching_replicate)
    ultimately have k: "?k = 5" and j: "?j = 5" by linarith+
    have "pings = replicate 5 PING_STR" by (rule trans [OF that(1)]) (simp only: k, simp)
    moreover have "pongs = replicate 5 PONG_STR" by (rule trans [OF that(2)]) (simp only: j)
    ultimately show ?thesis by blast
  qed
  moreover have k: "?k = 5" if "pongs = replicate 5 PONG_STR" unfolding that map_replicate by (rule matching_all)
  moreover have j: "?j = 5" if "pings = replicate 5 PING_STR" unfolding that map_replicate by (rule matching_all)
  moreover have "min 5 (Suc 5) = 5" by simp
  ultimately have five: "pings = replicate (min 5 (Suc ?k)) PING_STR \<and> pongs = replicate ?j PONG_STR \<longleftrightarrow>
      pings = replicate 5 PING_STR \<and> pongs = replicate 5 PONG_STR" by metis
  show ?thesis
  proof (intro exI conjI)
    show "ping_sender buf len s = Some (Ret () s')" "pong_receiver buf' len' r = Some (Ret () r')"
      by (rule s'(1), rule r'(1))
    show "air (world s') = air (world s) @ pings \<and> air (world r') = air (world r) @ pongs \<longleftrightarrow>
        pings = replicate 5 PING_STR \<and> pongs = replicate 5 PONG_STR"
      unfolding s'(2) r'(2) same_append_eq using five by metis
    show "pongs = replicate 5 PONG_STR \<longrightarrow> console s' = console s @ str_bytes ''test passed'' @ newline"
    proof
      assume "pongs = replicate 5 PONG_STR"
      then have "?k = 5" by (rule k)
      then show "console s' = console s @ str_bytes ''test passed'' @ newline" using s'(3) by (simp only: if_True refl)
    qed
  qed
qed

text \<open>The run of five rounds; its receiver had transmitted something before.\<close>

lemma pingpong_link_witness:
  "\<exists>s' r'. ping_sender (replicate 64 0) 0 (raw_machine [] (replicate 5 (Some PONG_STR))) = Some (Ret () s') \<and>
     pong_receiver (replicate 64 0) 0 (raw_machine [[]] (replicate 5 (Some PING_STR))) = Some (Ret () r') \<and>
     air (world s') = replicate 5 PING_STR \<and> air (world r') = [] # replicate 5 PONG_STR \<and>
     console s' = str_bytes ''test passed'' @ newline"
proof -
  let ?s = "raw_machine [] (replicate 5 (Some PONG_STR))" and ?r = "raw_machine [[]] (replicate 5 (Some PING_STR))"
  let ?buf = "replicate 64 0 :: u8 list"
  have l: "\<forall>x. Some x \<in> set (script (world ?s)) \<union> set (script (world ?r)) \<longrightarrow> length x \<le> 64"
    by (auto simp: PONG_STR_def PING_STR_def str_bytes_def)
  have d: "drop (length (air (world ?s))) (script (world ?s)) = map Some (replicate 5 PONG_STR)"
    "drop (length (air (world ?r)) - 1) (script (world ?r)) = map Some (replicate 5 PING_STR)"
    by (simp_all add: map_replicate)
  have "length ?buf = 64" by simp
  from pingpong_link [OF raw_machine_sel(1) raw_machine_sel(1) _ _ _ this this l d, of 0 0] obtain s' r'
    where t: "ping_sender ?buf 0 ?s = Some (Ret () s')" "pong_receiver ?buf 0 ?r = Some (Ret () r')"
      "air (world s') = air (world ?s) @ replicate 5 PING_STR" "air (world r') = air (world ?r) @ replicate 5 PONG_STR"
      "console s' = console ?s @ str_bytes ''test passed'' @ newline" by auto
  then show ?thesis by (intro exI [of _ s'] exI [of _ r']) simp
qed

end
