(* ===== verification/Platform.thy ===== *)
theory Platform
  imports Wellformed Pingpong
begin

text \<open>
  Refinement of platforms. A low platform (for example the register callbacks on an SPI bus) implements a high one
  (for example a table of registers) if every callback of the low one has, through a view of its world, the
  effect and the result of the high one. This theory carries that from the callbacks to the functions of the
  library that the examples use, and to the tasks of the examples: what is proved of a function on the high platform holds on the low one. Like the rules for calm
  commands (Machine) it is proved for a function by its structure.
\<close>

unbundle bit_operations_syntax

section \<open>Two platforms\<close>

record ('w, 'v) platforms =
  view_of :: "'w \<Rightarrow> 'v"
  world_ok :: "'w \<Rightarrow> bool"
  low_port :: "'w spi_port_t"
  low_logger :: "'w logger_ctx_t"
  low_timer :: "'w sx127x_timer_ctx_t"
  high_port :: "'v spi_port_t"
  high_logger :: "'v logger_ctx_t"
  high_timer :: "'v sx127x_timer_ctx_t"

text \<open>Commands on the two worlds: the low one ends as the high one does, when that ends.\<close>

definition world_refines :: "('w, 'v) platforms \<Rightarrow> ('w, 'a) cmd \<Rightarrow> ('v, 'a) cmd \<Rightarrow> bool" where
  "world_refines P m m' \<longleftrightarrow> (\<forall>w. world_ok P w \<longrightarrow> (case m' (view_of P w) of
       None \<Rightarrow> True
     | Some (Fault f) \<Rightarrow> m w = Some (Fault f)
     | Some (Ret a v) \<Rightarrow> \<exists>w'. m w = Some (Ret a w') \<and> world_ok P w' \<and> view_of P w' = v))"

text \<open>The laws of a refinement. Registers have seven bits and transfers at most 255 bytes; nothing is required of
  writes of no bytes.\<close>

locale platform_refinement =
  fixes P :: "('w, 'v) platforms"
  assumes write_law: "reg < 0x80 \<Longrightarrow> 0 < len \<Longrightarrow> len \<le> 255 \<Longrightarrow> len = int (length data) \<Longrightarrow> world_refines P
      (spi_burst_write_reg (low_port P) reg data len) (spi_burst_write_reg (high_port P) reg data len)"
    and read_law: "reg < 0x80 \<Longrightarrow> len \<le> 255 \<Longrightarrow> world_refines P
      (spi_burst_read_reg (low_port P) reg buf len) (spi_burst_read_reg (high_port P) reg buf len)"
    and log_law: "world_refines P
      (network_log_with_tag (low_logger P) tag str level) (network_log_with_tag (high_logger P) tag str level)"
    and time_law: "world_refines P
      (sx127x_timer_get_time_us (low_timer P)) (sx127x_timer_get_time_us (high_timer P))"
    and delay_law: "world_refines P
      (sx127x_task_delay_ms (low_timer P) ms) (sx127x_task_delay_ms (high_timer P) ms)"

text \<open>The state of the library on the high platform that belongs to one on the low platform.\<close>

definition lifted :: "('w, 'v) platforms \<Rightarrow> ('w, 'z) machine_scheme \<Rightarrow> ('v, 'z) machine_scheme" where
  "lifted P s = \<lparr>blocks = blocks s, fresh = fresh s, alloc_ok = alloc_ok s, junk = junk s,
     world = view_of P (world s), sx127x_spi_port = high_port P, sx127x_logger = high_logger P,
     sx127x_timer_ctx = high_timer P, lora_bandwidth_hz = lora_bandwidth_hz s,
     spreading_factor = spreading_factor s, rx_buffer = rx_buffer s, tx_buffer = tx_buffer s,
     \<dots> = machine.more s\<rparr>"

definition on_low :: "('w, 'v) platforms \<Rightarrow> ('w, 'z) machine_scheme \<Rightarrow> bool" where
  "on_low P s \<longleftrightarrow> world_ok P (world s) \<and> sx127x_spi_port s = low_port P \<and> sx127x_logger s = low_logger P \<and>
     sx127x_timer_ctx s = low_timer P \<and> length (tx_buffer s) = 255"

text \<open>A run on the low platform ends as \<open>r\<close> does; \<open>R\<close> relates the results, which may hold commands. When the
  command on the high platform ends, the one on the low platform ends so.\<close>

definition matches :: "('w, 'v) platforms \<Rightarrow> ('a \<Rightarrow> 'b \<Rightarrow> bool) \<Rightarrow> ('a, ('w, 'z) machine_scheme) outcome option
    \<Rightarrow> ('b, ('v, 'z) machine_scheme) outcome \<Rightarrow> bool" where
  "matches P R x r \<longleftrightarrow> (case r of
       Fault f \<Rightarrow> x = Some (Fault f)
     | Ret b t' \<Rightarrow> \<exists>a t. x = Some (Ret a t) \<and> R a b \<and> on_low P t \<and> lifted P t = t')"

definition refines ::
  "('w, 'v) platforms \<Rightarrow> ('a \<Rightarrow> 'b \<Rightarrow> bool) \<Rightarrow> ('w, 'z, 'a) mcmd \<Rightarrow> ('v, 'z, 'b) mcmd \<Rightarrow> bool" where
  "refines P R m m' \<longleftrightarrow>
     (\<forall>s r. on_low P s \<longrightarrow> m' (lifted P s) = Some r \<longrightarrow> matches P R (m s) r)"

lemma matches_simps [simp]:
  "matches P R x (Fault f) \<longleftrightarrow> x = Some (Fault f)"
  "matches P R x (Ret b t') \<longleftrightarrow> (\<exists>a t. x = Some (Ret a t) \<and> R a b \<and> on_low P t \<and> lifted P t = t')"
  by (simp_all add: matches_def)

lemma lifted_sel [simp]:
  "blocks (lifted P s) = blocks s" "fresh (lifted P s) = fresh s" "alloc_ok (lifted P s) = alloc_ok s"
  "junk (lifted P s) = junk s" "world (lifted P s) = view_of P (world s)"
  "sx127x_spi_port (lifted P s) = high_port P" "sx127x_logger (lifted P s) = high_logger P"
  "sx127x_timer_ctx (lifted P s) = high_timer P" "lora_bandwidth_hz (lifted P s) = lora_bandwidth_hz s"
  "spreading_factor (lifted P s) = spreading_factor s" "rx_buffer (lifted P s) = rx_buffer s"
  "tx_buffer (lifted P s) = tx_buffer s" "machine.more (lifted P s) = machine.more s"
  by (simp_all add: lifted_def)

lemma lifted_update:
  "(lifted P s)\<lparr>blocks := b\<rparr> = lifted P (s\<lparr>blocks := b\<rparr>)" "(lifted P s)\<lparr>fresh := n\<rparr> = lifted P (s\<lparr>fresh := n\<rparr>)"
  "(lifted P s)\<lparr>lora_bandwidth_hz := bw\<rparr> = lifted P (s\<lparr>lora_bandwidth_hz := bw\<rparr>)"
  "(lifted P s)\<lparr>spreading_factor := sf\<rparr> = lifted P (s\<lparr>spreading_factor := sf\<rparr>)"
  "(lifted P s)\<lparr>rx_buffer := x\<rparr> = lifted P (s\<lparr>rx_buffer := x\<rparr>)"
  "(lifted P s)\<lparr>tx_buffer := x\<rparr> = lifted P (s\<lparr>tx_buffer := x\<rparr>)"
  "(lifted P s)\<lparr>world := view_of P w\<rparr> = lifted P (s\<lparr>world := w\<rparr>)"
  by (simp_all add: lifted_def)

lemma on_low_update [simp]:
  "on_low P (s\<lparr>blocks := b\<rparr>) = on_low P s" "on_low P (s\<lparr>fresh := n\<rparr>) = on_low P s"
  "on_low P (s\<lparr>lora_bandwidth_hz := bw\<rparr>) = on_low P s" "on_low P (s\<lparr>spreading_factor := sf\<rparr>) = on_low P s"
  "on_low P (s\<lparr>rx_buffer := x\<rparr>) = on_low P s"
  by (simp_all add: on_low_def)

section \<open>Rules\<close>

lemma refinesD: "refines P R m m' \<Longrightarrow> on_low P s \<Longrightarrow> m' (lifted P s) = Some r \<Longrightarrow> matches P R (m s) r"
  unfolding refines_def by blast

lemma refines_Ret:
  "refines P R m m' \<Longrightarrow> on_low P s \<Longrightarrow> m' (lifted P s) = Some (Ret b t') \<Longrightarrow>
   \<exists>a t. m s = Some (Ret a t) \<and> R a b \<and> on_low P t \<and> lifted P t = t'"
  using refinesD by fastforce

lemma refines_Fault:
  "refines P R m m' \<Longrightarrow> on_low P s \<Longrightarrow> m' (lifted P s) = Some (Fault f) \<Longrightarrow> m s = Some (Fault f)"
  using refinesD by fastforce

lemma refinesI:
  assumes "\<And>s f. on_low P s \<Longrightarrow> m' (lifted P s) = Some (Fault f) \<Longrightarrow> m s = Some (Fault f)"
    and "\<And>s b t'. on_low P s \<Longrightarrow> m' (lifted P s) = Some (Ret b t') \<Longrightarrow>
      \<exists>a t. m s = Some (Ret a t) \<and> R a b \<and> on_low P t \<and> lifted P t = t'"
  shows "refines P R m m'"
  using assms unfolding refines_def matches_def by (auto split: outcome.split)

lemma andThen_eq_Fault:
  "andThen m k s = Some (Fault f) \<longleftrightarrow> m s = Some (Fault f) \<or> (\<exists>a t. m s = Some (Ret a t) \<and> k a t = Some (Fault f))"
  by (auto simp: andThen_def split: option.splits outcome.splits)

lemma refines_bind:
  assumes m: "refines P Q m m'" and k: "\<And>a b. Q a b \<Longrightarrow> refines P R (k a) (k' b)"
  shows "refines P R (andThen m k) (andThen m' k')"
proof (rule refinesI)
  fix s f
  assume s: "on_low P s" and "andThen m' k' (lifted P s) = Some (Fault f)"
  then consider "m' (lifted P s) = Some (Fault f)"
    | b u where "m' (lifted P s) = Some (Ret b u)" "k' b u = Some (Fault f)" by (auto simp: andThen_eq_Fault)
  then show "andThen m k s = Some (Fault f)"
  proof cases
    case 1
    then show ?thesis using refines_Fault [OF m s] by simp
  next
    case 2
    from refines_Ret [OF m s 2(1)] obtain a t where t: "m s = Some (Ret a t)" "Q a b" "on_low P t" "lifted P t = u"
      by blast
    then show ?thesis using refines_Fault [OF k [OF t(2)] t(3)] 2(2) by simp
  qed
next
  fix s c t'
  assume s: "on_low P s" and "andThen m' k' (lifted P s) = Some (Ret c t')"
  then obtain b u where u: "m' (lifted P s) = Some (Ret b u)" "k' b u = Some (Ret c t')" by (auto simp: andThen_eq_Ret)
  from refines_Ret [OF m s u(1)] obtain a t where t: "m s = Some (Ret a t)" "Q a b" "on_low P t" "lifted P t = u"
    by blast
  from refines_Ret [OF k [OF t(2)] t(3)] u(2) t(1,4)
  show "\<exists>a t. andThen m k s = Some (Ret a t) \<and> R a c \<and> on_low P t \<and> lifted P t = t'" by simp
qed

lemma refines_run:
  "andThen m' k' v = Some r \<Longrightarrow> on_low P s \<Longrightarrow> v = lifted P s \<Longrightarrow>
   refines P R (andThen m k) (andThen m' k') \<Longrightarrow> matches P R (andThen m k s) r"
  using refinesD by blast

named_theorems refine_rules "commands on the low platform that refine those on the high one"

lemma refines_andThen [refine_rules]:
  "refines P (=) m m' \<Longrightarrow> (\<And>a. refines P R (k a) (k' a)) \<Longrightarrow> refines P R (andThen m k) (andThen m' k')"
  by (rule refines_bind [where Q = "(=)"]) auto

lemma refines_give [refine_rules]: "R a b \<Longrightarrow> refines P R (give a) (give b)"
  by (simp add: refines_def)

lemma refines_crash [refine_rules]: "refines P R (crash f) (crash f)"
  by (simp add: refines_def)

lemma refines_gets [refine_rules]: "(\<And>s. R (f s) (f' (lifted P s))) \<Longrightarrow> refines P R (gets f) (gets f')"
  by (simp add: refines_def)

lemma refines_if [refine_rules]:
  "b = b' \<Longrightarrow> (b \<Longrightarrow> refines P R m m') \<Longrightarrow> (\<not> b \<Longrightarrow> refines P R n n') \<Longrightarrow>
   refines P R (if b then m else n) (if b' then m' else n')"
  by simp

lemma refines_prod [refine_rules]:
  "(\<And>a b. x = (a, b) \<Longrightarrow> refines P R (f a b) (f' a b)) \<Longrightarrow>
   refines P R (case x of (a, b) \<Rightarrow> f a b) (case x of (a, b) \<Rightarrow> f' a b)"
  by (cases x) simp

lemma refines_checked [refine_rules]:
  "refines P (=) m m' \<Longrightarrow> refines P (=) h h' \<Longrightarrow> refines P (=) k k' \<Longrightarrow>
   refines P (=) (checked m h k) (checked m' h' k')"
  unfolding checked_def by (intro refine_rules) simp_all

lemma refines_ok_or_return [refine_rules]:
  "refines P (=) m m' \<Longrightarrow> refines P (=) k k' \<Longrightarrow> refines P (=) (ok_or_return m k) (ok_or_return m' k')"
  unfolding ok_or_return_def by (intro refine_rules) simp_all

text \<open>A fact about the result can be added.\<close>

lemma refines_result:
  assumes "refines P (=) m m'" and "\<And>s a t. on_low P s \<Longrightarrow> m s = Some (Ret a t) \<Longrightarrow> Q a"
  shows "refines P (\<lambda>a b. a = b \<and> Q a) m m'"
  using refines_Fault [OF assms(1)] refines_Ret [OF assms(1)] assms(2) by (intro refinesI) fastforce+

text \<open>The heap is the same on both sides.\<close>

lemma refines_memory [refine_rules]:
  "refines P (=) (malloc_bytes n) (malloc_bytes n)" "refines P (=) malloc_packet malloc_packet"
  "refines P (=) (malloc_ptrs n) (malloc_ptrs n)" "refines P (=) (c_free p) (c_free p)"
  "refines P (=) (load_packet p) (load_packet p)" "refines P (=) (store_packet p f) (store_packet p f)"
  "refines P (=) (read_bytes p n) (read_bytes p n)" "refines P (=) (write_bytes p i xs) (write_bytes p i xs)"
  "refines P (=) (buf_read bs i n) (buf_read bs i n)" "refines P (=) (buf_write bs i xs) (buf_write bs i xs)"
  "refines P (=) (load_ptrs p) (load_ptrs p)" "refines P (=) (store_ptrs p i ps) (store_ptrs p i ps)"
  "refines P (=) (realloc_ptrs p n) (realloc_ptrs p n)"
  by (auto simp: refines_def matches_def malloc_bytes_def malloc_packet_def malloc_ptrs_def alloc_def Let_def c_free_def
      load_packet_def store_packet_def read_bytes_def write_bytes_def buf_read_def buf_write_def load_ptrs_def
      store_ptrs_def realloc_ptrs_def lifted_update split: option.splits block.splits if_splits)

lemma refines_static [refine_rules]:
  "refines P (=) (modify (\<lambda>s. s\<lparr>lora_bandwidth_hz := b\<rparr>)) (modify (\<lambda>s. s\<lparr>lora_bandwidth_hz := b\<rparr>))"
  "refines P (=) (modify (\<lambda>s. s\<lparr>spreading_factor := f\<rparr>)) (modify (\<lambda>s. s\<lparr>spreading_factor := f\<rparr>))"
  "refines P (=) (modify (\<lambda>s. s\<lparr>rx_buffer := x\<rparr>)) (modify (\<lambda>s. s\<lparr>rx_buffer := x\<rparr>))"
  "length x = 255 \<Longrightarrow> refines P (=) (modify (\<lambda>s. s\<lparr>tx_buffer := x\<rparr>)) (modify (\<lambda>s. s\<lparr>tx_buffer := x\<rparr>))"
  by (simp_all add: refines_def lifted_update on_low_def)

lemma refines_on_world:
  "world_refines P m m' \<Longrightarrow> refines P (=) (on_world m) (on_world m')"
  unfolding refines_def world_refines_def on_world_def
  by (fastforce simp: matches_def on_low_def lifted_update split: option.splits outcome.splits)

text \<open>Access through the contexts.\<close>

lemma refines_through:
  assumes "\<And>s. on_low P s \<Longrightarrow> f s = c" and "\<And>s. f' (lifted P s) = c'" and "world_refines P (m c) (m' c')"
  shows "refines P (=) (andThen (gets f) (\<lambda>c. on_world (m c))) (andThen (gets f') (\<lambda>c. on_world (m' c)))"
proof (rule refinesI)
  fix s f0
  assume "on_low P s" "andThen (gets f') (\<lambda>c. on_world (m' c)) (lifted P s) = Some (Fault f0)"
  then show "andThen (gets f) (\<lambda>c. on_world (m c)) s = Some (Fault f0)"
    using refines_Fault [OF refines_on_world [OF assms(3)]] assms(1,2) by simp
next
  fix s b t'
  assume "on_low P s" "andThen (gets f') (\<lambda>c. on_world (m' c)) (lifted P s) = Some (Ret b t')"
  then show "\<exists>a t. andThen (gets f) (\<lambda>c. on_world (m c)) s = Some (Ret a t) \<and> a = b \<and> on_low P t \<and> lifted P t = t'"
    using refines_Ret [OF refines_on_world [OF assms(3)], of s b t'] assms(1,2) by simp
qed

lemmas refines_port = refines_through [where f = sx127x_spi_port and f' = sx127x_spi_port
    and c = "low_port P" and c' = "high_port P" for P]
lemmas refines_logger = refines_through [where f = sx127x_logger and f' = sx127x_logger
    and c = "low_logger P" and c' = "high_logger P" for P]
lemmas refines_timer = refines_through [where f = sx127x_timer_ctx and f' = sx127x_timer_ctx
    and c = "low_timer P" and c' = "high_timer P" for P]

context platform_refinement
begin

lemma refines_bus [refine_rules]:
  "reg < 0x80 \<Longrightarrow> 0 < len \<Longrightarrow> len \<le> 255 \<Longrightarrow> len = int (length data) \<Longrightarrow>
   refines P (=) (spi_write reg data len) (spi_write reg data len)"
  "reg < 0x80 \<Longrightarrow> len \<le> 255 \<Longrightarrow> refines P (=) (spi_read reg buf len) (spi_read reg buf len)"
  unfolding spi_write_def spi_read_def
  by (rule refines_port, simp add: on_low_def, simp, simp add: write_law read_law)+

lemma refines_log [refine_rules]:
  "refines P (=) (log_err tag str) (log_err tag str)" "refines P (=) (log_tag tag str level) (log_tag tag str level)"
  unfolding log_err_def log_tag_def network_log_err_def
  by (rule refines_logger, simp add: on_low_def, simp, simp add: log_law)+

lemma refines_clock [refine_rules]:
  "refines P (=) time_us time_us" "refines P (=) (delay_ms ms) (delay_ms ms)"
  unfolding time_us_def delay_ms_def
  by (rule refines_timer, simp add: on_low_def, simp, simp add: time_law delay_law)+

lemma refines_read1 [refine_rules]: "reg < 0x80 \<Longrightarrow> refines P (=) (spi_read1 reg old) (spi_read1 reg old)"
  unfolding spi_read1_def by (intro refine_rules; simp)

lemma refines_registers [refine_rules]:
  "refines P (=) (sx1278_read_irq d) (sx1278_read_irq d)" "refines P (=) sx1278_clear_irq sx1278_clear_irq"
  "refines P (=) (sx1278_switch_mode m) (sx1278_switch_mode m)"
  "refines P (=) (sx_1278_get_op_mode d) (sx_1278_get_op_mode d)" "refines P (=) (irq_cleanup c) (irq_cleanup c)"
  "refines P (=) (clear_and_log str) (clear_and_log str)"
  "refines P (=) calculate_channel_num calculate_channel_num"
  unfolding sx1278_read_irq_def sx1278_clear_irq_def sx1278_switch_mode_def sx_1278_get_op_mode_def irq_cleanup_def
    clear_and_log_def calculate_channel_num_def Let_def
  by (intro refine_rules; simp)+

end

section \<open>Packets\<close>

lemma refines_packet [refine_rules]:
  "refines P (=) (packet_description p buf) (packet_description p buf)" "refines P (=) (free_packet p) (free_packet p)"
  "refines P (=) (parse_packet raw p) (parse_packet raw p)"
  "refines P (=) (packet_to_bytestream bs n p) (packet_to_bytestream bs n p)"
  "refines P (=) (copy_packet p) (copy_packet p)"
  "refines P (=) (packet_constructor d sr a sq l pl) (packet_constructor d sr a sq l pl)"
  "refines P (=) (ack_packet d sr a sq) (ack_packet d sr a sq)"
  unfolding packet_description_def free_packet_def parse_packet_def packet_to_bytestream_def copy_packet_def
    packet_constructor_def ack_packet_def Let_def
  by (intro refine_rules; simp)+

lemma refines_fill [refine_rules]:
  "refines P (=) (fill_loop r i buf data bl d sr a off) (fill_loop r i buf data bl d sr a off)"
  by (induction r arbitrary: i bl) (simp_all add: Let_def refine_rules)

lemma refines_gather [refine_rules]: "refines P (=) (gather_loop r i ps desc data fl) (gather_loop r i ps desc data fl)"
  by (induction r arbitrary: i data fl) (simp_all add: refine_rules)

lemma refines_network [refine_rules]:
  "refines P (=) (data_to_packet_array cb data n d sr a hs) (data_to_packet_array cb data n d sr a hs)"
  "refines P (=) (packet_array_to_data ps data m) (packet_array_to_data ps data m)"
  unfolding data_to_packet_array_def packet_array_to_data_def finish_packet_array_def Let_def
  by (intro refine_rules; simp)+

text \<open>What is serialised has a size that fits in a byte, and leaves the size of the buffer.\<close>

lemma to_bytestream_result:
  assumes "packet_to_bytestream bs n p s = Some (Ret (ret, bs') t)" and "n \<le> 255"
  shows "length bs' = length bs \<and> (ret \<noteq> -1 \<longrightarrow> (word_of_int ret :: u8) \<noteq> 0)"
proof -
  have len: "buf_write xs i ys u = Some (Ret zs v) \<Longrightarrow> length zs = length xs" for xs i ys zs and u v :: "'a cmem_scheme"
    by (auto simp: buf_write_def split: if_splits)
  have "length bs' = length bs \<and> (ret = -1 \<or> (\<exists>l :: u8. ret = 7 + uint l \<and> \<not> n < 7 + unat l))"
    using assms(1)
    by (auto simp: packet_to_bytestream_def Let_def andThen_eq_Ret overhead_def dest!: len split: if_splits)
  moreover have "(word_of_int ret :: u8) \<noteq> 0" if "ret = 7 + uint l" "\<not> n < 7 + unat l" for l :: u8
  proof -
    have "ret = int (7 + unat l)" "7 + unat l < 256" using that assms(2) by simp_all
    then have "unat (word_of_int ret :: u8) = 7 + unat l"
      using unat_of_nat_u8 [of "7 + unat l"] by (simp del: unat_of_nat_u8)
    then show ?thesis by auto
  qed
  ultimately show ?thesis by auto
qed

lemma uint_u8_le [simp]: "uint (x :: u8) \<le> 255"
  using uint_bounded [of x] by simp

section \<open>Configuration and driver\<close>

context platform_refinement
begin

lemma refines_switch_channel [refine_rules]:
  "refines P (=) (sx_1278_switch_to_nth_channel n) (sx_1278_switch_to_nth_channel n)"
  unfolding sx_1278_switch_to_nth_channel_def Let_def by (intro refine_rules; simp)

lemma refines_end_in_sleep [refine_rules]: "refines P (=) end_in_sleep end_in_sleep"
  unfolding end_in_sleep_def by (intro refine_rules; simp)

lemma refines_spreading_var [refine_rules]: "refines P (=) (set_spreading_factor_var sf) (set_spreading_factor_var sf)"
  unfolding set_spreading_factor_var_def by (intro refine_rules; simp)

lemma refines_spreading_factor [refine_rules]:
  "refines P (=) (sx_1278_set_spreading_factor sf) (sx_1278_set_spreading_factor sf)"
  unfolding sx_1278_set_spreading_factor_def Let_def by (intro refine_rules; simp)

lemma refines_bandwidth [refine_rules]: "refines P (=) (sx1278_set_bandwidth bw cr e) (sx1278_set_bandwidth bw cr e)"
  unfolding sx1278_set_bandwidth_def Let_def by (intro refine_rules; simp)

text \<open>The polling loops, by induction on the runs on the high platform that end.\<close>

lemma refines_poll_loop [refine_rules]:
  "refines P (=) (poll_loop start timeout_us interval msk cleanup irq) (poll_loop start timeout_us interval msk cleanup irq)"
proof -
  let ?Q = "\<lambda>start timeout_us interval msk cleanup irq v r. \<forall>s. on_low P s \<longrightarrow> v = lifted P s \<longrightarrow>
      matches P (=) (poll_loop start timeout_us interval msk cleanup irq s) r"
  have "?Q start timeout_us interval msk cleanup irq v r"
    if "poll_loop start timeout_us interval msk cleanup irq v = Some r" for v :: "('v, 'a) machine_scheme" and r
  proof (rule poll_loop.raw_induct [OF _ that, where P = ?Q], intro allI impI, goal_cases)
    case (1 f start timeout_us interval msk cleanup irq v r s)
    have f: "refines P (=) (poll_loop start timeout_us interval msk cleanup irq) (f start timeout_us interval msk cleanup irq)"
      for irq using 1(1) by (simp add: refines_def)
    show ?case
      by (subst poll_loop.simps, rule refines_run [OF 1(2,3,4)]) (intro refine_rules f; simp)
  qed
  then show ?thesis by (simp add: refines_def)
qed

lemma refines_poll [refine_rules]:
  "refines P (=) (poll_for_irq_flag timeout_ms interval msk cleanup) (poll_for_irq_flag timeout_ms interval msk cleanup)"
  unfolding poll_for_irq_flag_def Let_def by (intro refine_rules; simp)

lemma refines_no_timeout [refine_rules]:
  "refines P (=) (poll_for_irq_flag_no_timeout interval msk cleanup) (poll_for_irq_flag_no_timeout interval msk cleanup)"
proof -
  let ?Q = "\<lambda>interval msk cleanup irq v r. \<forall>s. on_low P s \<longrightarrow> v = lifted P s \<longrightarrow>
      matches P (=) (poll_for_irq_flag_no_timeout_loop interval msk cleanup irq s) r"
  have "?Q interval msk cleanup irq v r"
    if "poll_for_irq_flag_no_timeout_loop interval msk cleanup irq v = Some r"
    for v :: "('v, 'a) machine_scheme" and r irq
  proof (rule poll_for_irq_flag_no_timeout_loop.raw_induct [OF _ that, where P = ?Q], intro allI impI, goal_cases)
    case (1 f interval msk cleanup irq v r s)
    have f: "refines P (=) (poll_for_irq_flag_no_timeout_loop interval msk cleanup irq) (f interval msk cleanup irq)"
      for irq using 1(1) by (simp add: refines_def)
    show ?case
      by (subst poll_for_irq_flag_no_timeout_loop.simps, rule refines_run [OF 1(2,3,4)]) (intro refine_rules f; simp)
  qed
  then show ?thesis by (simp add: refines_def poll_for_irq_flag_no_timeout_def)
qed

lemma refines_send_payload [refine_rules]:
  "len \<noteq> 0 \<Longrightarrow> refines P (=) (sx1278_send_payload buf len rx) (sx1278_send_payload buf len rx)"
  unfolding sx1278_send_payload_def Let_def
  by (intro refine_rules; simp add: order_le_neq_trans [OF uint_ge_0, of len] unsigned_eq_0_iff)

lemma refines_read_payload [refine_rules]:
  "refines P (=) (sx1278_read_last_payload buf len) (sx1278_read_last_payload buf len)"
  unfolding sx1278_read_last_payload_def Let_def by (intro refine_rules; simp)

section \<open>Packets over the radio\<close>

lemma refines_read_last_packet [refine_rules]: "refines P (=) (read_last_packet p) (read_last_packet p)"
  unfolding read_last_packet_def rx_cleanup_def by (intro refine_rules; simp)

lemma refines_poll_and_read [refine_rules]:
  "refines P (=) (sx1278_poll_and_read_packet p timeout) (sx1278_poll_and_read_packet p timeout)"
  unfolding sx1278_poll_and_read_packet_def by (intro refine_rules; simp)

lemma refines_tx_buffer: "refines P (\<lambda>a b. a = b \<and> length a = 255) (gets tx_buffer) (gets tx_buffer)"
  by (simp add: refines_def on_low_def)

lemma refines_to_bytestream:
  assumes "length bs = 255"
  shows "refines P (\<lambda>a b. a = b \<and> (case a of (ret, bs') \<Rightarrow> length bs' = 255 \<and> (ret \<noteq> -1 \<longrightarrow> (word_of_int ret :: u8) \<noteq> 0)))
    (packet_to_bytestream bs 255 p) (packet_to_bytestream bs 255 p)"
  using to_bytestream_result assms by (intro refines_result refine_rules) fastforce

lemma refines_serialise:
  assumes "\<And>ret bs. length bs = 255 \<Longrightarrow> ret \<noteq> -1 \<longrightarrow> (word_of_int ret :: u8) \<noteq> 0 \<Longrightarrow>
      refines P R (k (ret, bs)) (k' (ret, bs))"
  shows "refines P R (andThen (gets tx_buffer) (\<lambda>buf. andThen (packet_to_bytestream buf (length buf) p) k))
    (andThen (gets tx_buffer) (\<lambda>buf. andThen (packet_to_bytestream buf (length buf) p) k'))"
  using assms by (intro refines_bind [OF refines_tx_buffer]) (auto intro!: refines_bind [OF refines_to_bytestream])

lemma refines_send_packet [refine_rules]: "refines P (=) (sx_1278_send_packet p rx) (sx_1278_send_packet p rx)"
  unfolding sx_1278_send_packet_def
  by (rule refines_serialise | (rule refines_andThen, rule refine_rules))+
    (simp only: prod.case, intro refine_rules; simp)

lemma refines_ack_loop [refine_rules]: "refines P (=) (ack_loop n p rx_p desc ty) (ack_loop n p rx_p desc ty)"
proof (induction n)
  case (Suc n)
  show ?case unfolding ack_loop.simps by (intro refine_rules Suc.IH; simp)
qed (simp add: refine_rules del: give_apply)

lemma refines_ensure_ack [refine_rules]:
  "refines P (=) (send_packet_ensure_ack p timeout ty) (send_packet_ensure_ack p timeout ty)"
  unfolding send_packet_ensure_ack_def Let_def by (intro refine_rules; simp)

lemma refines_burst_loop [refine_rules]: "refines P (=) (burst_loop ps n i) (burst_loop ps n i)"
proof (induction ps n i rule: burst_loop.induct)
  case (1 ps n i)
  show ?case by (subst (1 2) burst_loop.simps) (intro refine_rules 1; simp)
qed

lemma refines_send_burst [refine_rules]: "refines P (=) (send_burst ps n) (send_burst ps n)"
  unfolding send_burst_def by (rule refine_rules)

lemma refines_to_fsk [refine_rules]: "refines P (=) switch_to_fsk switch_to_fsk"
  unfolding switch_to_fsk_def by (intro refine_rules; simp)

lemma refines_rssi_loop [refine_rules]: "refines P (=) (rssi_loop tmp n i arr) (rssi_loop tmp n i arr)"
proof (induction tmp n i arr rule: rssi_loop.induct)
  case (1 tmp n i arr)
  show ?case by (subst (1 2) rssi_loop.simps) (intro refine_rules 1; simp)
qed

lemma refines_scan [refine_rules]:
  "refines P (=) (sx_1278_get_channel_rssis data len) (sx_1278_get_channel_rssis data len)"
  unfolding sx_1278_get_channel_rssis_def Let_def by (intro refine_rules; simp)

section \<open>Initialisation\<close>

lemma refines_contexts [refine_rules]:
  "refines P (=)
     (modify (\<lambda>s. s\<lparr>sx127x_spi_port := low_port P, sx127x_logger := low_logger P, sx127x_timer_ctx := low_timer P\<rparr>))
     (modify (\<lambda>s. s\<lparr>sx127x_spi_port := high_port P, sx127x_logger := high_logger P, sx127x_timer_ctx := high_timer P\<rparr>))"
  by (simp add: refines_def on_low_def lifted_def)

lemma refines_initialise:
  "refines P (=) (initialize_sx_1278 (low_port P) (low_logger P) (low_timer P))
     (initialize_sx_1278 (high_port P) (high_logger P) (high_timer P))"
  unfolding initialize_sx_1278_def by (intro refine_rules; simp)

end

text \<open>Initialisation replaces the three contexts, so it does not matter what they were.\<close>

lemma initialise_replaces:
  "initialize_sx_1278 p l tm (s\<lparr>sx127x_spi_port := p', sx127x_logger := l', sx127x_timer_ctx := tm'\<rparr>)
     = initialize_sx_1278 p l tm s"
  by (simp add: initialize_sx_1278_def)

section \<open>The receiver\<close>

text \<open>Contexts of the handler on the two platforms: the same but for the callbacks, which refine each other.\<close>

definition handlers_match ::
  "('w, 'v) platforms \<Rightarrow> ('w, 'z) rx_ctx \<Rightarrow> ('v, 'z) rx_ctx \<Rightarrow> bool" where
  "handlers_match P h h' \<longleftrightarrow>
     rel_option (\<lambda>f f'. \<forall>p. refines P (=) (f p) (f' p)) (command_packet_handler h) (command_packet_handler h') \<and>
     rel_option (\<lambda>f f'. \<forall>ps n. refines P (=) (f ps n) (f' ps n)) (capture_end_handler h) (capture_end_handler h') \<and>
     host_addr h' = host_addr h \<and> remote_src_addr h' = remote_src_addr h \<and> configured h' = configured h \<and>
     capture h' = capture h \<and> capture_ack_id h' = capture_ack_id h \<and>
     captured_packet_arr h' = captured_packet_arr h \<and> captured_n h' = captured_n h \<and>
     last_received_ack_id h' = last_received_ack_id h \<and> last_received_seq_number h' = last_received_seq_number h"

lemma refines_cases:
  "refines P R b b' \<Longrightarrow> refines P R d d' \<Longrightarrow> refines P R e e' \<Longrightarrow> refines P R a a' \<Longrightarrow>
   refines P R (case ty of PACKET_BEGIN \<Rightarrow> b | PACKET_DATA \<Rightarrow> d | PACKET_END \<Rightarrow> e | PACKET_ACK \<Rightarrow> a)
     (case ty of PACKET_BEGIN \<Rightarrow> b' | PACKET_DATA \<Rightarrow> d' | PACKET_END \<Rightarrow> e' | PACKET_ACK \<Rightarrow> a')"
  by (cases ty) simp_all

lemma refines_option:
  "rel_option Q x y \<Longrightarrow> refines P R m m' \<Longrightarrow> (\<And>a b. Q a b \<Longrightarrow> refines P R (n a) (n' b)) \<Longrightarrow>
   refines P R (case x of None \<Rightarrow> m | Some a \<Rightarrow> n a) (case y of None \<Rightarrow> m' | Some b \<Rightarrow> n' b)"
  by (cases x; cases y) auto

lemma refines_handler:
  assumes "handlers_match P h h'"
  shows "refines P (rel_prod (=) (handlers_match P)) (rx_packet_handler h p) (rx_packet_handler h' p)"
proof -
  let ?R = "rel_prod (=) (handlers_match P) :: rx_handler_return \<times> _ \<Rightarrow> _"
  have command: "refines P ?R (case command_packet_handler h of None \<Rightarrow> crash Null_Call
        | Some f \<Rightarrow> andThen (f q) (\<lambda>_. give a)) (case command_packet_handler h' of None \<Rightarrow> crash Null_Call
        | Some f \<Rightarrow> andThen (f q) (\<lambda>_. give b))"
    if "?R a b" for q a b
    using assms that
    by (intro refines_option [where Q = "\<lambda>f f'. \<forall>p. refines P (=) (f p) (f' p)"])
      (auto simp: handlers_match_def intro: refine_rules)
  have ending: "refines P ?R (case capture_end_handler h of None \<Rightarrow> crash Null_Call
        | Some f \<Rightarrow> andThen (f ps n) (\<lambda>_. give a)) (case capture_end_handler h' of None \<Rightarrow> crash Null_Call
        | Some f \<Rightarrow> andThen (f ps' n') (\<lambda>_. give b))"
    if "?R a b" "ps = ps'" "n = n'" for ps ps' n n' a b
    using assms that
    by (intro refines_option [where Q = "\<lambda>f f'. \<forall>ps n. refines P (=) (f ps n) (f' ps n)"])
      (auto simp: handlers_match_def intro: refine_rules)
  show ?thesis
    using assms unfolding rx_packet_handler_def Let_def
    by (intro refine_rules refines_cases; auto simp: handlers_match_def rx_handler_reset_def intro!: refine_rules command ending)
qed

text \<open>The console belongs to the application.\<close>

lemma console_lifted [simp]: "console (lifted P s) = console s"
  by (cases s) (simp add: lifted_def)

lemma lifted_console: "(lifted P s)\<lparr>console := c\<rparr> = lifted P (s\<lparr>console := c\<rparr>)"
  by (cases s) (simp add: lifted_def)

context platform_refinement
begin

lemma refines_send_ack [refine_rules]: "refines P (=) (send_ack rx) (send_ack rx)"
  unfolding send_ack_def by (intro refine_rules; simp)

lemma refines_sum [refine_rules]:
  "rel_sum Q S x y \<Longrightarrow> (\<And>a b. Q a b \<Longrightarrow> refines P R (m a) (m' b)) \<Longrightarrow> (\<And>a b. S a b \<Longrightarrow> refines P R (n a) (n' b)) \<Longrightarrow>
   refines P R (case x of Inl a \<Rightarrow> m a | Inr b \<Rightarrow> n b) (case y of Inl a \<Rightarrow> m' a | Inr b \<Rightarrow> n' b)"
  by (cases x; cases y) auto

lemma refines_iteration:
  assumes "handlers_match P h h'"
  shows "refines P (rel_sum (=) (handlers_match P)) (rx_iteration h p) (rx_iteration h' p)"
  unfolding rx_iteration_def
  using assms by (intro refine_rules; auto intro!: refines_bind [OF refines_handler] refine_rules)

lemma refines_rx_loop:
  assumes "handlers_match P h h'"
  shows "refines P (rel_prod (=) (handlers_match P)) (rx_loop h p) (rx_loop h' p)"
proof -
  let ?Q = "\<lambda>h' p v r. \<forall>s h. on_low P s \<longrightarrow> v = lifted P s \<longrightarrow> handlers_match P h h' \<longrightarrow>
      matches P (rel_prod (=) (handlers_match P)) (rx_loop h p s) r"
  have "?Q h' p v r" if "rx_loop h' p v = Some r" for v :: "('v, 'a) machine_scheme" and r
  proof (rule rx_loop.raw_induct [OF _ that, where P = ?Q], intro allI impI, goal_cases)
    case (1 f h' p v r s h)
    have f: "refines P (rel_prod (=) (handlers_match P)) (rx_loop h p) (f h' p)" if "handlers_match P h h'" for h h'
      using 1(1) that by (simp add: refines_def)
    show ?case
      by (subst rx_loop.simps, rule refines_run [OF 1(2,3,4)])
        (rule refines_bind [OF refines_iteration [OF 1(5)]], auto intro!: refine_rules refines_sum f simp: 1(5))
  qed
  then show ?thesis using assms by (simp add: refines_def)
qed

lemma refines_start_rx_loop:
  assumes "handlers_match P h h'"
  shows "refines P (rel_prod (=) (handlers_match P)) (start_rx_loop h) (start_rx_loop h')"
proof -
  have loop: "refines P (rel_prod (=) (handlers_match P))
      (andThen (sx1278_switch_mode (MODE_LORA OR MODE_RX_CONTINUOUS)) (\<lambda>ret.
        if ret \<noteq> SX_OK then
          andThen (log_err RX_UTILS_TAG ''error occured while switching mode'') (\<lambda>_. give (ret, h))
        else rx_loop h p))
      (andThen (sx1278_switch_mode (MODE_LORA OR MODE_RX_CONTINUOUS)) (\<lambda>ret.
        if ret \<noteq> SX_OK then
          andThen (log_err RX_UTILS_TAG ''error occured while switching mode'') (\<lambda>_. give (ret, h'))
        else rx_loop h' p))" for p
    using assms by (intro refine_rules refines_rx_loop; simp)
  show ?thesis
    unfolding start_rx_loop_def by (intro refines_bind [OF loop] refine_rules; simp)
qed

section \<open>The applications\<close>

lemma refines_console [refine_rules]: "refines P (=) (c_printf bs) (c_printf bs)"
  by (simp add: refines_def c_printf_def on_low_def lifted_console)

lemma refines_total_length [refine_rules]: "refines P (=) (total_length r i ps n) (total_length r i ps n)"
  by (induction r arbitrary: i n) (simp_all add: refine_rules del: give_apply)

lemma refines_burst_complete [refine_rules]: "refines P (=) (on_burst_complete ps n) (on_burst_complete ps n)"
  unfolding on_burst_complete_def by (intro refine_rules; simp)

lemma refines_sender_task [refine_rules]: "refines P (=) sender_task sender_task"
  unfolding sender_task_def Let_def by (intro refine_rules; simp)

lemma refines_task_round:
  assumes "handlers_match P h h'"
  shows "refines P (rel_prod (handlers_match P) (=)) (rx_task_round h p) (rx_task_round h' p)"
  unfolding rx_task_round_def
  using assms by (intro refine_rules; auto intro!: refines_bind [OF refines_handler] refine_rules)

lemma refines_task_loop:
  assumes "handlers_match P h h'"
  shows "refines P (handlers_match P) (rx_task_loop h p) (rx_task_loop h' p)"
proof -
  let ?Q = "\<lambda>h' p v r. \<forall>s h. on_low P s \<longrightarrow> v = lifted P s \<longrightarrow> handlers_match P h h' \<longrightarrow>
      matches P (handlers_match P) (rx_task_loop h p s) r"
  have "?Q h' p v r" if "rx_task_loop h' p v = Some r" for v :: "('v, 'a) machine_scheme" and r
  proof (rule rx_task_loop.raw_induct [OF _ that, where P = ?Q], intro allI impI, goal_cases)
    case (1 f h' p v r s h)
    have f: "refines P (handlers_match P) (rx_task_loop h p) (f h' p)" if "handlers_match P h h'" for h h'
      using 1(1) that by (simp add: refines_def)
    show ?case
      by (subst rx_task_loop.simps, rule refines_run [OF 1(2,3,4)])
        (rule refines_bind [OF refines_task_round [OF 1(5)]], auto intro!: refine_rules f)
  qed
  then show ?thesis using assms by (simp add: refines_def)
qed

lemma refines_rx_task:
  "handlers_match P h h' \<Longrightarrow> refines P (handlers_match P) (rx_task h) (rx_task h')"
  unfolding rx_task_def by (intro refines_bind [OF refines_task_loop] refine_rules; simp)

lemma refines_ping [refine_rules]: "refines P (=) (ping_sender buf len) (ping_sender buf len)"
proof -
  have "refines P (=) (ping_rounds n buf len) (ping_rounds n buf len)" for n
  proof (induction n arbitrary: buf len)
    case (Suc n)
    show ?case unfolding ping_rounds.simps by (intro refine_rules Suc.IH; simp)
  qed (simp add: refine_rules)
  then show ?thesis unfolding ping_sender_def .
qed

lemma refines_pong [refine_rules]: "refines P (=) (pong_receiver buf len) (pong_receiver buf len)"
proof -
  have "refines P (=) (pong_rounds n buf len) (pong_rounds n buf len)" for n
  proof (induction n arbitrary: buf len)
    case (Suc n)
    show ?case unfolding pong_rounds.simps by (intro refine_rules Suc.IH; simp)
  qed (simp add: refine_rules del: give_apply)
  then show ?thesis unfolding pong_receiver_def by (intro refine_rules; simp)
qed

end

section \<open>Every platform refines into its own watched form\<close>

interpretation watched: platform_refinement "\<lparr>view_of = fst, world_ok = (\<lambda>_. True), low_port = spy_port p,
    low_logger = spy_logger l, low_timer = spy_timer t, high_port = p, high_logger = l, high_timer = t\<rparr>" for p l t
  by unfold_locales (auto simp: world_refines_def spi_burst_write_reg_def spi_burst_read_reg_def network_log_with_tag_def
      network_log_def sx127x_timer_get_time_us_def sx127x_task_delay_ms_def spy_port_def spy_logger_def spy_timer_def
      buf_write_def split: option.splits prod.splits outcome.splits)

end
