(* ===== verification/Board.thy ===== *)
theory Board
  imports Platform
begin

text \<open>
  The examples on their board: the register callbacks on ESP-IDF refine the registers of a chip that is wired to the
  SPI bus, so both programs run as they do on a chip whose registers the library reaches directly.
  What is assumed is how ESP-IDF and the chip behave on the wire (\<open>wired\<close>).
\<close>

unbundle bit_operations_syntax

section \<open>A chip on the bus\<close>

text \<open>What writing and reading a register does; the clock, and the delay in ticks of the scheduler.\<close>

record 'v chip =
  chip_write :: "u8 \<Rightarrow> u8 list \<Rightarrow> 'v \<Rightarrow> 'v"
  chip_read :: "u8 \<Rightarrow> nat \<Rightarrow> 'v \<Rightarrow> u8 list \<times> 'v"
  chip_time :: "'v \<Rightarrow> i64 \<times> 'v"
  chip_wait :: "u32 \<Rightarrow> 'v \<Rightarrow> 'v"
  ms_to_ticks :: "u64 \<Rightarrow> u32"

definition wired_port :: "'v chip \<Rightarrow> 'v spi_port_t" where
  "wired_port c = snd (spi_port_init
     (Some (\<lambda>h reg data len v. (SX_OK, chip_write c reg (take (nat len) data) v)))
     (Some (\<lambda>h reg len v. if len \<le> 0 then ((SX_OK, []), v)
        else case chip_read c reg (nat len) v of (bs, v') \<Rightarrow> ((SX_OK, take (nat len) bs), v'))) 0)"

definition wired_timer :: "'v chip \<Rightarrow> 'v sx127x_timer_ctx_t" where
  "wired_timer c = sx127x_timer_init (Some (chip_time c)) (Some (\<lambda>ms. chip_wait c (ms_to_ticks c ms)))"

text \<open>
  The serial interface of the SX127x: the first byte of an access selects a register, its top bit says whether
  to write; while chip select stays active, the bytes that follow are the data. \<open>sel\<close> is the first byte of an
  access that is under way. Nothing but transactions, time and delays concerns the chip; ESP-IDF has the bus
  and the memory that are asked for.
\<close>

definition undisturbed :: "('w \<Rightarrow> 'v) \<Rightarrow> ('w \<Rightarrow> u8 option) \<Rightarrow> 'w \<Rightarrow> 'w \<Rightarrow> bool" where
  "undisturbed chip sel w w' \<longleftrightarrow> chip w' = chip w \<and> sel w' = sel w"

locale spi_wiring =
  fixes idf :: "'w esp_idf" and h :: nat and chip :: "'w \<Rightarrow> 'v" and sel :: "'w \<Rightarrow> u8 option" and c :: "'v chip"
  assumes bus_init: "\<exists>w'. spi_bus_initialize idf cfg w = (ESP_OK, w') \<and> undisturbed chip sel w w'"
    and add_device: "\<exists>w'. spi_bus_add_device idf dev w = ((ESP_OK, h), w') \<and> undisturbed chip sel w w'"
    and acquire: "\<exists>w'. spi_device_acquire_bus idf h w = (ESP_OK, w') \<and> undisturbed chip sel w w'"
    and release: "undisturbed chip sel w (spi_device_release_bus idf h w)"
    and malloc: "n \<le> 255 \<Longrightarrow> \<exists>p w'. heap_caps_malloc idf n w = (p, w') \<and> p \<noteq> NULL \<and> undisturbed chip sel w w'"
    and mfree: "undisturbed chip sel w (heap_free idf p w)"
    and select: "sel w = None \<Longrightarrow> \<exists>rx w'. spi_device_transmit idf h (command_byte b) w = ((ESP_OK, rx), w') \<and>
      chip w' = chip w \<and> sel w' = Some b"
    and write_data: "sel w = Some b \<Longrightarrow> b AND 0x80 \<noteq> 0 \<Longrightarrow> bs \<noteq> [] \<Longrightarrow> \<exists>rx w'. spi_device_transmit idf h
      \<lparr>trans_length = length bs * 8, trans_tx = bs, keep_cs = False, has_rx = False\<rparr> w = ((ESP_OK, rx), w') \<and>
      chip w' = chip_write c (b AND 0x7F) bs (chip w) \<and> sel w' = None"
    and read_data: "sel w = Some b \<Longrightarrow> b AND 0x80 = 0 \<Longrightarrow> 0 < n \<Longrightarrow> \<exists>rx w'. spi_device_transmit idf h
      \<lparr>trans_length = n * 8, trans_tx = replicate n 0, keep_cs = False, has_rx = True\<rparr> w = ((ESP_OK, rx), w') \<and>
      (rx, chip w') = chip_read c b n (chip w) \<and> sel w' = None"
    and esp_time: "\<exists>t w'. esp_timer_get_time idf w = (t, w') \<and> (t, chip w') = chip_time c (chip w) \<and> sel w' = sel w"
    and esp_wait: "chip (vTaskDelay idf k w) = chip_wait c k (chip w) \<and> sel (vTaskDelay idf k w) = sel w"
    and esp_ticks: "pdMS_TO_TICKS idf ms = ms_to_ticks c ms"

lemma command_bits:
  fixes reg :: u8
  assumes "reg < 0x80"
  shows "(reg OR 0x80) AND 0x80 \<noteq> 0" "(reg OR 0x80) AND 0x7F = reg" "(reg AND 0x7F) AND 0x80 = 0" "reg AND 0x7F = reg"
proof -
  have "take_bit 7 reg = reg"
    using assms by (intro word_unat_eq_iff [THEN iffD2]) (simp add: unsigned_take_bit_eq take_bit_nat_eq_self word_less_nat_alt)
  then show 4: "reg AND 0x7F = reg" by (simp add: take_bit_eq_mask mask_eq_exp_minus_1)
  show "(reg OR 0x80) AND 0x7F = reg" using 4 by (simp add: bit.conj_disj_distrib2)
  show "(reg AND 0x7F) AND 0x80 = 0" by (simp add: and.assoc)
  show "(reg OR 0x80) AND 0x80 \<noteq> 0" by (simp add: bit.conj_disj_distrib2 or_eq_0_iff)
qed

lemma dma_size_small: "0 < len \<Longrightarrow> len \<le> 255 \<Longrightarrow> dma_size len = nat len"
proof -
  assume l: "0 < len" "len \<le> 255"
  have "unat (of_nat n :: u64) = n" if "n \<le> 255" for n
    using that by (simp add: unsigned_of_nat take_bit_nat_eq_self)
  from this [of "nat len"] have "unat (word_of_int (int (nat len)) :: u64) = nat len" using l by simp
  then show "dma_size len = nat len" using l by (simp add: dma_size_def)
qed

context spi_wiring
begin

lemma free_if_undisturbed: "undisturbed chip sel w (free_if idf p w)"
  using mfree by (simp add: free_if_def undisturbed_def)

lemma esp_write_reaches_chip:
  assumes n: "sel w = None" and r: "reg < 0x80"
    and l: "0 < len" "len \<le> 255" "len = int (length data)"
  shows "\<exists>w'. lora_spi_write idf h reg data len w = (SX_OK, w') \<and> chip w' = chip_write c reg data (chip w) \<and> sel w' = None"
proof -
  obtain w1 where 1: "spi_device_acquire_bus idf h w = (ESP_OK, w1)" "undisturbed chip sel w w1" using acquire by blast
  have "dma_size len \<le> 255" using dma_size_small [OF l(1,2)] l by simp
  then obtain p w2 where 2: "heap_caps_malloc idf (dma_size len) w1 = (p, w2)" "p \<noteq> NULL" "undisturbed chip sel w1 w2"
    using malloc by blast
  obtain q w3 where 3: "heap_caps_malloc idf 1 w2 = (q, w3)" "q \<noteq> NULL" "undisturbed chip sel w2 w3"
    using malloc [of 1 w2] by auto
  have "sel w3 = None" using 1(2) 2(3) 3(3) n by (simp add: undisturbed_def)
  from select [OF this, of "reg OR 0x80"] obtain x4 w4 where 4: "chip w4 = chip w3" "sel w4 = Some (reg OR 0x80)"
    "spi_device_transmit idf h (command_byte (reg OR 0x80)) w3 = ((ESP_OK, x4), w4)" by blast
  have "data \<noteq> []" using l by auto
  from write_data [OF 4(2) command_bits(1) [OF r] this] obtain x5 w5
    where 5: "chip w5 = chip_write c reg data (chip w4)" "sel w5 = None"
      "spi_device_transmit idf h \<lparr>trans_length = length data * 8, trans_tx = data, keep_cs = False, has_rx = False\<rparr> w4
        = ((ESP_OK, x5), w5)" using command_bits(2) [OF r] by auto
  let ?w = "spi_device_release_bus idf h (free_if idf p (free_if idf q w5))"
  have "lora_spi_write idf h reg data len w = (SX_OK, ?w)"
    using 1 2 3 4 5 l by (simp add: lora_spi_write_def esp_spi_write_def Let_def command_byte_def)
  moreover have "undisturbed chip sel w5 ?w" using release free_if_undisturbed by (simp add: undisturbed_def)
  ultimately show ?thesis using 1(2) 2(3) 3(3) 4(1) 5(1,2) by (simp add: undisturbed_def)
qed

lemma esp_read_reaches_chip:
  assumes n: "sel w = None" and r: "reg < 0x80" and l: "0 < len" "len \<le> 255"
  shows "\<exists>bs w'. lora_spi_read idf h reg len w = ((SX_OK, take (nat len) bs), w') \<and>
    chip_read c reg (nat len) (chip w) = (bs, chip w') \<and> sel w' = None"
proof -
  have "dma_size len \<le> 255" using dma_size_small [OF l(1,2)] l by simp
  note buf = malloc [OF this] and nat = command_bits(4) [OF r]
  obtain p w1 where 1: "heap_caps_malloc idf (dma_size len) w = (p, w1)" "p \<noteq> NULL" "undisturbed chip sel w w1"
    using buf by blast
  obtain q w2 where 2: "heap_caps_malloc idf 1 w1 = (q, w2)" "q \<noteq> NULL" "undisturbed chip sel w1 w2"
    using malloc [of 1 w1] by auto
  obtain w3 where 3: "spi_device_acquire_bus idf h w2 = (ESP_OK, w3)" "undisturbed chip sel w2 w3" using acquire by blast
  have "sel w3 = None" using 1(3) 2(3) 3(2) n by (simp add: undisturbed_def)
  from select [OF this, of reg] obtain x4 w4 where 4: "chip w4 = chip w3" "sel w4 = Some reg"
    "spi_device_transmit idf h (command_byte reg) w3 = ((ESP_OK, x4), w4)" by blast
  obtain b w5 where 5: "heap_caps_malloc idf (dma_size len) w4 = (b, w5)" "b \<noteq> NULL" "undisturbed chip sel w4 w5"
    using buf by blast
  have s5: "sel w5 = Some reg" using 4(2) 5(3) by (simp add: undisturbed_def)
  have "reg AND 0x80 = 0" using command_bits(3) [OF r] nat by simp
  from read_data [OF s5 this, of "nat len"] l obtain rx w6
    where 6: "(rx, chip w6) = chip_read c reg (nat len) (chip w5)" "sel w6 = None"
      "spi_device_transmit idf h \<lparr>trans_length = nat len * 8, trans_tx = replicate (nat len) 0, keep_cs = False, has_rx = True\<rparr> w5
        = ((ESP_OK, rx), w6)" by auto
  let ?w = "spi_device_release_bus idf h (free_if idf q (free_if idf p (free_if idf b w6)))"
  have "lora_spi_read idf h reg len w = ((SX_OK, take (nat len) rx), ?w)"
    using 1 2 3 4 5 6 l nat by (simp add: lora_spi_read_def esp_spi_read_def Let_def command_byte_def)
  moreover have "undisturbed chip sel w6 ?w" using release free_if_undisturbed by (simp add: undisturbed_def)
  ultimately show ?thesis using 1(3) 2(3) 3(2) 4(1) 5(3) 6(1,2) by (auto simp: undisturbed_def)
qed

end

text \<open>So the callbacks of the example refine the registers of the chip.\<close>

abbreviation (input) board_platforms ::
  "'w esp_idf \<Rightarrow> nat \<Rightarrow> ('w \<Rightarrow> 'v) \<Rightarrow> ('w \<Rightarrow> u8 option) \<Rightarrow> 'v chip \<Rightarrow> ('w, 'v) platforms" where
  "board_platforms idf h chip sel c \<equiv> \<lparr>view_of = chip, world_ok = (\<lambda>w. sel w = None),
     low_port = lora_port idf h, low_logger = zero_logger, low_timer = lora_timer idf,
     high_port = wired_port c, high_logger = zero_logger, high_timer = wired_timer c\<rparr>"

lemma wired_port_sel [simp]:
  "initialized (wired_port c)" "spi_handle (wired_port c) = 0"
  "writer (wired_port c) = Some (\<lambda>h reg data len v. (SX_OK, chip_write c reg (take (nat len) data) v))"
  "reader (wired_port c) = Some (\<lambda>h reg len v. if len \<le> 0 then ((SX_OK, []), v)
     else case chip_read c reg (nat len) v of (bs, v') \<Rightarrow> ((SX_OK, take (nat len) bs), v'))"
  "timer (wired_timer c) = Some (chip_time c)" "delayer (wired_timer c) = Some (\<lambda>ms. chip_wait c (ms_to_ticks c ms))"
  by (simp_all add: wired_port_def spi_port_init_def wired_timer_def sx127x_timer_init_def)

lemma zero_logger_refines:
  "world_refines P (network_log_with_tag zero_logger tag str level) (network_log_with_tag zero_logger tag str level)"
  by (simp add: world_refines_def network_log_with_tag_def network_log_def zero_logger_def)

lemma world_refinesI:
  assumes "\<And>w. world_ok P w \<Longrightarrow>
      (\<exists>a w'. m w = Some (Ret a w') \<and> world_ok P w' \<and> m' (view_of P w) = Some (Ret a (view_of P w'))) \<or>
      (\<exists>f. m w = Some (Fault f) \<and> m' (view_of P w) = Some (Fault f))"
  shows "world_refines P m m'"
  unfolding world_refines_def using assms by fastforce

sublocale spi_wiring \<subseteq> platform_refinement "board_platforms idf h chip sel c"
proof (unfold_locales, goal_cases)
  case (1 reg len data)
  note law = 1
  show ?case
  proof (rule world_refinesI, goal_cases)
    case (1 w)
    then have "sel w = None" by simp
    from esp_write_reaches_chip [OF this law] law show ?case by (auto simp: spi_burst_write_reg_def)
  qed
next
  case (2 reg len buf)
  note law = 2
  show ?case
  proof (cases "0 < len")
    case True
    show ?thesis
    proof (rule world_refinesI, goal_cases)
      case (1 w)
      then have "sel w = None" by simp
      from esp_read_reaches_chip [OF this law(1) True law(2)] obtain bs w'
        where "lora_spi_read idf h reg len w = ((SX_OK, take (nat len) bs), w')"
          "chip_read c reg (nat len) (chip w) = (bs, chip w')" "sel w' = None" by blast
      then show ?case using True by (simp add: spi_burst_read_reg_def buf_write_def)
    qed
  next
    case False
    then show ?thesis
      by (intro world_refinesI) (simp add: spi_burst_read_reg_def lora_spi_read_def esp_spi_read_def ESP_OK_def buf_write_def)
  qed
next
  case (3 tag str level)
  then show ?case by (simp add: zero_logger_refines)
next
  case 4
  show ?case
  proof (rule world_refinesI, goal_cases)
    case (1 w)
    obtain t w' where "esp_timer_get_time idf w = (t, w')" "chip_time c (chip w) = (t, chip w')" "sel w' = sel w"
      using esp_time [of w] by metis
    then show ?case using 1 by (simp add: sx127x_timer_get_time_us_def get_time_us_def)
  qed
next
  case (5 ms)
  then show ?case
    using esp_wait esp_ticks by (simp add: world_refines_def sx127x_task_delay_ms_def esp_delay_ms_def)
qed

context spi_wiring
begin

lemma board_refinement: "platform_refinement (board_platforms idf h chip sel c)"
  by (rule platform_refinement_axioms)

end

section \<open>A board\<close>

text \<open>ESP-IDF with a chip on its bus: it keeps the byte that selected a register, and hands out memory.\<close>

record 'v board =
  board_chip :: 'v
  selected :: "u8 option"
  dma_count :: nat

definition board_idf :: "'v chip \<Rightarrow> 'v board esp_idf" where
  "board_idf c = \<lparr>spi_bus_initialize = (\<lambda>cfg w. (ESP_OK, w)), spi_bus_add_device = (\<lambda>dev w. ((ESP_OK, 7), w)),
     spi_device_acquire_bus = (\<lambda>h w. (ESP_OK, w)), spi_device_release_bus = (\<lambda>h w. w),
     spi_device_transmit = (\<lambda>h t w. case selected w of
         None \<Rightarrow> ((ESP_OK, []), w\<lparr>selected := Some (hd (trans_tx t))\<rparr>)
       | Some b \<Rightarrow>
           if b AND 0x80 \<noteq> 0
           then ((ESP_OK, []), w\<lparr>board_chip := chip_write c (b AND 0x7F) (trans_tx t) (board_chip w), selected := None\<rparr>)
           else case chip_read c b (trans_length t div 8) (board_chip w) of
             (bs, v) \<Rightarrow> ((ESP_OK, bs), w\<lparr>board_chip := v, selected := None\<rparr>)),
     heap_caps_malloc = (\<lambda>n w. (dma_count w + 1, w\<lparr>dma_count := dma_count w + 1\<rparr>)),
     heap_free = (\<lambda>p w. w),
     esp_timer_get_time = (\<lambda>w. case chip_time c (board_chip w) of (t, v) \<Rightarrow> (t, w\<lparr>board_chip := v\<rparr>)),
     vTaskDelay = (\<lambda>n w. w\<lparr>board_chip := chip_wait c n (board_chip w)\<rparr>), pdMS_TO_TICKS = ms_to_ticks c\<rparr>"

interpretation board: spi_wiring "board_idf c" 7 board_chip selected c for c :: "'v chip"
  by unfold_locales
    (auto simp: board_idf_def undisturbed_def command_byte_def split: prod.split)

section \<open>The scripted radio as a chip\<close>

definition air_chip :: "('a \<Rightarrow> u8 list) \<Rightarrow> 'a air_world chip" where
  "air_chip enc = \<lparr>chip_write = (\<lambda>reg data w. if reg = 0 then w\<lparr>air := air w @ [data]\<rparr> else w),
     chip_read = (\<lambda>reg n w. (take n (air_bytes enc (answer w) reg), w)),
     chip_time = air_time, chip_wait = (\<lambda>n. air_delay 0), ms_to_ticks = ucast\<rparr>"

lemma air_wired_port: "wired_port (air_chip enc) = air_port enc" "wired_timer (air_chip enc) = air_timer"
  by (auto simp: wired_port_def air_port_def spi_port_init_def air_chip_def air_writer_def air_reader_def fun_eq_iff
      wired_timer_def air_timer_def sx127x_timer_init_def air_delay_def)

lemma air_initialise:
  assumes "on_air enc s" and "lora_bandwidth_hz s = 125000" and "spreading_factor s = 12"
  shows "initialize_sx_1278 (air_port enc) zero_logger air_timer s = Some (Ret SX_OK s)"
proof -
  have "initialize_sx_1278 (air_port enc) zero_logger air_timer s = initialize_sx_1278 (air_port enc) zero_logger air_timer
      (s\<lparr>sx127x_spi_port := air_port enc, sx127x_logger := zero_logger, sx127x_timer_ctx := air_timer\<rparr>)"
    by (simp add: initialise_replaces)
  have "s\<lparr>sx127x_spi_port := air_port enc, sx127x_logger := zero_logger, sx127x_timer_ctx := air_timer\<rparr> = s"
    using assms(1) by (simp add: on_air_def)
  moreover have "andThen calculate_channel_num k s = k 14 s" for k :: "u64 \<Rightarrow> ('a air_world, 'b, sx127x_err_t) mcmd"
    using assms(2) by (simp add: calculate_channel_num_def channel_count_def lora_frequency_hf_def lora_frequency_lf_def)
  then have "sx_1278_switch_to_nth_channel 0 s = Some (Ret SX_OK s)"
    by (simp add: sx_1278_switch_to_nth_channel_def ok_or_return_def air_write [OF assms(1)] Let_def)
  moreover have "on_air enc (s\<lparr>spreading_factor := 12\<rparr>)" using assms(1) by (simp add: on_air_def)
  note upd = this [THEN air_write]
  have "andThen (gets spreading_factor) sx_1278_set_spreading_factor s = Some (Ret SX_OK s)"
    using assms(3)
    by (simp add: sx_1278_set_spreading_factor_def end_in_sleep_def set_spreading_factor_var_def Let_def checked_def
      sx1278_switch_mode_def air_write [OF assms(1)] upd)
  ultimately show ?thesis
    by (simp add: initialize_sx_1278_def ok_or_return_def air_read1 [OF assms(1)] air_write [OF assms(1)] air_bytes.simps
      sx1278_switch_mode_def)
qed

section \<open>Start-up\<close>

text \<open>A board as it is switched on.\<close>

definition powered_up :: "('w \<Rightarrow> u8 option) \<Rightarrow> ('w, 'z) machine_scheme \<Rightarrow> bool" where
  "powered_up sel s \<longleftrightarrow> sel (world s) = None \<and> mem_ok s \<and> alloc_never_fails s \<and> lora_bandwidth_hz s = 125000 \<and>
     spreading_factor s = 12 \<and> rx_buffer s = replicate 255 0 \<and> tx_buffer s = replicate 255 0"

abbreviation (input) radio_board ::
  "'w esp_idf \<Rightarrow> nat \<Rightarrow> ('w \<Rightarrow> 'a air_world) \<Rightarrow> ('w \<Rightarrow> u8 option) \<Rightarrow> ('a \<Rightarrow> u8 list) \<Rightarrow> ('w, 'a air_world) platforms" where
  "radio_board idf h chip sel enc \<equiv> board_platforms idf h chip sel (air_chip enc)"

lemma spi_init_on_board:
  assumes "spi_wiring idf h chip sel c"
  shows "\<exists>w'. spi_init idf pins w = Some (Ret h w') \<and> undisturbed chip sel w w'"
proof -
  let ?bus = "\<lparr>mosi_io_num = CONFIG_LORA_PIN_MOSI pins, miso_io_num = CONFIG_LORA_PIN_MISO pins,
     sclk_io_num = CONFIG_LORA_PIN_SCK pins, quadwp_io_num = -1, quadhd_io_num = -1\<rparr>"
    and ?dev = "\<lparr>clock_speed_hz = 1000000, spi_mode = 0, spics_io_num = CONFIG_LORA_PIN_NSS pins, queue_size = 1\<rparr>"
  obtain w1 where 1: "spi_bus_initialize idf ?bus w = (ESP_OK, w1)" "undisturbed chip sel w w1"
    using spi_wiring.bus_init [OF assms] by blast
  obtain w2 where 2: "spi_bus_add_device idf ?dev w1 = ((ESP_OK, h), w2)" "undisturbed chip sel w1 w2"
    using spi_wiring.add_device [OF assms] by blast
  then show ?thesis using 1 by (simp add: spi_init_def Let_def undisturbed_def)
qed

lemma initialise_on_board:
  fixes s :: "('w, 'z) machine_scheme"
  assumes w: "spi_wiring idf h chip sel (air_chip enc)" and up: "powered_up sel s"
  shows "\<exists>t. initialize_sx_1278 (lora_port idf h) zero_logger (lora_timer idf) s = Some (Ret SX_OK t) \<and>
    on_low (radio_board idf h chip sel enc) t \<and>
    lifted (radio_board idf h chip sel enc) t = lifted (radio_board idf h chip sel enc) s"
proof -
  let ?P = "radio_board idf h chip sel enc"
  let ?s = "s\<lparr>sx127x_spi_port := lora_port idf h, sx127x_logger := zero_logger, sx127x_timer_ctx := lora_timer idf\<rparr>"
  have low: "on_low ?P ?s" using up by (simp add: on_low_def powered_up_def)
  have "on_air enc (lifted ?P ?s)" by (simp add: on_air_def air_wired_port)
  from air_initialise [OF this] have
    "initialize_sx_1278 (air_port enc) zero_logger air_timer (lifted ?P ?s) = Some (Ret SX_OK (lifted ?P ?s))"
    using up by (simp only: lifted_sel powered_up_def) simp
  then have "initialize_sx_1278 (high_port ?P) (high_logger ?P) (high_timer ?P) (lifted ?P ?s) = Some (Ret SX_OK (lifted ?P ?s))"
    by (simp only: air_wired_port platforms.select_convs)
  from refines_Ret [OF platform_refinement.refines_initialise [OF spi_wiring.board_refinement [OF w]] low this] show ?thesis
    by (auto simp: initialise_replaces lifted_def)
qed

lemma powered_up_world [simp]: "sel w = None \<Longrightarrow> powered_up sel s \<Longrightarrow> powered_up sel (s\<lparr>world := w\<rparr>)"
  by (simp add: powered_up_def mem_ok_def alloc_never_fails_def)

text \<open>What the start of a program leaves: the library connected, the chip as it was, the message printed.\<close>

definition started ::
  "('w, 'a air_world) platforms \<Rightarrow> ('a \<Rightarrow> u8 list) \<Rightarrow> ('w, 'z) burst_app_scheme \<Rightarrow> 'a air_world \<Rightarrow> u8 list \<Rightarrow> bool" where
  "started P enc t v text \<longleftrightarrow> on_low P t \<and> on_air enc (lifted P t) \<and> world (lifted P t) = v \<and> console (lifted P t) = text \<and>
     mem_ok (lifted P t) \<and> alloc_never_fails (lifted P t) \<and> rx_buffer (lifted P t) = replicate 255 0"

lemma started_at_peer: "started P wire t v text \<Longrightarrow> at_peer (lifted P t)"
  by (simp add: started_def at_peer_def on_low_def)

lemma initialise_starts:
  fixes s :: "('w, 'z) burst_app_scheme"
  assumes w: "spi_wiring idf h chip sel (air_chip enc)" and up: "powered_up sel s"
  shows "\<exists>t. initialize_sx_1278 (lora_port idf h) zero_logger (lora_timer idf) s = Some (Ret SX_OK t) \<and>
    started (radio_board idf h chip sel enc) enc (t\<lparr>console := console t @ msg\<rparr>) (chip (world s)) (console s @ msg)"
proof -
  let ?P = "radio_board idf h chip sel enc"
  obtain t where t: "initialize_sx_1278 (lora_port idf h) zero_logger (lora_timer idf) s = Some (Ret SX_OK t)"
    "on_low ?P t" "lifted ?P t = lifted ?P s" using initialise_on_board [OF w up] by blast
  have "console t = console s" using t(3) console_lifted by metis
  moreover have "world (lifted ?P t) = chip (world s)" "rx_buffer (lifted ?P t) = rx_buffer s"
    "blocks (lifted ?P t) = blocks s" "fresh (lifted ?P t) = fresh s" "alloc_ok (lifted ?P t) = alloc_ok s"
    by (subst t(3), simp)+
  ultimately have "started ?P enc (t\<lparr>console := console t @ msg\<rparr>) (chip (world s)) (console s @ msg)"
    using t(2) up
    by (simp add: started_def powered_up_def on_low_def on_air_def air_wired_port mem_ok_def alloc_never_fails_def
        lifted_console [symmetric])
  then show ?thesis using t(1) by blast
qed

lemma app_task_starts:
  fixes s :: "('w, 'z) burst_app_scheme"
  assumes w: "spi_wiring idf h chip sel (air_chip enc)" and up: "powered_up sel s"
  shows "\<exists>t. app_task idf pins role s = Some (Ret (Some role) t) \<and>
    started (radio_board idf h chip sel enc) enc t (air_delay 0 (chip (world s)))
      (console s @ str_bytes ''sx1278 init ok'' @ newline)"
proof -
  obtain w1 where 1: "spi_init idf pins (world s) = Some (Ret h w1)" "undisturbed chip sel (world s) w1"
    using spi_init_on_board [OF w] by blast
  let ?w = "vTaskDelay idf (pdMS_TO_TICKS idf 100) w1"
  have 2: "chip ?w = air_delay 0 (chip (world s))" "sel ?w = None"
    using spi_wiring.esp_wait [OF w, of "pdMS_TO_TICKS idf 100" w1] 1(2) up
    by (simp_all add: undisturbed_def powered_up_def air_chip_def)
  from initialise_starts [OF w powered_up_world [OF 2(2) up]] obtain t
    where "initialize_sx_1278 (lora_port idf h) zero_logger (lora_timer idf) (s\<lparr>world := ?w\<rparr>) = Some (Ret SX_OK t)"
      "started (radio_board idf h chip sel enc) enc (t\<lparr>console := console t @ str_bytes ''sx1278 init ok'' @ newline\<rparr>)
        (air_delay 0 (chip (world s))) (console s @ str_bytes ''sx1278 init ok'' @ newline)" using 2(1) by auto
  then show ?thesis using 1(1) by (simp add: app_task_def on_world_def c_printf_def)
qed

section \<open>The burst example\<close>

lemma run_receiver_match:
  "platform_refinement P \<Longrightarrow> handlers_match P (run_receiver :: ('w, 'z) app_ctx) (run_receiver :: ('v, 'z) app_ctx)"
  for P :: "('w, 'v) platforms"
  by (simp add: handlers_match_def run_receiver_def rx_handler_init_def zeroed_ctx_def
      platform_refinement.refines_burst_complete)

lemma sender_board:
  fixes s :: "('w, 'z) burst_app_scheme"
  assumes w: "spi_wiring idf h chip sel (air_chip wire)" and up: "powered_up sel s"
    and c: "chip (world s) = \<lparr>air = [], script = map Some (map ack_of burst_frames), ticks = 0\<rparr>"
  shows "\<exists>t. app_main idf pins Sender s = Some (Ret () t) \<and> air (chip (world t)) = map wire burst_frames \<and>
    console t = console s @ str_bytes ''sx1278 init ok'' @ newline @ str_bytes ''burst sent'' @ newline"
proof -
  let ?P = "radio_board idf h chip sel wire"
  obtain s1 where s1: "app_task idf pins Sender s = Some (Ret (Some Sender) s1)"
    "started ?P wire s1 (air_delay 0 (chip (world s))) (console s @ str_bytes ''sx1278 init ok'' @ newline)"
    using app_task_starts [OF w up] by blast
  let ?v = "lifted ?P s1"
  have v: "on_low ?P s1" "console ?v = console s @ str_bytes ''sx1278 init ok'' @ newline" "ticks (world ?v) < 2 ^ 62"
    "air (world ?v) = []" "script (world ?v) = map Some (map ack_of burst_frames)"
    using s1(2) c by (simp_all add: started_def air_delay_def del: lifted_sel console_lifted)
  then have "fed (length (air (world ?v))) (map Some (map ack_of burst_frames)) ?v = ?v" by (simp add: fed_def del: lifted_sel)
  then obtain t where t: "sender_task ?v = Some (Ret () t)" "air (world t) = map wire burst_frames"
    "console t = console ?v @ str_bytes ''burst sent'' @ newline"
    using burst_sender_run [OF started_at_peer [OF s1(2)] v(3)] v(4) by auto
  obtain u where u: "sender_task s1 = Some (Ret () u)" "lifted ?P u = t"
    using refines_Ret [OF platform_refinement.refines_sender_task [OF spi_wiring.board_refinement [OF w]] v(1) t(1)] by blast
  have "app_main idf pins Sender s = Some (Ret () u)" using s1(1) u(1) by (simp add: app_main_def run_sender_def)
  moreover have "chip (world u) = world t" "console u = console t" using u(2) by auto
  ultimately show ?thesis using t(2,3) v(2) by (intro exI [of _ u]) (simp del: console_lifted)
qed

lemma receiver_board:
  fixes s :: "('w, 'z) burst_app_scheme"
  assumes w: "spi_wiring idf h chip sel (air_chip wire)" and up: "powered_up sel s"
    and c: "chip (world s) = \<lparr>air = [before], script = map Some burst_frames, ticks = 0\<rparr>"
  shows "\<exists>t. app_main idf pins Receiver s = Some (Ret () t) \<and>
    air (chip (world t)) = before # map wire (map ack_of burst_frames) \<and>
    console t = console s @ str_bytes ''sx1278 init ok'' @ newline @ str_bytes ''burst complete: hello burst test'' @ newline"
proof -
  let ?P = "radio_board idf h chip sel wire"
  note R = spi_wiring.board_refinement [OF w]
  obtain s1 where s1: "app_task idf pins Receiver s = Some (Ret (Some Receiver) s1)"
    "started ?P wire s1 (air_delay 0 (chip (world s))) (console s @ str_bytes ''sx1278 init ok'' @ newline)"
    using app_task_starts [OF w up] by blast
  let ?v = "lifted ?P s1"
  have v: "on_low ?P s1" "console ?v = console s @ str_bytes ''sx1278 init ok'' @ newline"
    "air (world ?v) = [before]" "script (world ?v) = map Some burst_frames"
    using s1(2) c by (simp_all add: started_def air_delay_def del: lifted_sel console_lifted)
  then obtain g t where t: "rx_task run_receiver ?v = Some (Ret g t)"
    "air (world t) = before # map wire (map ack_of burst_frames)"
    "console t = console ?v @ str_bytes ''burst complete: hello burst test'' @ newline"
    using burst_receiver_run [OF started_at_peer [OF s1(2)]] by auto
  obtain g1 u where u: "rx_task run_receiver s1 = Some (Ret g1 u)" "lifted ?P u = t"
    using refines_Ret [OF platform_refinement.refines_rx_task [OF R run_receiver_match [OF R]] v(1) t(1)] by blast
  have "app_main idf pins Receiver s = Some (Ret () u)" using s1(1) u(1) by (simp add: app_main_def)
  moreover have "chip (world u) = world t" "console u = console t" using u(2) by auto
  ultimately show ?thesis using t(2,3) v(2) by (intro exI [of _ u]) (simp del: console_lifted)
qed

text \<open>C3: The burst example on two boards. Both are switched on with ESP-IDF and a radio chip on the SPI bus; what each
  receives is what the other transmits. Then both programs initialise the chip, print that they did, and
  end: the sender has transmitted the frames of its burst and printed ``burst sent'', the receiver has acknowledged
  each of them and printed ``burst complete: hello burst test''.\<close>

theorem burst_boards:
  fixes s :: "('w, 'z) burst_app_scheme" and r :: "('x, 'y) burst_app_scheme"
  assumes "spi_wiring idf h chip sel (air_chip wire)" and "spi_wiring idf' h' chip' sel' (air_chip wire)"
    and "powered_up sel s" and "powered_up sel' r" and "frames = packetise RECEIVER_ADDR SENDER_ADDR ACK_ID True burst_data"
    and "chip (world s) = \<lparr>air = [], script = map Some (map ack_of frames), ticks = 0\<rparr>"
    and "chip' (world r) = \<lparr>air = [before], script = map Some frames, ticks = 0\<rparr>"
  shows "\<exists>t u. app_main idf pins Sender s = Some (Ret () t) \<and> app_main idf' pins' Receiver r = Some (Ret () u) \<and>
    air (chip (world t)) = map wire frames \<and> air (chip' (world u)) = before # map wire (map ack_of frames) \<and>
    console t = console s @ str_bytes ''sx1278 init ok'' @ newline @ str_bytes ''burst sent'' @ newline \<and>
    console u = console r @ str_bytes ''sx1278 init ok'' @ newline @
      str_bytes ''burst complete: hello burst test'' @ newline"
  using sender_board [OF assms(1,3)] receiver_board [OF assms(2,4)] assms(5-7) by metis

definition board_node :: "'v \<Rightarrow> 'v board burst_app" where
  "board_node v = machine.extend (boot \<lparr>board_chip = v, selected = None, dma_count = 0\<rparr>) \<lparr>console = []\<rparr>"

lemma board_node_sel [simp]:
  "powered_up selected (board_node v)" "board_chip (world (board_node v)) = v" "console (board_node v) = []"
  by (simp_all add: board_node_def powered_up_def boot_def machine.defs mem_ok_def alloc_never_fails_def)

definition board_pins :: lora_pins where
  "board_pins = \<lparr>CONFIG_LORA_PIN_NSS = 5, CONFIG_LORA_PIN_SCK = 18, CONFIG_LORA_PIN_MISO = 19, CONFIG_LORA_PIN_MOSI = 23\<rparr>"

theorem burst_boards_witness:
  "\<exists>frames t u.
     app_main (board_idf (air_chip wire)) board_pins Sender
       (board_node \<lparr>air = [], script = map Some (map ack_of frames), ticks = 0\<rparr>) = Some (Ret () t) \<and>
     app_main (board_idf (air_chip wire)) board_pins Receiver
       (board_node \<lparr>air = [[]], script = map Some frames, ticks = 0\<rparr>) = Some (Ret () u) \<and>
     length frames = 4 \<and> air (board_chip (world t)) = map wire frames \<and>
     console t = str_bytes ''sx1278 init ok'' @ newline @ str_bytes ''burst sent'' @ newline \<and>
     console u = str_bytes ''sx1278 init ok'' @ newline @ str_bytes ''burst complete: hello burst test'' @ newline"
proof -
  have "length burst_frames = 4" by (simp add: length_packetise length_chunks burst_data_length)
  moreover from burst_boards [OF board.spi_wiring_axioms board.spi_wiring_axioms board_node_sel(1,1) refl
      board_node_sel(2,2), of board_pins board_pins "[]"] obtain t u where
    "app_main (board_idf (air_chip wire)) board_pins Sender
       (board_node \<lparr>air = [], script = map Some (map ack_of burst_frames), ticks = 0\<rparr>) = Some (Ret () t)"
    "app_main (board_idf (air_chip wire)) board_pins Receiver
       (board_node \<lparr>air = [[]], script = map Some burst_frames, ticks = 0\<rparr>) = Some (Ret () u)"
    "air (board_chip (world t)) = map wire burst_frames"
    "console t = str_bytes ''sx1278 init ok'' @ newline @ str_bytes ''burst sent'' @ newline"
    "console u = str_bytes ''sx1278 init ok'' @ newline @ str_bytes ''burst complete: hello burst test'' @ newline"
    by auto
  ultimately show ?thesis by blast
qed

section \<open>The ping-pong example\<close>

lemma pingpong_starts:
  fixes s :: "('w, 'z) burst_app_scheme"
  assumes w: "spi_wiring idf h chip sel (air_chip enc)" and up: "powered_up sel s"
  shows "\<exists>t. (\<forall>role buf len. pingpong_main idf pins role buf len s
      = (case role of Sender \<Rightarrow> ping_sender buf len | Receiver \<Rightarrow> pong_receiver buf len) t) \<and>
    started (radio_board idf h chip sel enc) enc t (chip (world s)) (console s @ str_bytes ''sx1278 init ok'' @ newline)"
proof -
  let ?ok = "str_bytes ''sx1278 init ok'' @ newline"
  obtain w1 where w1: "spi_init idf pins (world s) = Some (Ret h w1)" "chip w1 = chip (world s)" "sel w1 = None"
    using spi_init_on_board [OF w] up unfolding undisturbed_def powered_up_def by metis
  obtain t where t: "initialize_sx_1278 (lora_port idf h) zero_logger (lora_timer idf) (s\<lparr>world := w1\<rparr>) = Some (Ret SX_OK t)"
    "started (radio_board idf h chip sel enc) enc (t\<lparr>console := console t @ ?ok\<rparr>) (chip (world s)) (console s @ ?ok)"
    using initialise_starts [OF w powered_up_world [OF w1(3) up], of ?ok] w1(2) by auto
  then show ?thesis
    using w1(1) by (intro exI [of _ "t\<lparr>console := console t @ ?ok\<rparr>"])
      (simp add: pingpong_main_def pingpong_platform on_world_def c_printf_def)
qed

lemma ping_board:
  fixes s :: "('w, 'z) burst_app_scheme"
  assumes w: "spi_wiring idf h chip sel (air_chip (\<lambda>bs. bs))" and up: "powered_up sel s" and buf: "length buf = 64"
    and c: "chip (world s) = \<lparr>air = [], script = replicate 5 (Some PONG_STR), ticks = 0\<rparr>"
  shows "\<exists>t. pingpong_main idf pins Sender buf len s = Some (Ret () t) \<and> air (chip (world t)) = replicate 5 PING_STR \<and>
    console t = console s @ str_bytes ''sx1278 init ok'' @ newline @ str_bytes ''test passed'' @ newline"
proof -
  let ?P = "radio_board idf h chip sel (\<lambda>bs. bs)"
  obtain t where run: "pingpong_main idf pins Sender buf len s = ping_sender buf len t"
    and st: "started ?P (\<lambda>bs. bs) t (chip (world s)) (console s @ str_bytes ''sx1278 init ok'' @ newline)"
    using pingpong_starts [OF w up, of pins] by (metis burst_role.case(1))
  have v: "on_low ?P t" "on_air (\<lambda>bs. bs) (lifted ?P t)" "world (lifted ?P t) = chip (world s)"
    "console (lifted ?P t) = console s @ str_bytes ''sx1278 init ok'' @ newline"
    using st unfolding started_def by blast+
  obtain u where u: "ping_sender buf len (lifted ?P t) = Some (Ret () u)" "air (world u) = replicate 5 PING_STR"
    "console u = console (lifted ?P t) @ str_bytes ''test passed'' @ newline"
    using five_pings [OF v(2) _ buf] by (auto simp: v(3) c simp del: lifted_sel)
  from refines_Ret [OF platform_refinement.refines_ping [OF spi_wiring.board_refinement [OF w]] v(1) u(1)] obtain u1
    where "ping_sender buf len t = Some (Ret () u1)" "lifted ?P u1 = u" by blast
  moreover from this have "chip (world u1) = world u" "console u1 = console u" by auto
  ultimately show ?thesis using run u(2,3) v(4) by (intro exI [of _ u1]) (simp del: console_lifted)
qed

lemma pong_board:
  fixes s :: "('w, 'z) burst_app_scheme"
  assumes w: "spi_wiring idf h chip sel (air_chip (\<lambda>bs. bs))" and up: "powered_up sel s" and buf: "length buf = 64"
    and c: "chip (world s) = \<lparr>air = [before], script = replicate 5 (Some PING_STR), ticks = 0\<rparr>"
  shows "\<exists>t. pingpong_main idf pins Receiver buf len s = Some (Ret () t) \<and>
    air (chip (world t)) = before # replicate 5 PONG_STR"
proof -
  let ?P = "radio_board idf h chip sel (\<lambda>bs. bs)"
  obtain t where run: "pingpong_main idf pins Receiver buf len s = pong_receiver buf len t"
    and st: "started ?P (\<lambda>bs. bs) t (chip (world s)) (console s @ str_bytes ''sx1278 init ok'' @ newline)"
    using pingpong_starts [OF w up, of pins] by (metis burst_role.case(2))
  have v: "on_low ?P t" "on_air (\<lambda>bs. bs) (lifted ?P t)" "world (lifted ?P t) = chip (world s)"
    using st unfolding started_def by blast+
  obtain u where u: "pong_receiver buf len (lifted ?P t) = Some (Ret () u)" "air (world u) = before # replicate 5 PONG_STR"
    using five_pongs [OF v(2) _ buf] by (auto simp: v(3) c simp del: lifted_sel)
  from refines_Ret [OF platform_refinement.refines_pong [OF spi_wiring.board_refinement [OF w]] v(1) u(1)] obtain u1
    where "pong_receiver buf len t = Some (Ret () u1)" "lifted ?P u1 = u" by blast
  moreover from this have "chip (world u1) = world u" by auto
  ultimately show ?thesis using run u(2) by (intro exI [of _ u1]) simp
qed

text \<open>C10: The ping-pong example on two boards, each switched on with ESP-IDF and a radio chip on the SPI bus; what each
  receives is what the other transmits. Then both programs initialise the chip and end: the sender has transmitted five
  pings and printed ``sx1278 init ok'' and ``test passed'', the receiver has transmitted five pongs.\<close>

theorem pingpong_boards:
  fixes s :: "('w, 'z) burst_app_scheme" and r :: "('x, 'y) burst_app_scheme"
  assumes "spi_wiring idf h chip sel (air_chip (\<lambda>bs. bs))" and "spi_wiring idf' h' chip' sel' (air_chip (\<lambda>bs. bs))"
    and "powered_up sel s" and "powered_up sel' r" and "length buf = 64" and "length buf' = 64"
    and "chip (world s) = \<lparr>air = [], script = replicate 5 (Some PONG_STR), ticks = 0\<rparr>"
    and "chip' (world r) = \<lparr>air = [before], script = replicate 5 (Some PING_STR), ticks = 0\<rparr>"
  shows "\<exists>t u. pingpong_main idf pins Sender buf len s = Some (Ret () t) \<and>
    pingpong_main idf' pins' Receiver buf' len' r = Some (Ret () u) \<and>
    air (chip (world t)) = replicate 5 PING_STR \<and> air (chip' (world u)) = before # replicate 5 PONG_STR \<and>
    console t = console s @ str_bytes ''sx1278 init ok'' @ newline @ str_bytes ''test passed'' @ newline"
  using ping_board [OF assms(1,3,5,7)] pong_board [OF assms(2,4,6,8)] by blast

theorem pingpong_boards_witness:
  "\<exists>t u. pingpong_main (board_idf (air_chip (\<lambda>bs. bs))) board_pins Sender (replicate 64 0) 0
       (board_node \<lparr>air = [], script = replicate 5 (Some PONG_STR), ticks = 0\<rparr>) = Some (Ret () t) \<and>
     pingpong_main (board_idf (air_chip (\<lambda>bs. bs))) board_pins Receiver (replicate 64 0) 0
       (board_node \<lparr>air = [[]], script = replicate 5 (Some PING_STR), ticks = 0\<rparr>) = Some (Ret () u) \<and>
     air (board_chip (world t)) = replicate 5 PING_STR \<and> air (board_chip (world u)) = [] # replicate 5 PONG_STR \<and>
     console t = str_bytes ''sx1278 init ok'' @ newline @ str_bytes ''test passed'' @ newline"
proof -
  have l: "length (replicate 64 0 :: u8 list) = 64" by simp
  from pingpong_boards [OF board.spi_wiring_axioms board.spi_wiring_axioms board_node_sel(1,1) l l
      board_node_sel(2,2), of board_pins 0 board_pins 0 "[]"] show ?thesis by simp
qed

end
