(* ===== verification/Scan.thy ===== *)
theory Scan
  imports Utils
begin

text \<open>
  The channel scan \<open>sx_1278_get_channel_rssis\<close> of \<open>src/sx127x_utils.c\<close> (its definition is in Utils): that it
  returns on every platform, and what it measures on a chip with registers.
\<close>

unbundle bit_operations_syntax

section \<open>On every platform\<close>

text \<open>An entry of the result: never written, or half of a byte, negated.\<close>

definition dbm_of :: "u8 \<Rightarrow> rat" where
  "dbm_of b = - of_nat (unat b) / 2"

definition measured :: "rssi \<Rightarrow> bool" where
  "measured x \<longleftrightarrow> x = None \<or> x \<in> range (Some \<circ> dbm_of)"

lemma measured_simps [simp]: "measured None" "measured (Some (dbm_of b))"
  by (auto simp: measured_def)

lemma usable_returns:
  assumes "usable s"
  shows "length tag + length str \<le> 4093 \<Longrightarrow> \<exists>w. log_err tag str s = Some (Ret () (s\<lparr>world := w\<rparr>))"
    and "\<exists>w. delay_ms ms s = Some (Ret () (s\<lparr>world := w\<rparr>))"
    and "\<exists>r b w. spi_read1 reg old s = Some (Ret (r, b) (s\<lparr>world := w\<rparr>))"
    and "\<exists>r w. sx1278_switch_mode m s = Some (Ret r (s\<lparr>world := w\<rparr>))"
    and "lora_bandwidth_hz s \<noteq> 0 \<Longrightarrow> \<exists>r w. sx_1278_switch_to_nth_channel n s = Some (Ret r (s\<lparr>world := w\<rparr>))"
  using calm_log_err [of tag str] calm_delay_ms [of ms] calm_spi_read1 [of reg old] calm_helpers(3) [of m]
    switch_channel_returns [of s n] assms
  unfolding calm_def world_only_def by fastforce+

text \<open>One channel: it is skipped or measured.\<close>

lemma rssi_loop_step:
  assumes u: "usable s" and bw: "lora_bandwidth_hz s \<noteq> 0" and t: "tmp \<noteq> NULL" and i: "i < n"
  shows "\<exists>w x. (x = None \<or> (\<exists>b. x = Some (Some (dbm_of b)))) \<and>
    rssi_loop tmp n i arr s
      = rssi_loop tmp n (Suc i) (case x of None \<Rightarrow> arr | Some v \<Rightarrow> arr[i := v]) (s\<lparr>world := w\<rparr>)"
proof -
  obtain r w where sw: "sx_1278_switch_to_nth_channel (of_nat i) s = Some (Ret r (s\<lparr>world := w\<rparr>))"
    using usable_returns(5) [OF u bw] by blast
  have uw: "usable (s\<lparr>world := v\<rparr>)" for v using u by (simp add: usable_def)
  show ?thesis
  proof (cases "r = SX_OK")
    case False
    obtain w' where "log_err UTILS_TAG (if i = n - 1 then ''couldnt switch to channel''
        else ''couldnt switch to channel, trying next one'') (s\<lparr>world := w\<rparr>) = Some (Ret () (s\<lparr>world := w'\<rparr>))"
      using usable_returns(1) [OF uw, of UTILS_TAG "if i = n - 1 then ''couldnt switch to channel''
        else ''couldnt switch to channel, trying next one''" w] by (fastforce simp: UTILS_TAG_def)
    then have "rssi_loop tmp n i arr s = rssi_loop tmp n (Suc i) arr (s\<lparr>world := w'\<rparr>)"
      using sw False i by (subst rssi_loop.simps) simp
    then show ?thesis by (intro exI [of _ w'] exI [of _ None]) simp
  next
    case True
    obtain w1 where d: "delay_ms RSSI_READ_DELAY_MS (s\<lparr>world := w\<rparr>) = Some (Ret () (s\<lparr>world := w1\<rparr>))"
      using usable_returns(2) [OF uw] by fastforce
    obtain r2 b w2 where rd: "spi_read1 0x11 0 (s\<lparr>world := w1\<rparr>) = Some (Ret (r2, b) (s\<lparr>world := w2\<rparr>))"
      using usable_returns(3) [OF uw] by fastforce
    show ?thesis
    proof (cases "r2 = SX_OK")
      case False
      obtain w' where "log_err UTILS_TAG (if i = n - 1 then ''couldnt read rssi on channel.''
          else ''couldnt read rssi on channel. switching to next channel'') (s\<lparr>world := w2\<rparr>)
          = Some (Ret () (s\<lparr>world := w'\<rparr>))"
        using usable_returns(1) [OF uw, of UTILS_TAG "if i = n - 1 then ''couldnt read rssi on channel.''
          else ''couldnt read rssi on channel. switching to next channel''" w2] by (fastforce simp: UTILS_TAG_def)
      then have "rssi_loop tmp n i arr s = rssi_loop tmp n (Suc i) arr (s\<lparr>world := w'\<rparr>)"
        using sw True False d rd i by (subst rssi_loop.simps) simp
      then show ?thesis by (intro exI [of _ w'] exI [of _ None]) simp
    next
      case r2: True
      have "rssi_loop tmp n i arr s = rssi_loop tmp n (Suc i) (arr[i := Some (dbm_of b)]) (s\<lparr>world := w2\<rparr>)"
        using sw True r2 d rd i t by (subst rssi_loop.simps) (simp add: dbm_of_def)
      then show ?thesis by (intro exI [of _ w2] exI [of _ "Some (Some (dbm_of b))"]) auto
    qed
  qed
qed

lemma rssi_loop_returns:
  assumes "usable s" and "lora_bandwidth_hz s \<noteq> 0" and "tmp \<noteq> NULL" and "length arr = n"
    and "\<forall>x \<in> set arr. measured x"
  shows "\<exists>w arr'. rssi_loop tmp n i arr s = Some (Ret arr' (s\<lparr>world := w\<rparr>)) \<and> length arr' = n \<and>
    (\<forall>x \<in> set arr'. measured x)"
  using assms
proof (induction "n - i" arbitrary: i arr s)
  case 0
  then show ?case
    by (intro exI [of _ "world s"] exI [of _ arr]) (subst rssi_loop.simps, simp)
next
  case (Suc m)
  have i: "i < n" using Suc.hyps(2) by simp
  from rssi_loop_step [OF Suc.prems(1-3) i, of arr] obtain w x where x: "x = None \<or> (\<exists>b. x = Some (Some (dbm_of b)))"
    and eq: "rssi_loop tmp n i arr s
      = rssi_loop tmp n (Suc i) (case x of None \<Rightarrow> arr | Some v \<Rightarrow> arr[i := v]) (s\<lparr>world := w\<rparr>)" by blast
  let ?arr = "case x of None \<Rightarrow> arr | Some v \<Rightarrow> arr[i := v]"
  have "\<forall>y \<in> set ?arr. measured y" using x Suc.prems(5) set_update_subset_insert [of arr i] by fastforce
  moreover have "usable (s\<lparr>world := w\<rparr>)" using Suc.prems(1) by (simp add: usable_def)
  moreover have "length ?arr = n" using x Suc.prems(4) by auto
  ultimately have "\<exists>w' arr'. rssi_loop tmp n (Suc i) ?arr (s\<lparr>world := w\<rparr>)
      = Some (Ret arr' (s\<lparr>world := w, world := w'\<rparr>)) \<and> length arr' = n \<and> (\<forall>x \<in> set arr'. measured x)"
    using Suc.hyps(2) Suc.prems(2,3) by (intro Suc.hyps(1)) simp_all
  then show ?case unfolding eq by simp
qed

lemma calm_switch_to_fsk: "calm switch_to_fsk"
  unfolding switch_to_fsk_def by (intro calm_intros) (simp_all add: UTILS_TAG_def)

text \<open>The scan once the chip listens: the array is filled, the scratch block is freed again.\<close>

lemma rssi_scan_listening:
  assumes u: "usable s" and m: "mem_ok s" and bw: "lora_bandwidth_hz s \<noteq> 0" and a: "alloc_ok s (fresh s)"
    and n: "n = unat (channel_count (lora_bandwidth_hz s))" and r: "n \<le> length rssi_data"
    and s1: "switch_to_fsk s = Some (Ret SX_OK (s\<lparr>world := w1\<rparr>))"
    and s2: "sx1278_switch_mode MODE_FSK_RECEIVER (s\<lparr>world := w1\<rparr>) = Some (Ret SX_OK (s\<lparr>world := w2\<rparr>))"
  shows "\<exists>ret arr w. sx_1278_get_channel_rssis rssi_data len s
      = Some (Ret (ret, overlay rssi_data 0 arr, n) (s\<lparr>fresh := Suc (fresh s), world := w\<rparr>)) \<and>
    length arr = n \<and> (\<forall>x \<in> set arr. measured x)"
proof -
  have tag: "length UTILS_TAG = 13" by (simp add: UTILS_TAG_def)
  let ?junk = "junk_bytes (junk s (fresh s)) (n * 8)"
  let ?s = "s\<lparr>blocks := (blocks s)(fresh s \<mapsto> Bytes ?junk), fresh := Suc (fresh s), world := w2\<rparr>"
  have z: "fresh s \<noteq> NULL" "blocks s (fresh s) = None" using m by (simp_all add: mem_ok_def)
  have al: "malloc_bytes (n * 8) (s\<lparr>world := w2\<rparr>) = Some (Ret (fresh s) ?s)"
    using a by (simp add: malloc_bytes_def alloc_def Let_def)
  have us: "usable ?s" using u by (simp add: usable_def)
  obtain w3 arr where lp: "rssi_loop (fresh s) n 0 (replicate n None) ?s = Some (Ret arr (?s\<lparr>world := w3\<rparr>))"
    "length arr = n" "\<forall>x \<in> set arr. measured x"
    using rssi_loop_returns [OF us _ z(1), of "replicate n None" n 0] bw by auto
  let ?t = "s\<lparr>fresh := Suc (fresh s), world := w3\<rparr>"
  have fr: "c_free (fresh s) (?s\<lparr>world := w3\<rparr>) = Some (Ret () ?t)"
    using z by (simp add: c_free_def fun_upd_idem)
  have ut: "usable (?t\<lparr>world := w\<rparr>)" for w using u by (simp add: usable_def)
  obtain r4 w4 where s4: "sx1278_switch_mode (MODE_SLEEP OR MODE_LORA) ?t = Some (Ret r4 (?t\<lparr>world := w4\<rparr>))"
    using usable_returns(4) [OF ut, of "MODE_SLEEP OR MODE_LORA" w3] by auto
  obtain w5 where s5: "(if r4 \<noteq> SX_OK then log_err UTILS_TAG ''couldnt switch back to lora sleep mode'' else give ())
      (?t\<lparr>world := w4\<rparr>) = Some (Ret () (?t\<lparr>world := w5\<rparr>))"
    using usable_returns(1) [OF ut, of UTILS_TAG "''couldnt switch back to lora sleep mode''" w4] tag
    by (cases "r4 = SX_OK") fastforce+
  have "sx_1278_get_channel_rssis rssi_data len s = Some (Ret (r4, overlay rssi_data 0 arr, n) (?t\<lparr>world := w5\<rparr>))"
    using s1 s2 s4 s5 al lp(1) fr z r bw
    by (simp add: sx_1278_get_channel_rssis_def channel_num_run unat_u64_of_u32 n [symmetric] Let_def)
  then show ?thesis using lp(2,3) by (intro exI [of _ r4] exI [of _ arr] exI [of _ w5]) simp
qed

text \<open>The channel scan on every usable platform, with a bandwidth set, memory for its temporary array and room
  in the caller's array for all channels: it returns without a fault and leaves the heap as it was. It
  either reports an error and leaves the caller's array and length alone, or it stores one entry for each
  channel, which is half of a byte, negated, or was never written; whatever code it returns then.\<close>
theorem rssi_scan_returns:
  assumes u: "usable s" and m: "mem_ok s" and bw: "lora_bandwidth_hz s \<noteq> 0" and a: "alloc_ok s (fresh s)"
    and n: "n = unat (channel_count (lora_bandwidth_hz s))" and r: "n \<le> length rssi_data"
  shows "\<exists>ret data' len' t. sx_1278_get_channel_rssis rssi_data len s = Some (Ret (ret, data', len') t) \<and>
    blocks t = blocks s \<and>
    (ret \<noteq> SX_OK \<and> data' = rssi_data \<and> len' = len \<or>
     (\<exists>arr. length arr = n \<and> (\<forall>x \<in> set arr. measured x) \<and> data' = overlay rssi_data 0 arr \<and> len' = n))"
proof -
  obtain r1 w1 where s1: "switch_to_fsk s = Some (Ret r1 (s\<lparr>world := w1\<rparr>))"
    using calm_switch_to_fsk u unfolding calm_def world_only_def by blast
  have uw: "usable (s\<lparr>world := w\<rparr>)" for w using u by (simp add: usable_def)
  have tag: "length UTILS_TAG = 13" by (simp add: UTILS_TAG_def)
  show ?thesis
  proof (cases "r1 = SX_OK")
    case False
    obtain w where "log_err UTILS_TAG (''couldnt switch to fsk mode'' @ [CHR 0x0A]) (s\<lparr>world := w1\<rparr>)
        = Some (Ret () (s\<lparr>world := w\<rparr>))"
      using usable_returns(1) [OF uw, of UTILS_TAG "''couldnt switch to fsk mode'' @ [CHR 0x0A]" w1] tag by fastforce
    then show ?thesis using s1 False by (simp add: sx_1278_get_channel_rssis_def)
  next
    case r1: True
    obtain r2 w2 where s2: "sx1278_switch_mode MODE_FSK_RECEIVER (s\<lparr>world := w1\<rparr>) = Some (Ret r2 (s\<lparr>world := w2\<rparr>))"
      using usable_returns(4) [OF uw] by fastforce
    show ?thesis
    proof (cases "r2 = SX_OK")
      case False
      obtain w where "log_err UTILS_TAG (''couldnt set rx mode on fsk'' @ [CHR 0x0A]) (s\<lparr>world := w2\<rparr>)
          = Some (Ret () (s\<lparr>world := w\<rparr>))"
        using usable_returns(1) [OF uw, of UTILS_TAG "''couldnt set rx mode on fsk'' @ [CHR 0x0A]" w2] tag by fastforce
      then show ?thesis using s1 s2 r1 False by (simp add: sx_1278_get_channel_rssis_def)
    next
      case True
      obtain ret arr w where "sx_1278_get_channel_rssis rssi_data len s
          = Some (Ret (ret, overlay rssi_data 0 arr, n) (s\<lparr>fresh := Suc (fresh s), world := w\<rparr>))"
        "length arr = n" "\<forall>x \<in> set arr. measured x"
        using rssi_scan_listening [OF u m bw a n r] s1 s2 r1 True by blast
      moreover have "blocks (s\<lparr>fresh := Suc (fresh s), world := w\<rparr>) = blocks s" by simp
      ultimately show ?thesis by metis
    qed
  qed
qed

section \<open>On a chip\<close>

text \<open>
  The registers of the chip that the scan uses, as its data sheet has them: the operating mode, the three
  bytes of the frequency, and register 0x11, which is the signal strength at the tuned frequency in FSK receive
  mode (\<open>None\<close> when the bus fails) and the mask of the interrupts in LoRa mode. The LoRa bit of the mode can be
  \<open>stuck\<close>, or be writable in a sleep mode only.
\<close>

record radio_chip =
  op_mode :: u8
  frf_msb :: u8
  frf_mid :: u8
  frf_lsb :: u8
  strength :: "nat \<Rightarrow> u8 option"
  irq_flags_mask :: u8
  stuck_at_lora :: bool
  sleep_only :: bool

definition tuned :: "radio_chip \<Rightarrow> nat" where
  "tuned w = unat (frf_msb w) * 65536 + unat (frf_mid w) * 256 + unat (frf_lsb w)"

definition mode_after :: "radio_chip \<Rightarrow> u8 \<Rightarrow> u8" where
  "mode_after w v =
     (if stuck_at_lora w then v OR 0x80
      else if sleep_only w \<and> op_mode w AND 0x07 \<noteq> 0 then (v AND 0x7F) OR (op_mode w AND 0x80)
      else v)"

definition chip_writer :: "radio_chip spi_register_writer_t" where
  "chip_writer h reg data len w =
     (SX_OK,
      if reg = 0x01 then w\<lparr>op_mode := mode_after w (hd data)\<rparr>
      else if reg = 0x06 then w\<lparr>frf_msb := hd data\<rparr>
      else if reg = 0x07 then w\<lparr>frf_mid := hd data\<rparr>
      else if reg = 0x08 then w\<lparr>frf_lsb := hd data\<rparr>
      else w)"

definition chip_reader :: "radio_chip spi_register_reader_t" where
  "chip_reader h reg len w =
     (if reg = 0x01 then (SX_OK, [op_mode w])
      else if reg = 0x11 then
        (if op_mode w AND 0x80 \<noteq> 0 then (SX_OK, [irq_flags_mask w])
         else if op_mode w AND 0x07 \<noteq> 0x05 then (SX_OK, [0])
         else case strength w (tuned w) of None \<Rightarrow> (SX_INVALID_RESPONSE, []) | Some b \<Rightarrow> (SX_OK, [b]))
      else (SX_OK, replicate (nat len) 0), w)"

definition chip_port :: "radio_chip spi_port_t" where
  "chip_port = snd (spi_port_init (Some chip_writer) (Some chip_reader) 0)"

definition chip_timer :: "radio_chip sx127x_timer_ctx_t" where
  "chip_timer = sx127x_timer_init (Some (\<lambda>w. (0, w))) (Some (\<lambda>ms w. w))"

definition on_chip :: "(radio_chip, 'z) machine_scheme \<Rightarrow> bool" where
  "on_chip s \<longleftrightarrow> sx127x_spi_port s = chip_port \<and> sx127x_logger s = zero_logger \<and> sx127x_timer_ctx s = chip_timer"

lemma chip_port_sel [simp]:
  "initialized chip_port" "writer chip_port = Some chip_writer" "reader chip_port = Some chip_reader"
  "timer chip_timer = Some (\<lambda>w. (0, w))" "delayer chip_timer = Some (\<lambda>ms w. w)"
  by (simp_all add: chip_port_def spi_port_init_def chip_timer_def sx127x_timer_init_def)

interpretation chip_bus: register_bus chip_port
  by unfold_locales (auto simp: chip_reader_def split: if_splits option.splits)

lemma on_chip_usable: "on_chip s \<Longrightarrow> usable s"
  by (simp add: on_chip_def usable_def chip_bus.register_bus_axioms logger_ok_init)

lemma on_chip_update [simp]:
  "on_chip (s\<lparr>world := w\<rparr>) = on_chip s" "on_chip (s\<lparr>blocks := b\<rparr>) = on_chip s" "on_chip (s\<lparr>fresh := n\<rparr>) = on_chip s"
  by (simp_all add: on_chip_def)

lemma chip_write:
  "on_chip s \<Longrightarrow> spi_write reg data len s = Some (Ret SX_OK (s\<lparr>world := snd (chip_writer 0 reg data len (world s))\<rparr>))"
  by (simp add: on_chip_def spi_write_def on_world_def spi_burst_write_reg_def chip_writer_def)

lemma chip_mode: "on_chip s \<Longrightarrow> sx1278_switch_mode v s
    = Some (Ret SX_OK (s\<lparr>world := (world s)\<lparr>op_mode := mode_after (world s) v\<rparr>\<rparr>))"
  by (simp add: sx1278_switch_mode_def chip_write chip_writer_def)

lemma chip_read_mode: "on_chip s \<Longrightarrow> sx_1278_get_op_mode old s = Some (Ret (SX_OK, op_mode (world s)) s)"
  by (simp add: on_chip_def sx_1278_get_op_mode_def spi_read1_def spi_read_def on_world_def spi_burst_read_reg_def
      chip_reader_def buf_write_def overlay_def)

lemma chip_delay: "on_chip s \<Longrightarrow> delay_ms ms s = Some (Ret () s)"
  by (simp add: on_chip_def delay_ms_def on_world_def sx127x_task_delay_ms_def)

lemma chip_log: "on_chip s \<Longrightarrow> length tag + length str \<le> 4093 \<Longrightarrow> log_err tag str s = Some (Ret () s)"
  by (simp add: on_chip_def test_log)

text \<open>The synthesizer steps of channel \<open>i\<close>, and what the scan stores for it.\<close>

definition steps :: "nat \<Rightarrow> nat \<Rightarrow> nat" where
  "steps bw i = (863000000 + i * bw + bw div 2) * 2 ^ 19 div 32000000"

definition scan_entry :: "radio_chip \<Rightarrow> nat \<Rightarrow> nat \<Rightarrow> rssi" where
  "scan_entry w bw i =
     (if stuck_at_lora w then Some (dbm_of (irq_flags_mask w)) else map_option dbm_of (strength w (steps bw i)))"

definition fixed_parts :: "radio_chip \<Rightarrow> radio_chip \<Rightarrow> bool" where
  "fixed_parts w v \<longleftrightarrow> strength v = strength w \<and> irq_flags_mask v = irq_flags_mask w \<and>
     stuck_at_lora v = stuck_at_lora w \<and> sleep_only v = sleep_only w \<and> op_mode v = op_mode w"

text \<open>Selecting a channel tunes the chip.\<close>

lemma chip_tunes:
  assumes p: "on_chip s" and bw: "known_bandwidth (lora_bandwidth_hz s)"
    and i: "i < unat (channel_count (lora_bandwidth_hz s))"
  shows "\<exists>w. sx_1278_switch_to_nth_channel (of_nat i) s = Some (Ret SX_OK (s\<lparr>world := w\<rparr>)) \<and>
    fixed_parts (world s) w \<and> tuned w = steps (unat (lora_bandwidth_hz s)) i"
proof -
  let ?bw = "lora_bandwidth_hz s"
  have nz: "?bw \<noteq> 0" using bw by (auto simp: known_bandwidth_def)
  have "i < 2 ^ 64" using i unsigned_less [of "channel_count ?bw", where 'a = nat] by simp
  then have ui: "unat (of_nat i :: u64) = i" by (simp add: unsigned_of_nat take_bit_nat_eq_self)
  then have lt: "(of_nat i :: u64) < ucast (channel_count ?bw)" using i by (simp add: word_less_nat_alt unat_u64_of_u32)
  define frf where "frf = frf_of (raw_freq ?bw (of_nat i))"
  note f = unat_raw_freq [OF bw lt, unfolded ui]
  have frf: "unat frf = steps (unat ?bw) i"
    unfolding frf_def steps_def using f by (subst unat_frf_of) simp_all
  moreover have "steps (unat ?bw) i = unat (raw_freq ?bw (of_nat i)) * 2 ^ 19 div 32000000"
    using f by (simp only: steps_def)
  then have "steps (unat ?bw) i < 2 ^ 24" using f [THEN conjunct2] by simp
  ultimately have three: "unat (ucast (drop_bit 16 frf AND 0xFF) :: u8) * 65536
      + unat (ucast (drop_bit 8 frf AND 0xFF) :: u8) * 256 + unat (ucast (frf AND 0xFF) :: u8) = steps (unat ?bw) i"
    using three_bytes [of frf] by simp
  let ?w = "(world s)\<lparr>frf_msb := ucast (drop_bit 16 frf AND 0xFF), frf_mid := ucast (drop_bit 8 frf AND 0xFF),
    frf_lsb := ucast (frf AND 0xFF)\<rparr>"
  have "sx_1278_switch_to_nth_channel (of_nat i) s = run_writes (frf_writes ?bw (of_nat i)) s"
    using switch_channel_run [OF nz, of "of_nat i"] lt by simp
  also have "\<dots> = Some (Ret SX_OK (s\<lparr>world := ?w\<rparr>))"
    using p by (simp add: frf_writes_def Let_def frf_def [symmetric] ok_or_return_def chip_write chip_writer_def)
  finally show ?thesis using three by (intro exI [of _ ?w]) (simp add: fixed_parts_def tuned_def)
qed

lemma chip_rssi:
  assumes "on_chip s" and "if stuck_at_lora (world s) then op_mode (world s) AND 0x80 \<noteq> 0 else op_mode (world s) = 0x05"
    and "tuned (world s) = steps bw i"
  shows "\<exists>r b. spi_read1 0x11 0 s = Some (Ret (r, b) s) \<and>
    scan_entry (world s) bw i = (if r = SX_OK then Some (dbm_of b) else None)"
proof -
  have "spi_read1 0x11 0 s = Some (Ret (case scan_entry (world s) bw i of
      None \<Rightarrow> (SX_INVALID_RESPONSE, 0)
    | Some _ \<Rightarrow> (SX_OK, if stuck_at_lora (world s) then irq_flags_mask (world s)
        else the (strength (world s) (steps bw i)))) s)"
    using assms
    by (cases "strength (world s) (steps bw i)")
      (simp_all add: on_chip_def spi_read1_def spi_read_def on_world_def spi_burst_read_reg_def chip_reader_def
        buf_write_def overlay_def scan_entry_def)
  then show ?thesis
    by (cases "strength (world s) (steps bw i)") (auto simp: scan_entry_def)
qed

lemma fixed_parts_entry: "fixed_parts v w \<Longrightarrow> scan_entry w = scan_entry v"
  by (rule ext)+ (simp add: fixed_parts_def scan_entry_def)

lemma fixed_parts_trans: "fixed_parts u v \<Longrightarrow> fixed_parts v w \<Longrightarrow> fixed_parts u w"
  by (simp add: fixed_parts_def)

lemma chip_loop:
  assumes "on_chip s" and "known_bandwidth (lora_bandwidth_hz s)" and "tmp \<noteq> NULL"
    and "n = unat (channel_count (lora_bandwidth_hz s))" and "length arr = n" and "drop i arr = replicate (n - i) None"
    and "if stuck_at_lora (world s) then op_mode (world s) AND 0x80 \<noteq> 0 else op_mode (world s) = 0x05" and "i \<le> n"
  shows "\<exists>w. rssi_loop tmp n i arr s = Some (Ret (take i arr
      @ map (scan_entry (world s) (unat (lora_bandwidth_hz s))) [i..<n]) (s\<lparr>world := w\<rparr>)) \<and> fixed_parts (world s) w"
  using assms
proof (induction "n - i" arbitrary: i arr s)
  case 0
  then show ?case
    by (intro exI [of _ "world s"]) (subst rssi_loop.simps, simp add: fixed_parts_def)
next
  case (Suc m)
  let ?bw = "lora_bandwidth_hz s" and ?e = "scan_entry (world s) (unat (lora_bandwidth_hz s))"
  have i: "i < n" using Suc.hyps(2) by simp
  from chip_tunes [OF Suc.prems(1,2), of i] i Suc.prems(4) obtain w
    where w: "sx_1278_switch_to_nth_channel (of_nat i) s = Some (Ret SX_OK (s\<lparr>world := w\<rparr>))"
      "fixed_parts (world s) w" "tuned w = steps (unat ?bw) i" by blast
  let ?s = "s\<lparr>world := w\<rparr>"
  have ready: "if stuck_at_lora (world ?s) then op_mode (world ?s) AND 0x80 \<noteq> 0 else op_mode (world ?s) = 0x05"
    using Suc.prems(7) w(2) by (simp add: fixed_parts_def)
  have p: "on_chip ?s" using Suc.prems(1) by simp
  obtain r b where rd: "spi_read1 0x11 0 ?s = Some (Ret (r, b) ?s)"
    "scan_entry w (unat ?bw) i = (if r = SX_OK then Some (dbm_of b) else None)"
    using chip_rssi [OF p ready, of "unat ?bw" i] w(3) by auto
  have e: "scan_entry w = scan_entry (world s)" by (rule fixed_parts_entry [OF w(2)])
  have "arr ! i = None" using Suc.prems(5,6) i by (metis Cons_nth_drop_Suc Suc_diff_Suc list.inject replicate_Suc)
  then have upd: "(if r = SX_OK then arr[i := Some (dbm_of b)] else arr) = arr[i := ?e i]"
    using rd(2) e list_update_id [of arr i] by auto
  have "rssi_loop tmp n i arr s = rssi_loop tmp n (Suc i) (if r = SX_OK then arr[i := Some (dbm_of b)] else arr) ?s"
    using i w(1) rd(1) chip_delay [OF p] chip_log [OF p, of UTILS_TAG] Suc.prems(3)
    by (subst rssi_loop.simps) (simp add: dbm_of_def UTILS_TAG_def)
  then have step: "rssi_loop tmp n i arr s = rssi_loop tmp n (Suc i) (arr[i := ?e i]) ?s" using upd by simp
  have "drop (Suc i) (arr[i := ?e i]) = tl (drop i arr)" by (simp add: drop_update_cancel) (simp add: drop_Suc tl_drop)
  then have d: "drop (Suc i) (arr[i := ?e i]) = replicate (n - Suc i) None"
    using Suc.prems(6) by (simp add: tl_replicate)
  have "\<exists>v. rssi_loop tmp n (Suc i) (arr[i := ?e i]) ?s = Some (Ret (take (Suc i) (arr[i := ?e i])
      @ map (scan_entry (world ?s) (unat (lora_bandwidth_hz ?s))) [Suc i..<n]) (?s\<lparr>world := v\<rparr>)) \<and> fixed_parts (world ?s) v"
    using Suc.hyps(2) Suc.prems(2-5) i d ready p by (intro Suc.hyps(1)) simp_all
  then obtain v where v: "rssi_loop tmp n (Suc i) (arr[i := ?e i]) ?s = Some (Ret (take (Suc i) (arr[i := ?e i])
      @ map ?e [Suc i..<n]) (s\<lparr>world := v\<rparr>))" "fixed_parts w v" by (auto simp: e)
  have "take (Suc i) (arr[i := ?e i]) @ map ?e [Suc i..<n] = take i arr @ map ?e [i..<n]"
    using i Suc.prems(5) by (simp add: take_Suc_conv_app_nth upt_rec [of i n])
  then show ?case using step v fixed_parts_trans [OF w(2) v(2)] by auto
qed

text \<open>Into FSK mode: the LoRa bit is cleared in sleep mode, and stays when it is stuck.\<close>

lemma and_0x80: "x AND 0x80 = (if bit x 7 then 0x80 else 0)" for x :: u8
proof -
  have "bit (2 ^ 7 :: u8) n \<longleftrightarrow> n = 7" for n by (auto simp only: bit_exp_iff) auto
  then have b: "bit (0x80 :: u8) n \<longleftrightarrow> n = 7" for n by simp
  show ?thesis by (rule bit_word_eqI) (simp only: bit_and_iff b bit_0_eq bot_apply split: if_split, auto)
qed

text \<open>The mode after a request for a sleep mode, and after the two of \<open>switch_to_fsk\<close>.\<close>

lemma mode_after_sleep:
  "stuck_at_lora w \<Longrightarrow> mode_after w v = v OR 0x80"
  "\<not> stuck_at_lora w \<Longrightarrow> mode_after (w\<lparr>op_mode := mode_after w 0x80\<rparr>) 0 = 0"
  by (auto simp: mode_after_def and_0x80)

lemma chip_to_fsk:
  assumes p: "on_chip s"
  shows "switch_to_fsk s = Some (Ret SX_OK (s\<lparr>world := (world s)\<lparr>op_mode :=
    if stuck_at_lora (world s) then 0x80 else 0\<rparr>\<rparr>))"
proof -
  let ?s = "s\<lparr>world := (world s)\<lparr>op_mode := mode_after (world s) 0x80\<rparr>\<rparr>"
  let ?t = "s\<lparr>world := (world s)\<lparr>op_mode := if stuck_at_lora (world s) then 0x80 else 0\<rparr>\<rparr>"
  have "on_chip ?s" "on_chip ?t" using p by simp_all
  then have "sx1278_switch_mode 0x80 s = Some (Ret SX_OK ?s)" "sx1278_switch_mode 0 ?s = Some (Ret SX_OK ?t)"
    "sx_1278_get_op_mode 0 ?t = Some (Ret (SX_OK, op_mode (world ?t)) ?t)"
    "log_err UTILS_TAG ''operational mode stuck at lora '' ?t = Some (Ret () ?t)"
    using chip_mode [OF p, of "0x80"] chip_mode [where s = ?s and v = 0] chip_read_mode [where s = ?t and old = 0]
      chip_log [where s = ?t and tag = UTILS_TAG]
    by (auto simp: mode_after_sleep UTILS_TAG_def)
  then show ?thesis
    by (simp add: switch_to_fsk_def checked_def mode_defs)
qed

text \<open>C40: The channel scan on the chip, for every supported bandwidth and every previous operating mode: the
  entry of each channel is the signal strength at its frequency, \<open>-b / 2\<close>, and was never written
  when that could not be read, with \<open>SX_OK\<close> all the same. A chip that is stuck in LoRa mode is scanned too, and
  every entry is then computed from the interrupt mask. At the end the chip is in LoRa sleep mode; but if the
  LoRa bit can be changed in a sleep mode only, it stays in FSK mode, as it was receiving.\<close>
theorem rssi_scan_measures:
  assumes p: "on_chip s" and bw: "known_bandwidth (lora_bandwidth_hz s)" and m: "mem_ok s" and a: "alloc_ok s (fresh s)"
    and n: "n = (2000000 - 2 * unat (lora_bandwidth_hz s)) div unat (lora_bandwidth_hz s)" and r: "n \<le> length rssi_data"
  shows "\<exists>t. sx_1278_get_channel_rssis rssi_data len s = Some (Ret (SX_OK, overlay rssi_data 0
      (map (scan_entry (world s) (unat (lora_bandwidth_hz s))) [0..<n]), n) t) \<and>
    op_mode (world t) = (if stuck_at_lora (world s) \<or> \<not> sleep_only (world s) then 0x80 else 0)"
proof -
  let ?m = "if stuck_at_lora (world s) then 0x80 else 0 :: u8" and ?m5 = "if stuck_at_lora (world s) then 0x85 else 5 :: u8"
  let ?s1 = "s\<lparr>world := (world s)\<lparr>op_mode := ?m\<rparr>\<rparr>" and ?w = "(world s)\<lparr>op_mode := ?m5\<rparr>"
  have n': "n = unat (channel_count (lora_bandwidth_hz s))" using unat_channel_count [OF bw] n by simp
  have nz: "lora_bandwidth_hz s \<noteq> 0" using bw by (auto simp: known_bandwidth_def)
  have rx: "sx1278_switch_mode MODE_FSK_RECEIVER ?s1 = Some (Ret SX_OK (s\<lparr>world := ?w\<rparr>))"
    using p by (simp add: chip_mode mode_defs mode_after_def)
  let ?s = "s\<lparr>blocks := (blocks s)(fresh s \<mapsto> Bytes (junk_bytes (junk s (fresh s)) (n * 8))), fresh := Suc (fresh s),
    world := ?w\<rparr>"
  have z: "fresh s \<noteq> NULL" "blocks s (fresh s) = None" using m by (simp_all add: mem_ok_def)
  have al: "malloc_bytes (n * 8) (s\<lparr>world := ?w\<rparr>) = Some (Ret (fresh s) ?s)"
    using a by (simp add: malloc_bytes_def alloc_def Let_def)
  have ps: "on_chip ?s" using p by simp
  have e: "scan_entry ?w = scan_entry (world s)" by (rule ext)+ (simp add: scan_entry_def)
  have ready: "if stuck_at_lora (world ?s) then op_mode (world ?s) AND 0x80 \<noteq> 0 else op_mode (world ?s) = 0x05"
    by simp
  obtain v where lp: "rssi_loop (fresh s) n 0 (replicate n None) ?s = Some (Ret
      (map (scan_entry (world s) (unat (lora_bandwidth_hz s))) [0..<n]) (?s\<lparr>world := v\<rparr>))" "fixed_parts ?w v"
    using chip_loop [OF ps _ z(1) _ _ _ ready, of n "replicate n None" 0] bw n' e by auto
  let ?t = "s\<lparr>fresh := Suc (fresh s), world := v\<rparr>"
  have fr: "c_free (fresh s) (?s\<lparr>world := v\<rparr>) = Some (Ret () ?t)"
    using z by (simp add: c_free_def fun_upd_idem)
  have pt: "on_chip ?t" using p by simp
  have "sx_1278_get_channel_rssis rssi_data len s = Some (Ret (SX_OK, overlay rssi_data 0
      (map (scan_entry (world s) (unat (lora_bandwidth_hz s))) [0..<n]), n)
      (?t\<lparr>world := v\<lparr>op_mode := mode_after v (MODE_SLEEP OR MODE_LORA)\<rparr>\<rparr>))"
    using chip_to_fsk [OF p] rx al lp(1) fr z r nz chip_mode [OF pt, of "MODE_SLEEP OR MODE_LORA"]
    by (simp add: sx_1278_get_channel_rssis_def channel_num_run unat_u64_of_u32 n' [symmetric] Let_def)
  moreover have "mode_after v (MODE_SLEEP OR MODE_LORA)
      = (if stuck_at_lora (world s) \<or> \<not> sleep_only (world s) then 0x80 else 0)"
    using lp(2) by (auto simp: fixed_parts_def mode_after_def mode_defs)
  ultimately show ?thesis by simp
qed

text \<open>A chip in LoRa receive mode, one channel out of reach and one with a strength of -90.\<close>

definition demo_chip :: radio_chip where
  "demo_chip = \<lparr>op_mode = 0x85, frf_msb = 0, frf_mid = 0, frf_lsb = 0,
     strength = (\<lambda>f. if f = steps 500000 0 then None else Some 180), irq_flags_mask = 0,
     stuck_at_lora = False, sleep_only = True\<rparr>"

definition demo_scan :: "radio_chip machine" where
  "demo_scan = (boot demo_chip)\<lparr>sx127x_spi_port := chip_port, sx127x_timer_ctx := chip_timer,
     lora_bandwidth_hz := 500000\<rparr>"

lemma demo_scan_facts:
  "on_chip demo_scan" "mem_ok demo_scan" "alloc_ok demo_scan (fresh demo_scan)" "lora_bandwidth_hz demo_scan = 500000"
  "world demo_scan = demo_chip"
  by (simp_all add: demo_scan_def on_chip_def mem_ok_def boot_def)

lemma rssi_scan_measures_witness:
  "\<exists>t. sx_1278_get_channel_rssis [Some 1, Some 2, Some 3] 0 demo_scan
      = Some (Ret (SX_OK, [None, Some (- 90), Some 3], 2) t) \<and> op_mode (world t) = 0"
proof -
  have e: "scan_entry demo_chip 500000 0 = None" "scan_entry demo_chip 500000 1 = Some (- 90)"
    "\<not> stuck_at_lora demo_chip" "sleep_only demo_chip" "[0..<2] = [0, 1]"
    by (simp_all add: scan_entry_def demo_chip_def dbm_of_def steps_def upt_conv_Cons)
  have "known_bandwidth (lora_bandwidth_hz demo_scan)" by (simp add: demo_scan_facts known_bandwidth_def)
  from rssi_scan_measures [OF demo_scan_facts(1) this demo_scan_facts(2,3), of 2 "[Some 1, Some 2, Some 3]" 0]
  show ?thesis by (simp add: demo_scan_facts e overlay_def del: One_nat_def)
qed

lemma rssi_scan_returns_witness:
  "\<exists>ret data' len' t. sx_1278_get_channel_rssis [None, None] 0 demo_scan = Some (Ret (ret, data', len') t) \<and>
    blocks t = blocks demo_scan"
proof -
  have "2 = unat (channel_count (lora_bandwidth_hz demo_scan))"
    by (simp add: unat_channel_count known_bandwidth_def demo_scan_facts)
  from rssi_scan_returns [OF on_chip_usable [OF demo_scan_facts(1)] demo_scan_facts(2) _ demo_scan_facts(3) this,
      of "[None, None]" 0] demo_scan_facts(4)
  show ?thesis by auto
qed

end
