(* ===== verification/Timing.thy ===== *)
theory Timing
  imports Utils
begin

text \<open>
  How long the sending side of the library can take. On a platform whose callbacks return in bounded
  time, every operation of \<open>sx127x_driver.c\<close> and \<open>sx127x_utils.c\<close> up to \<open>send_burst\<close> ends within a time that
  is computed by the structure of its code, whatever the chip answers and whatever the heap holds: it returns, or it
  ends in a memory fault.
\<close>

unbundle bit_operations_syntax

section \<open>Commands on the heap\<close>

definition memory_fault :: "fault \<Rightarrow> bool" where
  "memory_fault f \<longleftrightarrow> f = Bad_Pointer \<or> f = Out_Of_Bounds \<or> f = Bad_Free"

lemma memory_fault_simps [simp]: "memory_fault Bad_Pointer" "memory_fault Out_Of_Bounds" "memory_fault Bad_Free"
  by (simp_all add: memory_fault_def)

text \<open>A command that ends, and changes the heap only.\<close>

definition heap_only :: "('z cmem_scheme, 'a) cmd \<Rightarrow> bool" where
  "heap_only m \<longleftrightarrow> (\<forall>s. case m s of
       None \<Rightarrow> False
     | Some (Fault f) \<Rightarrow> memory_fault f
     | Some (Ret a t) \<Rightarrow> \<exists>b n. t = s\<lparr>blocks := b, fresh := n\<rparr>)"

named_theorems heap_only_intros "commands that change the heap only"

lemma same_heap:
  "\<exists>b n. s = s\<lparr>blocks := b, fresh := n\<rparr>" "\<exists>b n. s\<lparr>fresh := k\<rparr> = s\<lparr>blocks := b, fresh := n\<rparr>"
  "\<exists>b n. s\<lparr>blocks := c\<rparr> = s\<lparr>blocks := b, fresh := n\<rparr>" for s :: "'z cmem_scheme"
  by (rule exI [of _ "blocks s"], rule exI [of _ "fresh s"], simp)
    (rule exI [of _ "blocks s"], rule exI [of _ k], simp, rule exI [of _ c], rule exI [of _ "fresh s"], simp)

lemma heap_only_give [heap_only_intros]: "heap_only (give a)"
  by (simp add: heap_only_def same_heap)

lemma heap_only_crash [heap_only_intros]: "memory_fault f \<Longrightarrow> heap_only (crash f)"
  by (simp add: heap_only_def)

lemma heap_only_andThen [heap_only_intros]:
  assumes m: "heap_only m" and k: "\<And>a. heap_only (k a)"
  shows "heap_only (andThen m k)"
  unfolding heap_only_def
proof
  fix s
  show "case andThen m k s of None \<Rightarrow> False | Some (Fault f) \<Rightarrow> memory_fault f
      | Some (Ret a t) \<Rightarrow> \<exists>b n. t = s\<lparr>blocks := b, fresh := n\<rparr>"
  proof (cases "m s")
    case None
    then show ?thesis using m [unfolded heap_only_def, rule_format, of s] by simp
  next
    case (Some r)
    then show ?thesis
      using m [unfolded heap_only_def, rule_format, of s] k [unfolded heap_only_def, rule_format]
      by (cases r) (fastforce split: option.splits outcome.splits)+
  qed
qed

lemma heap_only_if [heap_only_intros]: "heap_only m \<Longrightarrow> heap_only n \<Longrightarrow> heap_only (if b then m else n)"
  by simp

lemma heap_only_prod [heap_only_intros]: "(\<And>a b. heap_only (f a b)) \<Longrightarrow> heap_only (case x of (a, b) \<Rightarrow> f a b)"
  by (cases x) simp

lemma heap_only_access [heap_only_intros]:
  "heap_only (malloc_bytes n)" "heap_only malloc_packet" "heap_only (malloc_ptrs n)" "heap_only (c_free p)"
  "heap_only (load_packet p)" "heap_only (store_packet p f)" "heap_only (read_bytes p n)"
  "heap_only (write_bytes p i xs)" "heap_only (buf_read bs i n)" "heap_only (buf_write bs i xs)"
  by (auto simp: heap_only_def malloc_bytes_def malloc_packet_def malloc_ptrs_def alloc_def Let_def c_free_def
      load_packet_def store_packet_def read_bytes_def write_bytes_def buf_read_def buf_write_def
      intro: same_heap split: option.splits block.splits)

lemma heap_only_packet [heap_only_intros]:
  "heap_only (packet_description p buf)" "heap_only (free_packet p)" "heap_only (parse_packet raw p)"
  "heap_only (packet_to_bytestream bs n p)"
  unfolding packet_description_def free_packet_def parse_packet_def packet_to_bytestream_def Let_def
  by (intro heap_only_intros)+

section \<open>Platforms with callbacks of bounded duration\<close>

text \<open>No callback takes more than \<open>D\<close> microseconds; a delay may take its milliseconds beside.\<close>

locale timed_platform = ticking_platform now port tm
  for now :: "'w \<Rightarrow> int" and port :: "'w spi_port_t" and tm :: "'w sx127x_timer_ctx_t" +
  fixes lg :: "'w logger_ctx_t" and D :: nat
  assumes write_soon: "writer port = Some f \<Longrightarrow> f h reg data len w = (ret, w') \<Longrightarrow> now w' \<le> now w + int D"
    and read_soon: "reader port = Some g \<Longrightarrow> g h reg len w = (r, w') \<Longrightarrow> now w' \<le> now w + int D"
    and log_soon: "logger lg = Some l \<Longrightarrow> now (l str level w) \<le> now w + int D"
    and time_soon: "timer tm = Some c \<Longrightarrow> c w = (v, w') \<Longrightarrow> now w' \<le> now w + int D"
    and delay_soon: "delayer tm = Some d \<Longrightarrow> now (d ms w) \<le> now w + 1000 * int (unat ms) + int D"
begin

definition placed :: "('w, 'z) machine_scheme \<Rightarrow> bool" where
  "placed s \<longleftrightarrow> in_place port tm s \<and> sx127x_logger s = lg"

text \<open>\<open>ends_by l r\<close>: the outcome \<open>r\<close> is a memory fault, or a return no later than \<open>l\<close>. \<open>takes k b m\<close>: with at
  most \<open>k\<close> callbacks and \<open>b\<close> microseconds of waiting the command ends.\<close>

definition ends_by :: "int \<Rightarrow> ('a, ('w, 'z) machine_scheme) outcome option \<Rightarrow> bool" where
  "ends_by l r \<longleftrightarrow> (case r of
       None \<Rightarrow> False
     | Some (Fault f) \<Rightarrow> memory_fault f
     | Some (Ret a t) \<Rightarrow> placed t \<and> now (world t) \<le> l)"

definition takes :: "nat \<Rightarrow> nat \<Rightarrow> ('w, 'z, 'a) mcmd \<Rightarrow> bool" where
  "takes k b m \<longleftrightarrow> (\<forall>s. placed s \<longrightarrow> now (world s) + int (k * D + b) < 2 ^ 63 - 1 \<longrightarrow>
     ends_by (now (world s) + int (k * D + b)) (m s))"

lemma ends_by_simps [simp]:
  "\<not> ends_by l None" "ends_by l (Some (Fault f)) \<longleftrightarrow> memory_fault f"
  "ends_by l (Some (Ret a t)) \<longleftrightarrow> placed t \<and> now (world t) \<le> l"
  by (simp_all add: ends_by_def)

lemma ends_by_mono: "ends_by l r \<Longrightarrow> l \<le> l' \<Longrightarrow> ends_by l' r"
  by (auto simp: ends_by_def split: option.splits outcome.splits)

lemma takesD: "takes k b m \<Longrightarrow> placed s \<Longrightarrow> now (world s) + int (k * D + b) < 2 ^ 63 - 1 \<Longrightarrow>
    ends_by (now (world s) + int (k * D + b)) (m s)"
  by (simp add: takes_def)

lemma takes_mono:
  assumes "takes k b m" and "k \<le> k'" and "b \<le> b'"
  shows "takes k' b' m"
proof -
  have le: "int (k * D + b) \<le> int (k' * D + b')" using assms(2,3) by (simp only: of_nat_le_iff add_mono mult_le_mono1)
  show ?thesis
    unfolding takes_def
  proof (intro allI impI, goal_cases)
    case (1 s)
    then have "now (world s) + int (k * D + b) < 2 ^ 63 - 1" using le by linarith
    from takesD [OF assms(1) 1(1) this] show ?case by (rule ends_by_mono) (use le in linarith)
  qed
qed

lemma placed_update [simp]:
  "placed (s\<lparr>blocks := h\<rparr>) = placed s" "placed (s\<lparr>fresh := n\<rparr>) = placed s"
  "placed (s\<lparr>rx_buffer := x\<rparr>) = placed s" "placed (s\<lparr>tx_buffer := x\<rparr>) = placed s"
  by (simp_all add: placed_def in_place_def usable_def)

lemma placed_facts:
  assumes "placed s"
  shows "usable s" and "register_bus port" and "logger_ok lg" and "sx127x_spi_port s = port"
    and "sx127x_timer_ctx s = tm" and "sx127x_logger s = lg"
  using assms by (auto simp: placed_def in_place_def usable_def)

lemma takes_give: "takes 0 0 (give a)"
  by (simp add: takes_def)

lemma takes_gets: "takes 0 0 (gets f)"
  by (simp add: takes_def)

lemma takes_crash: "memory_fault f \<Longrightarrow> takes 0 0 (crash f)"
  by (simp add: takes_def)

lemma takes_andThen:
  fixes m :: "('w, 'z, 'a) mcmd"
  assumes m: "takes k b m" and f: "\<And>a. takes j c (f a)"
  shows "takes (k + j) (b + c) (andThen m f)"
  unfolding takes_def
proof (intro allI impI)
  fix s :: "('w, 'z) machine_scheme"
  assume p: "placed s" and l: "now (world s) + int ((k + j) * D + (b + c)) < 2 ^ 63 - 1"
  have l': "now (world s) + int (k * D + b) + int (j * D + c) < 2 ^ 63 - 1" using l by (simp add: algebra_simps)
  then have "now (world s) + int (k * D + b) < 2 ^ 63 - 1" by linarith
  note ms = takesD [OF m p this]
  show "ends_by (now (world s) + int ((k + j) * D + (b + c))) (andThen m f s)"
  proof (cases "m s")
    case (Some r)
    then show ?thesis
    proof (cases r)
      case (Ret a t)
      then have t: "placed t" "now (world t) \<le> now (world s) + int (k * D + b)" using ms Some by simp_all
      then have "now (world t) + int (j * D + c) < 2 ^ 63 - 1" using l' by linarith
      from takesD [OF f t(1) this, of a] have "ends_by (now (world s) + int ((k + j) * D + (b + c))) (f a t)"
        by (rule ends_by_mono) (use t(2) in \<open>simp add: algebra_simps\<close>)
      then show ?thesis using Some Ret by simp
    qed (use ms Some in simp)
  qed (use ms in simp)
qed

lemma takes_if: "takes k b m \<Longrightarrow> takes j c n \<Longrightarrow> takes (max k j) (max b c) (if x then m else n)"
  by (auto intro: takes_mono)

lemma takes_prod: "(\<And>x y. takes k b (f x y)) \<Longrightarrow> takes k b (case p of (x, y) \<Rightarrow> f x y)"
  by (cases p) simp

lemma takes_heap:
  assumes "heap_only m"
  shows "takes 0 0 m"
  unfolding takes_def
proof (intro allI impI, goal_cases)
  case (1 s)
  then show ?case using assms [unfolded heap_only_def, rule_format, of s]
    by (cases "m s") (auto split: outcome.splits)
qed

lemma takes_buffers: "takes 0 0 (modify (\<lambda>s. s\<lparr>rx_buffer := x\<rparr>))" "takes 0 0 (modify (\<lambda>s. s\<lparr>tx_buffer := x\<rparr>))"
  by (simp_all add: takes_def)

lemma takes_world:
  fixes m :: "('w, 'z, 'a) mcmd"
  assumes "\<And>s. placed s \<Longrightarrow> case m s of None \<Rightarrow> False | Some (Fault f) \<Rightarrow> memory_fault f
    | Some (Ret a t) \<Rightarrow> world_only s t \<and> now (world t) \<le> now (world s) + int (k * D + b)"
  shows "takes k b m"
  unfolding takes_def
proof (intro allI impI)
  fix s :: "('w, 'z) machine_scheme"
  assume p: "placed s"
  have "world_only s t \<Longrightarrow> placed t" for t
    using p in_place_world_only by (auto simp: placed_def world_only_sel)
  then show "ends_by (now (world s) + int (k * D + b)) (m s)"
    using assms [OF p] by (auto simp: ends_by_def split: option.splits outcome.splits)
qed

lemma takes_write: "takes 1 0 (spi_write reg data len)"
proof (rule takes_world, goal_cases)
  case (1 s)
  show ?case
    using placed_facts(2,4) [OF 1] register_bus.connected register_bus.writes write_soon
    by (fastforce simp: spi_write_def on_world_def spi_burst_write_reg_def split: option.splits prod.splits)
qed

lemma takes_read: "takes 1 0 (spi_read reg buf len)"
proof (rule takes_world, goal_cases)
  case (1 s)
  show ?case
    using placed_facts(2,4) [OF 1] register_bus.connected register_bus.reads read_soon
    by (fastforce simp: spi_read_def on_world_def spi_burst_read_reg_def buf_write_def split: option.splits prod.splits)
qed

lemma takes_read1: "takes 1 0 (spi_read1 reg old)"
  unfolding spi_read1_def using takes_andThen [OF takes_read takes_prod [OF takes_give]] by simp

lemma takes_log: "length tag + length str \<le> 4093 \<Longrightarrow> takes 1 0 (log_err tag str)"
  and takes_log_tag: "length tag + length str \<le> 4093 \<Longrightarrow> takes 1 0 (log_tag tag str level)"
proof -
  have soon: "now (logged lg tag str level w) \<le> now w + int D" for level w
    using log_soon by (auto simp: logged_def split: option.splits)
  assume l: "length tag + length str \<le> 4093"
  show "takes 1 0 (log_err tag str)"
  proof (rule takes_world, goal_cases)
    case (1 s)
    show ?case using placed_facts(3,6) [OF 1] l soon
      by (simp add: log_err_def on_world_def network_log_err_run)
  qed
  show "takes 1 0 (log_tag tag str level)"
  proof (rule takes_world, goal_cases)
    case (1 s)
    show ?case using placed_facts(3,6) [OF 1] l soon
      by (simp add: log_tag_def on_world_def network_log_with_tag_run)
  qed
qed

lemma takes_steps:
  "takes 1 0 (sx1278_switch_mode m)" "takes 1 0 sx1278_clear_irq" "takes 1 0 (sx1278_read_irq old)"
  by (simp_all only: sx1278_switch_mode_def sx1278_clear_irq_def sx1278_read_irq_def takes_write takes_read1 Let_def)

lemma takes_cleanup: "takes 1 0 (irq_cleanup c)"
  unfolding irq_cleanup_def
  by (rule takes_mono, rule takes_if [OF takes_andThen [OF takes_write takes_give] takes_give]) simp_all

lemma takes_time: "takes 1 0 time_us"
proof (rule takes_world, goal_cases)
  case (1 s)
  obtain c where c: "timer tm = Some c" "sx127x_timer_ctx s = tm"
    using placed_facts(1,5) [OF 1] by (auto simp: usable_def)
  obtain v w where w: "c (world s) = (v, w)" by fastforce
  then have "time_us s = Some (Ret v (s\<lparr>world := w\<rparr>))"
    using c by (simp add: time_us_def on_world_run get_time_run)
  then show ?case using time_soon [OF c(1) w] by simp
qed

lemma takes_delay: "takes 1 (1000 * unat ms) (delay_ms ms)"
proof (rule takes_world, goal_cases)
  case (1 s)
  obtain d where d: "delayer tm = Some d" "sx127x_timer_ctx s = tm"
    using placed_facts(1,5) [OF 1] by (auto simp: usable_def)
  then have "delay_ms ms s = Some (Ret () (s\<lparr>world := d ms (world s)\<rparr>))"
    by (simp add: delay_ms_def on_world_run delay_run)
  then show ?case using delay_soon [OF d(1), of ms "world s"] by simp
qed

lemma takes_exits: "m \<in> poll_exits cleanup \<Longrightarrow> takes 2 0 (m :: ('w, 'b, sx127x_err_t) mcmd)"
proof -
  have log: "takes 1 0 (log_err DRIVER_TAG (''couldnt read irq register'' @ [CHR 0x0A]) :: ('w, 'b, unit) mcmd)"
    "takes 1 0 (log_err DRIVER_TAG ''polling timeout'' :: ('w, 'b, unit) mcmd)"
    by (rule takes_log; simp)+
  assume "m \<in> poll_exits cleanup"
  then show "takes 2 0 m"
    unfolding poll_exits_def
  proof (elim UnE rangeE insertE emptyE; hypsubst)
    show "takes 2 0 (andThen (log_err DRIVER_TAG (''couldnt read irq register'' @ [CHR 0x0A])) (\<lambda>_.
        andThen (irq_cleanup cleanup) (\<lambda>_. give ret)) :: ('w, 'b, sx127x_err_t) mcmd)" for ret
      by (rule takes_mono, rule takes_andThen [OF log(1) takes_andThen [OF takes_cleanup takes_give]]) simp_all
    show "takes 2 0 (andThen (irq_cleanup cleanup) (\<lambda>_. give SX_OK) :: ('w, 'b, sx127x_err_t) mcmd)"
      by (rule takes_mono, rule takes_andThen [OF takes_cleanup takes_give]) simp_all
    show "takes 2 0 (andThen (irq_cleanup cleanup) (\<lambda>_. andThen (log_err DRIVER_TAG ''polling timeout'') (\<lambda>_.
        give SX_TIMEOUT)) :: ('w, 'b, sx127x_err_t) mcmd)"
      by (rule takes_mono, rule takes_andThen [OF takes_cleanup takes_andThen [OF log(2) takes_give]]) simp_all
  qed
qed

lemma takes_checked:
  "takes k b m \<Longrightarrow> takes j c h \<Longrightarrow> takes i d n \<Longrightarrow> takes (k + max j i) (b + max c d) (checked m h n)"
  unfolding checked_def using takes_andThen [OF _ takes_if [OF takes_andThen [OF _ takes_give]]] by fastforce

text \<open>The polling loop. A round begins at most \<open>b\<close> after the start; the last one ends six callbacks later.\<close>

lemma poll_loop_takes:
  assumes "placed s" and "0 < interval" and "0 \<le> start"
    and "start + timeout_us + 1000 * int (unat interval) + int (6 * D) < 2 ^ 63 - 1" and "0 \<le> timeout_us"
    and "now (world s) \<le> start + timeout_us + 1000 * int (unat interval) + int (2 * D)"
  shows "ends_by (start + timeout_us + 1000 * int (unat interval) + int (6 * D))
    (poll_loop start timeout_us interval msk cleanup irq s)"
  using assms(1,6)
proof (induction "nat (start + timeout_us + 1 - now (world s))" arbitrary: s irq rule: less_induct)
  case less
  let ?l = "start + timeout_us + 1000 * int (unat interval)"
  have h: "in_place port tm s" using less.prems(1) by (simp add: placed_def)
  have exits: ?case if e: "poll_loop start timeout_us interval msk cleanup irq s = m s2"
    and m: "m \<in> poll_exits cleanup" and p: "placed s2" "now (world s2) \<le> ?l + int (4 * D)" for m s2
  proof -
    have "now (world s2) + int (2 * D + 0) < 2 ^ 63 - 1" using p(2) assms(4) by simp
    from takesD [OF takes_exits [OF m] p(1) this] show ?thesis
      unfolding e by (rule ends_by_mono) (use p(2) in simp)
  qed
  have l: "now (world s) + int (1 * D + 0) < 2 ^ 63 - 1" using less.prems(2) assms(4) by simp
  have p1: "placed s1" "now (world s1) \<le> ?l + int (3 * D)"
    if "spi_read1 0x12 irq s = Some (Ret (ret, irq') s1)" for ret irq' s1
    using takesD [OF takes_read1 less.prems(1) l, of "0x12" irq] that less.prems(2) by simp_all
  have p2: "placed s2" "now (world s2) \<le> now (world s1) + int D" "now (world s2) \<le> ?l + int (4 * D)"
    if "spi_read1 0x12 irq s = Some (Ret (ret, irq') s1)" "time_us s1 = Some (Ret v s2)" for ret irq' s1 v s2
  proof -
    have "now (world s1) + int (1 * D + 0) < 2 ^ 63 - 1" using p1(2) [OF that(1)] assms(4) by simp
    from takesD [OF takes_time p1(1) [OF that(1)] this] that(2) p1(2) [OF that(1)]
    show "placed s2" "now (world s2) \<le> now (world s1) + int D" "now (world s2) \<le> ?l + int (4 * D)" by simp_all
  qed
  have s: "start + timeout_us < 2 ^ 63 - 1" "start < 2 ^ 63"
    using assms(4,5) of_nat_0_le_iff [of "unat interval", where 'a = int] by linarith+
  show ?case
  proof (rule poll_round [OF h assms(2,3) s, where msk = msk and cleanup = cleanup and irq = irq])
    fix ret irq' s1 m
    assume r: "spi_read1 0x12 irq s = Some (Ret (ret, irq') s1)" and m: "m \<in> poll_exits cleanup"
      "poll_loop start timeout_us interval msk cleanup irq s = m s1"
    have "now (world s1) \<le> ?l + int (4 * D)" using p1(2) [OF r] by simp
    then show ?thesis using exits [OF m(2,1) p1(1) [OF r]] by blast
  next
    fix ret irq' s1 v s2 s3
    assume r: "spi_read1 0x12 irq s = Some (Ret (ret, irq') s1)" "time_us s1 = Some (Ret v s2)"
      and d: "delay_ms interval s2 = Some (Ret () s3)" and t1: "now (world s1) \<le> start + timeout_us"
      and t3: "now (world s) < now (world s3)"
      and e: "poll_loop start timeout_us interval msk cleanup irq s = poll_loop start timeout_us interval msk cleanup irq' s3"
    have "now (world s2) + int (1 * D + 1000 * unat interval) < 2 ^ 63 - 1" using t1 p2(2) [OF r] assms(4) by simp
    from takesD [OF takes_delay p2(1) [OF r] this] d p2(2) [OF r] t1
    have p3: "placed s3" "now (world s3) \<le> ?l + int (2 * D)" by simp_all
    assume "now (world s) \<le> now (world s1)"
    then have "nat (start + timeout_us + 1 - now (world s3)) < nat (start + timeout_us + 1 - now (world s))"
      using t1 t3 by linarith
    from less.hyps [OF this p3] show ?thesis using e by simp
  qed (use exits p2 in blast)
qed

lemma takes_poll:
  assumes "timeout_ms \<noteq> 0" and "0 \<le> sint timeout_ms" and "interval \<noteq> 0"
    and "b = 1000 * (nat (sint timeout_ms) + unat interval)"
  shows "takes 6 b (poll_for_irq_flag timeout_ms interval msk cleanup)"
  unfolding takes_def
proof (intro allI impI, goal_cases)
  case (1 s)
  have h: "in_place port tm s" using 1(1) by (simp add: placed_def)
  obtain v s1 where s1: "time_us s = Some (Ret v s1)" "sint v = min (now (world s)) (2 ^ 63 - 1)"
    using time_step [OF h] by blast
  have b: "int b = sint timeout_ms * 1000 + 1000 * int (unat interval)" using assms(2,4) by simp
  have v: "sint v = now (world s)" using s1(2) 1(2) by (simp add: min_def)
  have "now (world s) + int (1 * D + 0) < 2 ^ 63 - 1" using 1(2) by simp
  from takesD [OF takes_time 1(1) this] s1(1) have p1: "placed s1" "now (world s1) \<le> now (world s) + int D" by simp_all
  have "0 < interval" "\<not> timeout_ms \<le> 0" "\<not> interval \<le> 0" using assms(1,3) by (simp_all add: word_le_0_iff word_gt_0)
  moreover have "sint timeout_ms * 1000 \<le> now (world s) + int (6 * D + b)"
    using b now_nonneg [of "world s"] by simp
  then have "fits_i64 (sint timeout_ms * 1000)" using assms(2) 1(2) by (simp add: fits_i64_def del: of_nat_add of_nat_mult)
  moreover have "ends_by (sint v + sint timeout_ms * 1000 + 1000 * int (unat interval) + int (6 * D))
      (poll_loop (sint v) (sint timeout_ms * 1000) interval msk cleanup 0 s1)"
    using p1 v b 1(2) assms(2) now_nonneg [of "world s"] \<open>0 < interval\<close>
    by (intro poll_loop_takes) simp_all
  then have "ends_by (now (world s) + int (6 * D + b)) (poll_loop (sint v) (sint timeout_ms * 1000) interval msk cleanup 0 s1)"
    by (rule ends_by_mono) (simp add: v b)
  ultimately show ?case using s1(1) by (simp add: poll_for_irq_flag_def Let_def)
qed


section \<open>The operations\<close>

text \<open>The rules by which the duration of a function is computed from its code.\<close>

lemmas takes_rules = takes_andThen takes_if takes_prod takes_checked takes_give takes_gets takes_crash takes_write
  takes_read takes_read1 takes_steps takes_cleanup takes_log takes_log_tag takes_buffers

lemma takes_send_poll: "takes 6 3003000 (poll_for_irq_flag 3000 3 msk cleanup)"
  by (rule takes_poll) simp_all

lemma takes_receive_poll: "takes 6 3001000 (poll_for_irq_flag (word_of_int PHY_TIMEOUT_MSEC) 1 msk cleanup)"
  by (rule takes_poll) (simp_all add: PHY_TIMEOUT_MSEC_def)

lemma takes_send_payload: "takes 16 3003000 (sx1278_send_payload buf len rx)"
  unfolding sx1278_send_payload_def Let_def
  by (rule takes_mono, (rule takes_rules takes_send_poll | (simp; fail))+)

lemma takes_clear_and_log: "length str \<le> 4000 \<Longrightarrow> takes 2 0 (clear_and_log str)"
  unfolding clear_and_log_def by (rule takes_mono, (rule takes_rules | (simp; fail))+)

lemma takes_read_payload: "takes 9 0 (sx1278_read_last_payload buf len)"
  unfolding sx1278_read_last_payload_def Let_def
  by (rule takes_mono, (rule takes_rules takes_clear_and_log | (simp; fail))+)

lemma takes_send_packet: "takes 18 3003000 (sx_1278_send_packet p rx)"
  unfolding sx_1278_send_packet_def
  by (rule takes_mono, (rule takes_rules takes_send_payload takes_heap [OF heap_only_access(1)]
    takes_heap [OF heap_only_access(4)] takes_heap [OF heap_only_packet(1)] takes_heap [OF heap_only_packet(4)] | (simp; fail))+)

lemma takes_read_last_packet: "takes 12 0 (read_last_packet p)"
  unfolding read_last_packet_def rx_cleanup_def
  by (rule takes_mono, (rule takes_rules takes_read_payload takes_heap [OF heap_only_packet(3)] | (simp; fail))+)

lemma takes_poll_and_read: "takes 24 3001000 (sx1278_poll_and_read_packet rx_p PHY_TIMEOUT_MSEC)"
  unfolding sx1278_poll_and_read_packet_def
  by (rule takes_mono, (rule takes_rules takes_receive_poll takes_read_last_packet | (simp; fail))+)

text \<open>An attempt sends for at most three seconds and waits three seconds for the answer.\<close>

lemma takes_ack_loop: "takes (n * 43) (n * 6004000) (ack_loop n p rx_p p_desc ack_type)"
proof (induction n)
  case 0
  show ?case unfolding ack_loop.simps mult_0 by (rule takes_give)
next
  case (Suc n)
  show ?case
    unfolding ack_loop.simps
    by (rule takes_mono, (rule takes_rules takes_send_packet takes_poll_and_read Suc.IH takes_heap [OF heap_only_access(5)]
      takes_heap [OF heap_only_packet(1)] | (simp; fail))+)
qed

lemma takes_ensure_ack:
  "takes (nat (attempts timeout) * 43 + 2) (nat (attempts timeout) * 6004000) (send_packet_ensure_ack p timeout ack_type)"
  unfolding send_packet_ensure_ack_def Let_def
  by (rule takes_mono, (rule takes_rules takes_ack_loop takes_heap [OF heap_only_access(1)] takes_heap [OF heap_only_access(2)]
    takes_heap [OF heap_only_access(4)] takes_heap [OF heap_only_access(6)] takes_heap [OF heap_only_packet(2)] | (simp; fail))+)

lemma attempts_of_burst: "nat (attempts (4 * PHY_TIMEOUT_MSEC)) = 4"
  by (simp add: attempts_eq PHY_TIMEOUT_MSEC_def)

lemma takes_burst_packet: "takes 174 24016000 (send_packet_ensure_ack p (4 * PHY_TIMEOUT_MSEC) ack_type)"
  using takes_ensure_ack [of "4 * PHY_TIMEOUT_MSEC" p ack_type] by (simp add: attempts_of_burst)

lemma takes_burst_loop: "takes (n * 174) (n * 24016000) (burst_loop p_buf len i)" if "n = nat (len - int i)"
  using that
proof (induction n arbitrary: i)
  case 0
  then have "\<not> int i < len" by simp
  then show ?case by (subst burst_loop.simps) (simp only: if_False mult_0 takes_give)
next
  case (Suc n)
  then have "n = nat (len - int (Suc i))" by simp
  note IH = Suc.IH [OF this]
  show ?case
    by (subst burst_loop.simps) (rule takes_mono, (rule takes_rules takes_burst_packet IH
      takes_heap [OF heap_only_access(4)] | (simp; fail))+)
qed

end

text \<open>Every platform with such a clock (Driver) is one, with callbacks that take no time.\<close>

interpretation clocked_time: timed_platform "\<lambda>w. int (snd w)" "clocked_port p" clocked_timer "clocked_logger l" 0
  for p :: "'w spi_port_t" and l
  by unfold_locales (auto simp: clocked_port_def clocked_timer_def clocked_logger_def sx127x_timer_init_def split: prod.splits)

section \<open>Property\<close>

text \<open>C12: A burst ends. On every platform whose callbacks return within \<open>D\<close> microseconds (a delay may take its time
  beside), whatever the chip answers and whatever array is sent, \<open>send_burst\<close> of \<open>n\<close> packets returns within
  \<open>n\<close> times 24.016 seconds and 174 callbacks, or has run into a memory fault: a bad pointer, an access out
  of bounds or a bad \<open>free\<close>, and no other.\<close>

theorem send_burst_ends:
  assumes "timed_platform now (sx127x_spi_port s) (sx127x_timer_ctx s) (sx127x_logger s) D" and "usable s"
    and "bound = now (world s) + int (nat len * (174 * D + 24016000))" and "bound < 2 ^ 63 - 1"
  shows "(\<exists>f. send_burst p_buf len s = Some (Fault f) \<and> memory_fault f) \<or>
    (\<exists>ret t. send_burst p_buf len s = Some (Ret ret t) \<and> now (world t) \<le> bound)"
proof -
  have p: "timed_platform.placed (sx127x_spi_port s) (sx127x_timer_ctx s) (sx127x_logger s) s"
    using assms(2) by (simp add: timed_platform.placed_def [OF assms(1)] in_place_def)
  have b: "bound = now (world s) + int (nat len * 174 * D + nat len * 24016000)"
    using assms(3) by (simp add: algebra_simps)
  have "nat len = nat (len - int 0)" by simp
  from timed_platform.takesD [OF assms(1) timed_platform.takes_burst_loop [OF assms(1) this] p] b assms(4)
  have "timed_platform.ends_by now (sx127x_spi_port s) (sx127x_timer_ctx s) (sx127x_logger s) bound (send_burst p_buf len s)"
    by (simp add: send_burst_def)
  then show ?thesis
    by (auto simp: timed_platform.ends_by_def [OF assms(1)] split: option.splits outcome.splits)
qed

text \<open>Five packets on such a platform: two minutes and eighty milliseconds.\<close>

theorem send_burst_ends_witness:
  "(\<exists>f. send_burst [1, 2, 3, 4, 5] 5 (clocked_machine 0) = Some (Fault f) \<and> memory_fault f) \<or>
   (\<exists>ret t. send_burst [1, 2, 3, 4, 5] 5 (clocked_machine 0) = Some (Ret ret t) \<and> int (snd (world t)) \<le> 120080000)"
proof -
  have "timed_platform (\<lambda>w. int (snd w)) (sx127x_spi_port (clocked_machine 0)) (sx127x_timer_ctx (clocked_machine 0))
      (sx127x_logger (clocked_machine 0)) 0"
    by (simp add: clocked_machine_def clocked_time.timed_platform_axioms)
  from send_burst_ends [OF this clocked_usable, of 120080000 5 "[1, 2, 3, 4, 5]"] show ?thesis
    by (simp add: clocked_machine_def boot_def)
qed

end
