(* ===== verification/Polling.thy ===== *)
theory Polling
  imports Utils
begin

text \<open>
  The two polling loops of the library compared: \<open>poll_for_irq_flag\<close> of \<open>src/sx127x_driver.c\<close> and
  \<open>poll_for_irq_flag_no_timeout\<close> of \<open>src/sx127x_utils.c\<close>. Both are partial functions; the comparison covers the
  runs that never end.
\<close>

section \<open>Running two commands side by side\<close>

lemma andThen_follow:
  assumes "andThen m k s = Some r" and "\<And>a t. m s = Some (Ret a t) \<Longrightarrow> k a t = Some r \<Longrightarrow> k' a t = Some r"
  shows "andThen m k' s = Some r"
  using assms by (cases "m s") (auto simp: andThen_def split: outcome.splits)

lemma andThen_cong: "(\<And>a t. m s = Some (Ret a t) \<Longrightarrow> k a t = k' a t) \<Longrightarrow> andThen m k s = andThen m k' s"
  by (cases "m s") (auto simp: andThen_def split: outcome.splits)

text \<open>The clock stands still at \<open>v\<close>, and nothing is logged.\<close>

definition frozen :: "i64 \<Rightarrow> ('w, 'z) machine_scheme \<Rightarrow> bool" where
  "frozen v s \<longleftrightarrow> (\<exists>c. timer (sx127x_timer_ctx s) = Some c \<and> (\<forall>w. c w = (v, w))) \<and>
     log_level (sx127x_logger s) = UNINITIALIZED"

lemma frozen_world [simp]: "frozen v (s\<lparr>world := w\<rparr>) = frozen v s"
  by (simp add: frozen_def)

lemma frozen_time: "frozen v s \<Longrightarrow> time_us s = Some (Ret v s)"
  by (auto simp: frozen_def time_us_def on_world_def sx127x_timer_get_time_us_def)

lemma frozen_log: "frozen v s \<Longrightarrow> length tag + length str \<le> 4093 \<Longrightarrow> log_err tag str s = Some (Ret () s)"
  by (simp add: frozen_def log_err_def on_world_def network_log_err_def network_log_with_tag_def network_log_def)

lemma frozen_read: "frozen v s \<Longrightarrow> spi_read1 reg old s = Some (Ret r t) \<Longrightarrow> frozen v t"
  by (auto simp: spi_read1_def spi_read_def andThen_eq_Ret on_world_def split: option.splits outcome.splits)

lemma frozen_delay: "frozen v s \<Longrightarrow> delay_ms ms s = Some (Ret r t) \<Longrightarrow> frozen v t"
  by (auto simp: delay_ms_def on_world_def split: option.splits outcome.splits)

section \<open>The loops\<close>

text \<open>The body of either loop, with the loop itself as \<open>f\<close>, when the clock stands still.\<close>

definition waiting_body :: "u64 \<Rightarrow> u8 \<Rightarrow> bool \<Rightarrow> u8 \<Rightarrow> (u8 \<Rightarrow> ('w, 'z, sx127x_err_t) mcmd) \<Rightarrow> ('w, 'z, sx127x_err_t) mcmd" where
  "waiting_body interval msk cleanup irq f =
     andThen (spi_read1 0x12 irq) (\<lambda>(ret, irq').
     if ret \<noteq> SX_OK then andThen (irq_cleanup cleanup) (\<lambda>_. give ret)
     else if irq' AND msk \<noteq> 0 then andThen (irq_cleanup cleanup) (\<lambda>_. give SX_OK)
     else andThen (delay_ms interval) (\<lambda>_. f irq'))"

lemma waiting_follow:
  assumes r: "waiting_body interval msk cleanup irq f s = Some r" and z: "frozen v s"
    and g: "\<And>irq t. frozen v t \<Longrightarrow> f irq t = Some r \<Longrightarrow> g irq t = Some r"
  shows "waiting_body interval msk cleanup irq g s = Some r"
  unfolding waiting_body_def
proof (rule andThen_follow [OF r [unfolded waiting_body_def]], goal_cases)
  case (1 a t)
  obtain ret irq' where a: "a = (ret, irq')" by (cases a)
  have t: "frozen v t" using frozen_read [OF z 1(1)] .
  have "andThen (delay_ms interval) (\<lambda>_. g irq') t = Some r"
    if "andThen (delay_ms interval) (\<lambda>_. f irq') t = Some r"
    using that by (rule andThen_follow) (rule g [OF frozen_delay [OF t]])
  then show ?case using 1(2) a by auto
qed

lemma poll_body:
  assumes z: "frozen v s" and "0 \<le> timeout_us"
  shows "andThen (spi_read1 0x12 irq) (\<lambda>(ret, irq').
     if ret \<noteq> SX_OK then
       andThen (log_err DRIVER_TAG (''couldnt read irq register'' @ [CHR 0x0A])) (\<lambda>_.
       andThen (irq_cleanup cleanup) (\<lambda>_. give ret))
     else if irq' AND msk \<noteq> 0 then
       andThen (irq_cleanup cleanup) (\<lambda>_. give SX_OK)
     else
       andThen time_us (\<lambda>now.
       if \<not> fits_i64 (sint now - sint v) then crash Signed_Overflow
       else if sint now - sint v > timeout_us then
           andThen (irq_cleanup cleanup) (\<lambda>_.
           andThen (log_err DRIVER_TAG ''polling timeout'') (\<lambda>_.
           give SX_TIMEOUT))
         else
           andThen (delay_ms interval) (\<lambda>_. f irq'))) s = waiting_body interval msk cleanup irq f s"
  unfolding waiting_body_def
proof (rule andThen_cong, goal_cases)
  case (1 a t)
  then have "frozen v t" by (rule frozen_read [OF z])
  then show ?case using assms(2) by (cases a) (simp add: frozen_log frozen_time fits_i64_def)
qed

lemma no_timeout_body:
  assumes z: "frozen v s"
  shows "andThen (sx1278_read_irq irq) (\<lambda>(ret, irq').
     if ret \<noteq> SX_OK then
       andThen (log_err UTILS_TAG ''couldnt read irq register'') (\<lambda>_.
       andThen (irq_cleanup cleanup) (\<lambda>_. give ret))
     else if irq' AND msk \<noteq> 0 then
       andThen (irq_cleanup cleanup) (\<lambda>_. give SX_OK)
     else
       andThen (delay_ms interval) (\<lambda>_. f irq')) s = waiting_body interval msk cleanup irq f s"
  unfolding waiting_body_def sx1278_read_irq_def
proof (rule andThen_cong, goal_cases)
  case (1 a t)
  then have "frozen v t" by (rule frozen_read [OF z])
  then show ?case by (cases a) (simp add: frozen_log)
qed

lemma poll_is_no_timeout:
  assumes "poll_loop start timeout_us interval msk cleanup irq s = Some r"
  shows "start = sint v \<longrightarrow> 0 \<le> timeout_us \<longrightarrow> frozen v s \<longrightarrow>
    poll_for_irq_flag_no_timeout_loop interval msk cleanup irq s = Some r"
proof (rule poll_loop.raw_induct [OF _ assms, where P = "\<lambda>start timeout_us interval msk cleanup irq s r.
    start = sint v \<longrightarrow> 0 \<le> timeout_us \<longrightarrow> frozen v s \<longrightarrow>
    poll_for_irq_flag_no_timeout_loop interval msk cleanup irq s = Some r"], intro impI, goal_cases)
  case (1 f start timeout_us interval msk cleanup irq s r)
  have "waiting_body interval msk cleanup irq (f start timeout_us interval msk cleanup) s = Some r"
    using 1(2) unfolding 1(3) by (simp only: poll_body [OF 1(5,4)])
  then have "waiting_body interval msk cleanup irq (poll_for_irq_flag_no_timeout_loop interval msk cleanup) s = Some r"
    by (rule waiting_follow [OF _ 1(5)]) (use 1(1) [of start timeout_us] 1(3,4) in blast)
  then show ?case
    using no_timeout_body [OF 1(5), of irq cleanup msk interval "poll_for_irq_flag_no_timeout_loop interval msk cleanup"]
    by (subst poll_for_irq_flag_no_timeout_loop.simps) simp
qed

lemma no_timeout_is_poll:
  assumes "poll_for_irq_flag_no_timeout_loop interval msk cleanup irq s = Some r"
  shows "0 \<le> timeout_us \<longrightarrow> frozen v s \<longrightarrow> poll_loop (sint v) timeout_us interval msk cleanup irq s = Some r"
proof (rule poll_for_irq_flag_no_timeout_loop.raw_induct [OF _ assms, where P = "\<lambda>interval msk cleanup irq s r.
    0 \<le> timeout_us \<longrightarrow> frozen v s \<longrightarrow> poll_loop (sint v) timeout_us interval msk cleanup irq s = Some r"],
    intro impI, goal_cases)
  case (1 f interval msk cleanup irq s r)
  have "waiting_body interval msk cleanup irq (f interval msk cleanup) s = Some r"
    using 1(2) no_timeout_body [OF 1(4), of irq cleanup msk interval "f interval msk cleanup"] by simp
  then have "waiting_body interval msk cleanup irq (poll_loop (sint v) timeout_us interval msk cleanup) s = Some r"
    by (rule waiting_follow [OF _ 1(4)]) (use 1(1,3) in blast)
  then show ?case
    using poll_body [OF 1(4,3), of irq cleanup msk interval "poll_loop (sint v) timeout_us interval msk cleanup"]
    by (subst poll_loop.simps) simp
qed

section \<open>Property\<close>

text \<open>C38: The two polling loops are the same function when the clock stands still and nothing is logged: for every
  platform, every timeout and every interval, \<open>poll_for_irq_flag\<close> then does what
  \<open>poll_for_irq_flag_no_timeout\<close> does, with the same result, faults and effects on the world, and one
  runs for ever exactly when the other does. Without a working clock the timeout is no protection.\<close>

theorem stopped_clock_is_no_timeout:
  assumes "timer (sx127x_timer_ctx s) = Some c" and "\<forall>w. c w = (v, w)" and "log_level (sx127x_logger s) = UNINITIALIZED"
    and "timeout_ms \<noteq> 0" and "0 \<le> sint timeout_ms" and "sint timeout_ms < 2 ^ 53" and "interval \<noteq> 0"
  shows "poll_for_irq_flag timeout_ms interval msk cleanup s = poll_for_irq_flag_no_timeout interval msk cleanup s"
proof -
  have z: "frozen v s" using assms(1-3) by (simp add: frozen_def)
  have "\<not> timeout_ms \<le> 0" "\<not> interval \<le> 0" "fits_i64 (sint timeout_ms * 1000)"
    using assms(4-7) by (simp_all add: word_le_0_iff fits_i64_def)
  then have "poll_for_irq_flag timeout_ms interval msk cleanup s
      = poll_loop (sint v) (sint timeout_ms * 1000) interval msk cleanup 0 s"
    by (simp add: poll_for_irq_flag_def Let_def frozen_time [OF z])
  moreover have "poll_loop (sint v) (sint timeout_ms * 1000) interval msk cleanup 0 s
      = poll_for_irq_flag_no_timeout_loop interval msk cleanup 0 s" (is "?a = ?b")
  proof (cases ?a)
    case None
    then show ?thesis using no_timeout_is_poll [of interval msk cleanup 0 s _ "sint timeout_ms * 1000" v] z assms(5)
      by (cases ?b) auto
  next
    case (Some r)
    then show ?thesis using poll_is_no_timeout [OF Some, of v] z assms(5) by simp
  qed
  ultimately show ?thesis by (simp add: poll_for_irq_flag_no_timeout_def)
qed

text \<open>On the test bus with its clock that stands still and a flag that comes with the third read.\<close>

theorem stopped_clock_is_no_timeout_witness:
  "poll_for_irq_flag 3000 1 0x08 True (test_machine zero_clock (reset_state (\<lambda>_. 0) 3 0x08))
     = poll_for_irq_flag_no_timeout 1 0x08 True (test_machine zero_clock (reset_state (\<lambda>_. 0) 3 0x08))"
  by (rule stopped_clock_is_no_timeout [of _ zero_clock 0]) (simp_all add: zero_clock_def zero_logger_def)

end
