(* ===== verification/Testing.thy ===== *)
theory Testing
  imports Mocks
begin

text \<open>
  What the programs of \<open>tests/\<close> share: \<open>assert\<close>, a whole test program, and what it means that a test
  passes. A test is a command like any other: it resets its mocks, calls the library and asserts. It
  passes under \<open>I\<close> if from every state in \<open>I\<close> it returns with no fault, so with every assertion true,
  in a state in \<open>I\<close>. Tests that pass under the same \<open>I\<close> pass one after the other, in any order.
\<close>

definition c_assert :: "bool \<Rightarrow> ('s, unit) cmd" where
  "c_assert b = (if b then give () else crash Aborted)"

fun run_tests :: "('s, unit) cmd list \<Rightarrow> ('s, unit) cmd" where
  "run_tests [] = give ()"
| "run_tests (t # ts) = andThen t (\<lambda>_. run_tests ts)"

definition passes :: "('s \<Rightarrow> bool) \<Rightarrow> ('s, 'a) cmd \<Rightarrow> bool" where
  "passes I t \<longleftrightarrow> (\<forall>s. I s \<longrightarrow> wp t (\<lambda>_. I) s)"

lemma c_assert_True [simp]: "c_assert True = give ()"
  by (simp add: c_assert_def)

lemma wp_c_assert [simp]: "wp (c_assert b) Q s \<longleftrightarrow> b \<and> Q () s"
  by (simp add: c_assert_def)

lemma passesI: "(\<And>s. I s \<Longrightarrow> wp t (\<lambda>_. I) s) \<Longrightarrow> passes I t"
  by (simp add: passes_def)

lemma run_tests_pass: "list_all (passes I) ts \<Longrightarrow> passes I (run_tests ts)"
proof (induction ts)
  case Nil
  show ?case by (rule passesI) (simp add: wp_def)
next
  case (Cons t ts)
  show ?case
  proof (rule passesI)
    fix s assume "I s"
    then have "wp t (\<lambda>_. I) s" using Cons.prems by (simp add: passes_def)
    then have "wp t (\<lambda>_ u. wp (run_tests ts) (\<lambda>_. I) u) s"
      by (rule wp_mono) (use Cons in \<open>simp add: passes_def\<close>)
    then show "wp (run_tests (t # ts)) (\<lambda>_. I) s" by simp
  qed
qed

section \<open>Mocks in the world\<close>

definition set_world :: "('w \<Rightarrow> 'w) \<Rightarrow> ('w, 'z, unit) mcmd" where
  "set_world f = modify (\<lambda>s. s\<lparr>world := f (world s)\<rparr>)"

definition in_world :: "('w \<Rightarrow> 'a) \<Rightarrow> ('w, 'z, 'a) mcmd" where
  "in_world f = gets (\<lambda>s. f (world s))"

text \<open>The queries of the tests on the log of written bytes.\<close>

definition wrote :: "u8 \<Rightarrow> u8 \<Rightarrow> (u8 \<times> u8) list \<Rightarrow> bool" where
  "wrote reg v ws = list_ex (\<lambda>(r, x). r = reg \<and> x = v) ws"

definition last_write_to :: "u8 \<Rightarrow> (u8 \<times> u8) list \<Rightarrow> u8" where
  "last_write_to reg ws = (case find (\<lambda>(r, x). r = reg) (rev ws) of Some (r, x) \<Rightarrow> x | None \<Rightarrow> 0xFF)"

definition never_wrote :: "u8 \<Rightarrow> (u8 \<times> u8) list \<Rightarrow> bool" where
  "never_wrote reg ws = list_all (\<lambda>(r, x). r \<noteq> reg) ws"

definition assert_log :: "((u8 \<times> u8) list \<Rightarrow> bool) \<Rightarrow> (test_world, 'z, unit) mcmd" where
  "assert_log P = andThen (in_world write_log) (\<lambda>ws. c_assert (P ws))"

end
