(* ===== verification/Test_Ports.thy ===== *)
theory Test_Ports
  imports Testing
begin

text \<open>
  The test programs \<open>tests/test_spi_port.c\<close>, \<open>tests/test_logger.c\<close> and \<open>tests/test_sx127x_timer.c\<close>, test
  by test: the callbacks are called, get the handle, register, text, level or time that was given, and
  two contexts do not disturb each other. All of the tests pass from every state.
\<close>

section \<open>\<open>test_spi_port.c\<close>\<close>

record port_calls =
  write_called :: nat
  read_called :: nat
  last_spi_handle :: nat
  last_write_reg :: u8
  last_read_reg :: u8

definition reset_port_calls :: "(port_calls, unit) cmd" where
  "reset_port_calls = modify (\<lambda>_. \<lparr>write_called = 0, read_called = 0, last_spi_handle = 0,
     last_write_reg = 0, last_read_reg = 0\<rparr>)"

definition mock_writer :: "port_calls spi_register_writer_t" where
  "mock_writer spi reg data len w =
     (SX_OK, w\<lparr>write_called := write_called w + 1, last_spi_handle := spi, last_write_reg := reg\<rparr>)"

text \<open>The mock leaves the caller's buffer as it is.\<close>

definition mock_reader :: "port_calls spi_register_reader_t" where
  "mock_reader spi reg len w =
     ((SX_OK, []), w\<lparr>read_called := read_called w + 1, last_spi_handle := spi, last_read_reg := reg\<rparr>)"

definition failing_writer :: "port_calls spi_register_writer_t" where
  "failing_writer spi reg data len w = (SX_INVALID_STATE, w)"

definition failing_reader :: "port_calls spi_register_reader_t" where
  "failing_reader spi reg len w = ((SX_INVALID_STATE, []), w)"

definition rammus :: "u8 list" where
  "rammus = map of_char ''rammus'' @ [0]"

definition mock_port :: "nat \<Rightarrow> port_calls spi_port_t" where
  "mock_port handle = snd (spi_port_init (Some mock_writer) (Some mock_reader) handle)"

text \<open>\<open>assert\<close> on the state of the mocks.\<close>

definition assert_state :: "('w \<Rightarrow> bool) \<Rightarrow> ('w, unit) cmd" where
  "assert_state P = andThen (gets P) c_assert"

definition write_answers :: "port_calls spi_port_t \<Rightarrow> u8 \<Rightarrow> int \<Rightarrow> sx127x_err_t \<Rightarrow> (port_calls, unit) cmd" where
  "write_answers port reg len err =
     andThen (spi_burst_write_reg port reg (take (nat len) rammus) len) (\<lambda>ret. c_assert (ret = err))"

definition read_answers ::
  "port_calls spi_port_t \<Rightarrow> u8 \<Rightarrow> u8 list \<Rightarrow> sx127x_err_t \<Rightarrow> (port_calls, unit) cmd" where
  "read_answers port reg buf err =
     andThen (spi_burst_read_reg port reg buf (int (length buf))) (\<lambda>(ret, buf). c_assert (ret = err))"

definition test_write_dispatches :: "(port_calls, unit) cmd" where
  "test_write_dispatches =
     andThen reset_port_calls (\<lambda>_.
     andThen (write_answers (mock_port NULL) 0x01 7 SX_OK) (\<lambda>_.
     assert_state (\<lambda>w. write_called w = 1 \<and> read_called w = 0)))"

definition test_read_dispatches :: "u8 list \<Rightarrow> (port_calls, unit) cmd" where
  "test_read_dispatches buf =
     andThen reset_port_calls (\<lambda>_.
     andThen (read_answers (mock_port NULL) 0x02 buf SX_OK) (\<lambda>_.
     assert_state (\<lambda>w. read_called w = 1 \<and> write_called w = 0)))"

definition test_spi_handle_forwarded_on_write :: "nat \<Rightarrow> (port_calls, unit) cmd" where
  "test_spi_handle_forwarded_on_write fake_handle =
     andThen reset_port_calls (\<lambda>_.
     andThen (spi_burst_write_reg (mock_port fake_handle) 0x00 (take 1 rammus) 1) (\<lambda>_.
     assert_state (\<lambda>w. last_spi_handle w = fake_handle)))"

definition test_spi_handle_forwarded_on_read :: "nat \<Rightarrow> u8 \<Rightarrow> (port_calls, unit) cmd" where
  "test_spi_handle_forwarded_on_read fake_handle b =
     andThen reset_port_calls (\<lambda>_.
     andThen (spi_burst_read_reg (mock_port fake_handle) 0x00 [b] 1) (\<lambda>_.
     assert_state (\<lambda>w. last_spi_handle w = fake_handle)))"

definition test_reg_forwarded_on_write :: "(port_calls, unit) cmd" where
  "test_reg_forwarded_on_write =
     andThen reset_port_calls (\<lambda>_.
     andThen (spi_burst_write_reg (mock_port NULL) 0x39 (take 1 rammus) 1) (\<lambda>_.
     assert_state (\<lambda>w. last_write_reg w = 0x39)))"

definition test_reg_forwarded_on_read :: "u8 \<Rightarrow> (port_calls, unit) cmd" where
  "test_reg_forwarded_on_read b =
     andThen reset_port_calls (\<lambda>_.
     andThen (spi_burst_read_reg (mock_port NULL) 0x12 [b] 1) (\<lambda>_.
     assert_state (\<lambda>w. last_read_reg w = 0x12)))"

definition test_uninitialized_write_returns_error :: "(port_calls, unit) cmd" where
  "test_uninitialized_write_returns_error = write_answers zero_port 0x00 1 SX_UNIT_UNITIALIZED"

definition test_writer_error_propagated :: "(port_calls, unit) cmd" where
  "test_writer_error_propagated = write_answers
     (snd (spi_port_init (Some failing_writer) (Some mock_reader) NULL)) 0x00 1 SX_INVALID_STATE"

definition test_uninitialized_read_returns_error :: "u8 \<Rightarrow> (port_calls, unit) cmd" where
  "test_uninitialized_read_returns_error b = read_answers zero_port 0x00 [b] SX_UNIT_UNITIALIZED"

definition test_reader_error_propagated :: "u8 \<Rightarrow> (port_calls, unit) cmd" where
  "test_reader_error_propagated b = read_answers
     (snd (spi_port_init (Some mock_writer) (Some failing_reader) NULL)) 0x00 [b] SX_INVALID_STATE"

definition test_two_ports_independent :: "(port_calls, unit) cmd" where
  "test_two_ports_independent =
     andThen reset_port_calls (\<lambda>_.
     let port_a = mock_port NULL;
         port_b = snd (spi_port_init (Some failing_writer) (Some failing_reader) NULL) in
     andThen (write_answers port_a 0x00 1 SX_OK) (\<lambda>_.
     andThen (write_answers port_b 0x00 1 SX_INVALID_STATE) (\<lambda>_.
     assert_state (\<lambda>w. write_called w = 1))))"

definition test_null_handle_is_forwarded :: "(port_calls, unit) cmd" where
  "test_null_handle_is_forwarded =
     andThen reset_port_calls (\<lambda>_.
     andThen (spi_burst_write_reg (mock_port NULL) 0x00 (take 1 rammus) 1) (\<lambda>_.
     assert_state (\<lambda>w. last_spi_handle w = NULL)))"

text \<open>\<open>buf\<close> and \<open>b\<close> are what uninitialised local buffers hold, \<open>h\<close> is \<open>&fake_handle\<close>.\<close>

definition test_spi_port :: "nat \<Rightarrow> u8 list \<Rightarrow> u8 \<Rightarrow> (port_calls, unit) cmd" where
  "test_spi_port h buf b = run_tests
     [test_write_dispatches, test_read_dispatches buf, test_spi_handle_forwarded_on_write h,
      test_spi_handle_forwarded_on_read h b, test_reg_forwarded_on_write, test_reg_forwarded_on_read b,
      test_uninitialized_write_returns_error, test_uninitialized_read_returns_error b,
      test_writer_error_propagated, test_reader_error_propagated b,
      test_two_ports_independent, test_null_handle_is_forwarded]"

lemmas port_mocked = reset_port_calls_def mock_writer_def mock_reader_def failing_writer_def
  failing_reader_def mock_port_def assert_state_def write_answers_def read_answers_def spi_port_init_def
  zero_port_def spi_burst_write_reg_def spi_burst_read_reg_def buf_write_def wp_def

lemma spi_port_tests_pass: "passes (\<lambda>_. True) (test_spi_port h buf b)"
  unfolding test_spi_port_def
  by (rule run_tests_pass)
    (simp add: passes_def test_write_dispatches_def test_read_dispatches_def
      test_spi_handle_forwarded_on_write_def test_spi_handle_forwarded_on_read_def
      test_reg_forwarded_on_write_def test_reg_forwarded_on_read_def test_two_ports_independent_def
      test_uninitialized_write_returns_error_def test_uninitialized_read_returns_error_def
      test_writer_error_propagated_def test_reader_error_propagated_def
      test_null_handle_is_forwarded_def port_mocked)

section \<open>\<open>test_logger.c\<close>\<close>

record log_calls =
  captured_str :: "u8 list"
  captured_level :: log_level_t
  logger_call_count :: nat

definition reset_log_calls :: "(log_calls, unit) cmd" where
  "reset_log_calls =
     modify (\<lambda>_. \<lparr>captured_str = [], captured_level = UNINITIALIZED, logger_call_count = 0\<rparr>)"

text \<open>\<open>strncpy\<close> into the array of 4096 bytes; the text is kept without its terminating zero.\<close>

definition capturing_logger :: "log_calls logger_t" where
  "capturing_logger str level w = w\<lparr>captured_str := take 4095 str, captured_level := level,
     logger_call_count := logger_call_count w + 1\<rparr>"

definition capturing :: "log_level_t \<Rightarrow> log_calls logger_ctx_t" where
  "capturing level = logger_init (Some capturing_logger) level"

definition assert_calls :: "nat \<Rightarrow> (log_calls, unit) cmd" where
  "assert_calls n = assert_state (\<lambda>w. logger_call_count w = n)"

definition assert_captured :: "string \<Rightarrow> (log_calls, unit) cmd" where
  "assert_captured str = assert_state (\<lambda>w. captured_str w = map of_char str)"

definition log_text_of :: "log_calls logger_ctx_t \<Rightarrow> string \<Rightarrow> log_level_t \<Rightarrow> (log_calls, unit) cmd" where
  "log_text_of ctx str level = network_log ctx (map of_char str) level"

definition test_log_at_configured_level :: "(log_calls, unit) cmd" where
  "test_log_at_configured_level =
     andThen reset_log_calls (\<lambda>_.
     andThen (log_text_of (capturing LOG_INFO_LOW) ''rammus'' LOG_INFO_LOW) (\<lambda>_.
     andThen (assert_calls 1) (\<lambda>_.
     assert_captured ''rammus'')))"

definition log_once :: "log_calls logger_ctx_t \<Rightarrow> string \<Rightarrow> log_level_t \<Rightarrow> nat \<Rightarrow> (log_calls, unit) cmd" where
  "log_once ctx str level n =
     andThen reset_log_calls (\<lambda>_. andThen (log_text_of ctx str level) (\<lambda>_. assert_calls n))"

definition test_log_above_configured_level :: "(log_calls, unit) cmd" where
  "test_log_above_configured_level = log_once (capturing LOG_INFO_LOW) ''rammus'' LOG_INFO_HIGH 1"

definition test_log_below_configured_level_suppressed :: "(log_calls, unit) cmd" where
  "test_log_below_configured_level_suppressed = log_once (capturing LOG_INFO_HIGH) ''rammus'' LOG_INFO_LOW 0"

definition test_uninitialized_context_no_op :: "(log_calls, unit) cmd" where
  "test_uninitialized_context_no_op = log_once zero_logger ''rammus'' LOG_INFO_LOW 0"

definition test_set_level_dynamically :: "(log_calls, unit) cmd" where
  "test_set_level_dynamically =
     andThen reset_log_calls (\<lambda>_.
     let ctx = capturing LOG_INFO_HIGH in
     andThen (log_text_of ctx ''msg'' LOG_INFO_LOW) (\<lambda>_.
     andThen (assert_calls 0) (\<lambda>_.
     let ctx = logger_set_level ctx LOG_INFO_LOW in
     andThen (log_text_of ctx ''msg'' LOG_INFO_LOW) (\<lambda>_.
     assert_calls 1))))"

definition test_log_with_tag_formats_correctly :: "(log_calls, unit) cmd" where
  "test_log_with_tag_formats_correctly =
     andThen reset_log_calls (\<lambda>_.
     andThen (network_log_with_tag (capturing LOG_INFO_LOW) ''DRIVER'' ''init failed'' LOG_INFO_LOW) (\<lambda>_.
     andThen (assert_calls 1) (\<lambda>_.
     assert_captured ''DRIVER: init failed'')))"

definition test_log_with_tag_passes_correct_level :: "(log_calls, unit) cmd" where
  "test_log_with_tag_passes_correct_level =
     andThen reset_log_calls (\<lambda>_.
     andThen (network_log_with_tag (capturing LOG_INFO_LOW) ''TAG'' ''msg'' LOG_INFO_HIGH) (\<lambda>_.
     assert_state (\<lambda>w. captured_level w = LOG_INFO_HIGH)))"

definition test_log_err_uses_error_level :: "(log_calls, unit) cmd" where
  "test_log_err_uses_error_level =
     andThen reset_log_calls (\<lambda>_.
     andThen (network_log_err (capturing LOG_INFO_LOW) ''TAG'' ''something broke'') (\<lambda>_.
     andThen (assert_calls 1) (\<lambda>_.
     andThen (assert_state (\<lambda>w. captured_level w = LOG_ERROR)) (\<lambda>_.
     assert_captured ''TAG: something broke''))))"

definition test_log_err_not_suppressed_by_high_threshold :: "(log_calls, unit) cmd" where
  "test_log_err_not_suppressed_by_high_threshold =
     andThen reset_log_calls (\<lambda>_.
     andThen (network_log_err (capturing LOG_INFO_HIGH) ''TAG'' ''critical'') (\<lambda>_.
     assert_calls 1))"

definition test_two_loggers_independent :: "(log_calls, unit) cmd" where
  "test_two_loggers_independent =
     andThen reset_log_calls (\<lambda>_.
     let ctx_low = capturing LOG_INFO_LOW; ctx_high = capturing LOG_INFO_HIGH in
     andThen (log_text_of ctx_low ''msg'' LOG_INFO_LOW) (\<lambda>_.
     andThen (assert_calls 1) (\<lambda>_.
     andThen (log_text_of ctx_high ''msg'' LOG_INFO_LOW) (\<lambda>_.
     andThen (assert_calls 1) (\<lambda>_.
     andThen (log_text_of ctx_high ''msg'' LOG_INFO_HIGH) (\<lambda>_.
     assert_calls 2))))))"

definition test_logger :: "(log_calls, unit) cmd" where
  "test_logger = run_tests
     [test_log_at_configured_level, test_log_above_configured_level,
      test_log_below_configured_level_suppressed, test_uninitialized_context_no_op,
      test_set_level_dynamically, test_log_with_tag_formats_correctly,
      test_log_with_tag_passes_correct_level, test_log_err_uses_error_level,
      test_log_err_not_suppressed_by_high_threshold, test_two_loggers_independent]"

lemmas log_mocked = reset_log_calls_def capturing_logger_def capturing_def assert_calls_def
  assert_captured_def assert_state_def log_text_of_def log_once_def logger_init_def logger_set_level_def
  zero_logger_def network_log_def network_log_with_tag_def network_log_err_def log_text_def
  less_eq_log_level_t_def

lemma logger_tests_pass: "passes (\<lambda>_. True) test_logger"
  unfolding test_logger_def
  by (rule run_tests_pass)
    (simp add: passes_def wp_def test_log_at_configured_level_def test_log_above_configured_level_def
      test_log_below_configured_level_suppressed_def test_uninitialized_context_no_op_def
      test_set_level_dynamically_def
      test_log_with_tag_formats_correctly_def test_log_with_tag_passes_correct_level_def
      test_log_err_uses_error_level_def test_log_err_not_suppressed_by_high_threshold_def
      test_two_loggers_independent_def log_mocked)

section \<open>\<open>test_sx127x_timer.c\<close>\<close>

record timer_calls =
  mock_time_value :: i64
  last_delay_arg :: u64
  delay_call_count :: nat
  time_call_count :: nat
  mock_time_value_b :: i64
  time_b_call_count :: nat

definition reset_timer_calls :: "(timer_calls, unit) cmd" where
  "reset_timer_calls = modify (\<lambda>w. w\<lparr>mock_time_value := 0, last_delay_arg := 0, delay_call_count := 0,
     time_call_count := 0\<rparr>)"

definition mock_get_time :: "timer_calls sx127x_timer_t" where
  "mock_get_time w = (mock_time_value w, w\<lparr>time_call_count := time_call_count w + 1\<rparr>)"

definition mock_delay :: "timer_calls sx127x_task_delayer_ms_t" where
  "mock_delay ms w = w\<lparr>last_delay_arg := ms, delay_call_count := delay_call_count w + 1\<rparr>"

definition mock_get_time_b :: "timer_calls sx127x_timer_t" where
  "mock_get_time_b w = (mock_time_value_b w, w\<lparr>time_b_call_count := time_b_call_count w + 1\<rparr>)"

definition mock_delay_b :: "timer_calls sx127x_task_delayer_ms_t" where
  "mock_delay_b ms w = w"

definition mock_timer :: "timer_calls sx127x_timer_ctx_t" where
  "mock_timer = sx127x_timer_init (Some mock_get_time) (Some mock_delay)"

definition set_time :: "i64 \<Rightarrow> (timer_calls, unit) cmd" where
  "set_time t = modify (\<lambda>w. w\<lparr>mock_time_value := t\<rparr>)"

definition assert_time :: "timer_calls sx127x_timer_ctx_t \<Rightarrow> i64 \<Rightarrow> (timer_calls, unit) cmd" where
  "assert_time ctx t = andThen (sx127x_timer_get_time_us ctx) (\<lambda>v. c_assert (v = t))"

definition test_get_time_returns_callback_value :: "(timer_calls, unit) cmd" where
  "test_get_time_returns_callback_value =
     andThen reset_timer_calls (\<lambda>_.
     andThen (set_time 123456) (\<lambda>_.
     andThen (assert_time mock_timer 123456) (\<lambda>_.
     assert_state (\<lambda>w. time_call_count w = 1))))"

definition test_get_time_reflects_updated_value :: "(timer_calls, unit) cmd" where
  "test_get_time_reflects_updated_value =
     andThen reset_timer_calls (\<lambda>_.
     andThen (set_time 100) (\<lambda>_.
     andThen (assert_time mock_timer 100) (\<lambda>_.
     andThen (set_time 9999) (\<lambda>_.
     andThen (assert_time mock_timer 9999) (\<lambda>_.
     assert_state (\<lambda>w. time_call_count w = 2))))))"

text \<open>The delays of a test, then its assertions.\<close>

definition test_delays :: "u64 list \<Rightarrow> (timer_calls \<Rightarrow> bool) \<Rightarrow> (timer_calls, unit) cmd" where
  "test_delays mss P =
     andThen reset_timer_calls (\<lambda>_.
     andThen (run_tests (map (sx127x_task_delay_ms mock_timer) mss)) (\<lambda>_.
     assert_state P))"

definition test_two_timers_independent :: "(timer_calls, unit) cmd" where
  "test_two_timers_independent =
     andThen reset_timer_calls (\<lambda>_.
     andThen (modify (\<lambda>w. w\<lparr>mock_time_value_b := 0, time_b_call_count := 0\<rparr>)) (\<lambda>_.
     let ctx_a = mock_timer; ctx_b = sx127x_timer_init (Some mock_get_time_b) (Some mock_delay_b) in
     andThen (set_time 111) (\<lambda>_.
     andThen (modify (\<lambda>w. w\<lparr>mock_time_value_b := 999\<rparr>)) (\<lambda>_.
     andThen (assert_time ctx_a 111) (\<lambda>_.
     andThen (assert_time ctx_b 999) (\<lambda>_.
     assert_state (\<lambda>w. time_call_count w = 1 \<and> time_b_call_count w = 1)))))))"

definition test_delay_calls_callback :: "(timer_calls, unit) cmd" where
  "test_delay_calls_callback = test_delays [50] (\<lambda>w. delay_call_count w = 1)"

definition test_delay_arg_forwarded :: "(timer_calls, unit) cmd" where
  "test_delay_arg_forwarded = test_delays [250] (\<lambda>w. last_delay_arg w = 250)"

definition test_multiple_delays_accumulate :: "(timer_calls, unit) cmd" where
  "test_multiple_delays_accumulate = test_delays [10, 20, 30] (\<lambda>w. delay_call_count w = 3 \<and> last_delay_arg w = 30)"

definition test_zero_delay_forwarded :: "(timer_calls, unit) cmd" where
  "test_zero_delay_forwarded = test_delays [0] (\<lambda>w. last_delay_arg w = 0 \<and> delay_call_count w = 1)"

definition test_sx127x_timer :: "(timer_calls, unit) cmd" where
  "test_sx127x_timer = run_tests
     [test_get_time_returns_callback_value, test_get_time_reflects_updated_value,
      test_delay_calls_callback, test_delay_arg_forwarded, test_multiple_delays_accumulate,
      test_two_timers_independent, test_zero_delay_forwarded]"

lemmas timer_mocked = reset_timer_calls_def mock_get_time_def mock_delay_def mock_get_time_b_def
  mock_delay_b_def mock_timer_def set_time_def assert_time_def assert_state_def test_delays_def
  sx127x_timer_init_def sx127x_timer_get_time_us_def sx127x_task_delay_ms_def

lemma timer_tests_pass: "passes (\<lambda>_. True) test_sx127x_timer"
  unfolding test_sx127x_timer_def
  by (rule run_tests_pass)
    (simp add: passes_def wp_def test_get_time_returns_callback_value_def
      test_get_time_reflects_updated_value_def test_two_timers_independent_def
      test_delay_calls_callback_def test_delay_arg_forwarded_def test_multiple_delays_accumulate_def
      test_zero_delay_forwarded_def timer_mocked)

end
