(* ===== verification/Test_Config.thy ===== *)
theory Test_Config
  imports Complex_Main Testing Config
begin

text \<open>
  The test program \<open>tests/test_sx127x_config.c\<close>, test by test. Its bus logs up to 512 bytes and
  answers every read from the table. All of its tests pass as long as bandwidth and spreading factor
  are the ones the program starts with, which every test keeps.
\<close>

unbundle bit_operations_syntax

section \<open>Mocks\<close>

definition config_writer :: "test_world spi_register_writer_t" where
  "config_writer spi reg data len w =
     (SX_OK, w\<lparr>write_log := take 512 (write_log w @ map (Pair reg) (take (nat len) data))\<rparr>)"

definition recording_reader :: "test_world spi_register_reader_t" where
  "recording_reader spi reg len w = ((SX_OK, replicate (nat len) (read_responses w reg)), w)"

definition reset_config :: "(test_world, 'z, unit) mcmd" where
  "reset_config = set_world (\<lambda>w. w\<lparr>write_log := [], read_responses := (\<lambda>_. 0)\<rparr>)"

definition setup_config :: "(test_world, 'z, unit) mcmd" where
  "setup_config =
     andThen reset_config (\<lambda>_.
     modify (\<lambda>s. s\<lparr>sx127x_spi_port := snd (spi_port_init (Some config_writer) (Some recording_reader) NULL),
       sx127x_timer_ctx := sx127x_timer_init (Some zero_clock) (Some noop_delay),
       sx127x_logger := zero_logger\<rparr>))"

text \<open>The frequency word in the first three consecutive writes to 0x06, 0x07 and 0x08.\<close>

fun capture_frf :: "(u8 \<times> u8) list \<Rightarrow> u32" where
  "capture_frf ((r0, a) # (r1, b) # (r2, c) # ws) =
     (if r0 = 0x06 \<and> r1 = 0x07 \<and> r2 = 0x08
      then push_bit 16 (ucast a) OR push_bit 8 (ucast b) OR ucast c
      else capture_frf ((r1, b) # (r2, c) # ws))"
| "capture_frf _ = 0"

text \<open>The index of the last write to a register.\<close>

fun last_index :: "u8 \<Rightarrow> nat \<Rightarrow> (u8 \<times> u8) list \<Rightarrow> int \<Rightarrow> int" where
  "last_index reg i [] found = found"
| "last_index reg i ((r, x) # ws) found = last_index reg (Suc i) ws (if r = reg then int i else found)"

section \<open>Channels\<close>

definition test_calculate_channel_num_default_bw :: "(test_world, 'z, unit) mcmd" where
  "test_calculate_channel_num_default_bw = andThen calculate_channel_num (\<lambda>n. c_assert (n = 14))"

definition test_invalid_channel_rejected :: "(test_world, 'z, unit) mcmd" where
  "test_invalid_channel_rejected =
     andThen setup_config (\<lambda>_.
     andThen calculate_channel_num (\<lambda>n.
     andThen (sx_1278_switch_to_nth_channel n) (\<lambda>ret.
     c_assert (ret = SX_INVALID_ARGUMENT))))"

text \<open>The \<open>double\<close>s of this test are exact: integers below \<open>2 ^ 53\<close>, divided by powers of two.\<close>

definition assert_channel_frequency :: "u64 \<Rightarrow> (test_world, 'z, unit) mcmd" where
  "assert_channel_frequency ch =
     andThen setup_config (\<lambda>_.
     andThen (sx_1278_switch_to_nth_channel ch) (\<lambda>_.
     andThen (in_world write_log) (\<lambda>ws.
     let frf = capture_frf ws;
         reconstructed = of_nat (unat frf) * 32000000 / 524288 :: rat;
         expected = 863000000 + of_nat (unat ch) * 125000 + 125000 / 2 in
     andThen (c_assert (frf \<noteq> 0)) (\<lambda>_.
     c_assert (\<bar>reconstructed - expected\<bar> < 200)))))"

definition test_channel_0_frequency :: "(test_world, 'z, unit) mcmd" where
  "test_channel_0_frequency = assert_channel_frequency 0"

definition test_channel_7_frequency :: "(test_world, 'z, unit) mcmd" where
  "test_channel_7_frequency = assert_channel_frequency 7"

definition test_channel_13_frequency :: "(test_world, 'z, unit) mcmd" where
  "test_channel_13_frequency = assert_channel_frequency 13"

definition test_frf_written_big_endian :: "(test_world, 'z, unit) mcmd" where
  "test_frf_written_big_endian =
     andThen setup_config (\<lambda>_.
     andThen (sx_1278_switch_to_nth_channel 0) (\<lambda>_.
     andThen (in_world write_log) (\<lambda>ws.
     let msb_idx = last_index 0x06 0 ws (- 1);
         mid_idx = last_index 0x07 0 ws (- 1);
         lsb_idx = last_index 0x08 0 ws (- 1) in
     andThen (c_assert (msb_idx \<noteq> - 1 \<and> mid_idx \<noteq> - 1 \<and> lsb_idx \<noteq> - 1)) (\<lambda>_.
     c_assert (msb_idx < mid_idx \<and> mid_idx < lsb_idx)))))"

section \<open>Initialisation\<close>

definition run_init :: "(test_world, 'z, sx127x_err_t) mcmd" where
  "run_init = initialize_sx_1278 (snd (spi_port_init (Some config_writer) (Some recording_reader) NULL))
     zero_logger (sx127x_timer_init (Some zero_clock) (Some noop_delay))"

definition reset_with_version :: "u8 \<Rightarrow> (test_world, 'z, unit) mcmd" where
  "reset_with_version v =
     andThen reset_config (\<lambda>_. set_world (\<lambda>w. w\<lparr>read_responses := (read_responses w)(0x42 := v)\<rparr>))"

definition init_answers :: "u8 \<Rightarrow> sx127x_err_t \<Rightarrow> (test_world, 'z, unit) mcmd" where
  "init_answers v err =
     andThen (reset_with_version v) (\<lambda>_. andThen run_init (\<lambda>ret. c_assert (ret = err)))"

definition init_writes :: "(u8 \<times> u8) list \<Rightarrow> (test_world, 'z, unit) mcmd" where
  "init_writes rvs =
     andThen (reset_with_version 0x12) (\<lambda>_.
     andThen run_init (\<lambda>_.
     assert_log (\<lambda>ws. list_all (\<lambda>(r, v). wrote r v ws) rvs)))"

definition test_initialize_fails_on_wrong_version :: "(test_world, 'z, unit) mcmd" where
  "test_initialize_fails_on_wrong_version = init_answers 0x00 SX_INVALID_RESPONSE"

definition test_initialize_fails_on_zero_version :: "(test_world, 'z, unit) mcmd" where
  "test_initialize_fails_on_zero_version = init_answers 0xFF SX_INVALID_RESPONSE"

definition test_initialize_succeeds_on_correct_version :: "(test_world, 'z, unit) mcmd" where
  "test_initialize_succeeds_on_correct_version = init_answers 0x12 SX_OK"

definition test_initialize_writes_pa_config :: "(test_world, 'z, unit) mcmd" where
  "test_initialize_writes_pa_config = init_writes [(0x09, 0xFC)]"

definition test_initialize_writes_ocp :: "(test_world, 'z, unit) mcmd" where
  "test_initialize_writes_ocp = init_writes [(0x2B, 0x2B)]"

definition test_initialize_writes_sync_word :: "(test_world, 'z, unit) mcmd" where
  "test_initialize_writes_sync_word = init_writes [(0x39, 0xD3)]"

definition test_initialize_writes_symbol_timeout :: "(test_world, 'z, unit) mcmd" where
  "test_initialize_writes_symbol_timeout = init_writes [(0x1F, 0xFF)]"

definition test_initialize_writes_preamble_length :: "(test_world, 'z, unit) mcmd" where
  "test_initialize_writes_preamble_length = init_writes [(0x20, 0x00), (0x21, 0x18)]"

definition test_initialize_zeros_fifo_pointers :: "(test_world, 'z, unit) mcmd" where
  "test_initialize_zeros_fifo_pointers = init_writes [(0x0D, 0x00), (0x0E, 0x00), (0x0F, 0x00)]"

definition test_sx127x_config :: "(test_world, 'z, unit) mcmd" where
  "test_sx127x_config = run_tests
     [test_calculate_channel_num_default_bw, test_invalid_channel_rejected,
      test_channel_0_frequency, test_channel_7_frequency, test_channel_13_frequency,
      test_frf_written_big_endian,
      test_initialize_fails_on_wrong_version, test_initialize_fails_on_zero_version,
      test_initialize_succeeds_on_correct_version, test_initialize_writes_pa_config,
      test_initialize_writes_ocp, test_initialize_writes_sync_word, test_initialize_writes_symbol_timeout,
      test_initialize_writes_preamble_length, test_initialize_zeros_fifo_pointers]"

section \<open>The tests pass\<close>

definition default_radio :: "('w, 'z) machine_scheme \<Rightarrow> bool" where
  "default_radio s \<longleftrightarrow> lora_bandwidth_hz s = 125000 \<and> spreading_factor s = 12"

lemmas config_mocked = set_world_def in_world_def reset_config_def setup_config_def assert_log_def wrote_def
  spi_port_init_def sx127x_timer_init_def zero_logger_def log_err_def network_log_err_def
  network_log_with_tag_def network_log_def spi_write_def spi_read_def spi_read1_def on_world_def
  spi_burst_write_reg_def spi_burst_read_reg_def config_writer_def recording_reader_def
  buf_write_def overlay_def wp_def default_radio_def checked_def ok_or_return_def
  calculate_channel_num_def sx_1278_switch_to_nth_channel_def

lemmas channel_arith = channel_count_def raw_freq_def frf_of_def FXOSC_def
  lora_frequency_hf_def lora_frequency_lf_def

lemma channel_tests_pass:
  "passes default_radio (test_calculate_channel_num_default_bw :: (test_world, 'z, unit) mcmd)"
  "passes default_radio (test_invalid_channel_rejected :: (test_world, 'z, unit) mcmd)"
  "passes default_radio (test_channel_0_frequency :: (test_world, 'z, unit) mcmd)"
  "passes default_radio (test_channel_7_frequency :: (test_world, 'z, unit) mcmd)"
  "passes default_radio (test_channel_13_frequency :: (test_world, 'z, unit) mcmd)"
  "passes default_radio (test_frf_written_big_endian :: (test_world, 'z, unit) mcmd)"
  by (rule passesI, simp add: test_calculate_channel_num_default_bw_def test_invalid_channel_rejected_def
    test_channel_0_frequency_def test_channel_7_frequency_def test_channel_13_frequency_def
    assert_channel_frequency_def test_frf_written_big_endian_def config_mocked channel_arith Let_def)+

lemmas init_steps = reset_with_version_def run_init_def initialize_sx_1278_def sx1278_switch_mode_def
  sx_1278_set_spreading_factor_def set_spreading_factor_var_def end_in_sleep_def

lemma wrong_version_tests_pass:
  "passes default_radio (init_answers 0x00 SX_INVALID_RESPONSE :: (test_world, 'z, unit) mcmd)"
  "passes default_radio (init_answers 0xFF SX_INVALID_RESPONSE :: (test_world, 'z, unit) mcmd)"
  by (rule passesI, simp add: init_answers_def init_steps config_mocked Let_def)+

text \<open>What a successful initialisation leaves in the log; every other test of it reads from this.\<close>

definition init_log :: "(u8 \<times> u8) list" where
  "init_log = [(0x01, 0x80), (0x0D, 0), (0x0F, 0), (0x0E, 0), (0x01, 0x81),
     (0x06, 0xD7), (0x07, 0xC4), (0x08, 0), (0x09, 0xFC), (0x2B, 0x2B), (0x4D, 0x84), (0x1D, 0x72),
     (0x01, 0x81), (0x1E, 0xC4), (0x01, 0x80), (0x1F, 0xFF), (0x20, 0), (0x21, 0x18), (0x39, 0xD3)]"

lemma run_init_log:
  assumes "default_radio s"
  shows "wp (andThen (reset_with_version 0x12) (\<lambda>_. run_init))
    (\<lambda>ret t. ret = SX_OK \<and> default_radio t \<and> write_log (world t) = init_log) s"
  using assms by (simp add: init_steps config_mocked channel_arith init_log_def Let_def)

lemma wp_after_init:
  assumes "default_radio s"
    and "\<And>t. default_radio t \<Longrightarrow> write_log (world t) = init_log \<Longrightarrow> wp (k SX_OK) Q t"
  shows "wp (andThen (reset_with_version 0x12) (\<lambda>_. andThen run_init k)) Q s"
proof -
  have "wp (andThen (andThen (reset_with_version 0x12) (\<lambda>_. run_init)) k) Q s"
    using wp_mono [OF run_init_log [OF assms(1)], of "\<lambda>ret. wp (k ret) Q"] assms(2)
    unfolding wp_andThen [of _ k] by blast
  then show ?thesis by (simp only: andThen_assoc)
qed

lemma init_answers_ok: "passes default_radio (init_answers 0x12 SX_OK :: (test_world, 'z, unit) mcmd)"
  unfolding init_answers_def by (intro passesI wp_after_init) simp_all

lemma init_writes_pass:
  assumes "set rvs \<subseteq> set init_log"
  shows "passes default_radio (init_writes rvs :: (test_world, 'z, unit) mcmd)"
proof -
  have "list_all (\<lambda>(r, v). wrote r v init_log) rvs"
    using assms by (fastforce simp: wrote_def list_all_iff list_ex_iff)
  then show ?thesis
    unfolding init_writes_def
    by (intro passesI wp_after_init) (simp_all add: assert_log_def in_world_def)
qed

lemma config_tests_pass: "passes default_radio (test_sx127x_config :: (test_world, 'z, unit) mcmd)"
  unfolding test_sx127x_config_def
  by (rule run_tests_pass)
    (simp add: channel_tests_pass wrong_version_tests_pass init_answers_ok init_writes_pass init_log_def
      test_initialize_fails_on_wrong_version_def test_initialize_fails_on_zero_version_def
      test_initialize_succeeds_on_correct_version_def test_initialize_writes_pa_config_def
      test_initialize_writes_ocp_def test_initialize_writes_sync_word_def
      test_initialize_writes_symbol_timeout_def test_initialize_writes_preamble_length_def
      test_initialize_zeros_fifo_pointers_def)

end
