(* ===== verification/Test_Driver.thy ===== *)
theory Test_Driver
  imports Testing Utils
begin

text \<open>
  The test programs \<open>tests/test_sx127x_driver.c\<close> and \<open>tests/test_sx127x_utils.c\<close>, test by test, on the
  mocks of Mocks. All of them pass.
\<close>

unbundle bit_operations_syntax

section \<open>Mocks\<close>

text \<open>\<open>reset_state\<close> (\<open>irq\<close> is the mask the program starts from) and \<open>setup\<close>.\<close>

definition reset_mocks :: "u8 \<Rightarrow> (test_world, 'z, unit) mcmd" where
  "reset_mocks irq = set_world (\<lambda>w. w\<lparr>write_log := [], irq_read_count := 0, irq_fires_on_read := 1,
     irq_mask_value := irq, read_responses := (\<lambda>_. 0)\<rparr>)"

definition setup_mocks :: "test_world sx127x_timer_t \<Rightarrow> (test_world, 'z, unit) mcmd" where
  "setup_mocks timer_fn =
     andThen (set_world (\<lambda>w. w\<lparr>time_call_n := 0\<rparr>)) (\<lambda>_.
     modify (\<lambda>s. s\<lparr>sx127x_spi_port := snd (spi_port_init (Some recording_writer) (Some counting_reader) NULL),
       sx127x_timer_ctx := sx127x_timer_init (Some timer_fn) (Some noop_delay),
       sx127x_logger := zero_logger\<rparr>))"

definition irq_fires :: "nat \<Rightarrow> u8 \<Rightarrow> (test_world, 'z, unit) mcmd" where
  "irq_fires n irqs = set_world (\<lambda>w. w\<lparr>irq_fires_on_read := n, irq_mask_value := irqs\<rparr>)"

definition respond :: "u8 \<Rightarrow> u8 \<Rightarrow> (test_world, 'z, unit) mcmd" where
  "respond reg v = set_world (\<lambda>w. w\<lparr>read_responses := (read_responses w)(reg := v)\<rparr>)"

definition assert_irq_reads :: "nat \<Rightarrow> (test_world, 'z, unit) mcmd" where
  "assert_irq_reads n = andThen (in_world irq_read_count) (\<lambda>c. c_assert (c = n))"

text \<open>The first lines of every test of the driver.\<close>

definition driver_setup :: "test_world sx127x_timer_t \<Rightarrow> nat \<Rightarrow> u8 \<Rightarrow> (test_world, 'z, unit) mcmd" where
  "driver_setup timer_fn n irqs =
     andThen (reset_mocks 0x08) (\<lambda>_. andThen (setup_mocks timer_fn) (\<lambda>_. irq_fires n irqs))"

section \<open>\<open>test_sx127x_driver.c\<close>\<close>

definition test_poll_irq_fires_immediately :: "(test_world, 'z, unit) mcmd" where
  "test_poll_irq_fires_immediately =
     andThen (driver_setup zero_clock 1 (push_bit 3 1)) (\<lambda>_.
     andThen (poll_for_irq_flag 3000 1 (push_bit 3 1) False) (\<lambda>ret.
     andThen (c_assert (ret = SX_OK)) (\<lambda>_.
     assert_irq_reads 1)))"

definition test_poll_irq_fires_after_three_reads :: "(test_world, 'z, unit) mcmd" where
  "test_poll_irq_fires_after_three_reads =
     andThen (driver_setup zero_clock 3 (push_bit 3 1)) (\<lambda>_.
     andThen (poll_for_irq_flag 3000 1 (push_bit 3 1) False) (\<lambda>ret.
     andThen (c_assert (ret = SX_OK)) (\<lambda>_.
     assert_irq_reads 3)))"

definition test_poll_irq_timeout :: "(test_world, 'z, unit) mcmd" where
  "test_poll_irq_timeout =
     andThen (driver_setup advancing_timer 999 (push_bit 3 1)) (\<lambda>_.
     andThen (poll_for_irq_flag 3000 1 (push_bit 3 1) False) (\<lambda>ret.
     c_assert (ret = SX_TIMEOUT)))"

definition test_poll_irq_cleanup_writes_ff_on_success :: "(test_world, 'z, unit) mcmd" where
  "test_poll_irq_cleanup_writes_ff_on_success =
     andThen (driver_setup zero_clock 1 (push_bit 3 1)) (\<lambda>_.
     andThen (poll_for_irq_flag 3000 1 (push_bit 3 1) True) (\<lambda>_.
     assert_log (wrote 0x12 0xFF)))"

definition test_poll_irq_cleanup_writes_ff_on_timeout :: "(test_world, 'z, unit) mcmd" where
  "test_poll_irq_cleanup_writes_ff_on_timeout =
     andThen (driver_setup advancing_timer 999 0x08) (\<lambda>_.
     andThen (poll_for_irq_flag 3000 1 (push_bit 3 1) True) (\<lambda>_.
     assert_log (wrote 0x12 0xFF)))"

definition test_poll_irq_no_cleanup_does_not_write_on_success :: "(test_world, 'z, unit) mcmd" where
  "test_poll_irq_no_cleanup_does_not_write_on_success =
     andThen (driver_setup zero_clock 1 (push_bit 3 1)) (\<lambda>_.
     andThen (poll_for_irq_flag 3000 1 (push_bit 3 1) False) (\<lambda>_.
     assert_log (never_wrote 0x12)))"

definition test_poll_checks_correct_bit_mask :: "(test_world, 'z, unit) mcmd" where
  "test_poll_checks_correct_bit_mask =
     andThen (driver_setup advancing_timer 1 0x40) (\<lambda>_.
     andThen (poll_for_irq_flag 3000 1 (push_bit 3 1) False) (\<lambda>ret.
     c_assert (ret = SX_TIMEOUT)))"

text \<open>A local array that the test does not initialise has the content \<open>buf\<close>.\<close>

definition test_read_payload_no_rxdone_returns_error :: "u8 list \<Rightarrow> (test_world, 'z, unit) mcmd" where
  "test_read_payload_no_rxdone_returns_error buf =
     andThen (driver_setup zero_clock 1 0x08) (\<lambda>_.
     andThen (sx1278_read_last_payload buf 0) (\<lambda>(ret, buf, len).
     andThen (c_assert (ret = SX_INVALID_STATE)) (\<lambda>_.
     assert_log (wrote 0x12 0xFF))))"

definition test_read_payload_crc_error_returns_error :: "u8 list \<Rightarrow> (test_world, 'z, unit) mcmd" where
  "test_read_payload_crc_error_returns_error buf =
     andThen (driver_setup zero_clock 1 0x60) (\<lambda>_.
     andThen (sx1278_read_last_payload buf 0) (\<lambda>(ret, buf, len).
     andThen (c_assert (ret = SX_INVALID_CRC)) (\<lambda>_.
     assert_log (wrote 0x12 0xFF))))"

definition test_read_payload_success :: "(test_world, 'z, unit) mcmd" where
  "test_read_payload_success =
     andThen (driver_setup zero_clock 1 0x40) (\<lambda>_.
     andThen (respond 0x13 4) (\<lambda>_.
     andThen (respond 0x10 0x00) (\<lambda>_.
     andThen (respond 0x00 0xAB) (\<lambda>_.
     andThen (sx1278_read_last_payload (replicate 32 0) 0) (\<lambda>(ret, buf, len).
     andThen (c_assert (ret = SX_OK)) (\<lambda>_.
     andThen (c_assert (len = 4)) (\<lambda>_.
     c_assert (list_all (\<lambda>i. buf ! i = 0xAB) [0..<4]))))))))"

definition test_read_payload_sets_fifo_pointer_before_read :: "u8 list \<Rightarrow> (test_world, 'z, unit) mcmd" where
  "test_read_payload_sets_fifo_pointer_before_read buf =
     andThen (driver_setup zero_clock 1 0x40) (\<lambda>_.
     andThen (respond 0x13 1) (\<lambda>_.
     andThen (respond 0x10 0x20) (\<lambda>_.
     andThen (sx1278_read_last_payload buf 0) (\<lambda>_.
     assert_log (\<lambda>ws. last_write_to 0x0D ws = 0x20)))))"

definition test_send_payload_writes_payload_length :: "(test_world, 'z, unit) mcmd" where
  "test_send_payload_writes_payload_length =
     andThen (driver_setup zero_clock 1 (push_bit 3 1)) (\<lambda>_.
     andThen (respond 0x0E 0x00) (\<lambda>_.
     andThen (sx1278_send_payload [0x01, 0x02, 0x03] 3 False) (\<lambda>ret.
     andThen (c_assert (ret = SX_OK)) (\<lambda>_.
     assert_log (wrote 0x22 3)))))"

definition test_send_payload_enters_tx_mode :: "(test_world, 'z, unit) mcmd" where
  "test_send_payload_enters_tx_mode =
     andThen (driver_setup zero_clock 1 (push_bit 3 1)) (\<lambda>_.
     andThen (respond 0x0E 0x00) (\<lambda>_.
     andThen (sx1278_send_payload [0xAA] 1 False) (\<lambda>_.
     assert_log (wrote 0x01 (0x80 OR 0x03)))))"

definition test_send_payload_switches_to_sleep_after_tx :: "(test_world, 'z, unit) mcmd" where
  "test_send_payload_switches_to_sleep_after_tx =
     andThen (driver_setup zero_clock 1 (push_bit 3 1)) (\<lambda>_.
     andThen (respond 0x0E 0x00) (\<lambda>_.
     andThen (sx1278_send_payload [0xBB] 1 False) (\<lambda>_.
     assert_log (\<lambda>ws. last_write_to 0x01 ws = 0x80))))"

definition test_send_payload_switches_to_rx_after_tx :: "(test_world, 'z, unit) mcmd" where
  "test_send_payload_switches_to_rx_after_tx =
     andThen (driver_setup zero_clock 1 (push_bit 3 1)) (\<lambda>_.
     andThen (respond 0x0E 0x00) (\<lambda>_.
     andThen (sx1278_send_payload [0xCC] 1 True) (\<lambda>_.
     assert_log (\<lambda>ws. last_write_to 0x01 ws = 0x85))))"

definition test_sx127x_driver :: "u8 list \<Rightarrow> (test_world, 'z, unit) mcmd" where
  "test_sx127x_driver buf = run_tests
     [test_poll_irq_fires_immediately, test_poll_irq_fires_after_three_reads, test_poll_irq_timeout,
      test_poll_irq_cleanup_writes_ff_on_success, test_poll_irq_cleanup_writes_ff_on_timeout,
      test_poll_irq_no_cleanup_does_not_write_on_success, test_poll_checks_correct_bit_mask,
      test_read_payload_no_rxdone_returns_error buf, test_read_payload_crc_error_returns_error buf,
      test_read_payload_success, test_read_payload_sets_fifo_pointer_before_read buf,
      test_send_payload_writes_payload_length, test_send_payload_enters_tx_mode,
      test_send_payload_switches_to_sleep_after_tx, test_send_payload_switches_to_rx_after_tx]"

section \<open>\<open>test_sx127x_utils.c\<close>\<close>

definition utils_setup :: "nat \<Rightarrow> u8 \<Rightarrow> (test_world, 'z, unit) mcmd" where
  "utils_setup n irqs =
     andThen (reset_mocks 0x40) (\<lambda>_. andThen (setup_mocks zero_clock) (\<lambda>_. irq_fires n irqs))"

definition test_poll_no_timeout_fires_immediately :: "(test_world, 'z, unit) mcmd" where
  "test_poll_no_timeout_fires_immediately =
     andThen (utils_setup 1 (push_bit 6 1)) (\<lambda>_.
     andThen (poll_for_irq_flag_no_timeout 1 (push_bit 6 1) False) (\<lambda>ret.
     andThen (c_assert (ret = SX_OK)) (\<lambda>_.
     assert_irq_reads 1)))"

definition test_poll_no_timeout_fires_after_five_reads :: "(test_world, 'z, unit) mcmd" where
  "test_poll_no_timeout_fires_after_five_reads =
     andThen (utils_setup 5 (push_bit 6 1)) (\<lambda>_.
     andThen (poll_for_irq_flag_no_timeout 1 (push_bit 6 1) False) (\<lambda>ret.
     andThen (c_assert (ret = SX_OK)) (\<lambda>_.
     assert_irq_reads 5)))"

definition test_poll_no_timeout_checks_correct_bit :: "(test_world, 'z, unit) mcmd" where
  "test_poll_no_timeout_checks_correct_bit =
     andThen (utils_setup 1 (push_bit 3 1)) (\<lambda>_.
     andThen (set_world (irq_fires_on_read_update (\<lambda>_. 999))) (\<lambda>_.
     andThen (irq_fires 1 (push_bit 6 1)) (\<lambda>_.
     andThen (poll_for_irq_flag_no_timeout 1 (push_bit 6 1) False) (\<lambda>ret.
     andThen (c_assert (ret = SX_OK)) (\<lambda>_.
     assert_irq_reads 1)))))"

definition test_poll_no_timeout_cleanup_writes_ff_on_success :: "(test_world, 'z, unit) mcmd" where
  "test_poll_no_timeout_cleanup_writes_ff_on_success =
     andThen (utils_setup 1 (push_bit 6 1)) (\<lambda>_.
     andThen (poll_for_irq_flag_no_timeout 1 (push_bit 6 1) True) (\<lambda>_.
     assert_log (wrote 0x12 0xFF)))"

definition test_poll_no_timeout_no_cleanup_does_not_write_irq :: "(test_world, 'z, unit) mcmd" where
  "test_poll_no_timeout_no_cleanup_does_not_write_irq =
     andThen (utils_setup 1 (push_bit 6 1)) (\<lambda>_.
     andThen (poll_for_irq_flag_no_timeout 1 (push_bit 6 1) False) (\<lambda>_.
     assert_log (never_wrote 0x12)))"

definition test_sx127x_utils :: "(test_world, 'z, unit) mcmd" where
  "test_sx127x_utils = run_tests
     [test_poll_no_timeout_fires_immediately, test_poll_no_timeout_fires_after_five_reads,
      test_poll_no_timeout_checks_correct_bit, test_poll_no_timeout_cleanup_writes_ff_on_success,
      test_poll_no_timeout_no_cleanup_does_not_write_irq]"

section \<open>The tests pass\<close>

lemmas mocked = set_world_def in_world_def reset_mocks_def setup_mocks_def irq_fires_def respond_def
  spi_port_init_def sx127x_timer_init_def assert_irq_reads_def assert_log_def wrote_def last_write_to_def
  never_wrote_def zero_logger_def log_err_def network_log_err_def network_log_with_tag_def network_log_def
  spi_write_def spi_read_def spi_read1_def on_world_def spi_burst_write_reg_def spi_burst_read_reg_def
  recording_writer_def counting_reader_def time_us_def delay_ms_def sx127x_timer_get_time_us_def
  sx127x_task_delay_ms_def zero_clock_def advancing_timer_def noop_delay_def checked_def ok_or_return_def
  buf_write_def overlay_def wp_def sx1278_clear_irq_def sx1278_switch_mode_def sx1278_read_irq_def

lemmas polled = poll_for_irq_flag_def poll_loop.simps fits_i64_def irq_cleanup_def
  poll_for_irq_flag_no_timeout_def poll_for_irq_flag_no_timeout_loop.simps

lemma driver_polling_tests_pass:
  "passes (\<lambda>_. True) (test_poll_irq_fires_immediately :: (test_world, 'z, unit) mcmd)"
  "passes (\<lambda>_. True) (test_poll_irq_fires_after_three_reads :: (test_world, 'z, unit) mcmd)"
  "passes (\<lambda>_. True) (test_poll_irq_timeout :: (test_world, 'z, unit) mcmd)"
  "passes (\<lambda>_. True) (test_poll_irq_cleanup_writes_ff_on_success :: (test_world, 'z, unit) mcmd)"
  "passes (\<lambda>_. True) (test_poll_irq_cleanup_writes_ff_on_timeout :: (test_world, 'z, unit) mcmd)"
  "passes (\<lambda>_. True) (test_poll_irq_no_cleanup_does_not_write_on_success :: (test_world, 'z, unit) mcmd)"
  "passes (\<lambda>_. True) (test_poll_checks_correct_bit_mask :: (test_world, 'z, unit) mcmd)"
  by (rule passesI, simp add: test_poll_irq_fires_immediately_def test_poll_irq_fires_after_three_reads_def
    test_poll_irq_timeout_def test_poll_irq_cleanup_writes_ff_on_success_def
    test_poll_irq_cleanup_writes_ff_on_timeout_def test_poll_irq_no_cleanup_does_not_write_on_success_def
    test_poll_checks_correct_bit_mask_def driver_setup_def mocked polled Let_def)+

lemma driver_payload_tests_pass:
  assumes "length buf = 32"
  shows "passes (\<lambda>_. True) (test_read_payload_no_rxdone_returns_error buf :: (test_world, 'z, unit) mcmd)"
    "passes (\<lambda>_. True) (test_read_payload_crc_error_returns_error buf :: (test_world, 'z, unit) mcmd)"
    "passes (\<lambda>_. True) (test_read_payload_success :: (test_world, 'z, unit) mcmd)"
    "passes (\<lambda>_. True) (test_read_payload_sets_fifo_pointer_before_read buf :: (test_world, 'z, unit) mcmd)"
  by (rule passesI, use assms in \<open>simp add: test_read_payload_no_rxdone_returns_error_def
    test_read_payload_crc_error_returns_error_def test_read_payload_success_def
    test_read_payload_sets_fifo_pointer_before_read_def driver_setup_def clear_and_log_def
    sx1278_read_last_payload_def list_all_iff nth_append mocked polled Let_def\<close>)+

lemma driver_sending_tests_pass:
  "passes (\<lambda>_. True) (test_send_payload_writes_payload_length :: (test_world, 'z, unit) mcmd)"
  "passes (\<lambda>_. True) (test_send_payload_enters_tx_mode :: (test_world, 'z, unit) mcmd)"
  "passes (\<lambda>_. True) (test_send_payload_switches_to_sleep_after_tx :: (test_world, 'z, unit) mcmd)"
  "passes (\<lambda>_. True) (test_send_payload_switches_to_rx_after_tx :: (test_world, 'z, unit) mcmd)"
  by (rule passesI, simp add: test_send_payload_writes_payload_length_def test_send_payload_enters_tx_mode_def
    test_send_payload_switches_to_sleep_after_tx_def test_send_payload_switches_to_rx_after_tx_def
    driver_setup_def sx1278_send_payload_def mocked polled Let_def)+

lemma driver_tests_pass:
  "length buf = 32 \<Longrightarrow> passes (\<lambda>_. True) (test_sx127x_driver buf :: (test_world, 'z, unit) mcmd)"
  unfolding test_sx127x_driver_def
  by (rule run_tests_pass)
    (simp add: driver_polling_tests_pass driver_payload_tests_pass driver_sending_tests_pass)

lemma utils_tests_pass: "passes (\<lambda>_. True) (test_sx127x_utils :: (test_world, 'z, unit) mcmd)"
proof -
  have "passes (\<lambda>_. True) (test_poll_no_timeout_fires_immediately :: (test_world, 'z, unit) mcmd)"
    "passes (\<lambda>_. True) (test_poll_no_timeout_fires_after_five_reads :: (test_world, 'z, unit) mcmd)"
    "passes (\<lambda>_. True) (test_poll_no_timeout_checks_correct_bit :: (test_world, 'z, unit) mcmd)"
    "passes (\<lambda>_. True) (test_poll_no_timeout_cleanup_writes_ff_on_success :: (test_world, 'z, unit) mcmd)"
    "passes (\<lambda>_. True) (test_poll_no_timeout_no_cleanup_does_not_write_irq :: (test_world, 'z, unit) mcmd)"
    by (rule passesI, simp add: test_poll_no_timeout_fires_immediately_def
      test_poll_no_timeout_fires_after_five_reads_def test_poll_no_timeout_checks_correct_bit_def
      test_poll_no_timeout_cleanup_writes_ff_on_success_def
      test_poll_no_timeout_no_cleanup_does_not_write_irq_def utils_setup_def mocked polled Let_def)+
  then show ?thesis unfolding test_sx127x_utils_def by (intro run_tests_pass) simp
qed

end
