(* ===== verification/Test_Session.thy ===== *)
theory Test_Session
  imports Testing Network_Data
begin

text \<open>
  The test programs \<open>tests/test_packets.c\<close> and \<open>tests/test_network_data_operations.c\<close>, test by test, and
  what they share with Test_Handler: local objects and strings. They pass from every heap in order,
  whatever the random values and whatever new memory holds.
\<close>

section \<open>Local objects and strings\<close>

text \<open>An automatic variable whose address is taken is an object like any other, which is there
  without a \<open>malloc\<close>. No test uses one after its function has returned.\<close>

definition local_object :: "block \<Rightarrow> ('z cmem_scheme, nat) cmd" where
  "local_object b = (\<lambda>s.
     Some (Ret (fresh s) (s\<lparr>blocks := (blocks s)(fresh s \<mapsto> b), fresh := Suc (fresh s)\<rparr>)))"

text \<open>A string up to its terminating zero; there must be one.\<close>

definition the_string :: "u8 list \<Rightarrow> ('s, u8 list) cmd" where
  "the_string bs = (if 0 \<in> set bs then give (c_string bs) else crash Out_Of_Bounds)"

definition c_literal :: "string \<Rightarrow> u8 list" where
  "c_literal str = str_bytes str @ [0]"

section \<open>\<open>test_packets.c\<close>\<close>

text \<open>The addresses and the ack id come from \<open>rand()\<close>, and \<open>buf\<close> is what the new buffer holds.\<close>

definition test_parse_packet :: "u16 \<Rightarrow> u16 \<Rightarrow> u8 \<Rightarrow> u8 list \<Rightarrow> ('z cmem_scheme, int) cmd" where
  "test_parse_packet dest_addr source_addr ack buf =
     andThen (malloc_bytes 8) (\<lambda>pl.
     andThen (write_bytes pl 0 (replicate 8 0xFF)) (\<lambda>_.
     andThen (packet_constructor dest_addr source_addr ack 0 8 pl) (\<lambda>p.
     andThen (packet_to_bytestream buf max_frame_size p) (\<lambda>(result, buf).
     andThen malloc_packet (\<lambda>callback_p.
     andThen (parse_packet buf callback_p) (\<lambda>parse_result.
     let out = (\<lambda>ret. andThen (free_packet p) (\<lambda>_. andThen (free_packet callback_p) (\<lambda>_. give ret))) in
     if parse_result = - 1 then out (- 1)
     else
       andThen (load_packet callback_p) (\<lambda>k.
       if ack_id k \<noteq> ack \<or> dest_address k \<noteq> dest_addr \<or> payload_length k \<noteq> 8 \<or>
          sequence_number k \<noteq> 0 \<or> src_address k \<noteq> source_addr
       then out (- 1) else out 0)))))))"

definition test_packet_to_bytestream :: "u16 \<Rightarrow> u16 \<Rightarrow> u8 \<Rightarrow> u8 list \<Rightarrow> ('z cmem_scheme, int) cmd" where
  "test_packet_to_bytestream dest_addr source_addr ack buf =
     andThen (malloc_bytes 8) (\<lambda>pl.
     andThen (write_bytes pl 0 (replicate 8 0xFF)) (\<lambda>_.
     andThen (packet_constructor dest_addr source_addr ack 0 8 pl) (\<lambda>p.
     andThen (packet_to_bytestream buf max_frame_size p) (\<lambda>(result, buf).
     andThen (free_packet p) (\<lambda>_.
     give (if result = - 1 then - 1 else if result \<noteq> int max_frame_size then - 1 else 0))))))"

definition assert_zero :: "('s, int) cmd \<Rightarrow> ('s, unit) cmd" where
  "assert_zero m = andThen m (\<lambda>ret. c_assert (ret = 0))"

definition test_packets :: "(nat \<Rightarrow> u16 \<times> u16 \<times> u8 \<times> u8 list) \<Rightarrow> ('z cmem_scheme, unit) cmd" where
  "test_packets rand = run_tests
     [case rand 0 of (d, s, a, buf) \<Rightarrow> assert_zero (test_packet_to_bytestream d s a buf),
      case rand 1 of (d, s, a, buf) \<Rightarrow> assert_zero (test_parse_packet d s a buf)]"

definition heap_ready :: "'z cmem_scheme \<Rightarrow> bool" where
  "heap_ready s \<longleftrightarrow> mem_ok s \<and> alloc_never_fails s"

text \<open>The packet both tests start from.\<close>

definition ff_frame :: "u16 \<Rightarrow> u16 \<Rightarrow> u8 \<Rightarrow> frame" where
  "ff_frame d s a = \<lparr>fr_dest = d, fr_src = s, fr_ack = a, fr_seq = 0, fr_data = replicate 8 0xFF\<rparr>"

lemma ff_frame_sel [simp]:
  "fr_dest (ff_frame d s a) = d" "fr_src (ff_frame d s a) = s" "fr_ack (ff_frame d s a) = a"
  "fr_seq (ff_frame d s a) = 0" "fr_data (ff_frame d s a) = replicate 8 0xFF"
  by (simp_all add: ff_frame_def)

lemma make_ff_frame:
  assumes "heap_ready s"
  shows "andThen (malloc_bytes 8) (\<lambda>pl.
       andThen (write_bytes pl 0 (replicate 8 0xFF)) (\<lambda>_.
       andThen (packet_constructor d sr a 0 8 pl) k)) s = k (Suc (fresh s)) (put_frag s (ff_frame d sr a))"
  using assms
  by (simp add: heap_ready_def cmd_simps packet_constructor_def ff_frame_def put_frag_def packet_of_def overlay_def fun_upd_twist add_2_eq_Suc')

lemma put_ff_frame:
  assumes "heap_ready s"
  shows "heap_ready (put_frag s (ff_frame d sr a))"
    "packet_view (put_frag s (ff_frame d sr a)) (Suc (fresh s)) = Some (ff_frame d sr a)"
    "fresh (put_frag s (ff_frame d sr a)) = fresh s + 2"
    "blocks (put_frag s (ff_frame d sr a)) (Suc (fresh s)) = Some (Pkt (packet_of (ff_frame d sr a) (fresh s)))"
    "blocks (put_frag s (ff_frame d sr a)) (fresh s) = Some (Bytes (replicate 8 0xFF))"
proof -
  have "frame_ok (ff_frame d sr a)" by (simp add: frame_ok_def ff_frame_def)
  then show "packet_view (put_frag s (ff_frame d sr a)) (Suc (fresh s)) = Some (ff_frame d sr a)"
    by (rule put_frag_view)
  show "heap_ready (put_frag s (ff_frame d sr a))"
    using assms put_frag_mem_ok [of s] by (simp add: heap_ready_def)
qed (simp_all add: put_frag_def ff_frame_def)

lemma heap_ready_free_packet:
  assumes "heap_ready s" and "blocks s p = Some (Pkt k)" and "blocks s (payload k) \<noteq> None" and "payload k \<noteq> p"
  shows "free_packet p s = Some (Ret () (s\<lparr>blocks := (blocks s)(payload k := None, p := None)\<rparr>))"
    "heap_ready (s\<lparr>blocks := (blocks s)(payload k := None, p := None)\<rparr>)"
  using assms free_packet_run [of s p k] by (auto simp: heap_ready_def mem_ok_def)

lemma passes_to_bytestream:
  assumes "length buf = 15"
  shows "passes heap_ready (assert_zero (test_packet_to_bytestream d sr a buf) :: ('z cmem_scheme, unit) cmd)"
proof (rule passesI)
  fix s :: "'z cmem_scheme" assume r: "heap_ready s"
  note put = put_ff_frame [OF r, of d sr a]
  have "packet_to_bytestream buf 15 (Suc (fresh s)) (put_frag s (ff_frame d sr a)) =
      Some (Ret (15, overlay buf 0 (wire (ff_frame d sr a))) (put_frag s (ff_frame d sr a)))"
    using to_bytestream_run [OF put(2), of 15 buf] assms by (simp add: ff_frame_def)
  moreover note heap_ready_free_packet [OF put(1,4)]
  ultimately show "wp (assert_zero (test_packet_to_bytestream d sr a buf)) (\<lambda>_. heap_ready) s"
    using put(5) by (simp add: assert_zero_def test_packet_to_bytestream_def make_ff_frame [OF r] wp_def andThen_assoc)
qed

lemma passes_parse_packet:
  assumes "length buf = 15"
  shows "passes heap_ready (assert_zero (test_parse_packet d sr a buf) :: ('z cmem_scheme, unit) cmd)"
proof (rule passesI)
  fix s :: "'z cmem_scheme" assume r: "heap_ready s"
  let ?f = "ff_frame d sr a" and ?p = "Suc (fresh s)"
  let ?t = "put_frag s ?f" and ?b = "overlay buf 0 (wire (ff_frame d sr a))"
  note put = put_ff_frame [OF r, of d sr a]
  have b: "packet_to_bytestream buf 15 ?p ?t = Some (Ret (15, ?b) ?t)"
    using to_bytestream_run [OF put(2), of 15 buf] assms by (simp add: ff_frame_def)
  let ?q = "fresh s + 2"
  define u where "u = ?t\<lparr>blocks := (blocks ?t)(?q \<mapsto> Pkt (junk_packet (junk ?t ?q))), fresh := ?q + 1\<rparr>"
  have m: "malloc_packet ?t = Some (Ret ?q u)"
    using put(1,3) by (simp add: heap_ready_def malloc_packet_run u_def)
  have ur: "heap_ready u" using put(1,3) by (auto simp: u_def heap_ready_def mem_ok_def)
  have uq: "blocks u ?q = Some (Pkt (junk_packet (junk ?t ?q)))" by (simp add: u_def)
  have l: "length (wire ?f) = 15" "fr_data ?f \<noteq> []" by (simp_all add: ff_frame_def)
  have "frame_ok ?f" by (simp add: frame_ok_def ff_frame_def)
  then have "unwire ?b = Some (?f, 15)"
    using lora_codec.decode_encode [of ?f "drop 15 buf"] l by (simp add: overlay_def)
  from parse_packet_run [OF this uq] have pp: "parse_packet ?b ?q u = Some (Ret 15 (parsed u ?q ?f))"
    using ur by (simp add: heap_ready_def)
  define v where "v = parsed u ?q ?f"
  have vr: "heap_ready v" using parsed_mem_ok [OF _ uq, of ?f] keeps_never_fails [OF parsed_keeps [OF _ uq, of ?f]] ur
    by (simp add: heap_ready_def v_def)
  have vb: "blocks v ?q = Some (Pkt (packet_of ?f (?q + 1)))" "blocks v (?q + 1) = Some (Bytes (fr_data ?f))"
    "blocks v ?p = blocks ?t ?p" "blocks v (fresh s) = blocks ?t (fresh s)"
    using l(2) by (auto simp: v_def parsed_def u_def)
  have pv: "parse_packet ?b ?q u = Some (Ret 15 v)" by (simp only: pp v_def)
  note f1 = heap_ready_free_packet [OF vr, of ?p "packet_of ?f (fresh s)"]
  define w where "w = v\<lparr>blocks := (blocks v)(fresh s := None, ?p := None)\<rparr>"
  have w: "heap_ready w" "free_packet ?p v = Some (Ret () w)" using f1 vb put(4,5) by (simp_all add: w_def)
  have wb: "blocks w ?q = blocks v ?q" "blocks w (?q + 1) = blocks v (?q + 1)" by (simp_all add: w_def)
  note f2 = heap_ready_free_packet [OF w(1), of ?q "packet_of ?f (?q + 1)"]
  show "wp (assert_zero (test_parse_packet d sr a buf)) (\<lambda>_. heap_ready) s"
    using f2 w wb vb b m pv
    by (simp add: assert_zero_def test_parse_packet_def make_ff_frame [OF r] wp_def andThen_assoc
      load_packet_run Let_def)
qed

lemma packets_tests_pass:
  assumes "\<And>i. length (snd (snd (snd (rand i)))) = 15"
  shows "passes heap_ready (test_packets rand :: ('z cmem_scheme, unit) cmd)"
  unfolding test_packets_def
  by (rule run_tests_pass)
    (use assms [of 0] assms [of 1] in \<open>auto simp: passes_to_bytestream passes_parse_packet split: prod.split\<close>)

section \<open>\<open>test_network_data_operations.c\<close>\<close>

definition amumu :: "u8 list" where
  "amumu = c_literal ''amumumumu sejuani''"

text \<open>The caller's arrays are list values, as everywhere (Network_Data); \<open>uninit\<close> is what they hold before
  they are written.\<close>

definition test_packet_array_to_data :: "(nat \<Rightarrow> nat) \<Rightarrow> u8 list \<Rightarrow> ('z cmem_scheme, int) cmd" where
  "test_packet_array_to_data uninit data_str2 =
     (let data_len = int (length amumu); npackets = nat (ceil_packets data_len);
          p_arr = map uninit [0..<npackets] in
      andThen (data_to_packet_array p_arr amumu data_len 0xFF00 0x00FF 0x01 False) (\<lambda>(ret, p_arr).
      if ret \<noteq> 0 then give (- 1)
      else
        andThen (packet_array_to_data p_arr data_str2 (int npackets)) (\<lambda>(ret, data_str2).
        if ret \<noteq> 0 then give (- 1)
        else
          andThen (the_string data_str2) (\<lambda>str. give (if str \<noteq> c_string amumu then - 1 else 0)))))"

fun free_all :: "nat list \<Rightarrow> ('z cmem_scheme, unit) cmd" where
  "free_all [] = give ()"
| "free_all (p # ps) = andThen (if p \<noteq> NULL then free_packet p else give ()) (\<lambda>_. free_all ps)"

definition test_data_to_packet_array :: "('z cmem_scheme, int) cmd" where
  "test_data_to_packet_array =
     (let data = str_bytes ''amumumumu sejuani''; data_len = int (length data);
          npackets = nat (ceil_packets data_len) + 2;
          p_arr = replicate npackets NULL in
      andThen (data_to_packet_array p_arr data data_len 0xFF00 0x00FF 0x01 True) (\<lambda>(ret, p_arr).
      andThen
        (if ret \<noteq> 0 then give (- 1)
         else if p_arr ! (npackets - 1) = NULL then give (- 1)
         else
           andThen (load_packet (p_arr ! (npackets - 1))) (\<lambda>k.
           give (if dest_address k \<noteq> 0xFF00 then - 1 else 0))) (\<lambda>ret.
      andThen (free_all p_arr) (\<lambda>_.
      give ret))))"


definition test_network_data_operations :: "(nat \<Rightarrow> nat) \<Rightarrow> u8 list \<Rightarrow> ('z cmem_scheme, unit) cmd" where
  "test_network_data_operations uninit buf =
     run_tests [assert_zero test_data_to_packet_array, assert_zero (test_packet_array_to_data uninit buf)]"

lemma free_frag:
  assumes "heap_ready s" and "blocks s p = Some (Pkt (packet_of f q))" and "q = NULL \<or> blocks s q \<noteq> None \<and> q \<noteq> p"
  shows "free_packet p s = Some (Ret () (s\<lparr>blocks := (blocks s)(q := None, p := None)\<rparr>))"
    "heap_ready (s\<lparr>blocks := (blocks s)(q := None, p := None)\<rparr>)"
  using assms free_packet_run [of s p "packet_of f q"] by (auto simp: heap_ready_def mem_ok_def)

lemma amumu_packets: "ceil_packets (int (length amumu)) = 3"
  by (simp add: ceil_packets_def amumu_def c_literal_def str_bytes_def)

lemma passes_packet_array_to_data:
  assumes "length buf = 256"
  shows "passes heap_ready (assert_zero (test_packet_array_to_data uninit buf) :: ('z cmem_scheme, unit) cmd)"
proof (rule passesI)
  fix s :: "'z cmem_scheme" assume r: "heap_ready s"
  let ?fs = "packetise 0xFF00 0x00FF 1 False amumu" and ?n = "nat (ceil_packets (int (length amumu)))"
  have n: "?n = length ?fs" by (simp add: length_packetise ceil_packets_chunks)
  from data_to_packet_array_built [where s = s and dest = "0xFF00" and src = "0x00FF" and ack = 1 and hs = False
      and data = amumu and cb = "map uninit [0..<?n]"] r n obtain ps t
    where t: "data_to_packet_array (map uninit [0..<?n]) amumu (int (length amumu)) 0xFF00 0x00FF 1 False s
        = Some (Ret (0, ps @ drop (length ps) (map uninit [0..<?n])) t)"
      and b: "built s ps ?fs t" "alloc_never_fails t" by (auto simp: heap_ready_def)
  have l: "length ps = ?n" "drop ?n (map uninit [0..<?n]) = []" using built_length [OF b(1)] n by simp_all
  have v: "map (packet_view t) ps = map Some ?fs" "mem_ok t" using b(1) by (simp_all add: built_def)
  have c: "concat (map fr_data ?fs) = amumu" by (rule concat_packetise)
  have "length amumu \<le> length buf" using assms by (simp add: amumu_def c_literal_def str_bytes_def)
  then have "length (concat (map fr_data ?fs)) \<le> length buf" unfolding c .
  from packet_array_to_data_run [OF v(2) b(2) v(1) _ this] obtain u
    where u: "packet_array_to_data ps buf (int (length ps)) t = Some (Ret (0, amumu @ drop (length amumu) buf) u)"
      "keeps {} t u" "mem_ok u" unfolding c using packetise_small by blast
  have "heap_ready u" using u(3) keeps_never_fails [OF u(2) b(2)] by (simp add: heap_ready_def)
  moreover have "the_string (amumu @ drop (length amumu) buf) v = Some (Ret (c_string amumu) v)" for v :: "'z cmem_scheme"
    by (simp add: the_string_def amumu_def c_literal_def c_string_def str_bytes_def)
  ultimately show "wp (assert_zero (test_packet_array_to_data uninit buf)) (\<lambda>_. heap_ready) s"
    using t u(1) l by (simp add: assert_zero_def test_packet_array_to_data_def Let_def wp_def amumu_packets andThen_assoc)
qed

text \<open>Freeing an array of packets; \<open>pqs\<close> are the packets with their payload pointers.\<close>

lemma free_all_run:
  assumes "heap_ready t" and "\<forall>(p, q) \<in> set pqs. \<exists>f. blocks t p = Some (Pkt (packet_of f q)) \<and> (q = NULL \<or> blocks t q \<noteq> None)"
    and "distinct (map fst pqs @ filter (\<lambda>q. q \<noteq> NULL) (map snd pqs))"
  shows "\<exists>u. free_all (map fst pqs) t = Some (Ret () u) \<and> heap_ready u"
  using assms
proof (induction pqs arbitrary: t)
  case Nil
  then show ?case by simp
next
  case (Cons pq pqs)
  obtain p q where pq: "pq = (p, q)" by fastforce
  then obtain f where f: "blocks t p = Some (Pkt (packet_of f q))" "q = NULL \<or> blocks t q \<noteq> None"
    using Cons.prems(2) by auto
  have d: "q = NULL \<or> q \<noteq> p" using Cons.prems(3) pq by auto
  let ?t = "t\<lparr>blocks := (blocks t)(q := None, p := None)\<rparr>"
  have p0: "p \<noteq> NULL" using mem_ok_Some_less [OF _ f(1)] Cons.prems(1) by (simp add: heap_ready_def)
  have "free_packet p t = Some (Ret () ?t)" "heap_ready ?t"
    using free_frag [OF Cons.prems(1) f(1)] f(2) d by auto
  moreover have "\<forall>(p', q') \<in> set pqs. \<exists>f. blocks ?t p' = Some (Pkt (packet_of f q')) \<and> (q' = NULL \<or> blocks ?t q' \<noteq> None)"
  proof clarify
    fix p' q' assume pq': "(p', q') \<in> set pqs"
    then have s: "p' \<in> set (map fst pqs)" "q' \<in> set (map snd pqs)" by force+
    from Cons.prems(2) pq' obtain g where g: "blocks t p' = Some (Pkt (packet_of g q'))" "q' = NULL \<or> blocks t q' \<noteq> None"
      by auto
    have "p' \<noteq> NULL" using mem_ok_Some_less [OF _ g(1)] Cons.prems(1) by (simp add: heap_ready_def)
    then have "p' \<noteq> p" "p' \<noteq> q" "q' = NULL \<or> q' \<noteq> p \<and> q' \<noteq> q"
      using Cons.prems(3) s by (auto simp: pq image_iff split: if_splits)
    then show "\<exists>f. blocks ?t p' = Some (Pkt (packet_of f q')) \<and> (q' = NULL \<or> blocks ?t q' \<noteq> None)"
      using g by auto
  qed
  moreover have "distinct (map fst pqs @ filter (\<lambda>q. q \<noteq> NULL) (map snd pqs))"
    using Cons.prems(3) pq by (auto split: if_splits)
  ultimately obtain u where "free_all (map fst pqs) ?t = Some (Ret () u)" "heap_ready u"
    using Cons.IH by blast
  then show ?case using \<open>free_packet p t = Some (Ret () ?t)\<close> p0 by (auto simp: pq)
qed

text \<open>Seventeen bytes: BEGIN, three data packets, END, and all of it is freed again.\<close>

lemma passes_data_to_packet_array:
  "passes heap_ready (assert_zero test_data_to_packet_array :: ('z cmem_scheme, unit) cmd)"
proof (rule passesI)
  fix s :: "'z cmem_scheme" assume r: "heap_ready s"
  let ?data = "str_bytes ''amumumumu sejuani''" and ?a = "fresh s"
  let ?fs = "number_frames 0xFF00 0x00FF 1 1 (chunks 8 ?data)"
  let ?b = "begin_frame 0xFF00 0x00FF 1" and ?e = "end_frame 0xFF00 0x00FF 1"
  define t where "t = burst_state s ?fs ?b ?e"
  have c: "chunks 8 ?data = [str_bytes ''amumumum'', str_bytes ''u sejuan'', str_bytes ''i'']"
    by (simp add: str_bytes_def chunks_step)
  have n: "length ?fs = 3" "ceil_packets (int (length ?data)) = 3"
    unfolding c by (simp_all add: ceil_packets_def str_bytes_def)
  have ptrs: "frag_ptrs (Suc ?a) 3 = [?a + 2, ?a + 4, ?a + 6]" by (simp add: numeral_3_eq_3)
  have run: "data_to_packet_array (replicate 5 NULL) ?data (int (length ?data)) 0xFF00 0x00FF 1 True s
      = Some (Ret (0, [?a + 8, ?a + 2, ?a + 4, ?a + 6, ?a + 9]) t)"
    using data_to_packet_array_framed [OF _ _ _ refl n(1) [symmetric], of s "replicate 5 NULL"] r n(1)
    by (simp add: heap_ready_def ptrs overlay_def t_def c)
  have bl: "blocks t (?a + 2) = Some (Pkt (packet_of (?fs ! 0) (?a + 1)))" "blocks t (?a + 1) \<noteq> None"
    "blocks t (?a + 4) = Some (Pkt (packet_of (?fs ! 1) (?a + 3)))" "blocks t (?a + 3) \<noteq> None"
    "blocks t (?a + 6) = Some (Pkt (packet_of (?fs ! 2) (?a + 5)))" "blocks t (?a + 5) \<noteq> None"
    "blocks t (?a + 8) = Some (Pkt (packet_of ?b NULL))" "blocks t (?a + 9) = Some (Pkt (packet_of ?e NULL))"
    unfolding t_def c
    by (simp_all add: burst_state_def frag_state_def put_bare_def skip_addr_def put_frag_def)
  have tr: "heap_ready t" using r mem_ok_fresh_pos [of s]
    by (auto simp: heap_ready_def t_def burst_state_def frag_state_def put_bare_mem_ok skip_addr_mem_ok put_frags_mem_ok
        alloc_never_fails_def)
  have "\<exists>u. free_all [?a + 8, ?a + 2, ?a + 4, ?a + 6, ?a + 9] t = Some (Ret () u) \<and> heap_ready u"
    using free_all_run [OF tr, of "[(?a + 8, NULL), (?a + 2, ?a + 1), (?a + 4, ?a + 3), (?a + 6, ?a + 5), (?a + 9, NULL)]"] bl
    by auto
  moreover have "load_packet (?a + 9) t = Some (Ret (packet_of ?e NULL) t)" by (simp add: bl load_packet_run)
  ultimately show "wp (assert_zero test_data_to_packet_array) (\<lambda>_. heap_ready) s"
    using run n(2) by (auto simp: assert_zero_def test_data_to_packet_array_def Let_def wp_def andThen_assoc
        end_frame_def data_frame_def numeral_eq_Suc simp del: free_all.simps)
qed

lemma network_tests_pass:
  "length buf = 256 \<Longrightarrow> passes heap_ready (test_network_data_operations uninit buf :: ('z cmem_scheme, unit) cmd)"
  unfolding test_network_data_operations_def
  by (rule run_tests_pass) (simp add: passes_data_to_packet_array passes_packet_array_to_data)

end
