(* ===== verification/Test_Handler.thy ===== *)
theory Test_Handler
  imports Test_Session Burst_Example
begin

text \<open>
  The test program \<open>tests/test_rx_packet_handler.c\<close>, test by test: edge cases of the handler on local
  packets, and whole bursts with two kinds of each callback. In a test the context of the handler
  follows the abstract session of Rx_Handler (\<open>flow\<close>), so what the handler answers and what the callbacks
  are given is computed there; the locale \<open>test_callbacks\<close> says what the callbacks do.
\<close>

section \<open>Callbacks\<close>

record 'w handler_test = "'w callback_test" +
  reassembled_data :: "u8 list"

type_synonym ('w, 'z, 'a) hcmd = "(('w, 'z) handler_test_scheme, 'a) cmd"

definition reset_callback_state :: "('w, 'z, unit) hcmd" where
  "reset_callback_state = modify (\<lambda>s. s\<lparr>end_callback_fired := 0, command_callback_fired := 0,
     reassembled_data := overlay (reassembled_data s) 0 [0]\<rparr>)"

definition rammus_string :: "u8 list" where
  "rammus_string = c_literal ''rammus''"

definition strcmp_payload :: "nat \<Rightarrow> ('w, 'z, bool) hcmd" where
  "strcmp_payload rx_p =
     andThen (load_packet rx_p) (\<lambda>k s. case blocks s (payload k) of
       Some (Bytes bs) \<Rightarrow> andThen (the_string bs) (\<lambda>str. give (str = c_string rammus_string)) s
     | _ \<Rightarrow> Some (Fault Bad_Pointer))"

definition command_callback :: "nat \<Rightarrow> ('w, 'z, unit) hcmd" where
  "command_callback rx_p =
     andThen (strcmp_payload rx_p) (\<lambda>same.
     andThen (c_assert same) (\<lambda>_.
     andThen (modify (\<lambda>s. s\<lparr>command_callback_fired := command_callback_fired s + 1\<rparr>)) (\<lambda>_.
     free_packet rx_p)))"

definition capture_end_callback :: "nat list \<Rightarrow> nat \<Rightarrow> ('w, 'z, unit) hcmd" where
  "capture_end_callback p_arr n =
     andThen (gets reassembled_data) (\<lambda>buf.
     andThen (packet_array_to_data p_arr buf (int n)) (\<lambda>(_, buf).
     andThen (modify (\<lambda>s. s\<lparr>reassembled_data := buf\<rparr>)) (\<lambda>_.
     modify (\<lambda>s. s\<lparr>end_callback_fired := end_callback_fired s + 1\<rparr>))))"

section \<open>Edge cases\<close>

definition make_begin :: "u16 \<Rightarrow> u16 \<Rightarrow> u8 \<Rightarrow> ('w, 'z, nat) hcmd" where
  "make_begin dest src ack = local_object (Pkt \<lparr>dest_address = dest, src_address = src, ack_id = ack,
     sequence_number = 0, payload_length = 0, payload = NULL\<rparr>)"

definition make_end :: "u16 \<Rightarrow> u16 \<Rightarrow> u8 \<Rightarrow> ('w, 'z, nat) hcmd" where
  "make_end dest src ack = local_object (Pkt \<lparr>dest_address = dest, src_address = src, ack_id = ack,
     sequence_number = 0xFF, payload_length = 0, payload = NULL\<rparr>)"

definition make_data :: "u16 \<Rightarrow> u16 \<Rightarrow> u8 \<Rightarrow> u8 \<Rightarrow> nat \<Rightarrow> u8 \<Rightarrow> ('w, 'z, nat) hcmd" where
  "make_data dest src ack seq pl len = local_object (Pkt \<lparr>dest_address = dest, src_address = src,
     ack_id = ack, sequence_number = seq, payload_length = len, payload = pl\<rparr>)"

abbreviation "DADDR \<equiv> 0xFF00 :: u16"
abbreviation "SADDR \<equiv> 0x00FF :: u16"

type_synonym ('w, 'z) hctx = "('w, 'z) handler_test_scheme rx_handler_ctx"

definition noop_ctx :: "('w, 'z) hctx" where
  "noop_ctx = rx_handler_init (Some noop_command_callback) (Some noop_end_callback) DADDR SADDR"

text \<open>\<open>assert(rx_packet_handler(&ctx, p) == code)\<close>; the result is the context afterwards.\<close>

definition expect :: "('w, 'z) hctx \<Rightarrow> nat \<Rightarrow> rx_handler_return \<Rightarrow> ('w, 'z, ('w, 'z) hctx) hcmd" where
  "expect ctx p code = andThen (rx_packet_handler ctx p) (\<lambda>(ret, ctx).
     andThen (c_assert (ret = code)) (\<lambda>_. give ctx))"

definition test_handler_not_configured :: "('w, 'z, unit) hcmd" where
  "test_handler_not_configured =
     andThen (make_begin DADDR SADDR 0x01) (\<lambda>p.
     andThen (expect zeroed_ctx p HANDLER_NOT_CONFIGURED) (\<lambda>_. give ()))"

definition test_null_packet_returns_null_packet :: "('w, 'z, unit) hcmd" where
  "test_null_packet_returns_null_packet = andThen (expect noop_ctx NULL NULL_PACKET) (\<lambda>_. give ())"

definition test_wrong_dest_rejected :: "('w, 'z, unit) hcmd" where
  "test_wrong_dest_rejected =
     andThen (make_begin 0x1234 SADDR 0x01) (\<lambda>p.
     andThen (expect noop_ctx p PACKET_REJECTED) (\<lambda>_. give ()))"

definition test_wrong_src_rejected :: "('w, 'z, unit) hcmd" where
  "test_wrong_src_rejected =
     andThen (make_begin DADDR 0x1234 0x01) (\<lambda>p.
     andThen (expect noop_ctx p PACKET_REJECTED) (\<lambda>_. give ()))"

definition test_redundant_packet_rejected :: "('w, 'z, unit) hcmd" where
  "test_redundant_packet_rejected =
     andThen (make_begin DADDR SADDR 0x01) (\<lambda>p.
     andThen (expect noop_ctx p CAPTURE_BEGIN) (\<lambda>ctx.
     andThen (expect ctx p PACKET_REDUNDANT) (\<lambda>_. give ())))"

definition test_capture_already_on :: "('w, 'z, unit) hcmd" where
  "test_capture_already_on =
     andThen (make_begin DADDR SADDR 0x01) (\<lambda>begin1.
     andThen (make_begin DADDR SADDR 0x02) (\<lambda>begin2.
     andThen (expect noop_ctx begin1 CAPTURE_BEGIN) (\<lambda>ctx.
     andThen (expect ctx begin2 CAPTURE_ALREADY_ON) (\<lambda>_. give ()))))"

definition test_capture_not_on_end_without_begin :: "('w, 'z, unit) hcmd" where
  "test_capture_not_on_end_without_begin =
     andThen (make_end DADDR SADDR 0x01) (\<lambda>end_p.
     andThen (expect noop_ctx end_p CAPTURE_NOT_ON) (\<lambda>_. give ()))"

text \<open>A BEGIN packet, then a data packet with the sequence number \<open>seq\<close>.\<close>

definition test_data_after_begin :: "u8 \<Rightarrow> rx_handler_return \<Rightarrow> ('w, 'z, unit) hcmd" where
  "test_data_after_begin seq code =
     andThen (make_begin DADDR SADDR 0x01) (\<lambda>begin_p.
     andThen (expect noop_ctx begin_p CAPTURE_BEGIN) (\<lambda>ctx.
     andThen (local_object (Bytes [0xAA, 0xBB])) (\<lambda>pl.
     andThen (make_data DADDR SADDR 0x01 seq pl 2) (\<lambda>data.
     andThen (expect ctx data code) (\<lambda>_. give ())))))"

definition test_out_of_order_data_rejected :: "('w, 'z, unit) hcmd" where
  "test_out_of_order_data_rejected = test_data_after_begin 2 PACKET_REJECTED"

definition test_in_order_data_captured :: "('w, 'z, unit) hcmd" where
  "test_in_order_data_captured = test_data_after_begin 1 DATA_PACKET_CAPTURED"

definition test_handler_reset_clears_capture :: "('w, 'z, unit) hcmd" where
  "test_handler_reset_clears_capture =
     andThen (make_begin DADDR SADDR 0x01) (\<lambda>begin_p.
     andThen (expect noop_ctx begin_p CAPTURE_BEGIN) (\<lambda>ctx.
     let ctx = rx_handler_reset ctx in
     andThen (make_end DADDR SADDR 0x02) (\<lambda>end_p.
     andThen (expect ctx end_p CAPTURE_NOT_ON) (\<lambda>_. give ()))))"

definition test_set_remote_addr_updates_filter :: "('w, 'z, unit) hcmd" where
  "test_set_remote_addr_updates_filter =
     andThen (make_begin DADDR 0x1234 0x01) (\<lambda>p_wrong.
     andThen (expect noop_ctx p_wrong PACKET_REJECTED) (\<lambda>ctx.
     let ctx = rx_handler_set_remote_addr ctx 0x1234 in
     andThen (make_begin DADDR 0x1234 0x02) (\<lambda>p_right.
     andThen (expect ctx p_right CAPTURE_BEGIN) (\<lambda>_. give ()))))"

definition assert_fired :: "nat \<Rightarrow> ('w, 'z, unit) hcmd" where
  "assert_fired n = andThen (gets end_callback_fired) (\<lambda>m. c_assert (m = n))"

definition assert_commands :: "nat \<Rightarrow> ('w, 'z, unit) hcmd" where
  "assert_commands n = andThen (gets command_callback_fired) (\<lambda>m. c_assert (m = n))"

definition test_end_fires_callback_and_resets :: "('w, 'z, unit) hcmd" where
  "test_end_fires_callback_and_resets =
     andThen reset_callback_state (\<lambda>_.
     andThen (make_begin DADDR SADDR 0x01) (\<lambda>begin_p.
     andThen (make_end DADDR SADDR 0x02) (\<lambda>end_p.
     andThen (rx_packet_handler noop_ctx begin_p) (\<lambda>(_, ctx).
     andThen (expect ctx end_p CAPTURE_END) (\<lambda>ctx.
     andThen (assert_fired 1) (\<lambda>_.
     andThen (make_end DADDR SADDR 0x03) (\<lambda>end2.
     andThen (expect ctx end2 CAPTURE_NOT_ON) (\<lambda>_. give ()))))))))"

definition test_two_handlers_independent :: "('w, 'z, unit) hcmd" where
  "test_two_handlers_independent =
     (let ctx1 = noop_ctx;
          ctx2 = rx_handler_init (Some noop_command_callback) (Some noop_end_callback) 0x1234 0x5678 in
      andThen (make_begin DADDR SADDR 0x01) (\<lambda>p1.
      andThen (expect ctx1 p1 CAPTURE_BEGIN) (\<lambda>ctx1.
      andThen (expect ctx2 p1 PACKET_REJECTED) (\<lambda>ctx2.
      andThen (make_end 0x1234 0x5678 0x01) (\<lambda>end_for_ctx2.
      andThen (expect ctx2 end_for_ctx2 CAPTURE_NOT_ON) (\<lambda>_.
      andThen (expect ctx1 end_for_ctx2 PACKET_REJECTED) (\<lambda>_. give ())))))))"

section \<open>Full captures\<close>

text \<open>\<open>data_to_packet_array\<close> on a string, framed or not; \<open>uninit\<close> is what the array of pointers holds before.\<close>

definition packets_of ::
  "(nat \<Rightarrow> nat) \<Rightarrow> u8 list \<Rightarrow> u8 \<Rightarrow> bool \<Rightarrow> ('w, 'z, nat list) hcmd" where
  "packets_of uninit data ack framed =
     (let data_len = int (length data);
          npackets = nat (ceil_packets data_len) + (if framed then 2 else 0) in
      andThen (data_to_packet_array (map uninit [0..<npackets]) data data_len DADDR SADDR ack framed)
        (\<lambda>(ret, p_arr). andThen (c_assert (ret = 0)) (\<lambda>_. give p_arr)))"

fun feed :: "('w, 'z) hctx \<Rightarrow> nat list \<Rightarrow> ('w, 'z, ('w, 'z) hctx) hcmd" where
  "feed ctx [] = give ctx"
| "feed ctx (p # ps) = andThen (rx_packet_handler ctx p) (\<lambda>(_, ctx). feed ctx ps)"

text \<open>Every packet twice; after packet 2 the command packet, if there is one.\<close>

fun feed_twice :: "('w, 'z) hctx \<Rightarrow> nat option \<Rightarrow> nat \<Rightarrow> nat list \<Rightarrow> ('w, 'z, ('w, 'z) hctx) hcmd" where
  "feed_twice ctx cmd_p i [] = give ctx"
| "feed_twice ctx cmd_p i (p # ps) =
     andThen (rx_packet_handler ctx p) (\<lambda>(_, ctx).
     andThen (expect ctx p PACKET_REDUNDANT) (\<lambda>ctx.
     andThen (case cmd_p of
         Some c \<Rightarrow> if i = 2 then expect ctx c COMMAND_PACKET else give ctx
       | None \<Rightarrow> give ctx) (\<lambda>ctx.
     feed_twice ctx cmd_p (Suc i) ps)))"

definition assert_reassembled :: "u8 list \<Rightarrow> ('w, 'z, unit) hcmd" where
  "assert_reassembled data =
     andThen (gets reassembled_data) (\<lambda>buf. andThen (the_string buf) (\<lambda>str. c_assert (str = c_string data)))"

text \<open>The frames in the order in which the handler first sees them.\<close>

fun inline :: "frame option \<Rightarrow> nat \<Rightarrow> frame list \<Rightarrow> frame list" where
  "inline g i [] = []"
| "inline g i (f # fs) =
     f # (case g of Some h \<Rightarrow> (if i = 2 then [h] else []) | None \<Rightarrow> []) @ inline g (Suc i) fs"

definition test_full_capture_no_redundancy :: "(nat \<Rightarrow> nat) \<Rightarrow> ('w, 'z, unit) hcmd" where
  "test_full_capture_no_redundancy uninit =
     andThen reset_callback_state (\<lambda>_.
     let ctx = rx_handler_init (Some noop_command_callback) (Some capture_end_callback) DADDR SADDR in
     andThen (packets_of uninit amumu 0x01 True) (\<lambda>p_arr.
     andThen (feed ctx p_arr) (\<lambda>_.
     andThen (assert_fired 1) (\<lambda>_.
     assert_reassembled amumu))))"

definition test_full_capture_with_redundancy :: "(nat \<Rightarrow> nat) \<Rightarrow> ('w, 'z, unit) hcmd" where
  "test_full_capture_with_redundancy uninit =
     andThen reset_callback_state (\<lambda>_.
     let ctx = rx_handler_init (Some noop_command_callback) (Some capture_end_callback) DADDR SADDR in
     andThen (packets_of uninit amumu 0x01 True) (\<lambda>p_arr.
     andThen (feed_twice ctx None 0 p_arr) (\<lambda>_.
     assert_fired 1)))"

definition test_command_packet_bypass :: "(nat \<Rightarrow> nat) \<Rightarrow> ('w, 'z, unit) hcmd" where
  "test_command_packet_bypass uninit =
     andThen reset_callback_state (\<lambda>_.
     let ctx = rx_handler_init (Some command_callback) (Some noop_end_callback) DADDR SADDR in
     andThen (packets_of uninit rammus_string 0x01 False) (\<lambda>p_arr.
     andThen (feed ctx p_arr) (\<lambda>_.
     assert_commands (nat (ceil_packets (int (length rammus_string)))))))"

definition test_burst_with_inline_command_packet :: "(nat \<Rightarrow> nat) \<Rightarrow> ('w, 'z, unit) hcmd" where
  "test_burst_with_inline_command_packet uninit =
     andThen reset_callback_state (\<lambda>_.
     let ctx = rx_handler_init (Some command_callback) (Some capture_end_callback) DADDR SADDR in
     andThen (packets_of uninit amumu 0x05 True) (\<lambda>p_arr.
     andThen (malloc_bytes (length rammus_string)) (\<lambda>cmd_payload.
     andThen (write_bytes cmd_payload 0 rammus_string) (\<lambda>_.
     andThen (packet_constructor DADDR SADDR 0x06 0 (of_nat (length rammus_string)) cmd_payload) (\<lambda>cmd_p.
     andThen (feed_twice ctx (Some cmd_p) 0 p_arr) (\<lambda>_.
     andThen (assert_fired 1) (\<lambda>_.
     assert_commands 1)))))))"

definition test_rx_packet_handler :: "(nat \<Rightarrow> nat) \<Rightarrow> ('w, 'z, unit) hcmd" where
  "test_rx_packet_handler uninit = run_tests
     [test_handler_not_configured, test_null_packet_returns_null_packet, test_wrong_dest_rejected,
      test_wrong_src_rejected, test_redundant_packet_rejected, test_capture_already_on,
      test_capture_not_on_end_without_begin, test_out_of_order_data_rejected,
      test_in_order_data_captured, test_handler_reset_clears_capture,
      test_set_remote_addr_updates_filter, test_end_fires_callback_and_resets, test_two_handlers_independent,
      test_full_capture_no_redundancy uninit, test_full_capture_with_redundancy uninit,
      test_command_packet_bypass uninit, test_burst_with_inline_command_packet uninit]"

section \<open>What the callbacks promise\<close>

text \<open>The heap is in order and the static array of the test has its size.\<close>

definition test_ready :: "('w, 'z) handler_test_scheme \<Rightarrow> bool" where
  "test_ready s \<longleftrightarrow> heap_ready s \<and> length (reassembled_data s) = 256"

text \<open>The state of the mocks: the calls of the two callbacks and the reassembled bytes.\<close>

definition mocks :: "('w, 'z) handler_test_scheme \<Rightarrow> nat \<times> nat \<times> u8 list" where
  "mocks s = (command_callback_fired s, end_callback_fired s, reassembled_data s)"

lemma reset_callback_ready:
  "test_ready s \<Longrightarrow> wp reset_callback_state (\<lambda>_ t. test_ready t \<and> (\<exists>d. mocks t = (0, 0, d))) s"
  by (auto simp: reset_callback_state_def test_ready_def heap_ready_def mem_ok_def alloc_never_fails_def mocks_def)

locale test_callbacks =
  fixes on_command :: "nat \<Rightarrow> ('w, 'z, unit) hcmd" and on_end :: "nat list \<Rightarrow> nat \<Rightarrow> ('w, 'z, unit) hcmd"
    and wanted :: "u8 list \<Rightarrow> bool" and gathered :: "u8 list \<Rightarrow> u8 list \<Rightarrow> u8 list"
  assumes command_law: "test_ready t \<Longrightarrow> packet_view t p = Some f \<Longrightarrow> fr_data f \<noteq> [] \<Longrightarrow> wanted (fr_data f) \<Longrightarrow>
      mocks t = (c, e, d) \<Longrightarrow>
      \<exists>u. on_command p t = Some (Ret () u) \<and> heap_keeps (owned t p) t u \<and> mem_ok u \<and> mocks u = (Suc c, e, d)"
    and end_law: "test_ready t \<Longrightarrow> map (packet_view t) (take n arr) = map Some fs \<Longrightarrow> n = length fs \<Longrightarrow>
      n \<le> length arr \<Longrightarrow> (\<And>f. f \<in> set fs \<Longrightarrow> length (fr_data f) \<le> 8) \<Longrightarrow>
      length (concat (map fr_data fs)) \<le> 256 \<Longrightarrow> mocks t = (c, e, d) \<Longrightarrow>
      \<exists>u. on_end arr n t = Some (Ret () u) \<and> heap_keeps {} t u \<and> mem_ok u \<and>
        mocks u = (c, Suc e, gathered (concat (map fr_data fs)) d)"
    and gathered_law: "length xs \<le> 256 \<Longrightarrow> length d = 256 \<Longrightarrow> length (gathered xs d) = 256"
begin

text \<open>A test in progress: the context follows the session \<open>S\<close>, the packets \<open>K\<close> are known.\<close>

definition flow :: "('w, 'z) hctx \<Rightarrow> session \<Rightarrow> (nat \<times> frame) list \<Rightarrow> nat \<times> nat \<times> u8 list
    \<Rightarrow> ('w, 'z) handler_test_scheme \<Rightarrow> bool" where
  "flow ctx S K M s \<longleftrightarrow> test_ready s \<and> rx_rel {} ctx s S \<and> command_packet_handler ctx = Some on_command \<and>
     capture_end_handler ctx = Some on_end \<and> (\<forall>(p, f) \<in> set K. packet_view s p = Some f) \<and> mocks s = M"

lemma flow_view: "flow ctx S K M s \<Longrightarrow> (p, f) \<in> set K \<Longrightarrow> packet_view s p = Some f"
  by (auto simp: flow_def)

lemma flow_mocks: "flow ctx S K M s \<Longrightarrow> mocks s = M"
  by (simp add: flow_def)

lemma flow_ready: "flow ctx S K M s \<Longrightarrow> test_ready s"
  by (simp add: flow_def)

lemma views_kept:
  assumes "\<forall>(p, f) \<in> set K. packet_view s p = Some f" and "heap_keeps {} s t" and "mem_ok s"
  shows "\<forall>(p, f) \<in> set K. packet_view t p = Some f"
  using assms packet_view_heap_keeps [OF _ assms(2,3)] by fastforce

lemma flow_to:
  assumes "flow ctx S K M s" and "heap_keeps {} s t" and "mem_ok t" and "rx_rel {} ctx' t S'"
    and "same_handlers ctx ctx'" and "mocks t = M'" and "length (snd (snd M')) = 256"
  shows "flow ctx' S' K M' t"
proof -
  have m: "mem_ok s" "alloc_never_fails s" using assms(1) by (simp_all add: flow_def test_ready_def heap_ready_def)
  have "\<forall>(p, f) \<in> set K. packet_view t p = Some f"
    by (rule views_kept [OF _ assms(2) m(1)]) (use assms(1) in \<open>simp add: flow_def\<close>)
  moreover have "test_ready t"
    using assms(3,6,7) heap_keeps_never_fails [OF assms(2) m(2)]
    by (auto simp: test_ready_def heap_ready_def mocks_def)
  ultimately show ?thesis using assms by (simp add: flow_def same_handlers_def)
qed

lemma flow_size: "flow ctx S K M s \<Longrightarrow> length (snd (snd M)) = 256"
  by (auto simp: flow_def test_ready_def mocks_def)

lemma flow_quiet:
  assumes "flow ctx S K M s" and "(p, f) \<in> set K" and "session_step S f = (code, S', None)"
  shows "\<exists>ctx' t. rx_packet_handler ctx p s = Some (Ret (code, ctx') t) \<and> flow ctx' S' K M t"
proof -
  have h: "rx_rel {} ctx s S" "mem_ok s" "alloc_never_fails s"
    using assms(1) by (simp_all add: flow_def test_ready_def heap_ready_def)
  from rx_handler_quiet [OF h(1) flow_view [OF assms(1,2)] h(2,3) _ assms(3)]
  obtain ctx' t where t: "rx_packet_handler ctx p s = Some (Ret (code, ctx') t)" "rx_rel {} ctx' t S'"
    "same_handlers ctx ctx'" "keeps {} s t" "mem_ok t" by (auto simp: quiet_call_def)
  obtain b n where tb: "t = s\<lparr>blocks := b, fresh := n\<rparr>" using t(4) unfolding keeps_def by blast
  have "mocks t = mocks s" by (simp add: tb mocks_def)
  then show ?thesis
    using flow_to [OF assms(1) keeps_heap [OF t(4)] t(5,2,3)] t(1) flow_mocks [OF assms(1)] flow_size [OF assms(1)]
    by auto
qed

lemma flow_command:
  assumes "flow ctx S K (c, e, d) s" and "(p, f) \<in> set K"
    and "session_step S f = (code, S', Some (Command g))" and "wanted (fr_data f)"
  shows "\<exists>ctx' t. rx_packet_handler ctx p s = Some (Ret (COMMAND_PACKET, ctx') t) \<and> flow ctx' S' K (Suc c, e, d) t"
proof -
  have h: "rx_rel {} ctx s S" "mem_ok s" "alloc_never_fails s" "command_packet_handler ctx = Some on_command"
    using assms(1) by (simp_all add: flow_def test_ready_def heap_ready_def)
  note v = flow_view [OF assms(1,2)]
  note hc = rx_handler_command [OF h(1) v h(2,3) assms(3)]
  have d: "fr_data f \<noteq> []"
    using assms(3) by (auto simp: session_step_def capture_step.simps frame_type_data [symmetric]
        split: if_splits prod.splits packet_types.splits option.splits)
  have mc: "mocks (copied s f) = (c, e, d)" using flow_mocks [OF assms(1)] by (simp add: copied_def mocks_def)
  have "test_ready (copied s f)"
    using flow_ready [OF assms(1)] copied_mem_ok [OF h(2)] keeps_never_fails [OF copied_keeps h(3)]
    by (simp add: test_ready_def heap_ready_def copied_def)
  from command_law [OF this _ d assms(4) mc, of "fresh s"] hc obtain u
    where u: "on_command (fresh s) (copied s f) = Some (Ret () u)" "mem_ok u" "mocks u = (Suc c, e, d)"
      "heap_keeps {fresh s, Suc (fresh s)} (copied s f) u" by auto
  have k: "heap_keeps {} s u" by (rule heap_keeps_trans [OF keeps_heap [OF copied_keeps] u(4)]) simp
  have "rx_rel {} (noted ctx f) s S'"
  proof -
    have "S' = S\<lparr>s_last := fr_ids f\<rparr>"
      using assms(3) by (auto simp: session_step_def capture_step.simps
          split: if_splits prod.splits packet_types.splits option.splits)
    then show ?thesis using rx_rel_noted [OF h(1)] by simp
  qed
  then have "rx_rel {} (noted ctx f) u S'" by (rule rx_rel_frame [OF _ k h(2)]) simp
  from flow_to [OF assms(1) k u(2) this _ u(3)] flow_size [OF assms(1)]
  have "flow (noted ctx f) S' K (Suc c, e, d) u" by simp
  then show ?thesis using hc u(1) h(4) by auto
qed

lemma flow_deliver:
  assumes "flow ctx S K (c, e, d) s" and "(p, f) \<in> set K"
    and "session_step S f = (code, S', Some (Deliver fs))"
    and "\<And>f. f \<in> set fs \<Longrightarrow> length (fr_data f) \<le> 8" and "length (concat (map fr_data fs)) \<le> 256"
  shows "\<exists>ctx' t. rx_packet_handler ctx p s = Some (Ret (CAPTURE_END, ctx') t) \<and>
    flow ctx' S' K (c, Suc e, gathered (concat (map fr_data fs)) d) t"
proof -
  have h: "rx_rel {} ctx s S" "mem_ok s" "alloc_never_fails s" "capture_end_handler ctx = Some on_end"
    using assms(1) by (simp_all add: flow_def test_ready_def heap_ready_def)
  note hd = rx_handler_deliver [OF h(1) flow_view [OF assms(1,2)] h(2,3) assms(3)]
  then have "map (packet_view s) (take (length fs) (captured_packet_arr ctx)) = map Some fs"
    by (blast dest: holds_views)
  from end_law [OF flow_ready [OF assms(1)] this refl _ assms(4,5) flow_mocks [OF assms(1)]] hd obtain u
    where u: "on_end (captured_packet_arr ctx) (length fs) s = Some (Ret () u)" "heap_keeps {} s u" "mem_ok u"
      "mocks u = (c, Suc e, gathered (concat (map fr_data fs)) d)" by blast
  have "rx_rel {} (rx_handler_reset (noted ctx f)) u S'" using hd by blast
  from flow_to [OF assms(1) u(2,3) this _ u(4)] gathered_law [OF assms(5)] flow_size [OF assms(1)]
  have "flow (rx_handler_reset (noted ctx f)) S' K (c, Suc e, gathered (concat (map fr_data fs)) d) u"
    by (simp add: same_handlers_def rx_handler_reset_def)
  then show ?thesis using hd u(1) h(4) by auto
qed

text \<open>The same as one rule of the total-correctness predicate: what the session answers to a frame, where
  it goes, and what the mocks have then seen.\<close>

definition allowed :: "session \<Rightarrow> frame \<Rightarrow> bool" where
  "allowed S f \<longleftrightarrow> (case snd (snd (session_step S f)) of
       None \<Rightarrow> True
     | Some (Command g) \<Rightarrow> wanted (fr_data f)
     | Some (Deliver fs) \<Rightarrow> list_all (\<lambda>f. length (fr_data f) \<le> 8) fs \<and> length (concat (map fr_data fs)) \<le> 256)"

fun seen :: "event option \<Rightarrow> nat \<times> nat \<times> u8 list \<Rightarrow> nat \<times> nat \<times> u8 list" where
  "seen None M = M"
| "seen (Some (Command f)) (c, e, d) = (Suc c, e, d)"
| "seen (Some (Deliver fs)) (c, e, d) = (c, Suc e, gathered (concat (map fr_data fs)) d)"

lemma wp_handler:
  assumes fl: "flow ctx S K M s" and K: "(p, f) \<in> set K" and ok: "allowed S f"
    and Q: "\<And>ctx' t. flow ctx' (fst (snd (session_step S f))) K (seen (snd (snd (session_step S f))) M) t \<Longrightarrow>
      Q (fst (session_step S f), ctx') t"
  shows "wp (rx_packet_handler ctx p) Q s"
proof -
  obtain c e d where M: "M = (c, e, d)" by (cases M)
  obtain r S1 ev where ss: "session_step S f = (r, S1, ev)" by (cases "session_step S f")
  have "\<exists>ctx' t. rx_packet_handler ctx p s = Some (Ret (r, ctx') t) \<and> flow ctx' S1 K (seen ev M) t"
  proof (cases ev)
    case None
    then show ?thesis using flow_quiet [OF fl K] ss by simp
  next
    case (Some x)
    show ?thesis
    proof (cases x)
      case (Command g)
      have "r = COMMAND_PACKET"
        using ss Some Command by (auto simp: session_step_def capture_step.simps
            split: if_splits prod.splits packet_types.splits option.splits)
      then show ?thesis using flow_command [OF fl [unfolded M] K] ss ok Some Command M by (simp add: allowed_def)
    next
      case (Deliver fs)
      have "r = CAPTURE_END"
        using ss Some Deliver by (auto simp: session_step_def capture_step.simps
            split: if_splits prod.splits packet_types.splits option.splits)
      then show ?thesis
        using flow_deliver [OF fl [unfolded M] K] ss ok Some Deliver M by (simp add: allowed_def list_all_iff)
    qed
  qed
  then show ?thesis using Q ss by (auto simp: wp_Ret)
qed

lemma wp_expect:
  assumes "flow ctx S K M s" and "(p, f) \<in> set K" and "allowed S f" and "fst (session_step S f) = code"
    and "\<And>ctx' t. flow ctx' (fst (snd (session_step S f))) K (seen (snd (snd (session_step S f))) M) t \<Longrightarrow> Q ctx' t"
  shows "wp (expect ctx p code) Q s"
  unfolding expect_def wp_andThen by (rule wp_handler [OF assms(1-3)]) (simp add: assms(4,5) wp_def)

text \<open>Whole sequences of packets.\<close>

abbreviation after :: "session \<Rightarrow> frame \<Rightarrow> session" where
  "after S f \<equiv> fst (snd (session_step S f))"

fun play :: "session \<Rightarrow> nat \<times> nat \<times> u8 list \<Rightarrow> frame list \<Rightarrow> session \<times> nat \<times> nat \<times> u8 list" where
  "play S M [] = (S, M)"
| "play S M (f # fs) = play (after S f) (seen (snd (snd (session_step S f))) M) fs"

fun all_allowed :: "session \<Rightarrow> frame list \<Rightarrow> bool" where
  "all_allowed S [] \<longleftrightarrow> True"
| "all_allowed S (f # fs) \<longleftrightarrow> allowed S f \<and> all_allowed (after S f) fs"

lemma wp_feed:
  assumes "flow ctx S K M s" and "set (zip ps fs) \<subseteq> set K" and "length ps = length fs" and "all_allowed S fs"
    and "\<And>ctx' t. flow ctx' (fst (play S M fs)) K (snd (play S M fs)) t \<Longrightarrow> Q ctx' t"
  shows "wp (feed ctx ps) Q s"
  using assms
proof (induction ps arbitrary: ctx S M s fs)
  case Nil
  then show ?case by (simp add: wp_def)
next
  case (Cons p ps)
  then obtain f gs where fs: "fs = f # gs" by (cases fs) auto
  have "(p, f) \<in> set K" "allowed S f" using Cons.prems(2,4) by (simp_all add: fs)
  moreover have "wp (feed ctx' ps) Q t"
    if "flow ctx' (after S f) K (seen (snd (snd (session_step S f))) M) t" for ctx' t
    by (rule Cons.IH [OF that, of gs]) (use Cons.prems(2-5) fs in simp_all)
  ultimately show ?case by (simp add: split_def) (rule wp_handler [OF Cons.prems(1)], simp_all)
qed

fun twice_allowed :: "session \<Rightarrow> frame option \<Rightarrow> nat \<Rightarrow> frame list \<Rightarrow> bool" where
  "twice_allowed S g i [] \<longleftrightarrow> True"
| "twice_allowed S g i (f # fs) \<longleftrightarrow> allowed S f \<and> concerns S f \<and>
     (case g of
        Some h \<Rightarrow>
          if i = 2 then allowed (after S f) h \<and> fst (session_step (after S f) h) = COMMAND_PACKET \<and>
            twice_allowed (after (after S f) h) g (Suc i) fs
          else twice_allowed (after S f) g (Suc i) fs
      | None \<Rightarrow> twice_allowed (after S f) g (Suc i) fs)"

lemma step_again: "concerns S f \<Longrightarrow> session_step (after S f) f = (PACKET_REDUNDANT, after S f, None)"
  by (auto simp: session_step_def concerns_def split: prod.splits)

lemma wp_feed_twice:
  assumes "flow ctx S K M s" and "set (zip ps fs) \<subseteq> set K" and "length ps = length fs"
    and "twice_allowed S g i fs" and "rel_option (\<lambda>c h. (c, h) \<in> set K) cmd g"
    and "\<And>ctx' t. flow ctx' (fst (play S M (inline g i fs))) K (snd (play S M (inline g i fs))) t \<Longrightarrow> Q ctx' t"
  shows "wp (feed_twice ctx cmd i ps) Q s"
  using assms
proof (induction ps arbitrary: ctx S M s fs i)
  case Nil
  then show ?case by (simp add: wp_def)
next
  case (Cons p ps)
  then obtain f fs' where fs: "fs = f # fs'" by (cases fs) auto
  have pf: "(p, f) \<in> set K" "allowed S f" "concerns S f" using Cons.prems(2,4) by (simp_all add: fs)
  note again = step_again [OF pf(3)]
  have rest: "wp (case cmd of Some c \<Rightarrow> if i = 2 then expect ctx c COMMAND_PACKET else give ctx | None \<Rightarrow> give ctx)
      (\<lambda>ctx. wp (feed_twice ctx cmd (Suc i) ps) Q) t"
    if fl: "flow ctx (after S f) K (seen (snd (snd (session_step S f))) M) t" for ctx t
  proof (cases "\<exists>h. g = Some h \<and> i = 2")
    case True
    then obtain h c where h: "g = Some h" "i = 2" and c: "cmd = Some c" "(c, h) \<in> set K"
      using Cons.prems(5) by (auto simp: option_rel_Some2)
    have tw: "twice_allowed (after (after S f) h) g (Suc i) fs'" using Cons.prems(4) unfolding fs h by simp
    have "wp (feed_twice ctx' cmd (Suc i) ps) Q u"
      if "flow ctx' (after (after S f) h) K (seen (snd (snd (session_step (after S f) h)))
        (seen (snd (snd (session_step S f))) M)) u" for ctx' u
      by (rule Cons.IH [OF that _ _ tw]) (use Cons.prems(2,3,5,6) h fs in simp_all)
    then have "wp (expect ctx c COMMAND_PACKET) (\<lambda>ctx. wp (feed_twice ctx cmd (Suc i) ps) Q) t"
      by (intro wp_expect [OF fl c(2)]) (use Cons.prems h fs in simp_all)
    then show ?thesis using c h by simp
  next
    case False
    then have "(case cmd of Some c \<Rightarrow> if i = 2 then expect ctx c COMMAND_PACKET else give ctx | None \<Rightarrow> give ctx) = give ctx"
      using Cons.prems(5) by (cases cmd; cases g) auto
    moreover have "wp (feed_twice ctx cmd (Suc i) ps) Q t"
      by (rule Cons.IH [OF fl]) (use Cons.prems fs False in \<open>auto split: option.splits\<close>)
    ultimately show ?thesis by simp
  qed
  have "wp (expect ctx1 p PACKET_REDUNDANT) (\<lambda>ctx. wp (case cmd of Some c \<Rightarrow> if i = 2
        then expect ctx c COMMAND_PACKET else give ctx | None \<Rightarrow> give ctx)
      (\<lambda>ctx. wp (feed_twice ctx cmd (Suc i) ps) Q)) t"
    if fl: "flow ctx1 (after S f) K (seen (snd (snd (session_step S f))) M) t" for ctx1 t
    by (rule wp_expect [OF fl pf(1)]) (use again rest in \<open>auto simp: allowed_def\<close>)
  then show ?case
    by (simp add: split_def) (rule wp_handler [OF Cons.prems(1) pf(1,2)], simp)
qed

lemma flow_init:
  "test_ready s \<Longrightarrow> flow (rx_handler_init (Some on_command) (Some on_end) host remote) (new_session host remote) [] (mocks s) s"
  by (simp add: flow_def rx_rel_init) (simp add: rx_handler_init_def)

text \<open>Every test of the second half starts with \<open>reset_callback_state\<close>.\<close>

lemma wp_start:
  fixes s :: "('w, 'z) handler_test_scheme"
  assumes "test_ready s"
    and "\<And>t d. flow (rx_handler_init (Some on_command) (Some on_end) host remote) (new_session host remote) []
      (0, 0, d) t \<Longrightarrow> wp (k ()) Q t"
  shows "wp (andThen reset_callback_state k) Q s"
  unfolding wp_andThen
proof (rule wp_mono [OF reset_callback_ready [OF assms(1)]])
  fix a and t :: "('w, 'z) handler_test_scheme"
  assume t: "test_ready t \<and> (\<exists>d. mocks t = (0, 0, d))"
  then obtain d where "mocks t = (0, 0, d)" by blast
  with flow_init [of t host remote] t show "wp (k a) Q t" by (simp add: assms(2))
qed

text \<open>A new object: what was known stays known.\<close>

lemma flow_new:
  assumes "flow ctx S K M s" and "keeps {} s t" and "mem_ok t" and "packet_view t p = Some f"
  shows "flow ctx S ((p, f) # K) M t"
proof -
  have m: "mem_ok s" using assms(1) by (simp add: flow_def test_ready_def heap_ready_def)
  obtain b n where tb: "t = s\<lparr>blocks := b, fresh := n\<rparr>" using assms(2) unfolding keeps_def by blast
  have "rx_rel {} ctx t S"
    using rx_rel_frame [OF _ keeps_heap [OF assms(2)] m, of "{}"] assms(1) by (simp add: flow_def)
  from flow_to [OF assms(1) keeps_heap [OF assms(2)] assms(3) this, of M] flow_mocks [OF assms(1)] flow_size [OF assms(1)]
  have "flow ctx S K M t" by (simp add: same_handlers_def tb mocks_def)
  then show ?thesis using assms(4) by (simp add: flow_def)
qed

lemma flow_reset: "flow ctx S K M s \<Longrightarrow> flow (rx_handler_reset ctx) (S\<lparr>s_capture := None\<rparr>) K M s"
  by (auto simp: flow_def rx_rel_def rx_handler_reset_def)

lemma flow_remote:
  "flow ctx S K M s \<Longrightarrow> flow (rx_handler_set_remote_addr ctx r) (S\<lparr>s_remote := r\<rparr>) K M s"
  by (simp add: flow_def rx_rel_def rx_handler_set_remote_addr_def split: option.splits prod.splits)

lemma wp_assert_fired:
  "flow ctx S K M s \<Longrightarrow> fst (snd M) = n \<Longrightarrow> (flow ctx S K M s \<Longrightarrow> Q () s) \<Longrightarrow> wp (assert_fired n) Q s"
  using flow_mocks [of ctx S K M s] by (auto simp: assert_fired_def mocks_def)

lemma wp_assert_commands:
  "flow ctx S K M s \<Longrightarrow> fst M = n \<Longrightarrow> (flow ctx S K M s \<Longrightarrow> Q () s) \<Longrightarrow> wp (assert_commands n) Q s"
  using flow_mocks [of ctx S K M s] by (auto simp: assert_commands_def mocks_def)

lemma flow_built:
  assumes "flow ctx S [] M s" and "built s ps fs t"
  shows "flow ctx S (zip ps fs) M t"
proof -
  have k: "keeps {} s t" "mem_ok t" and v: "map (packet_view t) ps = map Some fs"
    using assms(2) by (simp_all add: built_def)
  have m: "mem_ok s" using assms(1) by (simp add: flow_def test_ready_def heap_ready_def)
  obtain b n where tb: "t = s\<lparr>blocks := b, fresh := n\<rparr>" using k(1) unfolding keeps_def by blast
  have "rx_rel {} ctx t S"
    using rx_rel_frame [OF _ keeps_heap [OF k(1)] m, of "{}"] assms(1) by (simp add: flow_def)
  from flow_to [OF assms(1) keeps_heap [OF k(1)] k(2) this, of M] flow_mocks [OF assms(1)] flow_size [OF assms(1)]
  have "flow ctx S [] M t" by (simp add: same_handlers_def tb mocks_def)
  moreover have "packet_view t p = Some f" if "(p, f) \<in> set (zip ps fs)" for p f
    using that v by (metis in_set_zip length_map nth_map fst_conv snd_conv)
  ultimately show ?thesis by (auto simp: flow_def)
qed

lemma wp_packets_of:
  assumes "flow ctx S [] M s" and "\<And>ps t. length ps = length (packetise DADDR SADDR a framed data) \<Longrightarrow>
      flow ctx S (zip ps (packetise DADDR SADDR a framed data)) M t \<Longrightarrow> Q ps t"
  shows "wp (packets_of uninit data a framed) Q s"
proof -
  have r: "mem_ok s" "alloc_never_fails s" using assms(1) by (simp_all add: flow_def test_ready_def heap_ready_def)
  let ?n = "nat (ceil_packets (int (length data))) + (if framed then 2 else 0)"
  have n: "?n = length (packetise DADDR SADDR a framed data)" by (simp add: length_packetise ceil_packets_chunks)
  from data_to_packet_array_built [OF r(2,1), of DADDR SADDR a framed data "map uninit [0..<?n]"] n obtain ps t
    where t: "data_to_packet_array (map uninit [0..<?n]) data (int (length data)) DADDR SADDR a framed s
        = Some (Ret (0, ps @ drop (length ps) (map uninit [0..<?n])) t)"
      and b: "built s ps (packetise DADDR SADDR a framed data) t" by auto
  have "drop (length ps) (map uninit [0..<?n]) = []" using built_length [OF b] n by simp
  then show ?thesis
    using t assms(2) [OF built_length [OF b] flow_built [OF assms(1) b]] by (simp add: packets_of_def Let_def wp_def)
qed

lemma wp_local_packet:
  assumes "flow ctx S K M s" and "packet_view (s\<lparr>blocks := (blocks s)(fresh s \<mapsto> Pkt k), fresh := Suc (fresh s)\<rparr>) (fresh s) = Some f"
    and "\<And>p t. flow ctx S ((p, f) # K) M t \<Longrightarrow> Q p t"
  shows "wp (local_object (Pkt k)) Q s"
proof -
  let ?t = "s\<lparr>blocks := (blocks s)(fresh s \<mapsto> Pkt k), fresh := Suc (fresh s)\<rparr>"
  have "mem_ok ?t" using assms(1) by (auto simp: flow_def test_ready_def heap_ready_def mem_ok_def)
  from flow_new [OF assms(1) _ this assms(2)] assms(3) show ?thesis
    by (simp add: local_object_def wp_def keeps_def)
qed

lemma wp_make_begin:
  "flow ctx S K M s \<Longrightarrow> (\<And>p t. flow ctx S ((p, begin_frame dest src a) # K) M t \<Longrightarrow> Q p t) \<Longrightarrow>
   wp (make_begin dest src a) Q s"
  unfolding make_begin_def
  by (erule wp_local_packet [where f = "begin_frame dest src a"])
    (simp_all add: packet_view_iff frame_of_def begin_frame_def data_frame_def)

lemma wp_make_end:
  "flow ctx S K M s \<Longrightarrow> (\<And>p t. flow ctx S ((p, end_frame dest src a) # K) M t \<Longrightarrow> Q p t) \<Longrightarrow>
   wp (make_end dest src a) Q s"
  unfolding make_end_def
  by (erule wp_local_packet [where f = "end_frame dest src a"])
    (simp_all add: packet_view_iff frame_of_def end_frame_def data_frame_def)

lemma wp_make_data:
  assumes "flow ctx S K M s" and "unat len = length bs" and "bs \<noteq> []"
    and "\<And>p t. flow ctx S ((p, data_frame dest src a (unat seq) bs) # K) M t \<Longrightarrow> Q p t"
  shows "wp (andThen (local_object (Bytes bs)) (\<lambda>pl. make_data dest src a seq pl len)) Q s"
proof -
  let ?t = "s\<lparr>blocks := (blocks s)(fresh s \<mapsto> Bytes bs, Suc (fresh s) \<mapsto> Pkt \<lparr>dest_address = dest,
    src_address = src, ack_id = a, sequence_number = seq, payload_length = len, payload = fresh s\<rparr>), fresh := Suc (Suc (fresh s))\<rparr>"
  have "mem_ok ?t" using assms(1) by (auto simp: flow_def test_ready_def heap_ready_def mem_ok_def)
  moreover have "packet_view ?t (Suc (fresh s)) = Some (data_frame dest src a (unat seq) bs)"
    using assms(2,3) by (simp add: packet_view_iff frame_of_def data_frame_def read_bytes_Ret_iff)
  moreover have "keeps {} s ?t" by (simp add: keeps_def)
  ultimately show ?thesis using flow_new [OF assms(1), of ?t] assms(4)
    by (simp add: local_object_def make_data_def wp_def)
qed

end

section \<open>The callbacks keep it\<close>

lemma noop_command_runs:
  assumes "test_ready t" and "packet_view t p = Some f" and "fr_data f \<noteq> []" and "mocks t = (c, e, d)"
  shows "\<exists>u. noop_command_callback p t = Some (Ret () u) \<and> heap_keeps (owned t p) t u \<and> mem_ok u \<and>
    mocks u = (Suc c, e, d)"
proof -
  have m: "mem_ok t" using assms(1) by (simp add: test_ready_def heap_ready_def)
  obtain k where k: "blocks t p = Some (Pkt k)"
    "read_bytes (payload k) (unat (payload_length k)) t = Some (Ret (fr_data f) t)"
    "length (fr_data f) = unat (payload_length k)" using assms(2) by (rule packet_viewE)
  have n0: "payload_length k \<noteq> 0" using k(3) assms(3) payload_length_0_iff by blast
  then obtain bs where b: "blocks t (payload k) = Some (Bytes bs)"
    using k(2) by (auto simp: read_bytes_Ret_iff unat_eq_0_iff)
  have o: "owned t p = {p, payload k}" using k(1) n0 by (auto simp: owned_def payload_of_def)
  let ?t = "t\<lparr>command_callback_fired := command_callback_fired t + 1\<rparr>"
  let ?u = "?t\<lparr>blocks := (blocks ?t)(payload k := None, p := None)\<rparr>"
  have "free_packet p ?t = Some (Ret () ?u)"
    by (rule free_packet_run) (use k(1) b m in \<open>auto simp: mem_ok_def\<close>)
  moreover have "mem_ok ?u" using m by (auto simp: mem_ok_def)
  ultimately show ?thesis
    using assms(4) by (intro exI [of _ ?u]) (auto simp: noop_command_callback_def heap_keeps_def o mocks_def)
qed

definition is_command :: "u8 list \<Rightarrow> bool" where
  "is_command bs \<longleftrightarrow> 0 \<in> set bs \<and> c_string bs = c_string rammus_string"

lemma c_string_prefix: "0 \<in> set bs \<Longrightarrow> c_string (bs @ cs) = c_string bs"
  by (auto simp: c_string_def takeWhile_append1)

lemma strcmp_payload_view:
  assumes "packet_view t p = Some f" and "is_command (fr_data f)"
  shows "strcmp_payload p t = Some (Ret True t)"
proof -
  obtain k where k: "blocks t p = Some (Pkt k)"
    "read_bytes (payload k) (unat (payload_length k)) t = Some (Ret (fr_data f) t)" using assms(1) by (rule packet_viewE)
  moreover have "fr_data f \<noteq> []" using assms(2) by (auto simp: is_command_def)
  ultimately obtain bs where b: "blocks t (payload k) = Some (Bytes bs)" "fr_data f = take (unat (payload_length k)) bs"
    by (auto simp: read_bytes_Ret_iff)
  let ?n = "unat (payload_length k)"
  have "0 \<in> set bs" using assms(2) b(2) set_take_subset [of ?n bs] by (auto simp: is_command_def)
  moreover have "c_string bs = c_string rammus_string"
    using assms(2) c_string_prefix [of "take ?n bs" "drop ?n bs"] b(2) by (simp add: is_command_def)
  ultimately show ?thesis by (simp add: strcmp_payload_def k(1) load_packet_run b(1) the_string_def)
qed

lemma capture_end_runs:
  fixes t :: "('w, 'z) handler_test_scheme"
  assumes r: "test_ready t" and v: "map (packet_view t) (take n arr) = map Some fs"
    and n: "n = length fs" "n \<le> length arr" and small: "\<And>f. f \<in> set fs \<Longrightarrow> length (fr_data f) \<le> 8"
    and fits: "length (concat (map fr_data fs)) \<le> 256" and M: "mocks t = (c, e, d)"
  shows "\<exists>u. capture_end_callback arr n t = Some (Ret () u) \<and> heap_keeps {} t u \<and> mem_ok u \<and>
    mocks u = (c, Suc e, concat (map fr_data fs) @ drop (length (concat (map fr_data fs))) d)"
proof -
  let ?ps = "take n arr"
  have m: "mem_ok t" "alloc_never_fails t" "length (reassembled_data t) = 256"
    using r by (simp_all add: test_ready_def heap_ready_def)
  have arr: "arr = ?ps @ drop n arr" "int n = int (length ?ps)" using n(2) by simp_all
  from packet_array_to_data_run [OF m(1,2) v small, of "reassembled_data t"] fits m(3) obtain u
    where u: "packet_array_to_data ?ps (reassembled_data t) (int (length ?ps)) t = Some (Ret (0,
        concat (map fr_data fs) @ drop (length (concat (map fr_data fs))) (reassembled_data t)) u)"
      "keeps {} t u" "mem_ok u" by auto
  then have run: "packet_array_to_data arr (reassembled_data t) (int n) t = Some (Ret (0,
        concat (map fr_data fs) @ drop (length (concat (map fr_data fs))) (reassembled_data t)) u)"
    by (subst arr(1), subst arr(2), subst packet_array_to_data_prefix)
  obtain b a where tb: "u = t\<lparr>blocks := b, fresh := a\<rparr>" using u(2) unfolding keeps_def by blast
  show ?thesis
    using run u(2,3) keeps_heap [OF u(2)] M
    by (simp add: capture_end_callback_def tb mocks_def) (auto simp: heap_keeps_def mem_ok_def)
qed

lemma noop_end_runs:
  assumes "test_ready t" and "mocks t = (c, e, d)"
  shows "\<exists>u. noop_end_callback arr n t = Some (Ret () u) \<and> heap_keeps {} t u \<and> mem_ok u \<and> mocks u = (c, Suc e, d)"
  using assms by (auto simp: noop_end_callback_def test_ready_def heap_ready_def heap_keeps_def mem_ok_def mocks_def)

interpretation noop_calls: test_callbacks noop_command_callback noop_end_callback "\<lambda>_. True" "\<lambda>xs d. d"
  by unfold_locales (simp_all add: noop_command_runs noop_end_runs)

interpretation capture_calls: test_callbacks noop_command_callback capture_end_callback "\<lambda>_. True"
  "\<lambda>xs d. xs @ drop (length xs) d"
  by unfold_locales (simp_all add: noop_command_runs capture_end_runs)

lemma command_runs:
  assumes "test_ready t" and "packet_view t p = Some f" and "fr_data f \<noteq> []" and "is_command (fr_data f)"
    and "mocks t = (c, e, d)"
  shows "\<exists>u. command_callback p t = Some (Ret () u) \<and> heap_keeps (owned t p) t u \<and> mem_ok u \<and>
    mocks u = (Suc c, e, d)"
  using noop_command_runs [OF assms(1-3,5)] strcmp_payload_view [OF assms(2,4)]
  by (simp add: command_callback_def noop_command_callback_def)

interpretation command_calls: test_callbacks command_callback noop_end_callback is_command "\<lambda>xs d. d"
  by unfold_locales (simp_all add: command_runs noop_end_runs)

interpretation all_calls: test_callbacks command_callback capture_end_callback is_command
  "\<lambda>xs d. xs @ drop (length xs) d"
  by unfold_locales (simp_all add: command_runs capture_end_runs)

section \<open>The edge cases pass\<close>

lemmas session_eval = session_step_def capture_step.simps concerns_def fr_ids_def frame_type_def
  begin_frame_def end_frame_def data_frame_def UINT8_MAX_def

lemma unconfigured_tests_pass:
  "passes test_ready (test_handler_not_configured :: ('w, 'z, unit) hcmd)"
  "passes test_ready (test_null_packet_returns_null_packet :: ('w, 'z, unit) hcmd)"
proof -
  have "mem_ok (s\<lparr>blocks := (blocks s)(fresh s \<mapsto> b), fresh := Suc (fresh s)\<rparr>)" if "mem_ok s"
    for s :: "('w, 'z) handler_test_scheme" and b
    using that by (auto simp: mem_ok_def)
  then show "passes test_ready (test_handler_not_configured :: ('w, 'z, unit) hcmd)"
    by (intro passesI) (simp add: test_handler_not_configured_def make_begin_def local_object_def expect_def
      rx_packet_handler_def zeroed_ctx_def wp_def test_ready_def heap_ready_def)
  show "passes test_ready (test_null_packet_returns_null_packet :: ('w, 'z, unit) hcmd)"
    by (intro passesI) (simp add: test_null_packet_returns_null_packet_def noop_ctx_def expect_def
      rx_packet_handler_def rx_handler_init_def wp_def)
qed

lemma edge_tests_pass:
  "passes test_ready (test_wrong_dest_rejected :: ('w, 'z, unit) hcmd)"
  "passes test_ready (test_wrong_src_rejected :: ('w, 'z, unit) hcmd)"
  "passes test_ready (test_redundant_packet_rejected :: ('w, 'z, unit) hcmd)"
  "passes test_ready (test_capture_already_on :: ('w, 'z, unit) hcmd)"
  "passes test_ready (test_capture_not_on_end_without_begin :: ('w, 'z, unit) hcmd)"
  by (rule passesI, drule noop_calls.flow_init [of _ DADDR SADDR],
      simp add: test_wrong_dest_rejected_def test_wrong_src_rejected_def test_redundant_packet_rejected_def
        test_capture_already_on_def test_capture_not_on_end_without_begin_def noop_ctx_def,
      (erule noop_calls.wp_make_begin noop_calls.wp_make_end noop_calls.flow_ready |
       (erule noop_calls.wp_expect, (rule list.set_intros)+,
        simp add: noop_calls.allowed_def session_eval, simp add: session_eval))+)+

lemma data_tests_pass:
  "passes test_ready (test_out_of_order_data_rejected :: ('w, 'z, unit) hcmd)"
  "passes test_ready (test_in_order_data_captured :: ('w, 'z, unit) hcmd)"
proof -
  have "passes test_ready (test_data_after_begin seq code :: ('w, 'z, unit) hcmd)"
    if "seq = 2 \<and> code = PACKET_REJECTED \<or> seq = 1 \<and> code = DATA_PACKET_CAPTURED" for seq code
  proof (rule passesI)
    fix s :: "('w, 'z) handler_test_scheme"
    assume "test_ready s"
    then have "noop_calls.flow noop_ctx (new_session DADDR SADDR) [] (mocks s) s"
      unfolding noop_ctx_def by (rule noop_calls.flow_init)
    then have "wp (andThen (make_begin DADDR SADDR 1) (\<lambda>p. andThen (expect noop_ctx p CAPTURE_BEGIN) (\<lambda>ctx.
        andThen (andThen (local_object (Bytes [0xAA, 0xBB])) (\<lambda>pl. make_data DADDR SADDR 1 seq pl 2)) (\<lambda>d.
        andThen (expect ctx d code) (\<lambda>_. give ()))))) (\<lambda>_. test_ready) s"
      unfolding wp_andThen [of "make_begin _ _ _"] wp_andThen [of "expect _ _ _"] wp_andThen [of "andThen _ _"] wp_give
      using that
      by - (erule noop_calls.wp_make_begin,
        erule noop_calls.wp_expect, (rule list.set_intros)+, simp add: noop_calls.allowed_def session_eval,
        simp add: session_eval, erule noop_calls.wp_make_data, simp, simp,
        erule noop_calls.wp_expect, (rule list.set_intros)+, (auto simp: noop_calls.allowed_def session_eval) [2],
        erule noop_calls.flow_ready)
    then show "wp (test_data_after_begin seq code) (\<lambda>_. test_ready) s"
      by (simp only: test_data_after_begin_def andThen_assoc)
  qed
  then show "passes test_ready (test_out_of_order_data_rejected :: ('w, 'z, unit) hcmd)"
    "passes test_ready (test_in_order_data_captured :: ('w, 'z, unit) hcmd)"
    by (simp_all add: test_out_of_order_data_rejected_def test_in_order_data_captured_def)
qed

lemma context_tests_pass:
  "passes test_ready (test_handler_reset_clears_capture :: ('w, 'z, unit) hcmd)"
  "passes test_ready (test_set_remote_addr_updates_filter :: ('w, 'z, unit) hcmd)"
  by (rule passesI, drule noop_calls.flow_init [of _ DADDR SADDR],
      simp add: test_handler_reset_clears_capture_def test_set_remote_addr_updates_filter_def noop_ctx_def,
      erule noop_calls.wp_make_begin,
      erule noop_calls.wp_expect, (rule list.set_intros)+, simp add: noop_calls.allowed_def session_eval,
      simp add: session_eval,
      drule noop_calls.flow_reset noop_calls.flow_remote,
      erule noop_calls.wp_make_end noop_calls.wp_make_begin,
      erule noop_calls.wp_expect, (rule list.set_intros)+, simp add: noop_calls.allowed_def session_eval,
      simp add: session_eval, erule noop_calls.flow_ready)+

lemma end_test_passes: "passes test_ready (test_end_fires_callback_and_resets :: ('w, 'z, unit) hcmd)"
  unfolding test_end_fires_callback_and_resets_def noop_ctx_def
  by (rule passesI, erule noop_calls.wp_start, simp add: split_def,
      erule noop_calls.wp_make_begin, erule noop_calls.wp_make_end,
      erule noop_calls.wp_handler, (rule list.set_intros)+, simp add: noop_calls.allowed_def session_eval, simp,
      erule noop_calls.wp_expect, (rule list.set_intros)+, simp add: noop_calls.allowed_def session_eval,
      simp add: session_eval, erule noop_calls.wp_assert_fired, simp add: session_eval,
      erule noop_calls.wp_make_end,
      erule noop_calls.wp_expect, (rule list.set_intros)+, simp add: noop_calls.allowed_def session_eval,
      simp add: session_eval, erule noop_calls.flow_ready)

text \<open>The frames of the two strings.\<close>

lemma amumu_frames:
  "packetise d s a True amumu = [begin_frame d s a, data_frame d s a 1 (str_bytes ''amumumum''),
     data_frame d s a 2 (str_bytes ''u sejuan''), data_frame d s a 3 (str_bytes ''i'' @ [0]), end_frame d s a]"
  by (simp add: packetise_def amumu_def c_literal_def str_bytes_def chunks_step data_frame_def)

lemma rammus_frames: "packetise d s a False rammus_string = [data_frame d s a 0 rammus_string]"
  by (simp add: packetise_def rammus_string_def c_literal_def str_bytes_def chunks_step)

lemmas flow_eval = session_eval str_bytes_def rammus_string_def c_literal_def is_command_def c_string_def
  capture_calls.allowed_def command_calls.allowed_def all_calls.allowed_def

lemma assert_reassembled_amumu:
  "capture_calls.flow ctx S K (c, e, amumu @ d) t \<Longrightarrow> wp (assert_reassembled amumu) (\<lambda>_. test_ready) t"
  by (frule capture_calls.flow_mocks, drule capture_calls.flow_ready)
    (simp add: mocks_def assert_reassembled_def the_string_def amumu_def c_literal_def c_string_def str_bytes_def)

lemma capture_tests_pass:
  "passes test_ready (test_full_capture_no_redundancy uninit :: ('w, 'z, unit) hcmd)"
  "passes test_ready (test_full_capture_with_redundancy uninit :: ('w, 'z, unit) hcmd)"
proof -
  let ?S = "new_session DADDR SADDR" and ?fs = "packetise DADDR SADDR 1 True amumu"
  have ok: "capture_calls.all_allowed ?S ?fs" "capture_calls.twice_allowed ?S None 0 ?fs"
    by (simp_all add: amumu_frames flow_eval)
  have inl: "inline None i fs = fs" for i fs by (induction fs arbitrary: i) simp_all
  have M: "snd (capture_calls.play ?S (0, 0, d) ?fs) = (0, 1, amumu @ drop (length amumu) d)" for d
    unfolding amumu_frames by (simp add: flow_eval amumu_def)
  show "passes test_ready (test_full_capture_no_redundancy uninit :: ('w, 'z, unit) hcmd)"
    unfolding test_full_capture_no_redundancy_def Let_def
    by (rule passesI, erule capture_calls.wp_start, simp, erule capture_calls.wp_packets_of,
        erule capture_calls.wp_feed [OF _ subset_refl _ ok(1)], simp, simp only: M,
        erule capture_calls.wp_assert_fired, simp, erule assert_reassembled_amumu)
  show "passes test_ready (test_full_capture_with_redundancy uninit :: ('w, 'z, unit) hcmd)"
    unfolding test_full_capture_with_redundancy_def Let_def
    by (rule passesI, erule capture_calls.wp_start, simp, erule capture_calls.wp_packets_of,
        erule capture_calls.wp_feed_twice [OF _ subset_refl _ ok(2)], simp, simp, simp only: M inl,
        erule capture_calls.wp_assert_fired, simp, erule capture_calls.flow_ready)
qed

lemma command_test_passes: "passes test_ready (test_command_packet_bypass uninit :: ('w, 'z, unit) hcmd)"
proof -
  let ?S = "new_session DADDR SADDR" and ?fs = "packetise DADDR SADDR 1 False rammus_string"
  have ok: "command_calls.all_allowed ?S ?fs" unfolding rammus_frames by (simp add: flow_eval)
  have M: "snd (command_calls.play ?S (0, 0, d) ?fs) = (1, 0, d)" for d
    unfolding rammus_frames by (simp add: flow_eval)
  have n: "nat (ceil_packets (int (length rammus_string))) = 1"
    by (simp add: ceil_packets_def rammus_string_def c_literal_def str_bytes_def)
  show ?thesis
    unfolding test_command_packet_bypass_def Let_def n
    by (rule passesI, erule command_calls.wp_start, simp, erule command_calls.wp_packets_of,
        erule command_calls.wp_feed [OF _ subset_refl _ ok], simp, simp only: M,
        erule command_calls.wp_assert_commands, simp, erule command_calls.flow_ready)
qed

text \<open>The command packet of the last test.\<close>

lemma make_command:
  assumes "all_calls.flow ctx S K M s"
    and "\<And>p t. all_calls.flow ctx S ((p, data_frame DADDR SADDR 6 0 rammus_string) # K) M t \<Longrightarrow> wp (k p) Q t"
  shows "wp (andThen (malloc_bytes (length rammus_string)) (\<lambda>pl.
     andThen (write_bytes pl 0 rammus_string) (\<lambda>_.
     andThen (packet_constructor DADDR SADDR 6 0 (of_nat (length rammus_string)) pl) k))) Q s"
proof -
  let ?f = "data_frame DADDR SADDR 6 0 rammus_string"
  have l: "length rammus_string = 7" by (simp add: rammus_string_def c_literal_def str_bytes_def)
  have r: "mem_ok s" "alloc_never_fails s"
    using assms(1) by (simp_all add: all_calls.flow_def test_ready_def heap_ready_def)
  have run: "andThen (malloc_bytes (length rammus_string)) (\<lambda>pl.
     andThen (write_bytes pl 0 rammus_string) (\<lambda>_.
     andThen (packet_constructor DADDR SADDR 6 0 (of_nat (length rammus_string)) pl) k)) s
    = k (Suc (fresh s)) (put_frag s ?f)"
    using r l by (simp add: cmd_simps packet_constructor_def data_frame_def put_frag_def packet_of_def
        overlay_def fun_upd_twist)
  have "frame_ok ?f" by (simp add: frame_ok_def data_frame_def l)
  from all_calls.flow_new [OF assms(1) put_frag_keeps put_frag_mem_ok [OF r(1)] put_frag_view [OF this]] assms(2)
  show ?thesis by (simp add: wp_def run)
qed

lemma inline_test_passes:
  "passes test_ready (test_burst_with_inline_command_packet uninit :: ('w, 'z, unit) hcmd)"
proof -
  let ?S = "new_session DADDR SADDR" and ?fs = "packetise DADDR SADDR 5 True amumu"
  let ?g = "data_frame DADDR SADDR 6 0 rammus_string"
  have ok: "all_calls.twice_allowed ?S (Some ?g) 0 ?fs" unfolding amumu_frames by (simp add: flow_eval)
  have M: "snd (all_calls.play ?S (0, 0, d) (inline (Some ?g) 0 ?fs)) = (1, 1, amumu @ drop (length amumu) d)" for d
    unfolding amumu_frames by (simp add: flow_eval amumu_def)
  show ?thesis
    unfolding test_burst_with_inline_command_packet_def Let_def
    by (rule passesI, erule all_calls.wp_start, simp only: wp_andThen [of "packets_of _ _ _ _"],
        erule all_calls.wp_packets_of, erule make_command, simp only: wp_andThen [of "feed_twice _ _ _ _"],
        erule all_calls.wp_feed_twice [OF _ _ _ ok], simp add: subset_insertI2, simp, simp,
        simp only: M wp_andThen [of "assert_fired _"], erule all_calls.wp_assert_fired, simp,
        erule all_calls.wp_assert_commands, simp, erule all_calls.flow_ready)
qed

text \<open>Two contexts: no packet here makes the handler touch the heap.\<close>

lemma two_handlers_test_passes: "passes test_ready (test_two_handlers_independent :: ('w, 'z, unit) hcmd)"
proof (rule passesI)
  fix s :: "('w, 'z) handler_test_scheme" assume r: "test_ready s"
  let ?M = "mocks s" and ?p = "fresh s" and ?q = "Suc (fresh s)"
  let ?b = "begin_frame DADDR SADDR 1" and ?e = "end_frame 0x1234 0x5678 1"
  let ?pk = "\<lambda>f. packet_of f NULL"
  define t where "t = s\<lparr>blocks := (blocks s)(?p \<mapsto> Pkt (?pk ?b)), fresh := ?q\<rparr>"
  define u where "u = t\<lparr>blocks := (blocks t)(?q \<mapsto> Pkt (?pk ?e)), fresh := Suc ?q\<rparr>"
  have t: "mem_ok t" "alloc_never_fails t" and u: "mem_ok u" "alloc_never_fails u" "test_ready u"
    using r by (auto simp: test_ready_def heap_ready_def mem_ok_def t_def u_def)
  have v: "packet_view t ?p = Some ?b" "packet_view u ?q = Some ?e"
    by (simp_all add: t_def u_def packet_view_iff packet_of_def frame_of_def begin_frame_def end_frame_def data_frame_def)
  have new: "make_begin DADDR SADDR 1 s = Some (Ret ?p t)" "make_end 0x1234 0x5678 1 t = Some (Ret ?q u)"
    by (simp_all add: make_begin_def make_end_def local_object_def t_def u_def packet_of_def begin_frame_def
        end_frame_def data_frame_def)
  show "wp test_two_handlers_independent (\<lambda>_. test_ready) s"
    using u(3)
    by (simp add: test_two_handlers_independent_def wp_def new expect_def noop_ctx_def rx_handler_init_def
        zeroed_ctx_def rx_packet_handler_run [OF _ v(1) t] rx_packet_handler_run [OF _ v(2) u(1,2)]
        rx_handler_reset_def session_eval)
qed

lemma handler_tests_pass: "passes test_ready (test_rx_packet_handler uninit :: ('w, 'z, unit) hcmd)"
  unfolding test_rx_packet_handler_def
  by (rule run_tests_pass)
    (simp add: unconfigured_tests_pass edge_tests_pass data_tests_pass context_tests_pass end_test_passes
      two_handlers_test_passes capture_tests_pass command_test_passes inline_test_passes)

end
