(* ===== verification/Spec2Isabelle.thy ===== *)
theory Spec2Isabelle
  imports Board Scan Timing Polling Test_Ports Test_Config Test_Driver Test_Handler
begin

text \<open>
  A verification of the LoRa library in \<open>src/\<close>, a small C library for the SX1278 radio with a burst
  protocol on top (\<open>src/src\<close>, \<open>src/include\<close>), and of its burst and ping-pong examples
  (\<open>main/main.c\<close> of \<open>src/examples/esp32c3_6/burst\<close> and \<open>src/examples/esp32c3_6/pingpong\<close>).

  \<^bold>\<open>The program.\<close> An application gives the library three callbacks: register access over SPI
  (\<open>spi_port.c\<close>), a log function (\<open>logger.c\<close>), a clock and a delay (\<open>sx127x_timer.c\<close>).
  \<open>sx127x_config.c\<close> sets up the chip and keeps the three contexts in static variables;
  \<open>sx127x_driver.c\<close> sends and receives byte arrays and polls the interrupt flags. \<open>packet.c\<close> is the
  frame format, \<open>network_data_operations.c\<close> cuts an array into packets (BEGIN, data packets of at most
  eight bytes, END) and puts them together. \<open>sx127x_utils.c\<close> sends a packet until it is
  acknowledged and a burst packet by packet; \<open>sx127x_rx_utils.c\<close> is the receive loop, which parses a
  frame, acknowledges it and hands it to the session handler of \<open>rx_packet_handler.c\<close>. The burst
  example connects the library to ESP-IDF and runs a sender task and a receiver task.

  \<^bold>\<open>State and effects.\<close> A C function is a command \<open>'s \<Rightarrow> ('a, 's) outcome option\<close> (Prelude): it
  returns a value and a state, or ends in a fault (bad pointer, access out of bounds, bad free, call
  of a null callback, division by zero, undefined conversion or signed overflow, abort), or, being
  \<open>None\<close>, never returns. Machine integers are words of their width. The heap (C_Heap) maps addresses
  to blocks (bytes, a packet struct, an array of pointers); allocation may fail at any address, fresh
  blocks hold arbitrary junk, addresses are not used again. The library state (Machine) extends the
  heap with the static variables and the outside world, a type parameter on which the callbacks act.

  \<^bold>\<open>The theories.\<close>
  \<^item> Prelude, C_Heap, Machine: commands, total correctness, the heap, the state of the library and the
    interfaces it relies on (locales \<open>register_bus\<close>, \<open>observed_platform\<close>, which records the register writes,
    and \<open>monitored_platform\<close>, which records reads and writes).
  \<^item> Packet (\<open>packet.c\<close>, \<open>packet.h\<close>): constructors, copy, free, \<open>parse_packet\<close>,
    \<open>packet_to_bytestream\<close>, \<open>packet_description\<close>; the abstract side is \<open>frame\<close>, \<open>wire\<close>, \<open>unwire\<close> and
    \<open>packet_view\<close>, what a packet pointer denotes. Round trips, bounds, independence of copies.
  \<^item> Network_Data (\<open>network_data_operations.c\<close>): \<open>data_to_packet_array\<close>, \<open>packet_array_to_data\<close>; abstractly
    \<open>chunks\<close> and \<open>packetise\<close>. Round trip, the packets built, failures of allocation.
  \<^item> Rx_Handler, Rx_Session (\<open>rx_packet_handler.c\<close>): the handler with its callbacks as commands; its
    refinement of the abstract session machine \<open>session_step\<close> (relation \<open>rx_rel\<close>); what a session does
    with a burst over a channel that loses, repeats and mixes frames (locale for a receiver). These are
    lemmas about \<open>session_step\<close>; Rx_Protocol carries them to the code.
  \<^item> Spi_Port, Logger, Timer (\<open>spi_port.c\<close>, \<open>logger.c\<close>, \<open>sx127x_timer.c\<close>, \<open>sx127x_err.h\<close>).
  \<^item> Config (\<open>sx127x_config.c\<close>): modes, channels, bandwidth, spreading factor, initialisation; the exact
    register traffic on every watched platform, the frequency arithmetic, and that initialisation
    returns.
  \<^item> Driver (\<open>sx127x_driver.c\<close>): payloads and the polling loop, a partial function; the whole traffic of a
    transmission, reads included, termination on every platform on which time passes (locale \<open>ticking_platform\<close>).
  \<^item> Utils (\<open>sx127x_utils.c\<close>, \<open>read_last_packet\<close>): packets over the radio, acknowledged sending, bursts,
    the channel scan, polling without a timeout, and the single-precision count of attempts.
  \<^item> Scan: the channel scan of \<open>sx127x_utils.c\<close>: it returns on every platform, and what it measures on a
    chip with registers (operating mode, frequency, signal strength as in the data sheet).
  \<^item> Air, Peer: a concrete platform with a scripted answer to each transmission; in Air an answer is of
    any type with an encoding as bytes, in Peer it is a frame. On the platform of Peer
    \<open>send_packet_ensure_ack\<close> is the stop-and-wait sender \<open>stop_and_wait\<close> and \<open>send_burst\<close> is
    \<open>burst_spec\<close>, for every script of lost answers and of answers, right or wrong, of at most
    eight payload bytes (on a longer one the code overruns its scratch string).
  \<^item> Rx_Loop (\<open>sx127x_rx_utils.c\<close>): the receive loop and its rounds; the locale \<open>capture_client\<close> is what
    it relies on of an application's callbacks, interpreted on those of \<open>test_rx_packet_handler.c\<close> and
    of the burst example.
  \<^item> Rx_Protocol: what the receive loop and the handler do with all they hear, in terms of the context struct, the
    acknowledgements and the calls of the callbacks: a burst is delivered exactly once and whole, retransmissions
    and other stations are invisible, what is captured and delivered is always a gapless prefix, and the limits (a
    missed BEGIN, more than 254 data packets, ack id 0).
  \<^item> Burst_Link: sender and receiver together, whatever is lost or repeated; which bursts can be acknowledged at all.
  \<^item> Burst_Example, Esp_Port (the burst example): tasks and capture callback with the console; the
    register callbacks on ESP-IDF, whose functions are a record of parameters with the documented
    behaviour \<open>esp_contract\<close> as hypothesis, and the start-up.
  \<^item> Pingpong_Port, Pingpong (the ping-pong example): its own register callbacks and start-up, which compute
    what those of the burst example compute; the outcome of both programs for every sequence of payloads they
    receive, on the platform of Air with byte arrays.
  \<^item> Timing: how long the sending side can take, on every platform with callbacks of bounded duration (locale
    \<open>timed_platform\<close>): every function from the polling loop up to \<open>send_burst\<close> ends within a time computed from
    its code, or in a memory fault.
  \<^item> Polling: the two polling loops are the same when the clock stands still, runs that never end included.
  \<^item> Wellformed: the invariant of the library's state and of the handler's context, kept by those runs that return
    of the library's operations and of the example's receiver task, on every platform (\<open>keeps_wf\<close>, proved by the
    structure of the code).
  \<^item> Platform: refinement of platforms. If the callbacks of one platform have, through a view of its world, the
    effects and results of those of another (locale \<open>platform_refinement\<close>, interpreted on the watched
    platforms of Machine), then so do the functions of the library that the examples use and the examples' tasks
    (\<open>refines\<close>; for \<open>sx1278_send_payload\<close> when the payload is not empty).
  \<^item> Board: a chip on the SPI bus of ESP-IDF (locale \<open>spi_wiring\<close>: what the wires and ESP-IDF do, as documented;
    a sublocale of \<open>platform_refinement\<close> for the examples' callbacks). Both examples, from power-up to their
    last message, on two boards whose chips are the radio of Air.
  \<^item> Mocks: the test doubles of \<open>test_sx127x_driver.c\<close> and other concrete platforms for witnesses.
  \<^item> Testing, Test_Ports, Test_Config, Test_Driver, Test_Session, Test_Handler (the nine programs of
    \<open>src/tests\<close>): every test as a command over the functions modelled here, in which a failed assertion
    aborts. All of them pass (\<open>spi_port_tests_pass\<close>, \<open>logger_tests_pass\<close>, \<open>timer_tests_pass\<close>,
    \<open>config_tests_pass\<close>, \<open>driver_tests_pass\<close>, \<open>utils_tests_pass\<close>, \<open>packets_tests_pass\<close>,
    \<open>network_tests_pass\<close>, \<open>handler_tests_pass\<close>), from every state the program can be in: what the
    authors expect of the code, the model does. The locale \<open>test_callbacks\<close> is what the tests of the
    receive handler rely on of their callbacks, interpreted on all four pairs of them.

  \<^bold>\<open>Bounds.\<close> \<open>size_t\<close> has 64 bits, \<open>int\<close> values are integers (the lengths that occur are far below
  \<open>2 ^ 31\<close>). Loops that may not end are partial functions, so a theorem that one returns is proved as such;
  all other loops are total. On the scripted platform every delay takes ten seconds, more than any
  timeout of the library, so a wait is either answered at once or times out; the hypotheses on
  \<open>ticks\<close> keep its clock below \<open>2 ^ 63\<close> microseconds. The attempt count is exact below \<open>2 ^ 24\<close> ms.

  \<^bold>\<open>Not modelled.\<close> The chip itself (any platform that keeps the stated laws stands for it), text on
  \<open>stderr\<close> and of \<open>ESP_LOG\<close>, the scheduler of FreeRTOS (a task is its body), callbacks that change the
  library's own variables, stack and struct layout, what the tests print. A test's own arrays are list
  values, its local structs are heap objects.
\<close>

end
